(* ===== verification/Base_Prelude.thy ===== *)
theory Base_Prelude
  imports Main "HOL-Library.Word" "HOL-Library.Monad_Syntax"
begin

text \<open>
  Shared vocabulary of the development: the machine integer types of the C code, the
  results of operations that may stop the program, and the generic lemmas on lists and
  results that the component theories use.
\<close>

section \<open>Machine integers and addresses\<close>

type_synonym byte = "8 word"
type_synonym i32 = "32 word"   \<comment> \<open>\<open>int32_t\<close>, \<open>int\<close>, \<open>mode_t\<close>; signed reading with \<open>sint\<close>\<close>
type_synonym i64 = "64 word"   \<comment> \<open>\<open>int64_t\<close>, \<open>uint64_t\<close>, \<open>unsigned long\<close>\<close>
type_synonym addr = nat        \<comment> \<open>the address of an allocated object; a C pointer is an \<open>addr option\<close>\<close>

section \<open>Results of C code\<close>

text \<open>
  A C function that can stop the program returns \<open>Inl\<close> with the reason: a failed
  \<open>assert\<close> (the Makefile does not define \<open>NDEBUG\<close>), a \<open>NULL\<close> dereference, an access to
  an object that was freed (or never allocated), an access past the end of a fixed buffer,
  an \<open>exit\<close>, a structure read at another type than it was built at, or a division by zero. \<open>Fuel\<close> is no outcome of the
  code: it is the value of a loop whose bound in the model was too small, which the lemmas exclude.
\<close>

datatype c_error = Assertion | Null_Deref | Dangling | Overflow | Exit_Call | Type_Confusion | Div_Zero | Fuel

type_synonym 'a res = "c_error + 'a"

fun bindR :: "'a res \<Rightarrow> ('a \<Rightarrow> 'b res) \<Rightarrow> 'b res" where
  "bindR (Inl e) f = Inl e"
| "bindR (Inr x) f = f x"

definition assertR :: "bool \<Rightarrow> unit res" where
  "assertR b = (if b then Inr () else Inl Assertion)"

definition of_opt :: "c_error \<Rightarrow> 'a option \<Rightarrow> 'a res" where
  "of_opt e x = (case x of None \<Rightarrow> Inl e | Some y \<Rightarrow> Inr y)"

named_theorems res_iff \<open>inversion of results that are \<open>Inr\<close>\<close>

lemma bindR_Inr_iff [res_iff]: "bindR m f = Inr y \<longleftrightarrow> (\<exists>x. m = Inr x \<and> f x = Inr y)"
  by (cases m) auto

lemma assertR_Inr_iff [res_iff]: "assertR b = Inr u \<longleftrightarrow> b"
  by (simp add: assertR_def)

lemma of_opt_Inr_iff [res_iff]: "of_opt e x = Inr y \<longleftrightarrow> x = Some y"
  by (auto simp: of_opt_def split: option.splits)

lemma of_opt_simps [simp]: "of_opt e (Some y) = Inr y" "of_opt e None = Inl e"
  by (simp_all add: of_opt_def)

lemma assertR_simps [simp]: "assertR True = Inr ()" "assertR False = Inl Assertion"
  by (simp_all add: assertR_def)

lemma bindR_cong [fundef_cong]:
  "m = m' \<Longrightarrow> (\<And>x. m' = Inr x \<Longrightarrow> f x = g x) \<Longrightarrow> bindR m f = bindR m' g"
  by (cases m') auto

lemma bindR_assoc: "bindR (bindR m f) g = bindR m (\<lambda>x. bindR (f x) g)"
  by (cases m) auto

text \<open>
  \<open>ensuresR Q r\<close>: if \<open>r\<close> returns, its value satisfies \<open>Q\<close>. The rules below decompose the body of a
  C function; \<open>safeR\<close> says in addition that no freed or foreign memory was used.
\<close>

definition ensuresR :: "('a \<Rightarrow> bool) \<Rightarrow> 'a res \<Rightarrow> bool" where
  "ensuresR Q r \<longleftrightarrow> (\<forall>x. r = Inr x \<longrightarrow> Q x)"

definition safeR :: "('a \<Rightarrow> bool) \<Rightarrow> 'a res \<Rightarrow> bool" where
  "safeR Q r \<longleftrightarrow> ensuresR Q r \<and> r \<noteq> Inl Dangling"

lemma ensures_Inl: "ensuresR Q (Inl e)" by (simp add: ensuresR_def)

lemma ensures_Inr: "Q x \<Longrightarrow> ensuresR Q (Inr x)" by (simp add: ensuresR_def)

lemma ensures_bind0: "(\<And>x. r = Inr x \<Longrightarrow> ensuresR R (f x)) \<Longrightarrow> ensuresR R (bindR r f)"
  by (auto simp: ensuresR_def res_iff)

lemma ensures_bind: "ensuresR Q r \<Longrightarrow> (\<And>x. Q x \<Longrightarrow> ensuresR R (f x)) \<Longrightarrow> ensuresR R (bindR r f)"
  by (auto simp: ensuresR_def res_iff)

lemma ensures_if: "(b \<Longrightarrow> ensuresR Q x) \<Longrightarrow> (\<not> b \<Longrightarrow> ensuresR Q y) \<Longrightarrow> ensuresR Q (if b then x else y)"
  by simp

lemma ensures_opt:
  "(x = None \<Longrightarrow> ensuresR Q a) \<Longrightarrow> (\<And>y. x = Some y \<Longrightarrow> ensuresR Q (b y)) \<Longrightarrow>
   ensuresR Q (case x of None \<Rightarrow> a | Some y \<Rightarrow> b y)"
  by (cases x) auto

lemma ensures_prod: "(\<And>a b. x = (a, b) \<Longrightarrow> ensuresR Q (f a b)) \<Longrightarrow> ensuresR Q (case x of (a, b) \<Rightarrow> f a b)"
  by (cases x) auto

lemmas ensures_rules = ensures_Inl ensures_Inr ensures_if ensures_opt ensures_prod

lemma safe_Inl: "e \<noteq> Dangling \<Longrightarrow> safeR Q (Inl e)" by (simp add: safeR_def ensuresR_def)

lemma safe_Inr: "Q x \<Longrightarrow> safeR Q (Inr x)" by (simp add: safeR_def ensuresR_def)

lemma safe_bind: "safeR Q r \<Longrightarrow> (\<And>x. r = Inr x \<Longrightarrow> Q x \<Longrightarrow> safeR R (f x)) \<Longrightarrow> safeR R (bindR r f)"
  by (cases r) (auto simp: safeR_def ensuresR_def)

lemma safe_bind0: "r \<noteq> Inl Dangling \<Longrightarrow> (\<And>x. r = Inr x \<Longrightarrow> safeR R (f x)) \<Longrightarrow> safeR R (bindR r f)"
  by (cases r) (auto simp: safeR_def ensuresR_def)

lemma safe_if: "(b \<Longrightarrow> safeR Q x) \<Longrightarrow> (\<not> b \<Longrightarrow> safeR Q y) \<Longrightarrow> safeR Q (if b then x else y)"
  by simp

lemma safe_opt:
  "(x = None \<Longrightarrow> safeR Q a) \<Longrightarrow> (\<And>y. x = Some y \<Longrightarrow> safeR Q (b y)) \<Longrightarrow>
   safeR Q (case x of None \<Rightarrow> a | Some y \<Rightarrow> b y)"
  by (cases x) auto

lemma safe_prod: "(\<And>a b. x = (a, b) \<Longrightarrow> safeR Q (f a b)) \<Longrightarrow> safeR Q (case x of (a, b) \<Rightarrow> f a b)"
  by (cases x) auto

lemma safe_weaken: "safeR Q r \<Longrightarrow> (\<And>x. Q x \<Longrightarrow> R x) \<Longrightarrow> safeR R r"
  by (auto simp: safeR_def ensuresR_def)

section \<open>Lists\<close>

text \<open>The first element of a list, and the last one, as the C pointers that name them.\<close>

fun first_or :: "'a list \<Rightarrow> 'a option \<Rightarrow> 'a option" where
  "first_or [] n = n"
| "first_or (x # xs) n = Some x"

definition last_or :: "'a option \<Rightarrow> 'a list \<Rightarrow> 'a option" where
  "last_or p xs = (if xs = [] then p else Some (last xs))"

lemma last_or_simps [simp]:
  "last_or p [] = p" "last_or p (x # xs) = last_or (Some x) xs"
  "last_or p (xs @ [x]) = Some x"
  by (auto simp: last_or_def)

lemma last_or_append [simp]: "last_or p (xs @ ys) = last_or (last_or p xs) ys"
  by (auto simp: last_or_def)

lemma first_or_append [simp]: "first_or (xs @ ys) n = first_or xs (first_or ys n)"
  by (cases xs) auto

text \<open>Removing the first element that satisfies a predicate (the unlinking of one node).\<close>

fun remove_first :: "('a \<Rightarrow> bool) \<Rightarrow> 'a list \<Rightarrow> 'a list" where
  "remove_first P [] = []"
| "remove_first P (x # xs) = (if P x then xs else x # remove_first P xs)"

text \<open>Updating the first element that satisfies a predicate (a write through a found pointer).\<close>

fun update_first :: "('a \<Rightarrow> bool) \<Rightarrow> ('a \<Rightarrow> 'a) \<Rightarrow> 'a list \<Rightarrow> 'a list" where
  "update_first P f [] = []"
| "update_first P f (x # xs) = (if P x then f x # xs else x # update_first P f xs)"

lemma set_remove_first: "set (remove_first P xs) \<subseteq> set xs"
  by (induction xs) auto

lemma find_remove_first_other:
  "(\<And>x. Q x \<Longrightarrow> \<not> P x) \<Longrightarrow> List.find Q (remove_first P xs) = List.find Q xs"
  by (induction xs) auto

lemma find_append: "List.find P (xs @ ys) = (case List.find P xs of None \<Rightarrow> List.find P ys | Some x \<Rightarrow> Some x)"
  by (induction xs) auto

lemma find_None_iff_all: "List.find P xs = None \<longleftrightarrow> (\<forall>x\<in>set xs. \<not> P x)"
  by (induction xs) auto

lemma find_Some_in: "List.find P xs = Some x \<Longrightarrow> x \<in> set xs \<and> P x"
  by (induction xs) (auto split: if_splits)

lemma remove_first_map_distinct:
  "distinct (map f xs) \<Longrightarrow> distinct (map f (remove_first P xs))"
  by (induction xs) (auto dest: set_remove_first [THEN subsetD])

lemma remove_first_key_notin:
  "distinct (map f xs) \<Longrightarrow> k \<notin> f ` set (remove_first (\<lambda>x. f x = k) xs)"
  by (induction xs) auto

lemma update_first_map:
  "(\<And>x. P x \<Longrightarrow> g (f x) = g x) \<Longrightarrow> map g (update_first P f xs) = map g xs"
  by (induction xs) auto

lemma length_update_first [simp]: "length (update_first P f xs) = length xs"
  by (induction xs) auto

lemma find_update_first_same:
  "(\<And>x. P x \<Longrightarrow> P (f x)) \<Longrightarrow> List.find P (update_first P f xs) = map_option f (List.find P xs)"
  by (induction xs) auto

lemma find_update_first_other:
  "(\<And>x. P x \<Longrightarrow> \<not> Q x \<and> \<not> Q (f x)) \<Longrightarrow> List.find Q (update_first P f xs) = List.find Q xs"
  by (induction xs) auto

end
