(* ===== verification/Adt_Hash_Table.thy ===== *)
theory Adt_Hash_Table
  imports Base_Prelude "HOL-Library.Multiset"
begin

unbundle bit_operations_syntax

text \<open>
  The chained hash table of \<open>adt/hash_table.c\<close>. A table is its array of chains, each chain the
  sequence of items that its linked list stands for (theory \<open>Adt_List\<close>); the operations
  structure of function pointers is a record. The locale \<open>table_ops\<close> states what a hash
  function and a comparison must satisfy, and derives, once for every table of the program,
  that the table is a finite map.
\<close>

section \<open>Tables and their operations structure\<close>

record ('k, 'a) hash_table_operations =
  hash :: "nat \<Rightarrow> 'k \<Rightarrow> nat res"      \<comment> \<open>from the number of slots and the key\<close>
  compare :: "'k \<Rightarrow> 'a \<Rightarrow> bool"

record 'a hash_table =
  entry :: "'a list list"
  entries :: nat

definition HASH_TABLE_SIZE :: nat where
  "HASH_TABLE_SIZE = 1019"

text \<open>
  \<open>key_t\<close> is the C library's \<open>int\<close>. \<open>ht_hash_str\<close> reads its key as a string of (signed)
  \<open>char\<close>s and computes on \<open>unsigned long\<close>; \<open>s\<close> is the string without its terminator.
\<close>

definition ht_hash_int :: "nat \<Rightarrow> i32 \<Rightarrow> nat res" where
  "ht_hash_int n key = bindR (assertR (0 \<le> sint key)) (\<lambda>_. Inr (nat (sint key mod int n)))"

definition char_word :: "char \<Rightarrow> i64" where
  "char_word c = scast (of_char c :: byte)"

fun hash_str_loop :: "i64 \<Rightarrow> string \<Rightarrow> i64" where
  "hash_str_loop index [] = index"
| "hash_str_loop index (c # s) =
     hash_str_loop (char_word c + push_bit 6 index + push_bit 16 index - index) s"

definition ht_hash_str :: "nat \<Rightarrow> string \<Rightarrow> nat res" where
  "ht_hash_str n s = Inr (nat (uint (hash_str_loop 4357 s) mod int n))"

definition hash_table_init :: "nat \<Rightarrow> 'a hash_table" where
  "hash_table_init m = \<lparr>entry = replicate m [], entries = m\<rparr>"

definition hash_table_insert ::
  "('k, 'a) hash_table_operations \<Rightarrow> 'k \<Rightarrow> 'a \<Rightarrow> 'a hash_table \<Rightarrow> 'a hash_table res" where
  "hash_table_insert op key item h =
     bindR (hash op (entries h) key) (\<lambda>chain.
     bindR (assertR (chain < entries h)) (\<lambda>_.
     Inr (h\<lparr>entry := (entry h)[chain := entry h ! chain @ [item]]\<rparr>)))"

text \<open>The loop of \<open>hash_table_find\<close> walks one chain from its head.\<close>

definition hash_table_find ::
  "('k, 'a) hash_table_operations \<Rightarrow> 'k \<Rightarrow> 'a hash_table \<Rightarrow> 'a option res" where
  "hash_table_find op key h =
     bindR (hash op (entries h) key) (\<lambda>chain.
     bindR (assertR (chain < entries h)) (\<lambda>_.
     Inr (List.find (compare op key) (entry h ! chain))))"

text \<open>
  \<open>hash_table_remove\<close> unlinks the item it finds and hands it to the remove callback; the model
  returns that item with the new table, and the caller frees it.
\<close>

definition hash_table_remove ::
  "('k, 'a) hash_table_operations \<Rightarrow> 'k \<Rightarrow> 'a hash_table \<Rightarrow> ('a option \<times> 'a hash_table) res" where
  "hash_table_remove op key h =
     bindR (hash op (entries h) key) (\<lambda>chain.
     bindR (hash_table_find op key h) (\<lambda>cur.
     case cur of
       None \<Rightarrow> Inr (None, h)
     | Some x \<Rightarrow>
         Inr (Some x, h\<lparr>entry := (entry h)[chain := remove_first (compare op key) (entry h ! chain)]\<rparr>)))"

text \<open>
  A write through the pointer that \<open>hash_table_find\<close> returned: the first matching item of
  the chain is changed in place.
\<close>

definition hash_table_modify ::
  "('k, 'a) hash_table_operations \<Rightarrow> 'k \<Rightarrow> ('a \<Rightarrow> 'a) \<Rightarrow> 'a hash_table \<Rightarrow> 'a hash_table res" where
  "hash_table_modify op key f h =
     bindR (hash op (entries h) key) (\<lambda>chain.
     bindR (assertR (chain < entries h)) (\<lambda>_.
     Inr (h\<lparr>entry := (entry h)[chain := update_first (compare op key) f (entry h ! chain)]\<rparr>)))"

text \<open>
  \<open>hash_table_apply\<close> visits slot after slot and each chain in order; a state-changing callback
  is a state transformer. \<open>hash_table_destroy\<close> frees in the same order and empties the chains.
\<close>

fun apply_chain :: "('a \<Rightarrow> 's \<Rightarrow> 's) \<Rightarrow> 'a list \<Rightarrow> 's \<Rightarrow> 's" where
  "apply_chain f [] s = s"
| "apply_chain f (x # xs) s = apply_chain f xs (f x s)"

fun apply_slots :: "('a \<Rightarrow> 's \<Rightarrow> 's) \<Rightarrow> 'a list list \<Rightarrow> 's \<Rightarrow> 's" where
  "apply_slots f [] s = s"
| "apply_slots f (c # cs) s = apply_slots f cs (apply_chain f c s)"

definition hash_table_apply :: "('a \<Rightarrow> 's \<Rightarrow> 's) \<Rightarrow> 'a hash_table \<Rightarrow> 's \<Rightarrow> 's" where
  "hash_table_apply f h s = apply_slots f (take (entries h) (entry h)) s"

definition hash_table_destroy :: "('a \<Rightarrow> 's \<Rightarrow> 's) \<Rightarrow> 'a hash_table \<Rightarrow> 's \<Rightarrow> 's" where
  "hash_table_destroy remove_callback h s =
     apply_slots remove_callback (take (entries h) (entry h)) s"

definition ht_items :: "'a hash_table \<Rightarrow> 'a list" where
  "ht_items h = concat (entry h)"

lemma apply_chain_fold: "apply_chain f xs s = fold f xs s"
  by (induction xs arbitrary: s) auto

lemma apply_slots_fold: "apply_slots f cs s = fold f (concat cs) s"
  by (induction cs arbitrary: s) (auto simp: apply_chain_fold)

section \<open>The hash functions\<close>

lemma ht_hash_int_range:
  assumes "0 \<le> sint key" and "0 < n"
  shows "\<exists>c<n. ht_hash_int n key = Inr c"
proof -
  have "nat (sint key mod int n) < n"
    using assms(2) by (simp add: nat_less_iff pos_mod_bound)
  with assms(1) show ?thesis by (simp add: ht_hash_int_def)
qed

lemma ht_hash_int_abort: "sint key < 0 \<Longrightarrow> ht_hash_int n key = Inl Assertion"
  by (simp add: ht_hash_int_def assertR_def)

lemma ht_hash_str_range: "0 < n \<Longrightarrow> \<exists>c<n. ht_hash_str n s = Inr c"
  by (simp add: ht_hash_str_def nat_less_iff pos_mod_bound)

section \<open>A table is a finite map\<close>

lemma set_update_first: "x \<in> set (update_first P f xs) \<Longrightarrow> x \<in> set xs \<or> (\<exists>y\<in>set xs. P y \<and> x = f y)"
  by (induction xs) (auto split: if_splits)

text \<open>
  The interface: on the keys it accepts (\<open>valid\<close>), the hash is a slot of the table, and the
  comparison is equality with the key the item carries.
\<close>

locale table_ops =
  fixes op :: "('k, 'a) hash_table_operations"
    and valid :: "'k \<Rightarrow> bool"
    and key_of :: "'a \<Rightarrow> 'k"
  assumes hash_range: "valid k \<Longrightarrow> 0 < n \<Longrightarrow> \<exists>c<n. hash op n k = Inr c"
    and compare_key: "valid k \<Longrightarrow> valid (key_of x) \<Longrightarrow> compare op k x \<longleftrightarrow> key_of x = k"
begin

text \<open>
  The slot of a key and the well-formedness of a table. An item may sit in another slot than that
  of its key (the replay enters one such item); \<open>placed\<close> says that none does.
\<close>

definition slot :: "'a hash_table \<Rightarrow> 'k \<Rightarrow> nat" where
  "slot h k = (case hash op (entries h) k of Inr c \<Rightarrow> c | Inl _ \<Rightarrow> 0)"

definition table_inv :: "'a hash_table \<Rightarrow> bool" where
  "table_inv h \<longleftrightarrow> 0 < entries h \<and> length (entry h) = entries h \<and>
     (\<forall>i<entries h. \<forall>x\<in>set (entry h ! i). valid (key_of x))"

definition placed :: "'a hash_table \<Rightarrow> bool" where
  "placed h \<longleftrightarrow> (\<forall>i<entries h. \<forall>x\<in>set (entry h ! i). slot h (key_of x) = i)"

text \<open>The map a table stands for, and tables without duplicate keys in a chain.\<close>

definition table_map :: "'a hash_table \<Rightarrow> 'k \<Rightarrow> 'a option" where
  "table_map h k =
     (if valid k then List.find (\<lambda>x. key_of x = k) (entry h ! slot h k) else None)"

definition table_distinct :: "'a hash_table \<Rightarrow> bool" where
  "table_distinct h \<longleftrightarrow> (\<forall>i<entries h. distinct (map key_of (entry h ! i)))"

lemma slot_range: "valid k \<Longrightarrow> 0 < entries h \<Longrightarrow> hash op (entries h) k = Inr (slot h k) \<and> slot h k < entries h"
  using hash_range [of k "entries h"] by (auto simp: slot_def)

lemma slot_entry [simp]: "slot (h\<lparr>entry := e\<rparr>) k = slot h k"
  by (simp add: slot_def)

lemma table_inv_valid:
  assumes "table_inv h" "x \<in> set (ht_items h)"
  shows "valid (key_of x)"
proof -
  obtain i where "i < length (entry h)" "x \<in> set (entry h ! i)"
    using assms(2) by (auto simp: ht_items_def in_set_conv_nth [of _ "entry h"])
  with assms(1) show ?thesis by (simp add: table_inv_def)
qed

lemma table_map_invalid: "\<not> valid k \<Longrightarrow> table_map h k = None"
  by (simp add: table_map_def)

lemma init_inv: "0 < m \<Longrightarrow> table_inv (hash_table_init m)"
  by (simp add: table_inv_def hash_table_init_def)

lemma init_distinct: "table_distinct (hash_table_init m)"
  by (simp add: table_distinct_def hash_table_init_def)

lemma init_map: "0 < m \<Longrightarrow> table_map (hash_table_init m) = (\<lambda>_. None)"
proof
  fix k
  assume m: "0 < m"
  have "slot (hash_table_init m) k < m" if "valid k"
    using slot_range [OF that, of "hash_table_init m"] m by (simp add: hash_table_init_def)
  then have e: "entry (hash_table_init m) ! slot (hash_table_init m) k = []" if "valid k"
    using that by (simp add: hash_table_init_def)
  show "table_map (hash_table_init m) k = None" by (simp add: table_map_def e)
qed

text \<open>An item with key \<open>k\<close> can only be found in the slot of \<open>k\<close>.\<close>

lemma find_concat_slot:
  assumes "\<And>i x. i < length cs \<Longrightarrow> i \<noteq> s \<Longrightarrow> x \<in> set (cs ! i) \<Longrightarrow> \<not> P x" and "s < length cs"
  shows "List.find P (concat cs) = List.find P (cs ! s)"
  using assms
proof (induction cs arbitrary: s)
  case Nil
  then show ?case by simp
next
  case (Cons c cs)
  show ?case
  proof (cases s)
    case 0
    have "\<not> P x" if "x \<in> set (concat cs)" for x
      using Cons.prems(1) [of "Suc _"] that 0 by (fastforce simp: in_set_conv_nth)
    then have "List.find P (concat cs) = None" by (simp add: find_None_iff_all)
    with 0 show ?thesis by (simp add: find_append split: option.split)
  next
    case (Suc t)
    have "List.find P c = None"
      using Cons.prems(1) [of 0] Suc by (auto simp: find_None_iff_all)
    moreover have "List.find P (concat cs) = List.find P (cs ! t)"
      using Cons.prems Suc by (intro Cons.IH) fastforce+
    ultimately show ?thesis using Suc by (simp add: find_append)
  qed
qed

lemma table_map_slot: "valid k \<Longrightarrow> table_map h k = List.find (\<lambda>x. key_of x = k) (entry h ! slot h k)"
  by (simp add: table_map_def)

text \<open>In a table with every item in its slot, the map is that of all the items.\<close>

lemma placed_map:
  assumes "table_inv h" "placed h"
  shows "table_map h k = List.find (\<lambda>x. key_of x = k) (ht_items h)"
proof (cases "valid k")
  case True
  have "List.find (\<lambda>x. key_of x = k) (concat (entry h)) = List.find (\<lambda>x. key_of x = k) (entry h ! slot h k)"
    using assms slot_range [OF True, of h]
    by (intro find_concat_slot) (auto simp: table_inv_def placed_def)
  then show ?thesis using True by (simp add: table_map_slot ht_items_def)
next
  case False
  then have "\<forall>x\<in>set (ht_items h). key_of x \<noteq> k" using table_inv_valid [OF assms(1)] by blast
  then have "List.find (\<lambda>x. key_of x = k) (ht_items h) = None" by (simp add: find_None_iff_all)
  then show ?thesis using False by (simp add: table_map_invalid)
qed

lemma init_placed: "placed (hash_table_init m)"
  by (simp add: placed_def hash_table_init_def)

lemma find_cong: "(\<And>x. x \<in> set xs \<Longrightarrow> P x = Q x) \<Longrightarrow> List.find P xs = List.find Q xs"
  by (induction xs) auto

lemma chain_compare:
  assumes "table_inv h" "valid k" "x \<in> set (entry h ! slot h k)"
  shows "compare op k x \<longleftrightarrow> key_of x = k"
  using assms slot_range [of k h] by (intro compare_key) (auto simp: table_inv_def)

text \<open>\<open>hash_table_find\<close> is the lookup of the map, and never stops the program.\<close>

lemma find_map:
  assumes "table_inv h" "valid k"
  shows "hash_table_find op k h = Inr (table_map h k)"
proof -
  have "hash op (entries h) k = Inr (slot h k)" "slot h k < entries h"
    using assms slot_range [of k h] by (auto simp: table_inv_def)
  moreover have "List.find (compare op k) (entry h ! slot h k) = List.find (\<lambda>x. key_of x = k) (entry h ! slot h k)"
    using chain_compare [OF assms] by (intro find_cong)
  ultimately show ?thesis using assms by (simp add: hash_table_find_def table_map_slot)
qed

text \<open>Replacing one chain, the step that insertion, removal and modification share.\<close>

definition set_chain :: "'a hash_table \<Rightarrow> 'k \<Rightarrow> 'a list \<Rightarrow> 'a hash_table" where
  "set_chain h k c = h\<lparr>entry := (entry h)[slot h k := c]\<rparr>"

lemma set_chain_inv:
  assumes "table_inv h" "valid k" "\<And>x. x \<in> set c \<Longrightarrow> valid (key_of x)"
  shows "table_inv (set_chain h k c)"
  using assms slot_range [of k h] by (auto simp: table_inv_def set_chain_def nth_list_update)

lemma set_chain_nth:
  assumes "table_inv h" "valid k" "valid k'"
  shows "entry (set_chain h k c) ! slot h k' = (if slot h k' = slot h k then c else entry h ! slot h k')"
  using assms slot_range [of k h] by (auto simp: table_inv_def set_chain_def)

lemma slot_set_chain [simp]: "slot (set_chain h k c) k' = slot h k'"
  by (simp add: set_chain_def)

lemma set_chain_map:
  assumes inv: "table_inv h" and k: "valid k"
    and others: "\<And>k'. k' \<noteq> k \<Longrightarrow> List.find (\<lambda>x. key_of x = k') c = List.find (\<lambda>x. key_of x = k') (entry h ! slot h k)"
  shows "table_map (set_chain h k c) = (table_map h)(k := List.find (\<lambda>x. key_of x = k) c)"
proof
  fix k'
  show "table_map (set_chain h k c) k' = ((table_map h)(k := List.find (\<lambda>x. key_of x = k) c)) k'"
  proof (cases "valid k'")
    case False
    with k show ?thesis by (auto simp: table_map_invalid)
  next
    case True
    then show ?thesis
      using others [of k'] inv k by (simp add: table_map_slot set_chain_nth)
  qed
qed

lemma set_chain_placed:
  assumes "table_inv h" "placed h" "valid k" "\<And>x. x \<in> set c \<Longrightarrow> slot h (key_of x) = slot h k"
  shows "placed (set_chain h k c)"
  using assms slot_range [of k h] by (auto simp: table_inv_def placed_def set_chain_def nth_list_update)

lemma set_chain_mset:
  assumes "table_inv h" "valid k"
  shows "mset (ht_items (set_chain h k c)) + mset (entry h ! slot h k) = mset (ht_items h) + mset c"
proof -
  have "mset (concat (xs[i := c])) + mset (xs ! i) = mset (concat xs) + mset c" if "i < length xs" for xs :: "'a list list" and i
    using that by (induction xs arbitrary: i) (auto simp: nth_Cons split: nat.splits)
  then show ?thesis
    using assms slot_range [of k h] by (simp add: ht_items_def set_chain_def table_inv_def)
qed

lemma set_chain_distinct:
  assumes "table_inv h" "valid k" "table_distinct h" "distinct (map key_of c)"
  shows "table_distinct (set_chain h k c)"
  using assms slot_range [of k h]
  by (auto simp: table_distinct_def set_chain_def table_inv_def nth_list_update)

lemma chain_slot:
  assumes inv: "table_inv h" and k: "valid k" and x: "x \<in> set (entry h ! slot h k)"
  shows "valid (key_of x) \<and> (placed h \<longrightarrow> slot h (key_of x) = slot h k)"
proof -
  have "slot h k < entries h" using slot_range [OF k] inv by (simp add: table_inv_def)
  with inv x show ?thesis unfolding table_inv_def placed_def by blast
qed

text \<open>
  Insertion appends to the chain: the new item is found unless the key was there already, in
  which case the older item still hides it.
\<close>

lemma insert_eq:
  assumes "table_inv h" "valid k"
  shows "hash_table_insert op k x h = Inr (set_chain h k (entry h ! slot h k @ [x]))"
  using assms slot_range [of k h] by (simp add: hash_table_insert_def set_chain_def table_inv_def)

lemma insert_map:
  assumes inv: "table_inv h" and k: "valid (key_of x)"
  shows "\<exists>h'. hash_table_insert op (key_of x) x h = Inr h' \<and> table_inv h' \<and>
     table_map h' = (if table_map h (key_of x) = None then (table_map h)(key_of x \<mapsto> x) else table_map h) \<and>
     mset (ht_items h') = add_mset x (mset (ht_items h)) \<and>
     (table_map h (key_of x) = None \<longrightarrow> table_distinct h \<longrightarrow> table_distinct h') \<and>
     (placed h \<longrightarrow> placed h')"
proof -
  let ?k = "key_of x" and ?c = "entry h ! slot h (key_of x)"
  let ?h = "set_chain h ?k (?c @ [x])"
  have c: "valid (key_of y)" if "y \<in> set (?c @ [x])" for y
    using that chain_slot [OF inv k] k by auto
  have o: "List.find (\<lambda>y. key_of y = k') (?c @ [x]) = List.find (\<lambda>y. key_of y = k') ?c" if "k' \<noteq> ?k" for k'
    using that by (auto simp: find_append split: option.split)
  have "table_map ?h = (table_map h)(?k := List.find (\<lambda>y. key_of y = ?k) (?c @ [x]))"
    using inv k o by (rule set_chain_map)
  moreover have "table_map h ?k = List.find (\<lambda>y. key_of y = ?k) ?c"
    using k by (rule table_map_slot)
  ultimately have "table_map ?h = (if table_map h ?k = None then (table_map h)(?k \<mapsto> x) else table_map h)"
    by (auto simp: find_append fun_eq_iff)
  moreover have "table_inv ?h" using inv k c by (rule set_chain_inv)
  moreover have "placed ?h" if "placed h"
    using inv that k by (rule set_chain_placed) (use that chain_slot [OF inv k] in auto)
  moreover have "mset (ht_items ?h) = add_mset x (mset (ht_items h))"
    using set_chain_mset [OF inv k, of "?c @ [x]"] by simp
  moreover have "table_distinct ?h" if "table_map h ?k = None" "table_distinct h"
  proof -
    have "distinct (map key_of ?c)" using that(2) slot_range [OF k] inv by (simp add: table_distinct_def table_inv_def)
    moreover have "List.find (\<lambda>y. key_of y = ?k) ?c = None" using that(1) table_map_slot [OF k] by simp
    then have "?k \<notin> key_of ` set ?c" unfolding find_None_iff_all by force
    ultimately have "distinct (map key_of (?c @ [x]))" by simp
    with inv k that(2) show ?thesis by (rule set_chain_distinct)
  qed
  ultimately show ?thesis using insert_eq [OF inv k, of x] by (intro exI [of _ ?h] conjI impI) simp_all
qed

text \<open>An item entered under the key of another slot cannot be found: the map stays as it is.\<close>

lemma insert_elsewhere:
  assumes inv: "table_inv h" and k: "valid k" "valid (key_of x)" and ne: "slot h (key_of x) \<noteq> slot h k"
  shows "\<exists>h'. hash_table_insert op k x h = Inr h' \<and> table_inv h' \<and> table_map h' = table_map h \<and>
     mset (ht_items h') = add_mset x (mset (ht_items h)) \<and>
     (key_of x \<notin> key_of ` set (entry h ! slot h k) \<longrightarrow> table_distinct h \<longrightarrow> table_distinct h')"
proof -
  let ?c = "entry h ! slot h k"
  let ?h = "set_chain h k (?c @ [x])"
  have c: "valid (key_of y)" if "y \<in> set (?c @ [x])" for y
    using that chain_slot [OF inv k(1)] k by auto
  have "table_map ?h k' = table_map h k'" for k'
  proof (cases "valid k'")
    case True
    show ?thesis
    proof (cases "slot h k' = slot h k")
      case True
      then have "key_of x \<noteq> k'" using ne by auto
      moreover have "entry ?h ! slot h k' = entry h ! slot h k' @ [x]"
        using set_chain_nth [OF inv k(1) \<open>valid k'\<close>] True by simp
      ultimately show ?thesis
        using \<open>valid k'\<close> by (simp add: table_map_slot find_append split: option.split)
    next
      case False
      with \<open>valid k'\<close> show ?thesis by (simp add: table_map_slot set_chain_nth [OF inv k(1)])
    qed
  qed (simp add: table_map_invalid)
  moreover have "table_inv ?h" using inv k(1) c by (rule set_chain_inv)
  moreover have "mset (ht_items ?h) = add_mset x (mset (ht_items h))"
    using set_chain_mset [OF inv k(1), of "?c @ [x]"] by simp
  moreover have "table_distinct ?h" if "key_of x \<notin> key_of ` set ?c" "table_distinct h"
  proof -
    have "distinct (map key_of ?c)" using that(2) slot_range [OF k(1)] inv by (simp add: table_distinct_def table_inv_def)
    then have "distinct (map key_of (?c @ [x]))" using that(1) by simp
    with inv k(1) that(2) show ?thesis by (rule set_chain_distinct)
  qed
  ultimately show ?thesis using insert_eq [OF inv k(1), of x] by (intro exI [of _ ?h] conjI impI) auto
qed

text \<open>Removal unlinks the item that \<open>hash_table_find\<close> finds, and no other.\<close>

lemma remove_first_cong: "(\<And>x. x \<in> set xs \<Longrightarrow> P x = Q x) \<Longrightarrow> remove_first P xs = remove_first Q xs"
  by (induction xs) auto

lemma mset_remove_first: "List.find P xs = Some x \<Longrightarrow> add_mset x (mset (remove_first P xs)) = mset xs"
  by (induction xs) (auto split: if_splits)

lemma remove_map:
  assumes inv: "table_inv h" and k: "valid k"
  shows "\<exists>h'. hash_table_remove op k h = Inr (table_map h k, h') \<and> table_inv h' \<and>
     (\<forall>k'. k' \<noteq> k \<longrightarrow> table_map h' k' = table_map h k') \<and>
     (table_distinct h \<longrightarrow> table_distinct h' \<and> table_map h' = (table_map h)(k := None)) \<and>
     (placed h \<longrightarrow> placed h') \<and>
     (case table_map h k of None \<Rightarrow> h' = h | Some x \<Rightarrow> add_mset x (mset (ht_items h')) = mset (ht_items h))"
proof (cases "table_map h k")
  case None
  then have "hash_table_remove op k h = Inr (None, h)"
    using slot_range [OF k, of h] find_map [OF inv k] inv by (simp add: hash_table_remove_def table_inv_def)
  with None inv show ?thesis by (auto simp: fun_upd_idem)
next
  case (Some x)
  let ?c = "entry h ! slot h k"
  let ?r = "remove_first (\<lambda>x. key_of x = k) ?c"
  let ?h = "set_chain h k ?r"
  have x: "List.find (\<lambda>x. key_of x = k) ?c = Some x" using Some table_map_slot [OF k] by simp
  have eq: "remove_first (compare op k) ?c = ?r"
    using chain_compare [OF inv k] by (rule remove_first_cong)
  have run: "hash_table_remove op k h = Inr (table_map h k, ?h)"
    using slot_range [OF k, of h] find_map [OF inv k] inv Some
    by (simp add: hash_table_remove_def table_inv_def set_chain_def eq)
  have c: "valid (key_of y) \<and> (placed h \<longrightarrow> slot h (key_of y) = slot h k)" if "y \<in> set ?r" for y
    using that chain_slot [OF inv k] set_remove_first [of _ ?c] by blast
  have o: "List.find (\<lambda>x. key_of x = k') ?r = List.find (\<lambda>x. key_of x = k') ?c" if "k' \<noteq> k" for k'
    using that by (intro find_remove_first_other) auto
  have map: "table_map ?h = (table_map h)(k := List.find (\<lambda>x. key_of x = k) ?r)"
    using inv k o by (rule set_chain_map)
  have "table_distinct ?h \<and> table_map ?h = (table_map h)(k := None)" if "table_distinct h"
  proof -
    have d: "distinct (map key_of ?c)" using that slot_range [OF k] inv by (simp add: table_distinct_def table_inv_def)
    have "List.find (\<lambda>x. key_of x = k) ?r = None"
      using remove_first_key_notin [OF d, of k] unfolding find_None_iff_all by force
    with map show ?thesis
      using set_chain_distinct [OF inv k that remove_first_map_distinct [OF d]] by simp
  qed
  moreover have "add_mset x (mset (ht_items ?h)) = mset (ht_items h)"
  proof -
    have "mset (ht_items ?h) + add_mset x (mset ?r) = mset (ht_items h) + mset ?r"
      unfolding mset_remove_first [OF x] using inv k by (rule set_chain_mset)
    then have "add_mset x (mset (ht_items ?h)) + mset ?r = mset (ht_items h) + mset ?r" by simp
    then show ?thesis by (simp only: add_right_cancel)
  qed
  moreover have "table_inv ?h" using inv k by (rule set_chain_inv) (use c in blast)
  moreover have "placed ?h" if "placed h" using inv that k by (rule set_chain_placed) (use c that in blast)
  moreover have "\<forall>k'. k' \<noteq> k \<longrightarrow> table_map ?h k' = table_map h k'" using map by simp
  ultimately show ?thesis using run Some by (intro exI [of _ ?h]) simp
qed

text \<open>Removing a key that was just entered restores the table.\<close>

lemma remove_first_last: "(\<forall>y\<in>set xs. \<not> P y) \<Longrightarrow> P x \<Longrightarrow> remove_first P (xs @ [x]) = xs"
  by (induction xs) auto

lemma insert_remove:
  assumes inv: "table_inv h" and k: "valid (key_of x)" and new: "table_map h (key_of x) = None"
    and ins: "hash_table_insert op (key_of x) x h = Inr h'"
  shows "hash_table_remove op (key_of x) h' = Inr (Some x, h)"
proof -
  let ?k = "key_of x" and ?c = "entry h ! slot h (key_of x)"
  have h': "h' = set_chain h ?k (?c @ [x])" using ins insert_eq [OF inv k] by simp
  have slot: "hash op (entries h) ?k = Inr (slot h ?k)" "slot h ?k < entries h" "length (entry h) = entries h"
    using slot_range [OF k, of h] inv by (auto simp: table_inv_def)
  have inv': "table_inv h'" and find: "table_map h' ?k = Some x"
    using insert_map [OF inv k] ins new by auto
  have chain: "entry h' ! slot h ?k = ?c @ [x]" using slot by (simp add: h' set_chain_def)
  have "remove_first (compare op ?k) (?c @ [x]) = remove_first (\<lambda>y. key_of y = ?k) (?c @ [x])"
    using chain_compare [OF inv' k] chain by (intro remove_first_cong) (simp add: h')
  also have "\<dots> = ?c"
  proof (rule remove_first_last)
    have "List.find (\<lambda>y. key_of y = ?k) ?c = None" using new table_map_slot [OF k] by simp
    then show "\<forall>y\<in>set ?c. key_of y \<noteq> ?k" unfolding find_None_iff_all by blast
  qed simp
  finally have rem: "remove_first (compare op ?k) (?c @ [x]) = ?c" .
  have restore: "(entry h')[slot h ?k := ?c] = entry h" using slot by (simp add: h' set_chain_def)
  have e: "entries h' = entries h" by (simp add: h' set_chain_def)
  have "h'\<lparr>entry := entry h\<rparr> = h" by (simp add: h' set_chain_def)
  then show ?thesis
    using slot find_map [OF inv' k] find chain rem restore by (simp add: hash_table_remove_def e)
qed

text \<open>A write through a found pointer that keeps the key changes one entry of the map.\<close>

lemma update_first_cong: "(\<And>x. x \<in> set xs \<Longrightarrow> P x = Q x) \<Longrightarrow> update_first P f xs = update_first Q f xs"
  by (induction xs) auto

lemma modify_map:
  assumes inv: "table_inv h" and k: "valid k" and f: "\<And>x. key_of x = k \<Longrightarrow> key_of (f x) = k"
  shows "\<exists>h'. hash_table_modify op k f h = Inr h' \<and> table_inv h' \<and>
     table_map h' = (table_map h)(k := map_option f (table_map h k)) \<and>
     (table_distinct h \<longrightarrow> table_distinct h') \<and> (placed h \<longrightarrow> placed h')"
proof -
  let ?c = "entry h ! slot h k"
  let ?u = "update_first (\<lambda>x. key_of x = k) f ?c"
  let ?h = "set_chain h k ?u"
  have eq: "update_first (compare op k) f ?c = ?u"
    using chain_compare [OF inv k] by (rule update_first_cong)
  have run: "hash_table_modify op k f h = Inr ?h"
    using slot_range [OF k, of h] inv by (simp add: hash_table_modify_def table_inv_def set_chain_def eq)
  have c: "valid (key_of y) \<and> (placed h \<longrightarrow> slot h (key_of y) = slot h k)" if "y \<in> set ?u" for y
    using set_update_first [OF that] chain_slot [OF inv k] f k by (elim disjE bexE) auto
  have o: "List.find (\<lambda>x. key_of x = k') ?u = List.find (\<lambda>x. key_of x = k') ?c" if "k' \<noteq> k" for k'
    using that f by (intro find_update_first_other) auto
  have "table_map ?h = (table_map h)(k := List.find (\<lambda>x. key_of x = k) ?u)"
    using inv k o by (rule set_chain_map)
  moreover have "List.find (\<lambda>x. key_of x = k) ?u = map_option f (table_map h k)"
    using f table_map_slot [OF k] by (simp add: find_update_first_same)
  moreover have "table_distinct ?h" if "table_distinct h"
  proof -
    have "distinct (map key_of ?c)" using that slot_range [OF k] inv by (simp add: table_distinct_def table_inv_def)
    moreover have "map key_of ?u = map key_of ?c" using f by (intro update_first_map) auto
    ultimately have "distinct (map key_of ?u)" by simp
    with inv k that show ?thesis by (rule set_chain_distinct)
  qed
  moreover have "table_inv ?h" using inv k by (rule set_chain_inv) (use c in blast)
  moreover have "placed ?h" if "placed h" using inv that k by (rule set_chain_placed) (use c that in blast)
  ultimately show ?thesis using run by (intro exI [of _ ?h]) simp
qed

text \<open>In a table with every item in its slot, a key has at most one item when chains have.\<close>

lemma filter_concat_slot:
  assumes "\<And>i x. i < length cs \<Longrightarrow> i \<noteq> s \<Longrightarrow> x \<in> set (cs ! i) \<Longrightarrow> \<not> P x" and "s < length cs"
  shows "filter P (concat cs) = filter P (cs ! s)"
proof -
  have split: "cs = take s cs @ cs ! s # drop (Suc s) cs" using assms(2) by (rule id_take_nth_drop)
  have "\<forall>c\<in>set (take s cs). \<forall>x\<in>set c. \<not> P x"
  proof
    fix c
    assume "c \<in> set (take s cs)"
    then obtain j where "j < s" "j < length cs" "c = cs ! j" by (auto simp: in_set_conv_nth)
    then show "\<forall>x\<in>set c. \<not> P x" using assms(1) [of j] by auto
  qed
  moreover have "\<forall>c\<in>set (drop (Suc s) cs). \<forall>x\<in>set c. \<not> P x"
  proof
    fix c
    assume "c \<in> set (drop (Suc s) cs)"
    then obtain j where "j < length cs - Suc s" "c = cs ! (Suc s + j)" by (auto simp: in_set_conv_nth)
    then show "\<forall>x\<in>set c. \<not> P x" using assms(1) [of "Suc s + j"] by auto
  qed
  ultimately have "filter P (concat (take s cs)) = []" "filter P (concat (drop (Suc s) cs)) = []"
    by (auto simp: filter_empty_conv)
  then have "filter P (concat (take s cs @ cs ! s # drop (Suc s) cs)) = filter P (cs ! s)" by simp
  then show ?thesis using split by simp
qed

lemma distinct_filter_key:
  "distinct (map key_of xs) \<Longrightarrow> filter (\<lambda>x. key_of x = k) xs = (case List.find (\<lambda>x. key_of x = k) xs of None \<Rightarrow> [] | Some x \<Rightarrow> [x])"
proof (induction xs)
  case (Cons y ys)
  show ?case
  proof (cases "key_of y = k")
    case True
    then have "\<forall>x\<in>set ys. key_of x \<noteq> k" using Cons.prems by (auto intro: rev_image_eqI)
    then have "filter (\<lambda>x. key_of x = k) ys = []" by (simp add: filter_empty_conv)
    with True show ?thesis by simp
  qed (use Cons in simp)
qed simp

lemma placed_filter:
  assumes "table_inv h" "placed h" "table_distinct h"
  shows "filter (\<lambda>x. key_of x = k) (ht_items h) = (case table_map h k of None \<Rightarrow> [] | Some x \<Rightarrow> [x])"
proof (cases "valid k")
  case True
  then have r: "slot h k < entries h" "length (entry h) = entries h"
    using assms(1) slot_range [of k h] by (auto simp: table_inv_def)
  have "filter (\<lambda>x. key_of x = k) (concat (entry h)) = filter (\<lambda>x. key_of x = k) (entry h ! slot h k)"
    using assms(2) r by (intro filter_concat_slot) (auto simp: placed_def)
  then show ?thesis
    using True r assms(3) by (simp add: ht_items_def table_map_slot table_distinct_def distinct_filter_key)
next
  case False
  then have "filter (\<lambda>x. key_of x = k) (ht_items h) = []"
    using table_inv_valid [OF assms(1)] by (auto simp: filter_empty_conv)
  then show ?thesis using False by (simp add: table_map_invalid)
qed

end

text \<open>The items of a table after such a write.\<close>

lemma length_concat_update: "i < length cs \<Longrightarrow> length c = length (cs ! i) \<Longrightarrow> length (concat (cs[i := c])) = length (concat cs)"
proof (induction cs arbitrary: i)
  case (Cons d cs)
  then show ?case by (cases i) auto
qed simp

lemma modify_items:
  assumes "hash_table_modify op k f h = Inr h'" "length (entry h) = entries h"
  shows "length (ht_items h') = length (ht_items h)"
    and "y \<in> set (ht_items h') \<Longrightarrow> y \<in> set (ht_items h) \<or> (\<exists>x\<in>set (ht_items h). y = f x)"
proof -
  obtain i where i: "i < length (entry h)" and
    h': "h' = h\<lparr>entry := (entry h)[i := update_first (compare op k) f (entry h ! i)]\<rparr>"
    using assms by (auto simp: hash_table_modify_def res_iff)
  show "length (ht_items h') = length (ht_items h)"
    using length_concat_update [OF i] by (simp add: ht_items_def h')
  show "y \<in> set (ht_items h) \<or> (\<exists>x\<in>set (ht_items h). y = f x)" if "y \<in> set (ht_items h')"
  proof -
    obtain c where c: "c \<in> set (entry h')" "y \<in> set c" using \<open>y \<in> set (ht_items h')\<close> by (auto simp: ht_items_def)
    have e: "entry h ! i \<in> set (entry h)" using i by simp
    from c(1) have "c = update_first (compare op k) f (entry h ! i) \<or> c \<in> set (entry h)"
      using set_update_subset_insert by (fastforce simp: h')
    then show ?thesis using c(2) e set_update_first [of y "compare op k" f "entry h ! i"] by (auto simp: ht_items_def)
  qed
qed

end
