(* ===== verification/Op_Types.thy ===== *)
theory Op_Types
  imports Base_Prelude
begin

text \<open>
  The data model of \<open>common.h\<close> and \<open>in_common.h\<close>: the operation codes and masks, one record
  per recorded system call, and the items of the trace. An item is the \<open>type\<close> character with
  the structure the item was allocated as; code that looks at the character and then casts is
  modelled by the \<open>as_\<close> functions, which fail when the two do not agree.
\<close>

section \<open>Constants\<close>

definition OP_WRITE :: char where "OP_WRITE = CHR ''w''"
definition OP_PWRITE :: char where "OP_PWRITE = CHR ''W''"
definition OP_READ :: char where "OP_READ = CHR ''r''"
definition OP_PREAD :: char where "OP_PREAD = CHR ''P''"
definition OP_ACCESS :: char where "OP_ACCESS = CHR ''a''"
definition OP_UNKNOWN :: char where "OP_UNKNOWN = CHR ''?''"
definition OP_CLOSE :: char where "OP_CLOSE = CHR ''c''"
definition OP_OPEN :: char where "OP_OPEN = CHR ''o''"
definition OP_CREAT :: char where "OP_CREAT = CHR ''R''"
definition OP_UNLINK :: char where "OP_UNLINK = CHR ''u''"
definition OP_LSEEK :: char where "OP_LSEEK = CHR ''l''"
definition OP_LLSEEK :: char where "OP_LLSEEK = CHR ''L''"
definition OP_PIPE :: char where "OP_PIPE = CHR ''p''"
definition OP_DUP :: char where "OP_DUP = CHR ''d''"
definition OP_DUP2 :: char where "OP_DUP2 = CHR ''D''"
definition OP_DUP3 :: char where "OP_DUP3 = CHR ''e''"
definition OP_MKDIR :: char where "OP_MKDIR = CHR ''M''"
definition OP_RMDIR :: char where "OP_RMDIR = CHR ''i''"
definition OP_MMAP :: char where "OP_MMAP = CHR ''m''"
definition OP_CLONE :: char where "OP_CLONE = CHR ''C''"
definition OP_SOCKET :: char where "OP_SOCKET = CHR ''S''"
definition OP_STAT :: char where "OP_STAT = CHR ''s''"
definition OP_SENDFILE :: char where "OP_SENDFILE = CHR ''t''"
definition OP_FCNTL :: char where "OP_FCNTL = CHR ''f''"

lemmas op_codes = OP_WRITE_def OP_PWRITE_def OP_READ_def OP_PREAD_def OP_ACCESS_def OP_UNKNOWN_def
  OP_CLOSE_def OP_OPEN_def OP_CREAT_def OP_UNLINK_def OP_LSEEK_def OP_LLSEEK_def OP_PIPE_def
  OP_DUP_def OP_DUP2_def OP_DUP3_def OP_MKDIR_def OP_RMDIR_def OP_MMAP_def OP_CLONE_def
  OP_SOCKET_def OP_STAT_def OP_SENDFILE_def OP_FCNTL_def

definition MAX_STRING :: nat where "MAX_STRING = 512"
definition MAX_LINE :: nat where "MAX_LINE = 512"
definition MAX_TIME_STRING :: nat where "MAX_TIME_STRING = 20"
definition MAX_PARENT_IDS :: nat where "MAX_PARENT_IDS = 20"
definition MAX_DATA :: i64 where "MAX_DATA = 1024 * 1024 * 64"
definition OFFSET_INVAL :: i64 where "OFFSET_INVAL = -1"
definition MODE_UNDEF :: i32 where "MODE_UNDEF = -666"

definition TIME_DIFF :: i32 where "TIME_DIFF = 0x80000000"
definition TIME_EXACT :: i32 where "TIME_EXACT = 0x40000000"
definition TIME_ASAP :: i32 where "TIME_ASAP = 0x20000000"
definition TIME_MASK :: i32 where "TIME_MASK = 0xE0000000"
definition ACT_CONVERT :: i32 where "ACT_CONVERT = 0x1"
definition ACT_SIMULATE :: i32 where "ACT_SIMULATE = 0x2"
definition ACT_REPLICATE :: i32 where "ACT_REPLICATE = 0x4"
definition ACT_STATS :: i32 where "ACT_STATS = 0x8"
definition ACT_CHECK :: i32 where "ACT_CHECK = 0x10"
definition ACT_PREPARE :: i32 where "ACT_PREPARE = 0x20"
definition ACT_PRINT :: i32 where "ACT_PRINT = 0x40"
definition FIX_MISSING :: i32 where "FIX_MISSING = 0x80"

lemmas mask_defs = TIME_DIFF_def TIME_EXACT_def TIME_ASAP_def TIME_MASK_def ACT_CONVERT_def
  ACT_SIMULATE_def ACT_REPLICATE_def ACT_STATS_def ACT_CHECK_def ACT_PREPARE_def ACT_PRINT_def
  FIX_MISSING_def

text \<open>\<open>mask & bit\<close> as a C condition.\<close>

definition has_flag :: "i32 \<Rightarrow> i32 \<Rightarrow> bool" where
  "has_flag m b \<longleftrightarrow> and m b \<noteq> 0"

section \<open>The structures of the recorded calls\<close>

record int32timeval =
  tv_sec :: i32
  tv_usec :: i32

record op_info =
  pid :: i32
  dur :: i32
  start :: int32timeval

record read_op =
  read_fd :: i32
  read_size :: i64
  read_retval :: i64
  read_info :: op_info

record write_op =
  write_fd :: i32
  write_size :: i64
  write_retval :: i64
  write_info :: op_info

record pread_op =
  pread_fd :: i32
  pread_size :: i64
  pread_offset :: i64
  pread_retval :: i64
  pread_info :: op_info

record pwrite_op =
  pwrite_fd :: i32
  pwrite_size :: i64
  pwrite_offset :: i64
  pwrite_retval :: i64
  pwrite_info :: op_info

record pipe_op =
  pipe_fd1 :: i32
  pipe_fd2 :: i32
  pipe_mode :: i32
  pipe_retval :: i32
  pipe_info :: op_info

record mkdir_op =
  mkdir_name :: string
  mkdir_mode :: i32
  mkdir_retval :: i32
  mkdir_info :: op_info

record rmdir_op =
  rmdir_name :: string
  rmdir_retval :: i32
  rmdir_info :: op_info

record clone_op =
  clone_mode :: i32
  clone_retval :: i32
  clone_info :: op_info

record dup_op =
  dup_new_fd :: i32
  dup_old_fd :: i32
  dup_flags :: i32
  dup_retval :: i32
  dup_info :: op_info

record open_op =
  open_name :: string
  open_flags :: i32
  open_mode :: i32
  open_retval :: i32
  open_info :: op_info

record close_op =
  close_fd :: i32
  close_retval :: i32
  close_info :: op_info

record unlink_op =
  unlink_name :: string
  unlink_retval :: i32
  unlink_info :: op_info

record llseek_op =
  llseek_fd :: i32
  llseek_offset :: i64
  llseek_f_offset :: i64
  llseek_flag :: i32
  llseek_retval :: i64
  llseek_info :: op_info

record lseek_op =
  lseek_fd :: i32
  lseek_flag :: i32
  lseek_offset :: i64
  lseek_retval :: i64
  lseek_info :: op_info

record access_op =
  access_name :: string
  access_mode :: i32
  access_retval :: i32
  access_info :: op_info

record stat_op =
  stat_name :: string
  stat_retval :: i32
  stat_info :: op_info

record socket_op =
  socket_retval :: i32
  socket_info :: op_info

record sendfile_op =
  sendfile_out_fd :: i32
  sendfile_in_fd :: i32
  sendfile_offset :: i64
  sendfile_size :: i64
  sendfile_retval :: i64
  sendfile_info :: op_info

section \<open>Items of the trace\<close>

datatype op_struct =
    S_read read_op
  | S_write write_op
  | S_pread pread_op
  | S_pwrite pwrite_op
  | S_pipe pipe_op
  | S_mkdir mkdir_op
  | S_rmdir rmdir_op
  | S_clone clone_op
  | S_dup dup_op
  | S_open open_op
  | S_close close_op
  | S_unlink unlink_op
  | S_llseek llseek_op
  | S_lseek lseek_op
  | S_access access_op
  | S_stat stat_op
  | S_socket socket_op
  | S_sendfile sendfile_op

record op_item =
  type :: char
  body :: op_struct

text \<open>The cast \<open>(x_item_t * ) com_it\<close>: fine when the item was allocated as an \<open>x_item_t\<close>.\<close>

definition as_read :: "op_item \<Rightarrow> read_op res" where
  "as_read it = (case body it of S_read x \<Rightarrow> Inr x | _ \<Rightarrow> Inl Type_Confusion)"

definition as_write :: "op_item \<Rightarrow> write_op res" where
  "as_write it = (case body it of S_write x \<Rightarrow> Inr x | _ \<Rightarrow> Inl Type_Confusion)"

definition as_pread :: "op_item \<Rightarrow> pread_op res" where
  "as_pread it = (case body it of S_pread x \<Rightarrow> Inr x | _ \<Rightarrow> Inl Type_Confusion)"

definition as_pwrite :: "op_item \<Rightarrow> pwrite_op res" where
  "as_pwrite it = (case body it of S_pwrite x \<Rightarrow> Inr x | _ \<Rightarrow> Inl Type_Confusion)"

definition as_pipe :: "op_item \<Rightarrow> pipe_op res" where
  "as_pipe it = (case body it of S_pipe x \<Rightarrow> Inr x | _ \<Rightarrow> Inl Type_Confusion)"

definition as_mkdir :: "op_item \<Rightarrow> mkdir_op res" where
  "as_mkdir it = (case body it of S_mkdir x \<Rightarrow> Inr x | _ \<Rightarrow> Inl Type_Confusion)"

definition as_rmdir :: "op_item \<Rightarrow> rmdir_op res" where
  "as_rmdir it = (case body it of S_rmdir x \<Rightarrow> Inr x | _ \<Rightarrow> Inl Type_Confusion)"

definition as_clone :: "op_item \<Rightarrow> clone_op res" where
  "as_clone it = (case body it of S_clone x \<Rightarrow> Inr x | _ \<Rightarrow> Inl Type_Confusion)"

definition as_dup :: "op_item \<Rightarrow> dup_op res" where
  "as_dup it = (case body it of S_dup x \<Rightarrow> Inr x | _ \<Rightarrow> Inl Type_Confusion)"

definition as_open :: "op_item \<Rightarrow> open_op res" where
  "as_open it = (case body it of S_open x \<Rightarrow> Inr x | _ \<Rightarrow> Inl Type_Confusion)"

definition as_close :: "op_item \<Rightarrow> close_op res" where
  "as_close it = (case body it of S_close x \<Rightarrow> Inr x | _ \<Rightarrow> Inl Type_Confusion)"

definition as_unlink :: "op_item \<Rightarrow> unlink_op res" where
  "as_unlink it = (case body it of S_unlink x \<Rightarrow> Inr x | _ \<Rightarrow> Inl Type_Confusion)"

definition as_llseek :: "op_item \<Rightarrow> llseek_op res" where
  "as_llseek it = (case body it of S_llseek x \<Rightarrow> Inr x | _ \<Rightarrow> Inl Type_Confusion)"

definition as_lseek :: "op_item \<Rightarrow> lseek_op res" where
  "as_lseek it = (case body it of S_lseek x \<Rightarrow> Inr x | _ \<Rightarrow> Inl Type_Confusion)"

definition as_access :: "op_item \<Rightarrow> access_op res" where
  "as_access it = (case body it of S_access x \<Rightarrow> Inr x | _ \<Rightarrow> Inl Type_Confusion)"

definition as_stat :: "op_item \<Rightarrow> stat_op res" where
  "as_stat it = (case body it of S_stat x \<Rightarrow> Inr x | _ \<Rightarrow> Inl Type_Confusion)"

definition as_socket :: "op_item \<Rightarrow> socket_op res" where
  "as_socket it = (case body it of S_socket x \<Rightarrow> Inr x | _ \<Rightarrow> Inl Type_Confusion)"

definition as_sendfile :: "op_item \<Rightarrow> sendfile_op res" where
  "as_sendfile it = (case body it of S_sendfile x \<Rightarrow> Inr x | _ \<Rightarrow> Inl Type_Confusion)"

lemmas as_defs = as_read_def as_write_def as_pread_def as_pwrite_def as_pipe_def as_mkdir_def as_rmdir_def as_clone_def as_dup_def as_open_def as_close_def as_unlink_def as_llseek_def as_lseek_def as_access_def as_stat_def as_socket_def as_sendfile_def

text \<open>Items whose \<open>type\<close> character is that of their structure.\<close>

fun op_type_ok :: "char \<Rightarrow> op_struct \<Rightarrow> bool" where
  "op_type_ok c (S_read x) \<longleftrightarrow> c = OP_READ"
| "op_type_ok c (S_write x) \<longleftrightarrow> c = OP_WRITE"
| "op_type_ok c (S_pread x) \<longleftrightarrow> c = OP_PREAD"
| "op_type_ok c (S_pwrite x) \<longleftrightarrow> c = OP_PWRITE"
| "op_type_ok c (S_pipe x) \<longleftrightarrow> c = OP_PIPE"
| "op_type_ok c (S_mkdir x) \<longleftrightarrow> c = OP_MKDIR"
| "op_type_ok c (S_rmdir x) \<longleftrightarrow> c = OP_RMDIR"
| "op_type_ok c (S_clone x) \<longleftrightarrow> c = OP_CLONE"
| "op_type_ok c (S_dup x) \<longleftrightarrow> c = OP_DUP \<or> c = OP_DUP2 \<or> c = OP_DUP3"
| "op_type_ok c (S_open x) \<longleftrightarrow> c = OP_OPEN"
| "op_type_ok c (S_close x) \<longleftrightarrow> c = OP_CLOSE"
| "op_type_ok c (S_unlink x) \<longleftrightarrow> c = OP_UNLINK"
| "op_type_ok c (S_llseek x) \<longleftrightarrow> c = OP_LLSEEK"
| "op_type_ok c (S_lseek x) \<longleftrightarrow> c = OP_LSEEK"
| "op_type_ok c (S_access x) \<longleftrightarrow> c = OP_ACCESS"
| "op_type_ok c (S_stat x) \<longleftrightarrow> c = OP_STAT"
| "op_type_ok c (S_socket x) \<longleftrightarrow> c = OP_SOCKET"
| "op_type_ok c (S_sendfile x) \<longleftrightarrow> c = OP_SENDFILE"

definition item_ok :: "op_item \<Rightarrow> bool" where
  "item_ok it \<longleftrightarrow> op_type_ok (type it) (body it)"

text \<open>The common header of every structure.\<close>

fun op_info_of :: "op_struct \<Rightarrow> op_info" where
  "op_info_of (S_read x) = read_info x"
| "op_info_of (S_write x) = write_info x"
| "op_info_of (S_pread x) = pread_info x"
| "op_info_of (S_pwrite x) = pwrite_info x"
| "op_info_of (S_pipe x) = pipe_info x"
| "op_info_of (S_mkdir x) = mkdir_info x"
| "op_info_of (S_rmdir x) = rmdir_info x"
| "op_info_of (S_clone x) = clone_info x"
| "op_info_of (S_dup x) = dup_info x"
| "op_info_of (S_open x) = open_info x"
| "op_info_of (S_close x) = close_info x"
| "op_info_of (S_unlink x) = unlink_info x"
| "op_info_of (S_llseek x) = llseek_info x"
| "op_info_of (S_lseek x) = lseek_info x"
| "op_info_of (S_access x) = access_info x"
| "op_info_of (S_stat x) = stat_info x"
| "op_info_of (S_socket x) = socket_info x"
| "op_info_of (S_sendfile x) = sendfile_info x"

end
