(* ===== verification/C_Strings.thy ===== *)
theory C_Strings
  imports Base_Prelude
begin

text \<open>
  The part of the C string library that the program relies on: strings are lists of characters
  without their terminator, buffers are lists of characters of a fixed length in which the
  terminator is explicit. The component theories import these definitions and their lemmas.
\<close>

section \<open>Buffers\<close>

definition NUL :: char where "NUL = CHR 0x00"

text \<open>The string a buffer holds, and the buffer \<open>strdup\<close> makes of a string.\<close>

definition cstr :: "char list \<Rightarrow> string" where
  "cstr b = takeWhile (\<lambda>c. c \<noteq> NUL) b"

definition strdup :: "string \<Rightarrow> char list" where
  "strdup s = s @ [NUL]"

text \<open>Strings as the program's files and buffers deliver them hold no terminator.\<close>

definition c_string :: "string \<Rightarrow> bool" where
  "c_string s \<longleftrightarrow> NUL \<notin> set s"

lemma c_string_simps [simp]:
  "c_string []" "c_string (c # s) \<longleftrightarrow> c \<noteq> NUL \<and> c_string s"
  "c_string (s @ t) \<longleftrightarrow> c_string s \<and> c_string t"
  by (auto simp: c_string_def)

lemma cstr_app: "c_string s \<Longrightarrow> cstr (s @ NUL # b) = s"
  by (induction s) (auto simp: cstr_def)

lemma cstr_strdup [simp]: "c_string s \<Longrightarrow> cstr (strdup s) = s"
  by (simp add: strdup_def cstr_app)

lemma c_string_cstr [simp]: "c_string (cstr b)"
  by (auto simp: cstr_def c_string_def dest: set_takeWhileD)

lemma c_string_take_drop: "c_string s \<Longrightarrow> c_string (take n s) \<and> c_string (drop n s)"
  by (auto simp: c_string_def dest: in_set_takeD in_set_dropD)

section \<open>Searching\<close>

fun starts_with :: "string \<Rightarrow> string \<Rightarrow> bool" where
  "starts_with [] s = True"
| "starts_with (p # ps) [] = False"
| "starts_with (p # ps) (c # cs) = (p = c \<and> starts_with ps cs)"

text \<open>\<open>strstr(s, t)\<close>, \<open>rindex(s, c)\<close> and \<open>strchr(s, c)\<close> as positions in \<open>s\<close>.\<close>

fun strstr :: "string \<Rightarrow> string \<Rightarrow> nat option" where
  "strstr [] t = (if t = [] then Some 0 else None)"
| "strstr (c # s) t = (if starts_with t (c # s) then Some 0 else map_option Suc (strstr s t))"

fun rindex :: "string \<Rightarrow> char \<Rightarrow> nat option" where
  "rindex [] c = None"
| "rindex (x # s) c =
     (case rindex s c of Some i \<Rightarrow> Some (Suc i) | None \<Rightarrow> if x = c then Some 0 else None)"

fun strchr :: "string \<Rightarrow> char \<Rightarrow> nat option" where
  "strchr [] c = None"
| "strchr (x # s) c = (if x = c then Some 0 else map_option Suc (strchr s c))"

lemma starts_with_iff: "starts_with p s \<longleftrightarrow> (\<exists>r. s = p @ r)"
  by (induction p s rule: starts_with.induct) auto

lemma strstr_Some:
  "strstr s t = Some i \<Longrightarrow> i + length t \<le> length s \<and> take i s @ t @ drop (i + length t) s = s"
proof (induction s t arbitrary: i rule: strstr.induct)
  case (2 c s t)
  show ?case
  proof (cases "starts_with t (c # s)")
    case True
    then obtain r where r: "c # s = t @ r" using starts_with_iff by blast
    have "i = 0" using 2(2) True by simp
    moreover have "length t \<le> length (c # s) \<and> t @ drop (length t) (c # s) = c # s"
      unfolding r by simp
    ultimately show ?thesis by simp
  next
    case False
    with 2(2) obtain j where "strstr s t = Some j" "i = Suc j" by auto
    with 2(1) [OF False] show ?thesis by simp
  qed
qed (simp split: if_splits)

lemma strstr_None: "strstr s t = None \<longleftrightarrow> (\<nexists>p r. s = p @ t @ r)"
proof (induction s t rule: strstr.induct)
  case (2 c s t)
  show ?case
  proof (cases "starts_with t (c # s)")
    case True
    then obtain r where "c # s = [] @ t @ r" using starts_with_iff by auto
    then have "\<exists>p r. c # s = p @ t @ r" by blast
    moreover have "strstr (c # s) t \<noteq> None" using True by simp
    ultimately show ?thesis by blast
  next
    case False
    then have no: "\<nexists>r. c # s = t @ r" using starts_with_iff by auto
    have "(\<exists>p r. c # s = p @ t @ r) \<longleftrightarrow> (\<exists>p r. s = p @ t @ r)"
    proof
      assume "\<exists>p r. c # s = p @ t @ r"
      then obtain p r where pr: "c # s = p @ t @ r" by blast
      with no obtain q where "p = c # q" by (cases p) auto
      with pr show "\<exists>p r. s = p @ t @ r" by auto
    next
      assume "\<exists>p r. s = p @ t @ r"
      then show "\<exists>p r. c # s = p @ t @ r" by (metis append_Cons)
    qed
    with 2 [OF False] False show ?thesis by simp
  qed
qed simp

lemma rindex_Some: "rindex s c = Some i \<Longrightarrow> i < length s \<and> s ! i = c \<and> c \<notin> set (drop (Suc i) s)"
proof (induction s arbitrary: i)
  case (Cons x s)
  show ?case
  proof (cases "rindex s c")
    case None
    then have "c \<notin> set s"
    proof (induction s)
      case (Cons y s)
      then show ?case by (auto split: option.splits if_splits)
    qed simp
    with None Cons(2) show ?thesis by (simp split: if_splits)
  next
    case (Some j)
    with Cons(1) [OF Some] Cons(2) show ?thesis by auto
  qed
qed simp

lemma rindex_None: "rindex s c = None \<longleftrightarrow> c \<notin> set s"
  by (induction s) (auto split: option.splits)

lemma rindex_app_last: "c \<notin> set t \<Longrightarrow> rindex (s @ c # t) c = Some (length s)"
proof (induction s)
  case Nil
  then have "rindex t c = None" by (simp add: rindex_None)
  then show ?case by simp
qed simp

section \<open>Tokens\<close>

text \<open>
  The tokens that repeated calls of \<open>strtok\<close> (or \<open>strtok_r\<close>) with a one-character delimiter
  return, in order: the maximal runs of other characters.
\<close>

fun toks :: "char \<Rightarrow> string \<Rightarrow> string \<Rightarrow> string list" where
  "toks d acc [] = (if acc = [] then [] else [acc])"
| "toks d acc (c # s) =
     (if c = d then if acc = [] then toks d [] s else acc # toks d [] s
      else toks d (acc @ [c]) s)"

definition strtok :: "char \<Rightarrow> string \<Rightarrow> string list" where
  "strtok d s = toks d [] s"

lemma toks_word: "d \<notin> set w \<Longrightarrow> toks d acc (w @ s) = toks d (acc @ w) s"
  by (induction w arbitrary: acc) auto

lemma strtok_word [simp]: "d \<notin> set w \<Longrightarrow> w \<noteq> [] \<Longrightarrow> strtok d (w @ d # s) = w # strtok d s"
  using toks_word [of d w "[]" "d # s"] by (simp add: strtok_def)

lemma strtok_last [simp]: "d \<notin> set w \<Longrightarrow> w \<noteq> [] \<Longrightarrow> strtok d w = [w]"
  using toks_word [of d w "[]" "[]"] by (simp add: strtok_def)

lemma strtok_delim [simp]: "strtok d (d # s) = strtok d s" "strtok d [] = []"
  by (simp_all add: strtok_def)

lemma toks_props: "d \<notin> set acc \<Longrightarrow> t \<in> set (toks d acc s) \<Longrightarrow> t \<noteq> [] \<and> d \<notin> set t"
  by (induction d acc s rule: toks.induct) (auto split: if_splits)

lemma strtok_props: "t \<in> set (strtok d s) \<Longrightarrow> t \<noteq> [] \<and> d \<notin> set t"
  using toks_props [of d "[]" t s] by (simp add: strtok_def)

lemma toks_chars: "t \<in> set (toks d acc s) \<Longrightarrow> set t \<subseteq> set acc \<union> set s"
  by (induction d acc s rule: toks.induct) (fastforce split: if_splits)+

lemma strtok_c_string: "c_string s \<Longrightarrow> t \<in> set (strtok d s) \<Longrightarrow> c_string t"
  using toks_chars [of t d "[]" s] by (auto simp: strtok_def c_string_def)

lemma toks_join: "d \<notin> set acc \<Longrightarrow> toks d acc (s @ d # t) = toks d acc s @ toks d [] t"
  by (induction d acc s rule: toks.induct) auto

lemma strtok_join: "strtok d (s @ d # t) = strtok d s @ strtok d t"
  by (simp add: strtok_def toks_join)

section \<open>Numbers\<close>

text \<open>Decimal digits: the digit of a number and the decimal notation of a natural number.\<close>

definition digit :: "nat \<Rightarrow> char" where
  "digit n = char_of (48 + n mod 10)"

fun decimal :: "nat \<Rightarrow> string" where
  "decimal n = (if n < 10 then [digit n] else decimal (n div 10) @ [digit n])"

declare decimal.simps [simp del]

definition decimal_int :: "int \<Rightarrow> string" where
  "decimal_int i = (if i < 0 then CHR ''-'' # decimal (nat (- i)) else decimal (nat i))"

text \<open>\<open>%06d\<close>: zeros after the sign up to the width.\<close>

definition zero_padded :: "nat \<Rightarrow> int \<Rightarrow> string" where
  "zero_padded w i =
     (if i < 0 then CHR ''-'' # (let s = decimal (nat (- i)) in replicate (w - 1 - length s) (CHR ''0'') @ s)
      else (let s = decimal (nat i) in replicate (w - length s) (CHR ''0'') @ s))"

definition is_digit :: "char \<Rightarrow> bool" where
  "is_digit c \<longleftrightarrow> 48 \<le> (of_char c :: nat) \<and> (of_char c :: nat) \<le> 57"

definition digit_val :: "char \<Rightarrow> nat" where
  "digit_val c = of_char c - 48"

lemma of_char_digit: "(of_char (digit n) :: nat) = 48 + n mod 10"
proof -
  have "(48 + n mod 10) < 256" by (simp add: less_imp_le_nat trans_less_add2)
  then show ?thesis by (simp add: digit_def of_char_of)
qed

lemma is_digit_digit [simp]: "is_digit (digit n)"
  using of_char_digit [of n] by (simp add: is_digit_def)

lemma digit_val_digit [simp]: "digit_val (digit n) = n mod 10"
  using of_char_digit [of n] by (simp add: digit_val_def)

text \<open>The value of a sequence of digits.\<close>

fun digits_val :: "nat \<Rightarrow> string \<Rightarrow> nat" where
  "digits_val n [] = n"
| "digits_val n (c # s) = digits_val (10 * n + digit_val c) s"

lemma digits_val_append: "digits_val n (s @ t) = digits_val (digits_val n s) t"
  by (induction s arbitrary: n) auto

lemma decimal_props: "digits_val 0 (decimal n) = n \<and> (\<forall>c\<in>set (decimal n). is_digit c) \<and> decimal n \<noteq> []"
proof (induction n rule: decimal.induct)
  case (1 n)
  show ?case
  proof (cases "n < 10")
    case True
    then show ?thesis by (simp add: decimal.simps [of n])
  next
    case False
    with 1 show ?thesis by (simp add: decimal.simps [of n] digits_val_append)
  qed
qed

text \<open>
  \<open>atoi\<close>: leading white space, a sign, digits; the C library computes a \<open>long\<close> that stops at
  its bounds and converts it to \<open>int\<close>.
\<close>

definition is_space :: "char \<Rightarrow> bool" where
  "is_space c \<longleftrightarrow> c = CHR 0x20 \<or> (9 \<le> (of_char c :: nat) \<and> (of_char c :: nat) \<le> 13)"

definition clamp_long :: "int \<Rightarrow> int" where
  "clamp_long i = max (- (2 ^ 63)) (min (2 ^ 63 - 1) i)"

definition atoi :: "string \<Rightarrow> i32" where
  "atoi s =
     (case dropWhile is_space s of
        [] \<Rightarrow> 0
      | c # r \<Rightarrow>
          if c = CHR ''-'' then word_of_int (clamp_long (- int (digits_val 0 (takeWhile is_digit r))))
          else if c = CHR ''+'' then word_of_int (clamp_long (int (digits_val 0 (takeWhile is_digit r))))
          else word_of_int (clamp_long (int (digits_val 0 (takeWhile is_digit (c # r))))))"

lemma is_digit_not:
  "is_digit c \<Longrightarrow> \<not> is_space c \<and> c \<noteq> CHR ''-'' \<and> c \<noteq> CHR ''+'' \<and> c \<noteq> CHR ''.'' \<and> c \<noteq> NUL"
  by (auto simp: is_digit_def is_space_def NUL_def)

lemma atoi_digits:
  assumes "\<forall>c\<in>set s. is_digit c" "s \<noteq> []"
  shows "atoi s = word_of_int (clamp_long (int (digits_val 0 s)))"
proof -
  obtain c r where s: "s = c # r" using assms(2) by (cases s) auto
  have d: "is_digit c" using assms(1) s by simp
  have t: "takeWhile is_digit r = r" using assms(1) s by (simp add: takeWhile_eq_all_conv)
  show ?thesis
    using is_digit_not [OF d] d by (simp add: atoi_def s t)
qed

lemma atoi_decimal:
  assumes "n < 2 ^ 31"
  shows "atoi (decimal n) = word_of_int (int n)"
proof -
  have "clamp_long (int n) = int n" using assms by (simp add: clamp_long_def)
  then show ?thesis using atoi_digits [of "decimal n"] decimal_props [of n] by simp
qed

section \<open>Lines of a file\<close>

text \<open>\<open>fgets(line, n, f)\<close> on the rest of the file: at most \<open>n - 1\<close> characters, up to the newline.\<close>

fun fgets :: "nat \<Rightarrow> string \<Rightarrow> string \<times> string" where
  "fgets 0 s = ([], s)"
| "fgets (Suc 0) s = ([], s)"
| "fgets (Suc (Suc n)) [] = ([], [])"
| "fgets (Suc (Suc n)) (c # s) =
     (if c = CHR 0x0A then ([c], s)
      else (let (line, r) = fgets (Suc n) s in (c # line, r)))"

lemma fgets_length: "fgets n s = (line, r) \<Longrightarrow> length line + length r = length s \<and> (2 \<le> n \<longrightarrow> s \<noteq> [] \<longrightarrow> line \<noteq> [])"
proof (induction n s arbitrary: line r rule: fgets.induct)
  case (4 n c s)
  show ?case
  proof (cases "c = CHR 0x0A")
    case True
    with 4(2) show ?thesis by auto
  next
    case False
    obtain l r' where f: "fgets (Suc n) s = (l, r')" by (cases "fgets (Suc n) s")
    with 4(1) [OF False f] 4(2) False show ?thesis by auto
  qed
qed auto

lemma fgets_rest_shorter:
  assumes "s \<noteq> []" "(line, rest) = fgets n s" "2 \<le> n"
  shows "length rest < length s"
  using fgets_length [OF assms(2) [symmetric]] assms(1,3) by (cases line) auto

lemma fgets_line:
  "CHR 0x0A \<notin> set s \<Longrightarrow> length s + 1 < n \<Longrightarrow> fgets n (s @ CHR 0x0A # r) = (s @ [CHR 0x0A], r)"
proof (induction n "s @ CHR 0x0A # r" arbitrary: s rule: fgets.induct)
  case (4 n c t)
  then show ?case by (cases s) auto
qed auto

lemma strchr_first: "c \<notin> set s \<Longrightarrow> strchr (s @ c # r) c = Some (length s)"
  by (induction s) auto

end
