(* ===== verification/In_Common.thy ===== *)
theory In_Common
  imports Op_Types C_Strings
begin

unbundle bit_operations_syntax

text \<open>
  The helpers of \<open>in_common.c\<close>: the parsers for numbers, flags and times that the trace reader
  uses, and the deletion of the list of operations. The constants are those of the C library's
  headers on 64-bit Linux, with \<open>_GNU_SOURCE\<close> as the Makefile sets it.
\<close>

section \<open>Constants of the system headers\<close>

definition O_WRONLY :: i32 where "O_WRONLY = 1"
definition O_RDWR :: i32 where "O_RDWR = 2"
definition O_CREAT :: i32 where "O_CREAT = 0x40"
definition O_EXCL :: i32 where "O_EXCL = 0x80"
definition O_NOCTTY :: i32 where "O_NOCTTY = 0x100"
definition O_TRUNC :: i32 where "O_TRUNC = 0x200"
definition O_APPEND :: i32 where "O_APPEND = 0x400"
definition O_NONBLOCK :: i32 where "O_NONBLOCK = 0x800"
definition O_ASYNC :: i32 where "O_ASYNC = 0x2000"
definition O_DIRECT :: i32 where "O_DIRECT = 0x4000"
definition O_DIRECTORY :: i32 where "O_DIRECTORY = 0x10000"
definition O_NOFOLLOW :: i32 where "O_NOFOLLOW = 0x20000"
definition O_NOATIME :: i32 where "O_NOATIME = 0x40000"
definition O_CLOEXEC :: i32 where "O_CLOEXEC = 0x80000"
definition O_SYNC :: i32 where "O_SYNC = 0x101000"
definition CLONE_FILES :: i32 where "CLONE_FILES = 0x400"

lemmas o_defs = O_WRONLY_def O_RDWR_def O_CREAT_def O_EXCL_def O_NOCTTY_def O_TRUNC_def O_APPEND_def
  O_NONBLOCK_def O_ASYNC_def O_DIRECT_def O_DIRECTORY_def O_NOFOLLOW_def O_NOATIME_def O_CLOEXEC_def
  O_SYNC_def CLONE_FILES_def

section \<open>Deleting the list of operations\<close>

text \<open>
  \<open>remove_items\<close> frees the items up to the first one with an unknown code. The model returns the
  items that stay allocated with the return value.
\<close>

definition removable :: "char \<Rightarrow> bool" where
  "removable c \<longleftrightarrow> c \<in> {OP_WRITE, OP_READ, OP_PWRITE, OP_PREAD, OP_OPEN, OP_CLOSE, OP_UNLINK, OP_LSEEK,
     OP_LLSEEK, OP_CLONE, OP_MKDIR, OP_RMDIR, OP_DUP, OP_DUP2, OP_DUP3, OP_PIPE, OP_ACCESS, OP_STAT,
     OP_SOCKET, OP_SENDFILE}"

fun remove_items :: "op_item list \<Rightarrow> i32 \<times> op_item list" where
  "remove_items [] = (0, [])"
| "remove_items (it # its) =
     (if removable (type it) then remove_items its else (-1, it # its))"

section \<open>Numbers\<close>

text \<open>
  \<open>read_integer\<close>: the digits up to the end, a space or a new line. It returns the number of
  characters read, the end character included, 0 when there was none, and -1 at another
  character; \<open>*num\<close> is a \<open>long long\<close>.
\<close>

definition number_end :: "char \<Rightarrow> bool" where
  "number_end c \<longleftrightarrow> c = NUL \<or> c = CHR 0x20 \<or> c = CHR 0x0A"

fun read_integer_loop :: "string \<Rightarrow> i64 \<Rightarrow> int \<Rightarrow> int \<times> i64" where
  "read_integer_loop [] num char_read = (if char_read = 1 then 0 else char_read, num)"
| "read_integer_loop (c # s) num char_read =
     (if number_end c then (if char_read = 1 then 0 else char_read, num)
      else (let num = num * 10; d = word_of_nat (of_char c) - (48 :: byte) in
        if 0 \<le> sint d \<and> sint d \<le> 9 then read_integer_loop s (num + scast d) (char_read + 1)
        else (-1, num)))"

definition read_integer :: "string \<Rightarrow> int \<times> i64" where
  "read_integer str = read_integer_loop str 0 1"

section \<open>Flags\<close>

definition read_open_flag :: "string \<Rightarrow> i32" where
  "read_open_flag s =
     (if s = ''O_APPEND'' then O_APPEND
      else if s = ''O_RDONLY'' then 0
      else if s = ''O_WRONLY'' then O_WRONLY
      else if s = ''O_RDWR'' then O_RDWR
      else if s = ''O_ASYNC'' then O_ASYNC
      else if s = ''O_CLOEXEC'' then 0
      else if s = ''O_CREAT'' then O_CREAT
      else if s = ''O_DIRECT'' then O_DIRECT
      else if s = ''O_DIRECTORY'' then O_DIRECTORY
      else if s = ''O_LARGEFILE'' then 0
      else if s = ''O_NOATIME'' then O_NOATIME
      else if s = ''O_NOFOLLOW'' then O_NOFOLLOW
      else if s = ''O_NOCTTY'' then O_NOCTTY
      else if s = ''O_EXCL'' then O_EXCL
      else if s = ''O_NONBLOCK'' then O_NONBLOCK
      else if s = ''O_NDELAY'' then O_NONBLOCK
      else if s = ''O_SYNC'' then O_SYNC
      else if s = ''O_TRUNC'' then O_TRUNC
      else 0)"

text \<open>The loops over \<open>strtok(str, "|")\<close>.\<close>

fun or_flags :: "(string \<Rightarrow> i32) \<Rightarrow> string list \<Rightarrow> i32 \<Rightarrow> i32" where
  "or_flags f [] flags = flags"
| "or_flags f (s # ss) flags = or_flags f ss (or flags (f s))"

definition read_open_flags :: "string \<Rightarrow> i32" where
  "read_open_flags str = or_flags read_open_flag (strtok (CHR ''|'') str) 0"

text \<open>\<open>strccount\<close>: as many rounds of \<open>strchr\<close> as there are characters \<open>c\<close>, and one more.\<close>

fun strccount_loop :: "nat \<Rightarrow> string \<Rightarrow> char \<Rightarrow> int \<Rightarrow> int" where
  "strccount_loop 0 s c rv = rv"
| "strccount_loop (Suc fuel) s c rv =
     (case strchr s c of
        None \<Rightarrow> rv + 1
      | Some i \<Rightarrow> strccount_loop fuel (drop (Suc i) s) c (rv + 1))"

definition strccount :: "string \<Rightarrow> char \<Rightarrow> int" where
  "strccount s c = strccount_loop (Suc (length s)) s c 0 - 1"

definition read_clone_flag :: "string \<Rightarrow> i32" where
  "read_clone_flag s = (if s = ''CLONE_FILES'' then CLONE_FILES else 0)"

definition read_clone_flags :: "string \<Rightarrow> i32" where
  "read_clone_flags str = or_flags read_clone_flag (strtok (CHR ''|'') str) 0"

definition read_seek_flag :: "string \<Rightarrow> i32" where
  "read_seek_flag s =
     (if s = ''SEEK_SET'' then 0 else if s = ''SEEK_CUR'' then 1 else if s = ''SEEK_END'' then 2 else 0)"

definition read_access_flag :: "string \<Rightarrow> i32" where
  "read_access_flag s =
     (if s = ''F_OK'' then 0 else if s = ''R_OK'' then 4 else if s = ''W_OK'' then 2
      else if s = ''X_OK'' then 1 else 0)"

definition read_access_flags :: "string \<Rightarrow> i32" where
  "read_access_flags str = or_flags read_access_flag (strtok (CHR ''|'') str) 0"

definition read_dup3_flags :: "string \<Rightarrow> i32" where
  "read_dup3_flags str = (if str = ''O_CLOEXEC'' then O_CLOEXEC else 0)"

section \<open>Times\<close>

definition read_time :: "string \<Rightarrow> int32timeval" where
  "read_time timestr =
     (case strtok (CHR ''.'') timestr of
        [] \<Rightarrow> \<lparr>tv_sec = 0, tv_usec = 0\<rparr>
      | [s] \<Rightarrow> \<lparr>tv_sec = atoi s, tv_usec = 0\<rparr>
      | s # u # _ \<Rightarrow> \<lparr>tv_sec = atoi s, tv_usec = atoi u\<rparr>)"

definition read_duration :: "string \<Rightarrow> i32" where
  "read_duration timestr =
     (case strtok (CHR ''.'') timestr of
        [] \<Rightarrow> 0
      | [s] \<Rightarrow> atoi s * 1000000
      | s # u # _ \<Rightarrow> atoi s * 1000000 + atoi u)"

section \<open>What the helpers compute\<close>

lemma strchr_Some_props:
  "strchr s c = Some i \<Longrightarrow> i < length s \<and> count_list s c = Suc (count_list (drop (Suc i) s) c)"
  by (induction s arbitrary: i) (auto split: if_splits)

lemma strchr_None_props: "strchr s c = None \<Longrightarrow> count_list s c = 0"
  by (induction s) (auto split: if_splits)

lemma strccount_loop_count:
  "length s < fuel \<Longrightarrow> strccount_loop fuel s c rv = rv + int (count_list s c) + 1"
proof (induction fuel s c rv rule: strccount_loop.induct)
  case (2 fuel s c rv)
  show ?case
  proof (cases "strchr s c")
    case None
    then show ?thesis by (simp add: strchr_None_props)
  next
    case (Some i)
    note p = strchr_Some_props [OF Some]
    have "length (drop (Suc i) s) < fuel" using p 2(2) by (simp only: length_drop) linarith
    with 2(1) [OF Some] p Some show ?thesis by simp
  qed
qed simp

lemma strccount_count: "strccount s c = int (count_list s c)"
  using strccount_loop_count [of s "Suc (length s)" c 0] by (simp only: strccount_def)

lemma digit_word:
  assumes "is_digit c"
  shows "sint (word_of_nat (of_char c) - (48 :: byte)) = int (digit_val c)"
proof -
  obtain d where d: "(of_char c :: nat) = 48 + d" "d \<le> 9"
  proof
    show "(of_char c :: nat) = 48 + (of_char c - 48)" "of_char c - 48 \<le> (9::nat)"
      using assms by (auto simp: is_digit_def)
  qed
  have "sint (word_of_nat d :: byte) = int d"
    using d(2) by (simp add: signed_of_nat take_bit_nat_eq_self signed_take_bit_int_eq_self)
  then show ?thesis by (simp add: d(1) digit_val_def)
qed

lemma is_digit_not_end: "is_digit c \<Longrightarrow> \<not> number_end c"
  using is_digit_not [of c] by (auto simp: number_end_def is_digit_def)

text \<open>On a number the loop counts the characters and accumulates the decimal value modulo \<open>2 ^ 64\<close>.\<close>

lemma read_integer_loop_digits:
  assumes "\<forall>c\<in>set ds. is_digit c" "r = [] \<or> number_end (hd r)" "0 < k"
  shows "read_integer_loop (ds @ r) (word_of_nat n) k =
    (if ds = [] \<and> k = 1 then 0 else k + int (length ds), word_of_nat (digits_val n ds))"
  using assms
proof (induction ds arbitrary: n k)
  case Nil
  then show ?case by (cases r) auto
next
  case (Cons c ds)
  let ?d = "word_of_nat (of_char c) - (48 :: byte)"
  have c: "is_digit c" using Cons.prems by simp
  have v: "digit_val c \<le> 9" using c by (auto simp: is_digit_def digit_val_def)
  have num: "word_of_nat n * 10 + scast ?d = (word_of_nat (10 * n + digit_val c) :: i64)"
    using digit_word [OF c] by (simp add: scast_eq mult.commute)
  have step: "read_integer_loop (c # ds @ r) (word_of_nat n) k =
      read_integer_loop (ds @ r) (word_of_nat (10 * n + digit_val c)) (k + 1)"
    using is_digit_not_end [OF c] digit_word [OF c] v by (simp only: append_Cons read_integer_loop.simps Let_def if_False if_True num) simp
  have "read_integer_loop (ds @ r) (word_of_nat (10 * n + digit_val c)) (k + 1) =
    (if ds = [] \<and> k + 1 = 1 then 0 else (k + 1) + int (length ds),
     word_of_nat (digits_val (10 * n + digit_val c) ds))"
    by (rule Cons.IH) (use Cons.prems in auto)
  with step Cons.prems(3) show ?case by simp
qed

lemma or_flags_bit: "bit (or_flags f ss a) n \<longleftrightarrow> bit a n \<or> (\<exists>s\<in>set ss. bit (f s) n)"
  by (induction f ss a rule: or_flags.induct) (auto simp: bit_or_iff)

end
