(* ===== verification/Namemap.thy ===== *)
theory Namemap
  imports Adt_Hash_Table In_Common
begin

text \<open>
  The renaming of files of \<open>namemap.c\<close>: a list of patterns of files to ignore, and a hash table
  from original names to mapped names, both loaded from text files. \<open>fnmatch\<close> and the contents
  of the files are parameters.
\<close>

record namemap_item =
  old_name :: string
  new_name :: string

record namemap =
  ht_map :: "namemap_item hash_table"
  l_igns :: "namemap_item list"

text \<open>\<open>strncmp(a, b, MAX_STRING) == 0\<close>\<close>

definition strn_eq :: "string \<Rightarrow> string \<Rightarrow> bool" where
  "strn_eq a b \<longleftrightarrow> take MAX_STRING a = take MAX_STRING b"

definition ht_ops_namemap :: "(string, namemap_item) hash_table_operations" where
  "ht_ops_namemap = \<lparr>hash = ht_hash_str, compare = (\<lambda>k x. strn_eq (old_name x) k)\<rparr>"

abbreviation name_fits :: "string \<Rightarrow> bool" where
  "name_fits s \<equiv> length s < MAX_STRING"

lemma strn_eq_fits: "name_fits a \<Longrightarrow> name_fits b \<Longrightarrow> strn_eq a b \<longleftrightarrow> a = b"
  by (simp add: strn_eq_def)

interpretation nmap: table_ops ht_ops_namemap name_fits old_name
  by unfold_locales (auto simp: ht_ops_namemap_def ht_hash_str_range strn_eq_fits)

section \<open>Loading\<close>

definition is_alnum :: "char \<Rightarrow> bool" where
  "is_alnum c \<longleftrightarrow> is_digit c \<or> (65 \<le> (of_char c :: nat) \<and> (of_char c :: nat) \<le> 90) \<or>
     (97 \<le> (of_char c :: nat) \<and> (of_char c :: nat) \<le> 122)"

text \<open>
  \<open>load_chars\<close> is the copying loop from position \<open>i\<close> on: it stops at the end of the line, at
  the closing character, or when \<open>max_len\<close> (\<open>size\<close> in the code) is reached, and gives the characters copied, the
  position and the rest of the line.
\<close>

fun load_chars :: "char \<Rightarrow> string \<Rightarrow> nat \<Rightarrow> nat \<Rightarrow> string \<times> nat \<times> string" where
  "load_chars q [] i max_len = ([], i, [])"
| "load_chars q (c # s) i max_len =
     (if c \<noteq> q \<and> i < max_len
      then (let (name, j, r) = load_chars q s (Suc i) max_len in (c # name, j, r))
      else ([], i, c # s))"

text \<open>\<open>namemap_load_item\<close>: the name read and the rest of the line, or \<open>None\<close> after an error.\<close>

definition namemap_load_item :: "string \<Rightarrow> nat \<Rightarrow> (string \<times> string) option" where
  "namemap_load_item line max_len =
     (case line of
        [] \<Rightarrow> None
      | c # s \<Rightarrow>
          if c = CHR 0x22 then
            (let (name, i, r) = load_chars (CHR 0x22) s 1 max_len in
             if r = [] then None
             else if MAX_STRING \<le> i then None
             else Some (name, tl r))
          else if is_alnum c \<or> c = CHR ''/'' then
            (let (name, i, r) = load_chars (CHR 0x20) line 0 max_len in
             if MAX_STRING \<le> i then None else Some (name, r))
          else None)"

text \<open>
  The second name starts one character after the first. When the first one ended the line, that
  is the terminator the line had before its newline was overwritten, hence the empty string.
\<close>

definition namemap_load_items :: "string \<Rightarrow> nat \<Rightarrow> (string \<times> string) option" where
  "namemap_load_items line max_len =
     (case namemap_load_item line max_len of
        None \<Rightarrow> None
      | Some (o_name, r) \<Rightarrow>
          (case namemap_load_item (drop 1 r) max_len of
             None \<Rightarrow> None
           | Some (n_name, r) \<Rightarrow> if r \<noteq> [] then None else Some (o_name, n_name)))"

text \<open>The loop that replaces the newline within the first \<open>MAX_STRING\<close> characters, up to a \<open>NUL\<close>.\<close>

definition cut_newline :: "string \<Rightarrow> string option" where
  "cut_newline line =
     (case strchr (take MAX_STRING (cstr line)) (CHR 0x0A) of
        None \<Rightarrow> None
      | Some i \<Rightarrow> Some (take i line))"

text \<open>The two reading loops; they return -1 (here \<open>False\<close>) with what was loaded before the error.\<close>

function load_ignores :: "string \<Rightarrow> namemap \<Rightarrow> bool \<times> namemap" where
  "load_ignores file nm =
     (if file = [] then (True, nm)
      else (let (line, rest) = fgets MAX_STRING file in
        if take 1 line = ''#'' then load_ignores rest nm
        else (case cut_newline line of
            None \<Rightarrow> (False, nm)
          | Some line \<Rightarrow>
              load_ignores rest (nm\<lparr>l_igns := l_igns nm @ [\<lparr>old_name = line, new_name = []\<rparr>]\<rparr>))))"
  by pat_completeness auto

termination load_ignores
  by (relation "measure (length \<circ> fst)")
    (auto intro: fgets_rest_shorter simp: MAX_STRING_def)

function load_mappings :: "string \<Rightarrow> namemap \<Rightarrow> (bool \<times> namemap) res" where
  "load_mappings file nm =
     (if file = [] then Inr (True, nm)
      else (let (line, rest) = fgets (2 * MAX_STRING + 2) file in
        if take 1 line = ''#'' then load_mappings rest nm
        else (case cut_newline line of
            None \<Rightarrow> Inr (False, nm)
          | Some line \<Rightarrow>
              (case namemap_load_items line MAX_STRING of
                 None \<Rightarrow> Inr (False, nm)
               | Some (o_name, n_name) \<Rightarrow>
                   bindR (hash_table_insert ht_ops_namemap o_name
                            \<lparr>old_name = o_name, new_name = n_name\<rparr> (ht_map nm)) (\<lambda>t.
                   load_mappings rest (nm\<lparr>ht_map := t\<rparr>))))))"
  by pat_completeness auto

termination load_mappings
  by (relation "measure (length \<circ> fst)")
    (auto intro: fgets_rest_shorter simp: MAX_STRING_def)

declare load_ignores.simps [simp del] load_mappings.simps [simp del]

text \<open>
  \<open>namemap_init\<close>; \<open>files\<close> gives the contents of the files that can be opened. The result is the
  return value 0 or -1 and the tables.
\<close>

definition open_list :: "(string \<Rightarrow> string option) \<Rightarrow> string option \<Rightarrow> string option option" where
  "open_list files filename =
     (case filename of None \<Rightarrow> Some None | Some f \<Rightarrow> map_option Some (files f))"

definition namemap_init ::
  "(string \<Rightarrow> string option) \<Rightarrow> string option \<Rightarrow> string option \<Rightarrow> (i32 \<times> namemap) res" where
  "namemap_init files ifilename mfilename =
     (let nm = \<lparr>ht_map = hash_table_init HASH_TABLE_SIZE, l_igns = []\<rparr> in
      case open_list files ifilename of
        None \<Rightarrow> Inr (-1, nm)
      | Some ifile \<Rightarrow>
          (case open_list files mfilename of
             None \<Rightarrow> Inr (-1, nm)
           | Some mfile \<Rightarrow>
               (let (ok, nm) = (case ifile of None \<Rightarrow> (True, nm) | Some f \<Rightarrow> load_ignores f nm) in
                if \<not> ok then Inr (-1, nm)
                else bindR (case mfile of None \<Rightarrow> Inr (True, nm) | Some f \<Rightarrow> load_mappings f nm)
                  (\<lambda>(ok, nm). Inr (if ok then 0 else -1, nm)))))"

section \<open>Lookup\<close>

text \<open>\<open>fnmatch(pattern, name, 0)\<close> returns 0 on a match, \<open>FNM_NOMATCH\<close>, or another value after an error.\<close>

definition FNM_NOMATCH :: int where "FNM_NOMATCH = 1"

fun ignored :: "(string \<Rightarrow> string \<Rightarrow> int) \<Rightarrow> namemap_item list \<Rightarrow> string \<Rightarrow> bool" where
  "ignored fnmatch [] name = False"
| "ignored fnmatch (it # its) name =
     (let rv = fnmatch (old_name it) name in
      if rv = 0 then True
      else if rv \<noteq> FNM_NOMATCH then True
      else ignored fnmatch its name)"

definition namemap_get_name :: "(string \<Rightarrow> string \<Rightarrow> int) \<Rightarrow> namemap \<Rightarrow> string \<Rightarrow> string option res" where
  "namemap_get_name fnmatch nm name =
     (if ignored fnmatch (l_igns nm) name then Inr None
      else bindR (hash_table_find ht_ops_namemap name (ht_map nm)) (\<lambda>item.
        case item of Some it \<Rightarrow> Inr (Some (new_name it)) | None \<Rightarrow> Inr (Some name)))"

text \<open>\<open>namemap_finish\<close>: the items it frees, in order.\<close>

definition namemap_finish :: "namemap \<Rightarrow> namemap_item list" where
  "namemap_finish nm = hash_table_destroy (\<lambda>it freed. freed @ [it]) (ht_map nm) [] @ l_igns nm"

end
