(* ===== verification/Name_Files.thy ===== *)
theory Name_Files
  imports Namemap
begin

text \<open>
  The files that name the mapped and the ignored files, as a user writes them, and what a lookup
  gives after they were loaded.
\<close>

section \<open>Lines\<close>

text \<open>A line of a mapping file: a comment, or two quoted names.\<close>

datatype map_line = Comment string | Mapping string string

fun map_line_text :: "map_line \<Rightarrow> string" where
  "map_line_text (Comment s) = CHR ''#'' # s @ [CHR 0x0A]"
| "map_line_text (Mapping old new) =
     [CHR 0x22] @ old @ [CHR 0x22, CHR '' '', CHR 0x22] @ new @ [CHR 0x22, CHR 0x0A]"

definition quotable :: "string \<Rightarrow> bool" where
  "quotable s \<longleftrightarrow> set s \<inter> {CHR 0x22, CHR 0x0A, NUL} = {}"

fun map_line_ok :: "map_line \<Rightarrow> bool" where
  "map_line_ok (Comment s) \<longleftrightarrow> CHR 0x0A \<notin> set s \<and> length s \<le> 2 * MAX_STRING - 1"
| "map_line_ok (Mapping old new) \<longleftrightarrow> quotable old \<and> quotable new \<and> length old + length new + 5 < MAX_STRING"

definition map_file :: "map_line list \<Rightarrow> string" where
  "map_file ls = concat (map map_line_text ls)"

fun mappings :: "map_line list \<Rightarrow> (string \<times> string) list" where
  "mappings [] = []"
| "mappings (Comment s # ls) = mappings ls"
| "mappings (Mapping old new # ls) = (old, new) # mappings ls"

text \<open>The lines of an ignore file: a pattern each, or a comment.\<close>

definition ignore_file :: "string list \<Rightarrow> string" where
  "ignore_file ps = concat (map (\<lambda>p. p @ [CHR 0x0A]) ps)"

definition ignore_line_ok :: "string \<Rightarrow> bool" where
  "ignore_line_ok p \<longleftrightarrow> CHR 0x0A \<notin> set p \<and> NUL \<notin> set p \<and> length p + 1 < MAX_STRING"

definition is_comment :: "string \<Rightarrow> bool" where
  "is_comment p \<longleftrightarrow> take 1 p = ''#''"

section \<open>Loading\<close>

lemma load_chars_quoted:
  "q \<notin> set s \<Longrightarrow> i + length s < m \<Longrightarrow> load_chars q (s @ q # r) i m = (s, i + length s, q # r)"
  by (induction s arbitrary: i) auto

lemma load_item_quoted:
  assumes "quotable s" "length s + 1 < MAX_STRING"
  shows "namemap_load_item (CHR 0x22 # s @ CHR 0x22 # r) MAX_STRING = Some (s, r)"
  using assms load_chars_quoted [of "CHR 0x22" s 1 MAX_STRING r]
  by (simp add: namemap_load_item_def quotable_def)

lemma load_items_quoted:
  assumes "quotable old" "quotable new" "length old + length new + 5 < MAX_STRING"
  shows "namemap_load_items ([CHR 0x22] @ old @ [CHR 0x22, CHR '' '', CHR 0x22] @ new @ [CHR 0x22]) MAX_STRING = Some (old, new)"
  using load_item_quoted [OF assms(1), of "CHR '' '' # CHR 0x22 # new @ [CHR 0x22]"] load_item_quoted [OF assms(2), of "[]"] assms(3)
  by (simp add: namemap_load_items_def)

lemma cut_newline_line:
  assumes "CHR 0x0A \<notin> set s" "NUL \<notin> set s" "length s < MAX_STRING"
  shows "cut_newline (s @ [CHR 0x0A]) = Some s"
proof -
  have "cstr (s @ [CHR 0x0A]) = s @ [CHR 0x0A]" using assms(2) by (auto simp: cstr_def NUL_def takeWhile_eq_all_conv)
  moreover have "take MAX_STRING (s @ [CHR 0x0A]) = s @ [CHR 0x0A]" using assms(3) by simp
  ultimately show ?thesis using strchr_first [OF assms(1), of "[]"] by (simp add: cut_newline_def)
qed

lemma load_ignores_file:
  assumes "\<forall>p\<in>set ps. ignore_line_ok p"
  shows "load_ignores (ignore_file ps) nm = (True, nm\<lparr>l_igns := l_igns nm @
    map (\<lambda>p. \<lparr>old_name = p, new_name = []\<rparr>) (filter (\<lambda>p. \<not> is_comment p) ps)\<rparr>)"
  using assms
proof (induction ps arbitrary: nm)
  case Nil
  then show ?case by (subst load_ignores.simps) (simp add: ignore_file_def)
next
  case (Cons p ps)
  have p: "CHR 0x0A \<notin> set p" "NUL \<notin> set p" "length p + 1 < MAX_STRING" using Cons.prems by (simp_all add: ignore_line_ok_def)
  have f: "ignore_file (p # ps) = p @ CHR 0x0A # ignore_file ps" by (simp add: ignore_file_def)
  have t: "take 1 (p @ [CHR 0x0A]) = ''#'' \<longleftrightarrow> is_comment p" by (cases p) (simp_all add: is_comment_def)
  have IH: "load_ignores (ignore_file ps) nm' = (True, nm'\<lparr>l_igns := l_igns nm' @
      map (\<lambda>p. \<lparr>old_name = p, new_name = []\<rparr>) (filter (\<lambda>p. \<not> is_comment p) ps)\<rparr>)" for nm'
    using Cons by simp
  have "load_ignores (ignore_file (p # ps)) nm =
    (if is_comment p then load_ignores (ignore_file ps) nm
     else load_ignores (ignore_file ps) (nm\<lparr>l_igns := l_igns nm @ [\<lparr>old_name = p, new_name = []\<rparr>]\<rparr>))"
    unfolding f using fgets_line [OF p(1,3)] t cut_newline_line [OF p(1,2)] p(3)
    by (subst load_ignores.simps) simp
  then show ?case by (simp add: IH)
qed

text \<open>What the table knows after entries were added: the first one for a name counts.\<close>

fun entered_names :: "(string \<times> string) list \<Rightarrow> namemap \<Rightarrow> namemap \<Rightarrow> bool" where
  "entered_names es nm nm' \<longleftrightarrow> nmap.table_inv (ht_map nm') \<and> l_igns nm' = l_igns nm \<and>
     (\<forall>name. map_option new_name (nmap.table_map (ht_map nm') name) =
       (case nmap.table_map (ht_map nm) name of Some x \<Rightarrow> Some (new_name x) | None \<Rightarrow> map_of es name))"

lemma load_mappings_file:
  assumes "\<forall>l\<in>set ls. map_line_ok l" "nmap.table_inv (ht_map nm)"
  shows "\<exists>nm'. load_mappings (map_file ls) nm = Inr (True, nm') \<and> entered_names (mappings ls) nm nm'"
  using assms
proof (induction ls arbitrary: nm)
  case Nil
  then show ?case by (subst load_mappings.simps) (simp add: map_file_def split: option.split)
next
  case (Cons l ls)
  show ?case
  proof (cases l)
    case (Comment s)
    have s: "CHR 0x0A \<notin> set (CHR ''#'' # s)" "length (CHR ''#'' # s) + 1 < 2 * MAX_STRING + 2"
      using Cons.prems(1) Comment by (auto simp: MAX_STRING_def)
    have f: "map_file (l # ls) = (CHR ''#'' # s) @ CHR 0x0A # map_file ls" by (simp add: map_file_def Comment)
    have "load_mappings (map_file (l # ls)) nm = load_mappings (map_file ls) nm"
      unfolding f using fgets_line [OF s, of "map_file ls"] by (subst load_mappings.simps) simp
    then show ?thesis using Cons.IH [OF _ Cons.prems(2)] Cons.prems(1) Comment by simp
  next
    case (Mapping old new)
    let ?t = "[CHR 0x22] @ old @ [CHR 0x22, CHR '' '', CHR 0x22] @ new @ [CHR 0x22]"
    have ok: "quotable old" "quotable new" "length old + length new + 5 < MAX_STRING"
      using Cons.prems(1) Mapping by simp_all
    have t: "CHR 0x0A \<notin> set ?t" "NUL \<notin> set ?t" "length ?t < MAX_STRING" "length ?t + 1 < 2 * MAX_STRING + 2"
      using ok by (auto simp: quotable_def NUL_def)
    have f: "map_file (l # ls) = ?t @ CHR 0x0A # map_file ls" by (simp add: map_file_def Mapping)
    let ?x = "\<lparr>old_name = old, new_name = new\<rparr>"
    obtain h where h: "hash_table_insert ht_ops_namemap old ?x (ht_map nm) = Inr h" "nmap.table_inv h"
      "nmap.table_map h = (if nmap.table_map (ht_map nm) old = None then (nmap.table_map (ht_map nm))(old \<mapsto> ?x)
         else nmap.table_map (ht_map nm))"
      using nmap.insert_map [OF Cons.prems(2), of ?x] ok(3) by auto
    have run: "load_mappings (map_file (l # ls)) nm = load_mappings (map_file ls) (nm\<lparr>ht_map := h\<rparr>)"
      unfolding f using fgets_line [OF t(1,4), of "map_file ls"] cut_newline_line [OF t(1,2,3)] load_items_quoted [OF ok] h(1)
      by (subst load_mappings.simps) simp
    obtain nm' where nm': "load_mappings (map_file ls) (nm\<lparr>ht_map := h\<rparr>) = Inr (True, nm')"
      "entered_names (mappings ls) (nm\<lparr>ht_map := h\<rparr>) nm'"
      using Cons.IH [of "nm\<lparr>ht_map := h\<rparr>"] Cons.prems(1) h(2) by auto
    have "entered_names (mappings (l # ls)) nm nm'"
      using nm'(2) h(3) Mapping by (auto split: option.splits)
    then show ?thesis using run nm'(1) by auto
  qed
qed

section \<open>Lookups\<close>

lemma ignored_iff:
  "ignored fnm (map (\<lambda>p. \<lparr>old_name = p, new_name = []\<rparr>) ps) name \<longleftrightarrow> (\<exists>p\<in>set ps. fnm p name \<noteq> FNM_NOMATCH)"
  by (induction ps) (auto simp: FNM_NOMATCH_def Let_def)

text \<open>
  C14: Loading the two files of names and looking a name up: every name that a pattern of the
  ignore file matches, or for which the matcher fails, is to be ignored; every other name is replaced by
  the name that the first line of the mapping file for it gives, or stays as it is. Comments count in
  neither file. The names of a mapping must fit the reader's limits, both with their quotes in 512
  characters.
\<close>

theorem names_loaded:
  assumes "files ifile = Some (ignore_file ps)" "\<forall>p\<in>set ps. ignore_line_ok p"
    and "files mfile = Some (map_file ls)" "\<forall>l\<in>set ls. map_line_ok l"
  shows "\<exists>nm. namemap_init files (Some ifile) (Some mfile) = Inr (0, nm) \<and>
    (\<forall>fnm name. name_fits name \<longrightarrow> namemap_get_name fnm nm name =
      Inr (if \<exists>p\<in>set ps. \<not> is_comment p \<and> fnm p name \<noteq> FNM_NOMATCH then None
           else Some (case map_of (mappings ls) name of Some new \<Rightarrow> new | None \<Rightarrow> name)))"
proof -
  let ?igns = "map (\<lambda>p. \<lparr>old_name = p, new_name = []\<rparr>) (filter (\<lambda>p. \<not> is_comment p) ps)"
  let ?nm = "\<lparr>ht_map = hash_table_init HASH_TABLE_SIZE, l_igns = ?igns\<rparr>"
  have init: "nmap.table_inv (ht_map ?nm)" "nmap.table_map (ht_map ?nm) = (\<lambda>_. None)"
    by (simp_all add: nmap.init_inv nmap.init_map HASH_TABLE_SIZE_def)
  obtain nm where nm: "load_mappings (map_file ls) ?nm = Inr (True, nm)" "entered_names (mappings ls) ?nm nm"
    using load_mappings_file [OF assms(4) init(1)] by blast
  have run: "namemap_init files (Some ifile) (Some mfile) = Inr (0, nm)"
    using assms(1,3) load_ignores_file [OF assms(2)] nm(1) by (simp add: namemap_init_def open_list_def)
  have look: "namemap_get_name fnm nm name =
      Inr (if \<exists>p\<in>set ps. \<not> is_comment p \<and> fnm p name \<noteq> FNM_NOMATCH then None
           else Some (case map_of (mappings ls) name of Some new \<Rightarrow> new | None \<Rightarrow> name))" if n: "name_fits name" for fnm name
  proof -
    have inv: "nmap.table_inv (ht_map nm)" and l: "l_igns nm = ?igns"
      and m: "map_option new_name (nmap.table_map (ht_map nm) name) = map_of (mappings ls) name"
      using nm(2) init(2) by simp_all
    have "hash_table_find ht_ops_namemap name (ht_map nm) = Inr (nmap.table_map (ht_map nm) name)"
      using inv n by (rule nmap.find_map)
    moreover have "ignored fnm ?igns name \<longleftrightarrow> (\<exists>p\<in>set ps. \<not> is_comment p \<and> fnm p name \<noteq> FNM_NOMATCH)"
      unfolding ignored_iff by auto
    ultimately show ?thesis
      using m [symmetric] l by (cases "nmap.table_map (ht_map nm) name") (auto simp: namemap_get_name_def)
  qed
  from run look show ?thesis by blast
qed

text \<open>One pattern and two mappings of the same name; the matcher knows equal strings only.\<close>

definition sample_files :: "string \<Rightarrow> string option" where
  "sample_files = [''ign'' \<mapsto> ignore_file [''#no'', ''/tmp/x''],
     ''map'' \<mapsto> map_file [Comment ''names'', Mapping ''/a'' ''/b'', Mapping ''/a'' ''/c'']]"

theorem names_loaded_witness:
  "\<exists>nm. namemap_init sample_files (Some ''ign'') (Some ''map'') = Inr (0, nm) \<and>
     namemap_get_name (\<lambda>p s. if p = s then 0 else 1) nm ''/tmp/x'' = Inr None \<and>
     namemap_get_name (\<lambda>p s. if p = s then 0 else 1) nm ''/a'' = Inr (Some ''/b'') \<and>
     namemap_get_name (\<lambda>p s. if p = s then 0 else 1) nm ''/z'' = Inr (Some ''/z'')"
proof -
  have "\<exists>nm. namemap_init sample_files (Some ''ign'') (Some ''map'') = Inr (0, nm) \<and>
    (\<forall>fnm name. name_fits name \<longrightarrow> namemap_get_name fnm nm name =
      Inr (if \<exists>p\<in>set [''#no'', ''/tmp/x'']. \<not> is_comment p \<and> fnm p name \<noteq> FNM_NOMATCH then None
           else Some (case map_of (mappings [Comment ''names'', Mapping ''/a'' ''/b'', Mapping ''/a'' ''/c'']) name of
             Some new \<Rightarrow> new | None \<Rightarrow> name)))"
    by (rule names_loaded) (auto simp: sample_files_def ignore_line_ok_def quotable_def NUL_def MAX_STRING_def)
  then show ?thesis by (elim exE conjE) (auto simp: is_comment_def FNM_NOMATCH_def MAX_STRING_def)
qed

end
