(* ===== verification/Adt_List.thy ===== *)
theory Adt_List
  imports Base_Prelude
begin

text \<open>
  The intrusive doubly linked list of \<open>adt/list.c\<close>, at the level of its pointers: a heap of
  list heads and of list items, and one function per operation of the file. The second
  half relates the heap to the sequence of items it stands for (\<open>dll\<close>) and shows that
  each operation acts on that sequence as its comment says and leaves the other lists alone.
\<close>

section \<open>The heap\<close>

record list_t =
  l_head :: "addr option"
  l_tail :: "addr option"

record item_t =
  i_list :: "addr option"
  i_prev :: "addr option"
  i_next :: "addr option"

record heap =
  lists :: "addr \<rightharpoonup> list_t"
  items :: "addr \<rightharpoonup> item_t"

definition get_list :: "heap \<Rightarrow> addr \<Rightarrow> list_t res" where
  "get_list h l = of_opt Dangling (lists h l)"

definition get_item :: "heap \<Rightarrow> addr \<Rightarrow> item_t res" where
  "get_item h i = of_opt Dangling (items h i)"

definition set_list :: "addr \<Rightarrow> list_t \<Rightarrow> heap \<Rightarrow> heap" where
  "set_list l L h = h\<lparr>lists := (lists h)(l \<mapsto> L)\<rparr>"

definition set_item :: "addr \<Rightarrow> item_t \<Rightarrow> heap \<Rightarrow> heap" where
  "set_item i I h = h\<lparr>items := (items h)(i \<mapsto> I)\<rparr>"

text \<open>A pointer that is about to be dereferenced.\<close>

definition deref :: "addr option \<Rightarrow> addr res" where
  "deref p = of_opt Null_Deref p"

section \<open>The operations\<close>

definition list_init :: "addr \<Rightarrow> heap \<Rightarrow> heap" where
  "list_init l h = set_list l \<lparr>l_head = None, l_tail = None\<rparr> h"

definition item_init :: "addr \<Rightarrow> heap \<Rightarrow> heap res" where
  "item_init i h = bindR (get_item h i) (\<lambda>I. Inr (set_item i (I\<lparr>i_list := None\<rparr>) h))"

text \<open>
  The two conditional stores that every operation makes: the \<open>next\<close> field of an item, or the
  head of the list where there is no such item, and symmetrically \<open>prev\<close> and the tail.
\<close>

definition link_next :: "addr \<Rightarrow> addr option \<Rightarrow> addr option \<Rightarrow> heap \<Rightarrow> heap res" where
  "link_next l p n h =
     (case p of
        None \<Rightarrow> bindR (get_list h l) (\<lambda>L. Inr (set_list l (L\<lparr>l_head := n\<rparr>) h))
      | Some a \<Rightarrow> bindR (get_item h a) (\<lambda>A. Inr (set_item a (A\<lparr>i_next := n\<rparr>) h)))"

definition link_prev :: "addr \<Rightarrow> addr option \<Rightarrow> addr option \<Rightarrow> heap \<Rightarrow> heap res" where
  "link_prev l n p h =
     (case n of
        None \<Rightarrow> bindR (get_list h l) (\<lambda>L. Inr (set_list l (L\<lparr>l_tail := p\<rparr>) h))
      | Some a \<Rightarrow> bindR (get_item h a) (\<lambda>A. Inr (set_item a (A\<lparr>i_prev := p\<rparr>) h)))"

definition list_append :: "addr \<Rightarrow> addr \<Rightarrow> heap \<Rightarrow> heap res" where
  "list_append l it h =
     bindR (get_item h it) (\<lambda>I.
     bindR (assertR (i_list I = None)) (\<lambda>_.
     let h = set_item it (I\<lparr>i_list := Some l\<rparr>) h in
     bindR (get_list h l) (\<lambda>L.
     bindR (link_next l (l_tail L) (Some it) h) (\<lambda>h.
     bindR (get_list h l) (\<lambda>L.
     bindR (get_item h it) (\<lambda>I.
     let h = set_item it (I\<lparr>i_prev := l_tail L, i_next := None\<rparr>) h in
     Inr (set_list l (L\<lparr>l_tail := Some it\<rparr>) h)))))))"

definition list_insert_before :: "addr option \<Rightarrow> addr option \<Rightarrow> heap \<Rightarrow> heap res" where
  "list_insert_before target ins h =
     bindR (assertR (target \<noteq> None \<and> ins \<noteq> None)) (\<lambda>_.
     bindR (deref target) (\<lambda>t. bindR (deref ins) (\<lambda>n.
     bindR (get_item h t) (\<lambda>T.
     bindR (assertR (i_list T \<noteq> None)) (\<lambda>_.
     bindR (deref (i_list T)) (\<lambda>l.
     bindR (get_item h n) (\<lambda>N.
     let h = set_item n (N\<lparr>i_list := i_list T, i_prev := i_prev T\<rparr>) h in
     bindR (link_next l (i_prev T) (Some n) h) (\<lambda>h.
     bindR (get_item h n) (\<lambda>N.
     let h = set_item n (N\<lparr>i_next := Some t\<rparr>) h in
     bindR (get_item h t) (\<lambda>T. Inr (set_item t (T\<lparr>i_prev := Some n\<rparr>) h)))))))))))"

definition list_insert_after :: "addr option \<Rightarrow> addr option \<Rightarrow> heap \<Rightarrow> heap res" where
  "list_insert_after target ins h =
     bindR (assertR (target \<noteq> None \<and> ins \<noteq> None)) (\<lambda>_.
     bindR (deref target) (\<lambda>t. bindR (deref ins) (\<lambda>n.
     bindR (get_item h t) (\<lambda>T.
     bindR (assertR (i_list T \<noteq> None)) (\<lambda>_.
     bindR (deref (i_list T)) (\<lambda>l.
     bindR (get_item h n) (\<lambda>N.
     let h = set_item n (N\<lparr>i_list := i_list T, i_next := i_next T\<rparr>) h in
     bindR (link_prev l (i_next T) (Some n) h) (\<lambda>h.
     bindR (get_item h n) (\<lambda>N.
     let h = set_item n (N\<lparr>i_prev := Some t\<rparr>) h in
     bindR (get_item h t) (\<lambda>T. Inr (set_item t (T\<lparr>i_next := Some n\<rparr>) h)))))))))))"

definition list_remove :: "addr \<Rightarrow> addr option \<Rightarrow> heap \<Rightarrow> heap res" where
  "list_remove l item h =
     bindR (deref item) (\<lambda>it.
     bindR (get_item h it) (\<lambda>I.
     bindR (assertR (i_list I = Some l)) (\<lambda>_.
     let h = set_item it (I\<lparr>i_list := None\<rparr>) h in
     bindR (link_next l (i_prev I) (i_next I) h) (\<lambda>h.
     link_prev l (i_next I) (i_prev I) h))))"

definition list_remove2 :: "addr \<Rightarrow> heap \<Rightarrow> heap res" where
  "list_remove2 it h =
     bindR (get_item h it) (\<lambda>I.
     bindR (assertR (i_list I \<noteq> None)) (\<lambda>_.
     bindR (deref (i_list I)) (\<lambda>l. list_remove l (Some it) h)))"

definition list_empty :: "addr \<Rightarrow> heap \<Rightarrow> bool res" where
  "list_empty l h = bindR (get_list h l) (\<lambda>L. Inr (l_head L = None))"

text \<open>The loop of \<open>list_length\<close>; \<open>None\<close> is a loop that does not end (a cyclic chain).\<close>

partial_function (option) length_loop :: "heap \<Rightarrow> addr option \<Rightarrow> nat \<Rightarrow> nat res option" where
  "length_loop h i n =
     (case i of
        None \<Rightarrow> Some (Inr n)
      | Some p \<Rightarrow> (case items h p of
                    None \<Rightarrow> Some (Inl Dangling)
                  | Some I \<Rightarrow> length_loop h (i_next I) (Suc n)))"

definition list_length :: "addr \<Rightarrow> heap \<Rightarrow> nat res option" where
  "list_length l h =
     (case lists h l of None \<Rightarrow> Some (Inl Dangling) | Some L \<Rightarrow> length_loop h (l_head L) 0)"

definition list_rotate :: "addr \<Rightarrow> heap \<Rightarrow> (addr \<times> heap) res" where
  "list_rotate l h =
     bindR (get_list h l) (\<lambda>L.
     bindR (list_remove l (l_head L) h) (\<lambda>h.
     bindR (deref (l_head L)) (\<lambda>it.
     bindR (list_append l it h) (\<lambda>h. Inr (it, h)))))"

lemmas heap_ops = get_list_def get_item_def set_list_def set_item_def deref_def

section \<open>The sequence a list stands for\<close>

text \<open>A run of items of list \<open>l\<close>: the neighbours of each item are the neighbours in the sequence.\<close>

fun dseg :: "heap \<Rightarrow> addr \<Rightarrow> addr option \<Rightarrow> addr list \<Rightarrow> addr option \<Rightarrow> bool" where
  "dseg h l p [] n = True"
| "dseg h l p (x # xs) n \<longleftrightarrow>
     items h x = Some \<lparr>i_list = Some l, i_prev = p, i_next = first_or xs n\<rparr> \<and>
     dseg h l (Some x) xs n"

definition dll :: "heap \<Rightarrow> addr \<Rightarrow> addr list \<Rightarrow> bool" where
  "dll h l xs \<longleftrightarrow>
     lists h l = Some \<lparr>l_head = first_or xs None, l_tail = last_or None xs\<rparr> \<and>
     dseg h l None xs None \<and> distinct xs"

lemma dseg_append:
  "dseg h l p (xs @ ys) n \<longleftrightarrow> dseg h l p xs (first_or ys n) \<and> dseg h l (last_or p xs) ys n"
  by (induction xs arbitrary: p) auto

lemma dseg_frame:
  "(\<And>x. x \<in> set xs \<Longrightarrow> items h' x = items h x) \<Longrightarrow> dseg h' l p xs n = dseg h l p xs n"
  by (induction xs arbitrary: p) auto

lemma dseg_item: "dseg h l p xs n \<Longrightarrow> x \<in> set xs \<Longrightarrow> \<exists>q r. items h x = Some \<lparr>i_list = Some l, i_prev = q, i_next = r\<rparr>"
  by (induction xs arbitrary: p) auto

lemma dll_item: "dll h l xs \<Longrightarrow> x \<in> set xs \<Longrightarrow> \<exists>q r. items h x = Some \<lparr>i_list = Some l, i_prev = q, i_next = r\<rparr>"
  by (auto simp: dll_def intro: dseg_item)

lemma dll_frame:
  assumes "lists h' l = lists h l" and "\<And>x. x \<in> set xs \<Longrightarrow> items h' x = items h x"
  shows "dll h' l xs = dll h l xs"
proof -
  have "dseg h' l None xs None = dseg h l None xs None"
    using assms(2) by (rule dseg_frame)
  with assms(1) show ?thesis by (simp add: dll_def)
qed

text \<open>Items know the list they are on, so two lists never share an item.\<close>

lemma dll_disjoint: "dll h l xs \<Longrightarrow> dll h k ys \<Longrightarrow> l \<noteq> k \<Longrightarrow> set xs \<inter> set ys = {}"
  by (fastforce dest: dll_item)

text \<open>The heap change of an operation on list \<open>l\<close>: only \<open>l\<close>, its items and \<open>A\<close> may differ.\<close>

definition touches :: "heap \<Rightarrow> heap \<Rightarrow> addr \<Rightarrow> addr set \<Rightarrow> bool" where
  "touches h h' l A \<longleftrightarrow> (\<forall>k. k \<noteq> l \<longrightarrow> lists h' k = lists h k) \<and> (\<forall>x. x \<notin> A \<longrightarrow> items h' x = items h x)"

lemma touches_dll:
  assumes t: "touches h h' l A" and k: "dll h k ys" and kl: "k \<noteq> l" and A: "A \<inter> set ys = {}"
  shows "dll h' k ys"
proof -
  have "lists h' k = lists h k" using t kl by (simp add: touches_def)
  moreover have "items h' x = items h x" if "x \<in> set ys" for x
    using t A that unfolding touches_def by blast
  ultimately have "dll h' k ys = dll h k ys" by (rule dll_frame)
  with k show ?thesis by simp
qed

lemma list_init_dll: "dll (list_init l h) l []"
  by (simp add: list_init_def dll_def heap_ops)

text \<open>The two ends of a list, rewired.\<close>

lemma dseg_snocI:
  assumes "dseg h l p (xs @ [t]) n" "distinct (xs @ [t])" "items h t = Some T"
    and "\<And>y. y \<in> set xs \<Longrightarrow> items h' y = items h y" "items h' t = Some (T\<lparr>i_next := n'\<rparr>)"
  shows "dseg h' l p (xs @ [t]) n'"
proof -
  have "dseg h l p xs (Some t)" using assms(1) by (simp add: dseg_append)
  then have "dseg h' l p xs (Some t)" using assms(4) by (simp add: dseg_frame [of xs h' h])
  then show ?thesis using assms(1,3,5) by (simp add: dseg_append)
qed

lemma dseg_consI:
  assumes "dseg h l p (t # xs) n" "distinct (t # xs)" "items h t = Some T"
    and "\<And>y. y \<in> set xs \<Longrightarrow> items h' y = items h y" "items h' t = Some (T\<lparr>i_prev := p'\<rparr>)"
  shows "dseg h' l p' (t # xs) n"
proof -
  have "dseg h l (Some t) xs n" using assms(1) by simp
  then have "dseg h' l (Some t) xs n" using assms(4) by (simp add: dseg_frame [of xs h' h])
  then show ?thesis using assms(1,3,5) by simp
qed

section \<open>The operations act on the sequence\<close>

lemma link_next_dseg:
  assumes seg: "dseg h l None xs n" and dis: "distinct xs"
    and L: "lists h l = Some \<lparr>l_head = first_or xs n, l_tail = t\<rparr>"
  shows "\<exists>h'. link_next l (last_or None xs) n' h = Inr h' \<and> dseg h' l None xs n' \<and>
     lists h' l = Some \<lparr>l_head = first_or xs n', l_tail = t\<rparr> \<and> touches h h' l (set xs)"
proof (cases xs rule: rev_cases)
  case Nil
  with L show ?thesis by (simp add: link_next_def heap_ops touches_def)
next
  case (snoc ys p)
  obtain P where P: "items h p = Some P" using seg snoc by (auto simp: dseg_append)
  let ?h = "set_item p (P\<lparr>i_next := n'\<rparr>) h"
  have "dseg ?h l None (ys @ [p]) n'"
    by (rule dseg_snocI [of h l None ys p n P]) (use seg dis snoc P in \<open>auto simp: heap_ops\<close>)
  moreover have "link_next l (last_or None xs) n' h = Inr ?h"
    using snoc P by (simp add: link_next_def heap_ops)
  moreover have "touches h ?h l (set xs)"
    using snoc by (simp add: touches_def heap_ops)
  moreover have "lists ?h l = Some \<lparr>l_head = first_or xs n', l_tail = t\<rparr>"
    using snoc L by (cases ys) (simp_all add: heap_ops)
  ultimately show ?thesis using snoc by blast
qed

lemma link_prev_dseg:
  assumes seg: "dseg h l p ys None" and dis: "distinct ys"
    and L: "lists h l = Some \<lparr>l_head = hp, l_tail = last_or p ys\<rparr>"
  shows "\<exists>h'. link_prev l (first_or ys None) p' h = Inr h' \<and> dseg h' l p' ys None \<and>
     lists h' l = Some \<lparr>l_head = hp, l_tail = last_or p' ys\<rparr> \<and> touches h h' l (set ys)"
proof (cases ys)
  case Nil
  with L show ?thesis by (simp add: link_prev_def heap_ops touches_def)
next
  case (Cons a zs)
  obtain A where A: "items h a = Some A" using seg Cons by auto
  let ?h = "set_item a (A\<lparr>i_prev := p'\<rparr>) h"
  have "dseg ?h l p' (a # zs) None"
    by (rule dseg_consI [of h l p a zs None A]) (use seg dis Cons A in \<open>auto simp: heap_ops\<close>)
  moreover have "link_prev l (first_or ys None) p' h = Inr ?h"
    using Cons A by (simp add: link_prev_def heap_ops)
  moreover have "touches h ?h l (set ys)"
    using Cons by (simp add: touches_def heap_ops)
  moreover have "lists ?h l = Some \<lparr>l_head = hp, l_tail = last_or p' ys\<rparr>"
    using Cons L by (simp add: heap_ops)
  ultimately show ?thesis using Cons by blast
qed

text \<open>The three facts that put the two ends of a rewired list together again.\<close>

lemma touches_trans:
  "touches h h1 l A \<Longrightarrow> touches h1 h2 l B \<Longrightarrow> touches h h2 l (A \<union> B)"
  by (auto simp: touches_def)

lemma touches_item:
  "touches h h' l A \<Longrightarrow> x \<notin> A \<Longrightarrow> items h' x = items h x"
  by (simp add: touches_def)

lemma touches_dseg:
  assumes "touches h h' l A" and "A \<inter> set ys = {}"
  shows "dseg h' k p ys n = dseg h k p ys n"
proof (rule dseg_frame)
  fix x assume "x \<in> set ys"
  with assms(2) have "x \<notin> A" by blast
  with assms(1) show "items h' x = items h x" by (rule touches_item)
qed

lemma set_item_touches: "touches h (set_item x X h) l {x}"
  by (simp add: touches_def heap_ops)

lemma set_item_lists [simp]: "lists (set_item x X h) = lists h"
  by (simp add: heap_ops)

lemma set_item_items: "items (set_item x X h) y = (if y = x then Some X else items h y)"
  by (simp add: heap_ops)

lemma list_append_dll:
  assumes d: "dll h l xs" and it: "items h it = Some I" and out: "i_list I = None"
  shows "\<exists>h'. list_append l it h = Inr h' \<and> dll h' l (xs @ [it]) \<and> touches h h' l (insert it (set xs))"
proof -
  have ne: "it \<notin> set xs" using d it out by (auto dest!: dll_item)
  define h1 where "h1 = set_item it (I\<lparr>i_list := Some l\<rparr>) h"
  have t1: "touches h h1 l {it}" by (simp add: h1_def set_item_touches)
  have h1_lists: "lists h = lists h1" by (simp add: h1_def)
  have L: "lists h1 l = Some \<lparr>l_head = first_or xs None, l_tail = last_or None xs\<rparr>"
    and s1: "dseg h1 l None xs None" and dis: "distinct xs"
    using d ne touches_dseg [OF t1, of xs] by (auto simp: dll_def h1_def)
  obtain h2 where h2: "link_next l (last_or None xs) (Some it) h1 = Inr h2"
    and s2: "dseg h2 l None xs (Some it)" and t2: "touches h1 h2 l (set xs)"
    and L2: "lists h2 l = Some \<lparr>l_head = first_or xs (Some it), l_tail = last_or None xs\<rparr>"
    using link_next_dseg [OF s1 dis L, of "Some it"] by blast
  have it2: "items h2 it = Some (I\<lparr>i_list := Some l\<rparr>)"
    using touches_item [OF t2 ne] by (simp add: h1_def set_item_items)
  define h3 where "h3 = set_list l \<lparr>l_head = first_or xs (Some it), l_tail = Some it\<rparr>
     (set_item it (I\<lparr>i_list := Some l, i_prev := last_or None xs, i_next := None\<rparr>) h2)"
  have "list_append l it h = Inr h3"
    using it out h2 L2 it2 L h1_lists
    by (simp add: list_append_def get_item_def get_list_def h1_def [symmetric] h3_def)
  moreover have t3: "touches h2 h3 l {it}" by (simp add: h3_def touches_def heap_ops)
  then have "dseg h3 l None xs (Some it)" using touches_dseg [OF t3, of xs] ne s2 by simp
  then have "dll h3 l (xs @ [it])"
    using dis ne by (cases I) (simp add: dll_def dseg_append h3_def heap_ops)
  moreover have "touches h h3 l (insert it (set xs))"
    using touches_trans [OF touches_trans [OF t1 t2] t3] by (simp add: insert_commute)
  ultimately show ?thesis by blast
qed

lemma list_remove_dll:
  assumes d: "dll h l (xs @ x # ys)"
  shows "\<exists>h'. list_remove l (Some x) h = Inr h' \<and> dll h' l (xs @ ys) \<and>
     touches h h' l (set (xs @ x # ys)) \<and> (\<exists>X. items h' x = Some X \<and> i_list X = None)"
proof -
  have dis: "distinct xs" "distinct ys" "x \<notin> set xs" "x \<notin> set ys" "set xs \<inter> set ys = {}"
    and X: "items h x = Some \<lparr>i_list = Some l, i_prev = last_or None xs, i_next = first_or ys None\<rparr>"
    using d by (auto simp: dll_def dseg_append)
  define h1 where "h1 = set_item x \<lparr>i_list = None, i_prev = last_or None xs, i_next = first_or ys None\<rparr> h"
  have t1: "touches h h1 l {x}" by (simp add: h1_def set_item_touches)
  have s1: "dseg h1 l None xs (Some x)" and s1': "dseg h1 l (Some x) ys None"
    and L1: "lists h1 l = Some \<lparr>l_head = first_or xs (Some x), l_tail = last_or (Some x) ys\<rparr>"
    using d dis touches_dseg [OF t1, of xs] touches_dseg [OF t1, of ys]
    by (auto simp: dll_def dseg_append h1_def)
  obtain h2 where h2: "link_next l (last_or None xs) (first_or ys None) h1 = Inr h2"
    and s2: "dseg h2 l None xs (first_or ys None)" and t2: "touches h1 h2 l (set xs)"
    and L2: "lists h2 l = Some \<lparr>l_head = first_or xs (first_or ys None), l_tail = last_or (Some x) ys\<rparr>"
    using link_next_dseg [OF s1 dis(1) L1] by blast
  have s2': "dseg h2 l (Some x) ys None" using touches_dseg [OF t2] dis(5) s1' by blast
  obtain h3 where h3: "link_prev l (first_or ys None) (last_or None xs) h2 = Inr h3"
    and s3: "dseg h3 l (last_or None xs) ys None" and t3: "touches h2 h3 l (set ys)"
    and L3: "lists h3 l = Some \<lparr>l_head = first_or xs (first_or ys None), l_tail = last_or (last_or None xs) ys\<rparr>"
    using link_prev_dseg [OF s2' dis(2) L2] by blast
  have s3': "dseg h3 l None xs (first_or ys None)" using touches_dseg [OF t3] dis(5) s2 by blast
  have "list_remove l (Some x) h = Inr h3"
    using X h2 h3 by (simp add: list_remove_def deref_def get_item_def h1_def [symmetric])
  moreover have "dll h3 l (xs @ ys)"
    using dis L3 s3 s3' by (simp add: dll_def dseg_append)
  moreover have "touches h h3 l (set (xs @ x # ys))"
    using touches_trans [OF touches_trans [OF t1 t2] t3] by simp
  moreover have "items h3 x = items h1 x"
    using touches_item [OF t3 dis(4)] touches_item [OF t2 dis(3)] by simp
  ultimately show ?thesis by (auto simp: h1_def set_item_items)
qed

lemma list_remove2_dll:
  assumes d: "dll h l (xs @ x # ys)"
  shows "list_remove2 x h = list_remove l (Some x) h"
  using dll_item [OF d, of x] by (auto simp: list_remove2_def get_item_def deref_def)

lemma list_insert_before_dll:
  assumes d: "dll h l (xs @ t # ys)" and n: "items h n = Some N" and ne: "n \<notin> set (xs @ t # ys)"
  shows "\<exists>h'. list_insert_before (Some t) (Some n) h = Inr h' \<and> dll h' l (xs @ n # t # ys) \<and>
     touches h h' l (insert n (set (xs @ t # ys)))"
proof -
  have dis: "distinct xs" "distinct ys" "t \<notin> set xs" "t \<notin> set ys" "set xs \<inter> set ys = {}"
    and T: "items h t = Some \<lparr>i_list = Some l, i_prev = last_or None xs, i_next = first_or ys None\<rparr>"
    using d by (auto simp: dll_def dseg_append)
  define h1 where "h1 = set_item n (N\<lparr>i_list := Some l, i_prev := last_or None xs\<rparr>) h"
  have t1: "touches h h1 l {n}" by (simp add: h1_def set_item_touches)
  have s1: "dseg h1 l None xs (Some t)" and s1': "dseg h1 l (Some t) ys None"
    and L1: "lists h1 l = Some \<lparr>l_head = first_or xs (Some t), l_tail = last_or (Some t) ys\<rparr>"
    using d ne touches_dseg [OF t1, of xs] touches_dseg [OF t1, of ys]
    by (auto simp: dll_def dseg_append h1_def)
  obtain h2 where h2: "link_next l (last_or None xs) (Some n) h1 = Inr h2"
    and s2: "dseg h2 l None xs (Some n)" and t2: "touches h1 h2 l (set xs)"
    and L2: "lists h2 l = Some \<lparr>l_head = first_or xs (Some n), l_tail = last_or (Some t) ys\<rparr>"
    using link_next_dseg [OF s1 dis(1) L1] by blast
  have s2': "dseg h2 l (Some t) ys None" using touches_dseg [OF t2] dis(5) s1' by blast
  have nt: "items h2 n = Some (N\<lparr>i_list := Some l, i_prev := last_or None xs\<rparr>)" "items h2 t = items h t"
    using touches_item [OF t2, of n] touches_item [OF t2, of t] touches_item [OF t1, of t] ne dis
    by (auto simp: h1_def set_item_items)
  define h3 where "h3 = set_item t \<lparr>i_list = Some l, i_prev = Some n, i_next = first_or ys None\<rparr>
     (set_item n (N\<lparr>i_list := Some l, i_prev := last_or None xs, i_next := Some t\<rparr>) h2)"
  have "list_insert_before (Some t) (Some n) h = Inr h3"
    using T n ne h2 nt
    by (simp add: list_insert_before_def deref_def get_item_def h1_def [symmetric] h3_def set_item_items)
  moreover have t3: "touches h2 h3 l {n, t}" by (simp add: h3_def touches_def heap_ops)
  moreover have "dll h3 l (xs @ n # t # ys)"
    using touches_dseg [OF t3, of xs] touches_dseg [OF t3, of ys] s2 s2' L2 dis ne
    by (cases N) (auto simp: dll_def dseg_append h3_def heap_ops)
  moreover have "touches h h3 l (insert n (set (xs @ t # ys)))"
    using touches_trans [OF touches_trans [OF t1 t2] t3] by (auto simp: touches_def)
  ultimately show ?thesis by blast
qed

lemma list_insert_after_dll:
  assumes d: "dll h l (xs @ t # ys)" and n: "items h n = Some N" and ne: "n \<notin> set (xs @ t # ys)"
  shows "\<exists>h'. list_insert_after (Some t) (Some n) h = Inr h' \<and> dll h' l (xs @ t # n # ys) \<and>
     touches h h' l (insert n (set (xs @ t # ys)))"
proof -
  have dis: "distinct xs" "distinct ys" "t \<notin> set xs" "t \<notin> set ys" "set xs \<inter> set ys = {}"
    and T: "items h t = Some \<lparr>i_list = Some l, i_prev = last_or None xs, i_next = first_or ys None\<rparr>"
    using d by (auto simp: dll_def dseg_append)
  define h1 where "h1 = set_item n (N\<lparr>i_list := Some l, i_next := first_or ys None\<rparr>) h"
  have t1: "touches h h1 l {n}" by (simp add: h1_def set_item_touches)
  have s1: "dseg h1 l None xs (Some t)" and s1': "dseg h1 l (Some t) ys None"
    and L1: "lists h1 l = Some \<lparr>l_head = first_or xs (Some t), l_tail = last_or (Some t) ys\<rparr>"
    using d ne touches_dseg [OF t1, of xs] touches_dseg [OF t1, of ys]
    by (auto simp: dll_def dseg_append h1_def)
  obtain h2 where h2: "link_prev l (first_or ys None) (Some n) h1 = Inr h2"
    and s2': "dseg h2 l (Some n) ys None" and t2: "touches h1 h2 l (set ys)"
    and L2: "lists h2 l = Some \<lparr>l_head = first_or xs (Some t), l_tail = last_or (Some n) ys\<rparr>"
    using link_prev_dseg [OF s1' dis(2) L1] by blast
  have s2: "dseg h2 l None xs (Some t)" using touches_dseg [OF t2] dis(5) s1 by blast
  have nt: "items h2 n = Some (N\<lparr>i_list := Some l, i_next := first_or ys None\<rparr>)" "items h2 t = items h t"
    using touches_item [OF t2, of n] touches_item [OF t2, of t] touches_item [OF t1, of t] ne dis
    by (auto simp: h1_def set_item_items)
  define h3 where "h3 = set_item t \<lparr>i_list = Some l, i_prev = last_or None xs, i_next = Some n\<rparr>
     (set_item n (N\<lparr>i_list := Some l, i_next := first_or ys None, i_prev := Some t\<rparr>) h2)"
  have "list_insert_after (Some t) (Some n) h = Inr h3"
    using T n ne h2 nt
    by (simp add: list_insert_after_def deref_def get_item_def h1_def [symmetric] h3_def set_item_items)
  moreover have t3: "touches h2 h3 l {n, t}" by (simp add: h3_def touches_def heap_ops)
  moreover have "dll h3 l (xs @ t # n # ys)"
    using touches_dseg [OF t3, of xs] touches_dseg [OF t3, of ys] s2 s2' L2 dis ne
    by (cases N) (auto simp: dll_def dseg_append h3_def heap_ops)
  moreover have "touches h h3 l (insert n (set (xs @ t # ys)))"
    using touches_trans [OF touches_trans [OF t1 t2] t3] by (auto simp: touches_def)
  ultimately show ?thesis by blast
qed

lemma length_loop_dseg:
  "dseg h l p xs None \<Longrightarrow> length_loop h (first_or xs None) n = Some (Inr (n + length xs))"
proof (induction xs arbitrary: p n)
  case Nil
  then show ?case by (subst length_loop.simps) simp
next
  case (Cons x xs)
  from Cons.prems have "dseg h l (Some x) xs None" by simp
  then have "length_loop h (first_or xs None) (Suc n) = Some (Inr (Suc n + length xs))" by (rule Cons.IH)
  with Cons.prems show ?case by (subst length_loop.simps) simp
qed

lemma list_length_dll: "dll h l xs \<Longrightarrow> list_length l h = Some (Inr (length xs))"
  by (auto simp: list_length_def dll_def length_loop_dseg)

lemma list_empty_dll: "dll h l xs \<Longrightarrow> list_empty l h = Inr (xs = [])"
  by (cases xs) (simp_all add: list_empty_def dll_def get_list_def)

lemma list_rotate_dll:
  assumes d: "dll h l (x # xs)"
  shows "\<exists>h'. list_rotate l h = Inr (x, h') \<and> dll h' l (xs @ [x]) \<and> touches h h' l (set (x # xs))"
proof -
  obtain h1 X where h1: "list_remove l (Some x) h = Inr h1" "dll h1 l xs" "touches h h1 l (set (x # xs))"
    "items h1 x = Some X" "i_list X = None"
    using list_remove_dll [of h l "[]" x xs] d by auto
  obtain h2 where h2: "list_append l x h1 = Inr h2" "dll h2 l (xs @ [x])" "touches h1 h2 l (set (x # xs))"
    using list_append_dll [OF h1(2,4,5)] by auto
  have "lists h l = Some \<lparr>l_head = Some x, l_tail = last_or (Some x) xs\<rparr>" using d by (simp add: dll_def)
  with h1 h2 have "list_rotate l h = Inr (x, h2)" by (simp add: list_rotate_def get_list_def deref_def)
  with h2 touches_trans [OF h1(3) h2(3)] show ?thesis by auto
qed

end
