(* ===== verification/List_Calls.thy ===== *)
theory List_Calls
  imports Adt_List
begin

text \<open>
  What the operations of \<open>list.c\<close> promise to their callers: any sequence of calls behaves as the same
  calls on a plain sequence, and fails where they do.
\<close>

section \<open>Calls\<close>

datatype list_call =
    Append addr
  | Insert_Before addr addr
  | Insert_After addr addr
  | Remove addr
  | Remove2 addr
  | Rotate

fun call_list :: "addr \<Rightarrow> list_call \<Rightarrow> heap \<Rightarrow> heap res" where
  "call_list l (Append i) h = list_append l i h"
| "call_list l (Insert_Before t i) h = list_insert_before (Some t) (Some i) h"
| "call_list l (Insert_After t i) h = list_insert_after (Some t) (Some i) h"
| "call_list l (Remove i) h = list_remove l (Some i) h"
| "call_list l (Remove2 i) h = list_remove2 i h"
| "call_list l Rotate h = bindR (list_rotate l h) (\<lambda>(i, h). Inr h)"

fun call_lists :: "addr \<Rightarrow> list_call list \<Rightarrow> heap \<Rightarrow> heap res" where
  "call_lists l [] h = Inr h"
| "call_lists l (c # cs) h = bindR (call_list l c h) (call_lists l cs)"

text \<open>The specification: the sequence afterwards, or the way in which the call fails.\<close>

fun before :: "addr \<Rightarrow> addr \<Rightarrow> addr list \<Rightarrow> addr list" where
  "before t i [] = []"
| "before t i (x # xs) = (if x = t then i # x # xs else x # before t i xs)"

fun after :: "addr \<Rightarrow> addr \<Rightarrow> addr list \<Rightarrow> addr list" where
  "after t i [] = []"
| "after t i (x # xs) = (if x = t then x # i # xs else x # after t i xs)"

fun spec_call :: "list_call \<Rightarrow> addr list \<Rightarrow> addr list res" where
  "spec_call (Append i) xs = (if i \<in> set xs then Inl Assertion else Inr (xs @ [i]))"
| "spec_call (Insert_Before t i) xs = (if t \<in> set xs then Inr (before t i xs) else Inl Assertion)"
| "spec_call (Insert_After t i) xs = (if t \<in> set xs then Inr (after t i xs) else Inl Assertion)"
| "spec_call (Remove i) xs = (if i \<in> set xs then Inr (remove1 i xs) else Inl Assertion)"
| "spec_call (Remove2 i) xs = (if i \<in> set xs then Inr (remove1 i xs) else Inl Assertion)"
| "spec_call Rotate xs = (if xs = [] then Inl Null_Deref else Inr (rotate1 xs))"

fun spec_calls :: "list_call list \<Rightarrow> addr list \<Rightarrow> addr list res" where
  "spec_calls [] xs = Inr xs"
| "spec_calls (c # cs) xs = bindR (spec_call c xs) (spec_calls cs)"

text \<open>
  The calls that are allowed: on allocated items, and the item to insert must be free, which the
  code does not check except in \<open>list_append\<close>.
\<close>

fun call_items :: "list_call \<Rightarrow> addr set" where
  "call_items (Append i) = {i}"
| "call_items (Insert_Before t i) = {t, i}"
| "call_items (Insert_After t i) = {t, i}"
| "call_items (Remove i) = {i}"
| "call_items (Remove2 i) = {i}"
| "call_items Rotate = {}"

fun inserts :: "list_call \<Rightarrow> addr set" where
  "inserts (Insert_Before t i) = {i}"
| "inserts (Insert_After t i) = {i}"
| "inserts c = {}"

fun legal :: "addr set \<Rightarrow> list_call list \<Rightarrow> addr list \<Rightarrow> bool" where
  "legal U [] xs \<longleftrightarrow> True"
| "legal U (c # cs) xs \<longleftrightarrow> call_items c \<subseteq> U \<and> inserts c \<inter> set xs = {} \<and>
     (case spec_call c xs of Inl _ \<Rightarrow> True | Inr ys \<Rightarrow> legal U cs ys)"

section \<open>The sequence of a heap\<close>

text \<open>The list \<open>l\<close> stands for \<open>xs\<close>, and the other items of \<open>U\<close> are free.\<close>

definition holds :: "heap \<Rightarrow> addr \<Rightarrow> addr set \<Rightarrow> addr list \<Rightarrow> bool" where
  "holds h l U xs \<longleftrightarrow> dll h l xs \<and> set xs \<subseteq> U \<and>
     (\<forall>i\<in>U - set xs. \<exists>I. items h i = Some I \<and> i_list I = None)"

lemma holds_item:
  assumes "holds h l U xs" "i \<in> U"
  shows "\<exists>I. items h i = Some I \<and> (i_list I = (if i \<in> set xs then Some l else None))"
  using assms dll_item [of h l xs i] by (cases "i \<in> set xs") (auto simp: holds_def)

lemma holds_touched:
  assumes h: "holds h l U xs" and h': "dll h' l ys" "touches h h' l S" "set ys \<subseteq> U" "S \<subseteq> U" "set xs \<subseteq> S"
    and free: "\<And>j. j \<in> S - set ys \<Longrightarrow> \<exists>I. items h' j = Some I \<and> i_list I = None"
  shows "holds h' l U ys \<and> touches h h' l U"
proof -
  have "\<exists>I. items h' j = Some I \<and> i_list I = None" if "j \<in> U - set ys" for j
  proof (cases "j \<in> S")
    case False
    then have "items h' j = items h j" "j \<notin> set xs" using h'(2,5) by (auto simp: touches_def)
    then show ?thesis using h that by (simp add: holds_def)
  qed (use free that in blast)
  moreover have "touches h h' l U" using h'(2,4) by (auto simp: touches_def)
  ultimately show ?thesis using h' by (simp add: holds_def)
qed

lemma before_split: "t \<notin> set ys \<Longrightarrow> before t i (ys @ t # zs) = ys @ i # t # zs"
  by (induction ys) auto

lemma after_split: "t \<notin> set ys \<Longrightarrow> after t i (ys @ t # zs) = ys @ t # i # zs"
  by (induction ys) auto

lemma remove1_split: "t \<notin> set ys \<Longrightarrow> remove1 t (ys @ t # zs) = ys @ zs"
  by (induction ys) auto

section \<open>One call\<close>

lemma append_refines:
  assumes h: "holds h l U xs" and i: "i \<in> U"
  shows "case spec_call (Append i) xs of
      Inl err \<Rightarrow> list_append l i h = Inl err
    | Inr ys \<Rightarrow> \<exists>h'. list_append l i h = Inr h' \<and> holds h' l U ys \<and> touches h h' l U"
proof -
  obtain I where I: "items h i = Some I" "i_list I = (if i \<in> set xs then Some l else None)"
    using holds_item [OF assms] by blast
  show ?thesis
  proof (cases "i \<in> set xs")
    case True
    then show ?thesis using I by (simp add: list_append_def get_item_def assertR_def)
  next
    case False
    obtain h' where h': "list_append l i h = Inr h'" "dll h' l (xs @ [i])" "touches h h' l (insert i (set xs))"
      using list_append_dll [of h l xs i I] h I False by (auto simp: holds_def)
    have "holds h' l U (xs @ [i]) \<and> touches h h' l U"
      using h i by (intro holds_touched [OF h h'(2,3)]) (auto simp: holds_def)
    with h'(1) False show ?thesis by simp
  qed
qed

lemma insert_refines:
  assumes h: "holds h l U xs" and U: "t \<in> U" "i \<in> U" and i: "i \<notin> set xs"
  shows "case spec_call (Insert_Before t i) xs of
      Inl err \<Rightarrow> list_insert_before (Some t) (Some i) h = Inl err
    | Inr ys \<Rightarrow> \<exists>h'. list_insert_before (Some t) (Some i) h = Inr h' \<and> holds h' l U ys \<and> touches h h' l U"
    and "case spec_call (Insert_After t i) xs of
      Inl err \<Rightarrow> list_insert_after (Some t) (Some i) h = Inl err
    | Inr ys \<Rightarrow> \<exists>h'. list_insert_after (Some t) (Some i) h = Inr h' \<and> holds h' l U ys \<and> touches h h' l U"
proof -
  obtain T I where T: "items h t = Some T" "i_list T = (if t \<in> set xs then Some l else None)" and I: "items h i = Some I"
    using holds_item [OF h U(1)] holds_item [OF h U(2)] by blast
  have no: "list_insert_before (Some t) (Some i) h = Inl Assertion" "list_insert_after (Some t) (Some i) h = Inl Assertion"
    if "t \<notin> set xs"
    using that T by (simp_all add: list_insert_before_def list_insert_after_def get_item_def deref_def assertR_def)
  have yes: "(\<exists>h'. list_insert_before (Some t) (Some i) h = Inr h' \<and> holds h' l U (before t i xs) \<and> touches h h' l U) \<and>
      (\<exists>h'. list_insert_after (Some t) (Some i) h = Inr h' \<and> holds h' l U (after t i xs) \<and> touches h h' l U)"
    if t: "t \<in> set xs"
  proof -
    obtain ys zs where xs: "xs = ys @ t # zs" "t \<notin> set ys" using split_list_first [OF t] by blast
    have d: "dll h l (ys @ t # zs)" using h xs(1) by (simp add: holds_def)
    have n: "i \<notin> set (ys @ t # zs)" using i xs(1) by simp
    obtain h1 where h1: "list_insert_before (Some t) (Some i) h = Inr h1" "dll h1 l (ys @ i # t # zs)"
      "touches h h1 l (insert i (set xs))"
      using list_insert_before_dll [OF d I n] xs(1) by blast
    obtain h2 where h2: "list_insert_after (Some t) (Some i) h = Inr h2" "dll h2 l (ys @ t # i # zs)"
      "touches h h2 l (insert i (set xs))"
      using list_insert_after_dll [OF d I n] xs(1) by blast
    have "holds h1 l U (ys @ i # t # zs) \<and> touches h h1 l U"
      using h U xs(1) by (intro holds_touched [OF h h1(2,3)]) (auto simp: holds_def)
    moreover have "holds h2 l U (ys @ t # i # zs) \<and> touches h h2 l U"
      using h U xs(1) by (intro holds_touched [OF h h2(2,3)]) (auto simp: holds_def)
    ultimately show ?thesis using h1(1) h2(1) before_split [OF xs(2)] after_split [OF xs(2)] xs(1) by simp
  qed
  show "case spec_call (Insert_Before t i) xs of
      Inl err \<Rightarrow> list_insert_before (Some t) (Some i) h = Inl err
    | Inr ys \<Rightarrow> \<exists>h'. list_insert_before (Some t) (Some i) h = Inr h' \<and> holds h' l U ys \<and> touches h h' l U"
    using no yes by simp
  show "case spec_call (Insert_After t i) xs of
      Inl err \<Rightarrow> list_insert_after (Some t) (Some i) h = Inl err
    | Inr ys \<Rightarrow> \<exists>h'. list_insert_after (Some t) (Some i) h = Inr h' \<and> holds h' l U ys \<and> touches h h' l U"
    using no yes by simp
qed

lemma remove_refines:
  assumes h: "holds h l U xs" and i: "i \<in> U"
  shows "case spec_call (Remove i) xs of
      Inl err \<Rightarrow> list_remove l (Some i) h = Inl err \<and> list_remove2 i h = Inl err
    | Inr ys \<Rightarrow> \<exists>h'. list_remove l (Some i) h = Inr h' \<and> list_remove2 i h = Inr h' \<and> holds h' l U ys \<and> touches h h' l U"
proof (cases "i \<in> set xs")
  case False
  then show ?thesis using holds_item [OF assms]
    by (auto simp: list_remove_def list_remove2_def get_item_def deref_def assertR_def)
next
  case True
  obtain ys zs where xs: "xs = ys @ i # zs" "i \<notin> set ys" using split_list_first [OF True] by blast
  have d: "dll h l (ys @ i # zs)" using h xs(1) by (simp add: holds_def)
  obtain h' I where h': "list_remove l (Some i) h = Inr h'" "dll h' l (ys @ zs)" "touches h h' l (set xs)"
    "items h' i = Some I" "i_list I = None"
    using list_remove_dll [OF d] xs(1) by blast
  have "holds h' l U (ys @ zs) \<and> touches h h' l U"
    using h h'(4,5) xs(1) by (intro holds_touched [OF h h'(2,3)]) (auto simp: holds_def)
  then show ?thesis using h'(1) list_remove2_dll [OF d] remove1_split [OF xs(2)] True xs(1) by simp
qed

lemma rotate_refines:
  assumes h: "holds h l U xs"
  shows "case spec_call Rotate xs of
      Inl err \<Rightarrow> list_rotate l h = Inl err
    | Inr ys \<Rightarrow> \<exists>h'. list_rotate l h = Inr (hd xs, h') \<and> holds h' l U ys \<and> touches h h' l U"
proof (cases xs)
  case Nil
  then show ?thesis using h by (simp add: list_rotate_def holds_def dll_def get_list_def list_remove_def deref_def)
next
  case (Cons x zs)
  obtain h' where h': "list_rotate l h = Inr (x, h')" "dll h' l (zs @ [x])" "touches h h' l (set xs)"
    using list_rotate_dll [of h l x zs] h Cons by (auto simp: holds_def)
  have "holds h' l U (zs @ [x]) \<and> touches h h' l U"
    using h Cons by (intro holds_touched [OF h h'(2,3)]) (auto simp: holds_def)
  then show ?thesis using h'(1) Cons by simp
qed

lemma call_refines:
  assumes "holds h l U xs" "call_items c \<subseteq> U" "inserts c \<inter> set xs = {}"
  shows "case spec_call c xs of
      Inl err \<Rightarrow> call_list l c h = Inl err
    | Inr ys \<Rightarrow> \<exists>h'. call_list l c h = Inr h' \<and> holds h' l U ys \<and> touches h h' l U"
proof (cases c)
  case (Append i)
  then show ?thesis using append_refines [OF assms(1), of i] assms(2) by (auto split: if_splits)
next
  case (Insert_Before t i)
  then show ?thesis using insert_refines(1) [OF assms(1), of t i] assms(2,3) by (auto split: if_splits)
next
  case (Insert_After t i)
  then show ?thesis using insert_refines(2) [OF assms(1), of t i] assms(2,3) by (auto split: if_splits)
next
  case (Remove i)
  then show ?thesis using remove_refines [OF assms(1), of i] assms(2) by (auto split: if_splits)
next
  case (Remove2 i)
  then show ?thesis using remove_refines [OF assms(1), of i] assms(2) by (auto split: if_splits)
next
  case Rotate
  then show ?thesis using rotate_refines [OF assms(1)] by (auto split: if_splits)
qed

section \<open>Sequences of calls\<close>

text \<open>
  C9: The linked list refines a plain sequence: whatever calls are made on a list, on items that are
  allocated and free when they are inserted, the memory afterwards holds the sequence that the
  specification gives, with the right length, and all other lists are untouched; or the calls fail where
  the specification fails, with an assertion for an item that is on no list or on one already, and
  with a \<open>NULL\<close> dereference for the rotation of an empty list.
\<close>

theorem list_refines_sequence:
  assumes "holds h l U xs" "legal U cs xs"
  shows "case spec_calls cs xs of
      Inl err \<Rightarrow> call_lists l cs h = Inl err
    | Inr ys \<Rightarrow> (\<exists>h'. call_lists l cs h = Inr h' \<and> holds h' l U ys \<and> list_length l h' = Some (Inr (length ys)) \<and>
        list_empty l h' = Inr (ys = []) \<and> (\<forall>k zs. k \<noteq> l \<longrightarrow> dll h k zs \<longrightarrow> U \<inter> set zs = {} \<longrightarrow> dll h' k zs))"
  using assms
proof (induction cs arbitrary: h xs)
  case Nil
  then have "dll h l xs" by (simp add: holds_def)
  with Nil show ?case by (simp add: list_length_dll list_empty_dll)
next
  case (Cons c cs)
  have c: "call_items c \<subseteq> U" "inserts c \<inter> set xs = {}" using Cons.prems(2) by simp_all
  note one = call_refines [OF Cons.prems(1) c]
  show ?case
  proof (cases "spec_call c xs")
    case (Inl err)
    then show ?thesis using one by simp
  next
    case (Inr ys)
    obtain h' where h': "call_list l c h = Inr h'" "holds h' l U ys" "touches h h' l U" using one Inr by auto
    have "legal U cs ys" using Cons.prems(2) Inr by simp
    note IH = Cons.IH [OF h'(2) this]
    have keep: "dll h' k zs" if "k \<noteq> l" "dll h k zs" "U \<inter> set zs = {}" for k zs
      using touches_dll [OF h'(3) that(2,1,3)] .
    show ?thesis using IH Inr h'(1) keep by (auto split: sum.splits)
  qed
qed

text \<open>Three items; the second one is moved to the front by insertion and removal.\<close>

definition sample_heap :: heap where
  "sample_heap = list_init 0 \<lparr>lists = Map.empty,
     items = (\<lambda>i. if i < 3 then Some \<lparr>i_list = None, i_prev = None, i_next = None\<rparr> else None)\<rparr>"

theorem list_refines_sequence_witness:
  "\<exists>h. call_lists 0 [Append 0, Append 1, Insert_After 0 2, Remove 0, Append 0, Rotate] sample_heap = Inr h \<and>
     dll h 0 [1, 0, 2] \<and> list_length 0 h = Some (Inr 3)"
proof -
  have "holds sample_heap 0 {0, 1, 2} []"
    using list_init_dll [of 0] by (simp add: holds_def sample_heap_def) (simp add: list_init_def set_list_def)
  from list_refines_sequence [OF this, of "[Append 0, Append 1, Insert_After 0 2, Remove 0, Append 0, Rotate]"]
  show ?thesis by (auto simp: holds_def)
qed

end
