(* ===== verification/Fd_Map.thy ===== *)
theory Fd_Map
  imports Op_Types Adt_Hash_Table
begin

text \<open>
  The descriptor tables of \<open>fdmap.c\<close>: for every traced process a table from the descriptors of
  the original process to the descriptors of the replay, shared between processes and between
  duplicated descriptors through pointers, and the use counts of the replay's descriptors.
\<close>

section \<open>The structures\<close>

record fd_map =
  my_fd :: i32
  fm_type :: i32
  cur_pos :: i64
  fm_time_open :: int32timeval
  fm_name :: string
  fm_created :: i32
  parent_fds :: "i32 list"     \<comment> \<open>\<open>int32_t parent_fds[MAX_PARENT_IDS]\<close>\<close>
  last_par_index :: i32

text \<open>
  An \<open>fd_item_t\<close> does not change once it is in a table, so the table holds its contents,
  together with its address, and the store below only records whether it is still allocated.
\<close>

record fd_item =
  fi_addr :: addr
  old_fd :: i32
  fm_ptr :: addr

record fd_usage =
  u_fd :: i32
  usage :: i32

record process_hash_item =
  p_pid :: i32
  p_ht :: "addr option"

text \<open>
  The memory the structures live in. \<open>junk\<close> is what a fresh \<open>malloc(sizeof(fd_map_t))\<close>
  contains: the fields that nobody sets keep it.
\<close>

record fd_store =
  fd_maps :: "addr \<rightharpoonup> fd_map"
  fd_live :: "addr \<Rightarrow> bool"
  tables :: "addr \<rightharpoonup> fd_item hash_table"
  next_addr :: addr
  junk :: fd_map

definition FT_SPEC :: i32 where "FT_SPEC = -1"

section \<open>The tables' operations structures\<close>

definition ht_ops_fditem :: "(i32, fd_item) hash_table_operations" where
  "ht_ops_fditem = \<lparr>hash = ht_hash_int, compare = (\<lambda>k x. old_fd x = k)\<rparr>"

definition ht_ops_fdusage :: "(i32, fd_usage) hash_table_operations" where
  "ht_ops_fdusage = \<lparr>hash = ht_hash_int, compare = (\<lambda>k x. u_fd x = k)\<rparr>"

definition ht_ops_fdmapping :: "(i32, process_hash_item) hash_table_operations" where
  "ht_ops_fdmapping = \<lparr>hash = ht_hash_int, compare = (\<lambda>k x. p_pid x = k)\<rparr>"

abbreviation nonneg :: "i32 \<Rightarrow> bool" where
  "nonneg k \<equiv> 0 \<le> sint k"

interpretation fdt: table_ops ht_ops_fditem nonneg old_fd
  by unfold_locales (auto simp: ht_ops_fditem_def ht_hash_int_range)

interpretation use: table_ops ht_ops_fdusage nonneg u_fd
  by unfold_locales (auto simp: ht_ops_fdusage_def ht_hash_int_range)

interpretation prc: table_ops ht_ops_fdmapping nonneg p_pid
  by unfold_locales (auto simp: ht_ops_fdmapping_def ht_hash_int_range)

section \<open>Memory\<close>

definition get_map :: "fd_store \<Rightarrow> addr \<Rightarrow> fd_map res" where
  "get_map s a = of_opt Dangling (fd_maps s a)"

definition set_map :: "addr \<Rightarrow> fd_map \<Rightarrow> fd_store \<Rightarrow> fd_store" where
  "set_map a m s = s\<lparr>fd_maps := (fd_maps s)(a \<mapsto> m)\<rparr>"

definition get_table :: "fd_store \<Rightarrow> addr \<Rightarrow> fd_item hash_table res" where
  "get_table s a = of_opt Dangling (tables s a)"

definition set_table :: "addr \<Rightarrow> fd_item hash_table \<Rightarrow> fd_store \<Rightarrow> fd_store" where
  "set_table a t s = s\<lparr>tables := (tables s)(a \<mapsto> t)\<rparr>"

text \<open>\<open>fd_item->fd_map\<close>: both objects have to be allocated.\<close>

definition deref_item :: "fd_store \<Rightarrow> fd_item \<Rightarrow> fd_map res" where
  "deref_item s x = (if fd_live s (fi_addr x) then get_map s (fm_ptr x) else Inl Dangling)"

definition put_item :: "fd_item \<Rightarrow> fd_map \<Rightarrow> fd_store \<Rightarrow> fd_store res" where
  "put_item x m s = bindR (deref_item s x) (\<lambda>_. Inr (set_map (fm_ptr x) m s))"

definition free_map :: "addr \<Rightarrow> fd_store \<Rightarrow> fd_store res" where
  "free_map a s = bindR (get_map s a) (\<lambda>_. Inr (s\<lparr>fd_maps := (fd_maps s)(a := None)\<rparr>))"

definition free_item :: "fd_item \<Rightarrow> fd_store \<Rightarrow> fd_store" where
  "free_item x s = s\<lparr>fd_live := (fd_live s)(fi_addr x := False)\<rparr>"

section \<open>Items\<close>

text \<open>\<open>new_fd_item\<close>: an item with its own map, whose list of parents is empty.\<close>

definition new_fd_item :: "fd_store \<Rightarrow> fd_item \<times> fd_store" where
  "new_fd_item s =
     (let a = next_addr s; b = Suc a in
      (\<lparr>fi_addr = a, old_fd = 0, fm_ptr = b\<rparr>,
       s\<lparr>fd_live := (fd_live s)(a := True),
         fd_maps := (fd_maps s)(b \<mapsto> (junk s)\<lparr>parent_fds := replicate MAX_PARENT_IDS (-1), last_par_index := -1\<rparr>),
         next_addr := Suc b\<rparr>))"

definition delete_fd_item :: "fd_item \<Rightarrow> fd_store \<Rightarrow> fd_store res" where
  "delete_fd_item x s = bindR (free_map (fm_ptr x) s) (\<lambda>s. Inr (free_item x s))"

text \<open>\<open>insert_parent_fd\<close>: the loop stops at the first free slot, or fails on a slot that holds \<open>fd\<close>.\<close>

fun parent_slot :: "i32 \<Rightarrow> i32 list \<Rightarrow> nat \<Rightarrow> nat option res" where
  "parent_slot fd [] i = Inr None"
| "parent_slot fd (p # ps) i =
     (if p = fd then Inl Assertion
      else if p = -1 then Inr (Some i)
      else parent_slot fd ps (Suc i))"

definition insert_parent :: "i32 \<Rightarrow> fd_map \<Rightarrow> fd_map res" where
  "insert_parent fd m =
     bindR (parent_slot fd (parent_fds m) 0) (\<lambda>index.
     case index of
       Some i \<Rightarrow> Inr (m\<lparr>parent_fds := (parent_fds m)[i := fd], last_par_index := last_par_index m + 1\<rparr>)
     | None \<Rightarrow> Inr m)"

definition insert_parent_fd :: "fd_item \<Rightarrow> i32 \<Rightarrow> fd_store \<Rightarrow> fd_store res" where
  "insert_parent_fd x fd s =
     bindR (deref_item s x) (\<lambda>m. bindR (insert_parent fd m) (\<lambda>m. put_item x m s))"

text \<open>\<open>delete_parent_fd\<close>: the last entry takes the place of the deleted one.\<close>

fun delete_parent_loop :: "i32 \<Rightarrow> i32 list \<Rightarrow> nat \<Rightarrow> fd_map \<Rightarrow> fd_map res" where
  "delete_parent_loop fd [] i m = Inr m"
| "delete_parent_loop fd (p # ps) i m =
     (if p = fd then
        (let idx = last_par_index m in
         if int i = sint idx then
           Inr (m\<lparr>parent_fds := (parent_fds m)[i := -1], last_par_index := idx - 1\<rparr>)
         else if 0 < sint idx then
           Inr (m\<lparr>parent_fds := ((parent_fds m)[i := parent_fds m ! nat (sint idx)])[nat (sint idx) := -1],
                  last_par_index := idx - 1\<rparr>)
         else Inl Assertion)
      else if p = -1 then Inl Assertion
      else delete_parent_loop fd ps (Suc i) m)"

definition delete_parent :: "i32 \<Rightarrow> fd_map \<Rightarrow> (bool \<times> fd_map) res" where
  "delete_parent fd m =
     bindR (delete_parent_loop fd (parent_fds m) 0 m) (\<lambda>m. Inr (last_par_index m = -1, m))"

definition delete_parent_fd :: "fd_item \<Rightarrow> i32 \<Rightarrow> fd_store \<Rightarrow> (bool \<times> fd_store) res" where
  "delete_parent_fd x fd s =
     bindR (deref_item s x) (\<lambda>m. bindR (delete_parent fd m) (\<lambda>(last, m).
     bindR (put_item x m s) (\<lambda>s. Inr (last, s))))"

section \<open>Use counts\<close>

definition increase_fd_usage :: "i32 \<Rightarrow> fd_usage hash_table \<Rightarrow> fd_usage hash_table res" where
  "increase_fd_usage fd ht =
     bindR (hash_table_find ht_ops_fdusage fd ht) (\<lambda>item.
     case item of
       None \<Rightarrow> hash_table_insert ht_ops_fdusage fd \<lparr>u_fd = fd, usage = 1\<rparr> ht
     | Some _ \<Rightarrow> hash_table_modify ht_ops_fdusage fd (\<lambda>u. u\<lparr>usage := usage u + 1\<rparr>) ht)"

definition decrease_fd_usage :: "i32 \<Rightarrow> fd_usage hash_table \<Rightarrow> (bool \<times> fd_usage hash_table) res" where
  "decrease_fd_usage fd ht =
     bindR (hash_table_find ht_ops_fdusage fd ht) (\<lambda>item.
     case item of
       None \<Rightarrow> Inl Assertion
     | Some u \<Rightarrow>
         bindR (hash_table_modify ht_ops_fdusage fd (\<lambda>u. u\<lparr>usage := usage u - 1\<rparr>) ht) (\<lambda>ht.
         if usage u - 1 = 0 then
           bindR (hash_table_remove ht_ops_fdusage fd ht) (\<lambda>(_, ht). Inr (True, ht))
         else Inr (False, ht)))"

section \<open>Processes\<close>

definition get_process_ht :: "process_hash_item hash_table \<Rightarrow> i32 \<Rightarrow> addr option res" where
  "get_process_ht fd_mappings p =
     bindR (hash_table_find ht_ops_fdmapping p fd_mappings) (\<lambda>item.
     case item of
       Some it \<Rightarrow> Inr (if p = p_pid it then p_ht it else None)
     | None \<Rightarrow> Inr None)"

definition new_process_ht :: "i32 \<Rightarrow> fd_store \<Rightarrow> process_hash_item \<times> fd_store" where
  "new_process_ht p s =
     (let a = next_addr s in
      (\<lparr>p_pid = p, p_ht = Some a\<rparr>,
       s\<lparr>tables := (tables s)(a \<mapsto> hash_table_init HASH_TABLE_SIZE), next_addr := Suc a\<rparr>))"

definition delete_process_ht :: "i32 \<Rightarrow> process_hash_item hash_table \<Rightarrow> process_hash_item hash_table res" where
  "delete_process_ht p fd_mappings =
     bindR (hash_table_find ht_ops_fdmapping p fd_mappings) (\<lambda>item.
     case item of
       Some _ \<Rightarrow> bindR (hash_table_remove ht_ops_fdmapping p fd_mappings) (\<lambda>(_, t). Inr t)
     | None \<Rightarrow> Inr fd_mappings)"

text \<open>
  \<open>duplicate_process_ht\<close>: every item gets a new item and a new map with the contents of the old
  one, and the descriptor of the replay gains a user. The loops visit the slots and chains in order.
\<close>

fun duplicate_items ::
  "fd_item list \<Rightarrow> fd_item hash_table \<Rightarrow> fd_usage hash_table \<Rightarrow> fd_store \<Rightarrow>
   (fd_item hash_table \<times> fd_usage hash_table \<times> fd_store) res" where
  "duplicate_items [] ht usage_map s = Inr (ht, usage_map, s)"
| "duplicate_items (x # xs) ht usage_map s =
     (let (it, s) = new_fd_item s; it = it\<lparr>old_fd := old_fd x\<rparr> in
      bindR (deref_item s x) (\<lambda>m.
      bindR (put_item it m s) (\<lambda>s.
      bindR (hash_table_insert ht_ops_fditem (old_fd it) it ht) (\<lambda>ht.
      bindR (increase_fd_usage (my_fd m) usage_map) (\<lambda>usage_map.
      duplicate_items xs ht usage_map s)))))"

definition duplicate_process_ht ::
  "addr option \<Rightarrow> fd_usage hash_table \<Rightarrow> fd_store \<Rightarrow> (addr \<times> fd_usage hash_table \<times> fd_store) res" where
  "duplicate_process_ht h usage_map s =
     bindR (of_opt Null_Deref h) (\<lambda>h. bindR (get_table s h) (\<lambda>t.
     let a = next_addr s; s = s\<lparr>next_addr := Suc a\<rparr> in
     bindR (duplicate_items (concat (take (entries t) (entry t))) (hash_table_init (entries t)) usage_map s)
       (\<lambda>(ht, usage_map, s). Inr (a, usage_map, set_table a ht s))))"

section \<open>The parents of a map are a set\<close>

text \<open>
  The array of a map holds the distinct descriptors \<open>ps\<close> that refer to it, then -1 up to its end,
  and \<open>last_par_index\<close> is the index of the last of them.
\<close>

definition parents_are :: "i32 list \<Rightarrow> fd_map \<Rightarrow> bool" where
  "parents_are ps m \<longleftrightarrow> length ps \<le> MAX_PARENT_IDS \<and> distinct ps \<and> -1 \<notin> set ps \<and>
     parent_fds m = ps @ replicate (MAX_PARENT_IDS - length ps) (-1) \<and>
     last_par_index m = of_nat (length ps) - 1"

lemma parents_are_new:
  "parents_are [] (m\<lparr>parent_fds := replicate MAX_PARENT_IDS (-1), last_par_index := -1\<rparr>)"
  by (simp add: parents_are_def)

lemma parents_are_set: "parents_are ps m \<Longrightarrow> set ps = set (parent_fds m) - {-1}"
  by (auto simp: parents_are_def)

lemma parents_are_update [simp]:
  "parents_are ps (m\<lparr>my_fd := x\<rparr>) = parents_are ps m"
  "parents_are ps (m\<lparr>fm_type := x\<rparr>) = parents_are ps m"
  "parents_are ps (m\<lparr>cur_pos := y\<rparr>) = parents_are ps m"
  "parents_are ps (m\<lparr>fm_time_open := z\<rparr>) = parents_are ps m"
  "parents_are ps (m\<lparr>fm_name := n\<rparr>) = parents_are ps m"
  "parents_are ps (m\<lparr>fm_created := x\<rparr>) = parents_are ps m"
  by (simp_all add: parents_are_def)

lemma parent_slot_free:
  "fd \<noteq> -1 \<Longrightarrow> -1 \<notin> set ps \<Longrightarrow> fd \<notin> set ps \<Longrightarrow>
   parent_slot fd (ps @ replicate n (-1)) i = Inr (if n = 0 then None else Some (i + length ps))"
proof (induction ps arbitrary: i)
  case Nil
  then show ?case by (cases n) auto
qed auto

lemma parent_slot_taken: "-1 \<notin> set ps \<Longrightarrow> fd \<in> set ps \<Longrightarrow> parent_slot fd (ps @ r) i = Inl Assertion"
  by (induction ps arbitrary: i) auto

lemma insert_parent_free:
  assumes "parents_are ps m" "fd \<noteq> -1" "fd \<notin> set ps" "length ps < MAX_PARENT_IDS"
  shows "\<exists>fds. insert_parent fd m = Inr (m\<lparr>parent_fds := fds, last_par_index := last_par_index m + 1\<rparr>) \<and>
     parents_are (ps @ [fd]) (m\<lparr>parent_fds := fds, last_par_index := last_par_index m + 1\<rparr>)"
proof -
  obtain n where n: "MAX_PARENT_IDS - length ps = Suc n" using assms(4) by (cases "MAX_PARENT_IDS - length ps") auto
  have fds: "parent_fds m = ps @ replicate (Suc n) (-1)" using assms(1) n by (simp add: parents_are_def)
  have "parent_slot fd (parent_fds m) 0 = Inr (Some (length ps))"
    using assms parent_slot_free [of fd ps "Suc n" 0] fds by (simp add: parents_are_def)
  then have run: "insert_parent fd m =
      Inr (m\<lparr>parent_fds := ps @ fd # replicate n (-1), last_par_index := last_par_index m + 1\<rparr>)"
    by (simp add: insert_parent_def fds)
  moreover have "parents_are (ps @ [fd])
      (m\<lparr>parent_fds := ps @ fd # replicate n (-1), last_par_index := last_par_index m + 1\<rparr>)"
    using assms n by (auto simp: parents_are_def)
  ultimately show ?thesis by blast
qed

lemma insert_parent_full:
  assumes "parents_are ps m" "fd \<noteq> -1" "fd \<notin> set ps" "length ps = MAX_PARENT_IDS"
  shows "insert_parent fd m = Inr m"
  using assms parent_slot_free [of fd ps 0 0] by (simp add: insert_parent_def parents_are_def)

lemma insert_parent_taken:
  assumes "parents_are ps m" "fd \<in> set ps"
  shows "insert_parent fd m = Inl Assertion"
  using assms parent_slot_taken by (simp add: insert_parent_def parents_are_def)

lemma delete_parent_loop_at:
  "-1 \<notin> set pre \<Longrightarrow> fd \<notin> set pre \<Longrightarrow>
   delete_parent_loop fd (pre @ r) i m = delete_parent_loop fd r (i + length pre) m"
  by (induction pre arbitrary: i) auto

lemma replicate_more: "Suc a \<le> b \<Longrightarrow> x # replicate (b - Suc a) x = replicate (b - a) x"
  by (metis Suc_diff_Suc Suc_le_lessD replicate_Suc)

lemma sint_small: "n < 2 ^ 31 \<Longrightarrow> sint (of_nat n :: i32) = int n"
  by (simp add: signed_of_nat signed_take_bit_int_eq_self)

lemma delete_parent_absent:
  assumes "parents_are ps m" "fd \<noteq> -1" "fd \<notin> set ps"
  shows "delete_parent fd m =
    (if length ps < MAX_PARENT_IDS then Inl Assertion else Inr (last_par_index m = -1, m))"
proof -
  have fds: "parent_fds m = ps @ replicate (MAX_PARENT_IDS - length ps) (-1)" "-1 \<notin> set ps"
    using assms(1) by (simp_all add: parents_are_def)
  have step: "delete_parent_loop fd (parent_fds m) 0 m =
      delete_parent_loop fd (replicate (MAX_PARENT_IDS - length ps) (-1)) (length ps) m"
    unfolding fds(1) using delete_parent_loop_at [OF fds(2) assms(3)] by simp
  show ?thesis
    by (cases "MAX_PARENT_IDS - length ps") (use assms(2) step in \<open>auto simp: delete_parent_def\<close>)
qed

text \<open>Deleting a parent puts the last one in its place.\<close>

lemma delete_parent_present:
  assumes "parents_are ps m" "fd \<in> set ps"
  shows "\<exists>m' ps'. delete_parent fd m = Inr (set ps = {fd}, m') \<and> parents_are ps' m' \<and>
     set ps' = set ps - {fd} \<and>
     m' = m\<lparr>parent_fds := parent_fds m', last_par_index := last_par_index m - 1\<rparr>"
proof -
  obtain pre post where ps: "ps = pre @ fd # post" using assms(2) by (auto simp: in_set_conv_decomp)
  let ?n = "MAX_PARENT_IDS - length ps"
  have len: "length ps \<le> MAX_PARENT_IDS" and d: "distinct ps" and m1: "-1 \<notin> set ps"
    and fds: "parent_fds m = ps @ replicate ?n (-1)" and idx: "last_par_index m = of_nat (length ps) - 1"
    using assms(1) by (simp_all add: parents_are_def)
  have last: "sint (last_par_index m) = int (length pre + length post)"
    using sint_small [of "length pre + length post"] len idx by (simp add: ps MAX_PARENT_IDS_def)
  have start: "delete_parent_loop fd (parent_fds m) 0 m =
      delete_parent_loop fd (fd # post @ replicate ?n (-1)) (length pre) m"
    unfolding fds using delete_parent_loop_at [of pre fd _ 0 m] m1 d by (simp add: ps)
  show ?thesis
  proof (cases post rule: rev_cases)
    case Nil
    let ?m = "m\<lparr>parent_fds := pre @ -1 # replicate ?n (-1), last_par_index := last_par_index m - 1\<rparr>"
    have run: "delete_parent_loop fd (parent_fds m) 0 m = Inr ?m"
      unfolding start using last fds by (simp add: ps Nil Let_def list_update_append)
    have p: "parents_are pre ?m"
      using len d m1 idx by (auto simp: parents_are_def ps Nil replicate_more)
    have l: "last_par_index ?m = -1 \<longleftrightarrow> pre = []"
    proof -
      have e: "sint (of_nat (length pre) :: i32) = int (length pre)"
        using len by (intro sint_small) (simp add: ps MAX_PARENT_IDS_def)
      have "(of_nat (length pre) :: i32) \<noteq> 0" if "pre \<noteq> []"
      proof
        assume "(of_nat (length pre) :: i32) = 0"
        with e have "int (length pre) = 0" by simp
        with that show False by simp
      qed
      then have "(of_nat (length pre) :: i32) = 0 \<longleftrightarrow> pre = []" by auto
      then show ?thesis using idx by (simp add: ps Nil)
    qed
    have single: "set ps = {fd} \<longleftrightarrow> pre = []" using d by (cases pre) (auto simp: ps Nil)
    have "delete_parent fd m = Inr (set ps = {fd}, ?m)"
      using run unfolding delete_parent_def single l [symmetric] by simp
    with p d show ?thesis by (intro exI [of _ ?m] exI [of _ pre]) (auto simp: ps Nil)
  next
    case (snoc mid z)
    let ?m = "m\<lparr>parent_fds := pre @ z # mid @ -1 # replicate ?n (-1), last_par_index := last_par_index m - 1\<rparr>"
    have nth: "parent_fds m ! (length pre + Suc (length mid)) = z"
      unfolding fds ps snoc by (simp add: nth_append)
    have upd: "(parent_fds m)[length pre := z, length pre + Suc (length mid) := -1] =
        pre @ z # mid @ -1 # replicate ?n (-1)"
      unfolding fds ps snoc by (simp add: list_update_append)
    have run: "delete_parent_loop fd (parent_fds m) 0 m = Inr ?m"
      unfolding start using last nth upd by (simp add: snoc Let_def nat_add_distrib)
    have p: "parents_are (pre @ z # mid) ?m"
      using len d m1 idx by (auto simp: parents_are_def ps snoc replicate_more)
    have l: "last_par_index ?m \<noteq> -1"
    proof
      assume "last_par_index ?m = -1"
      then have "(of_nat (Suc (length pre + length mid)) :: i32) = 0" using idx by (simp add: ps snoc)
      then have "int (Suc (length pre + length mid)) = 0"
        using sint_small [of "Suc (length pre + length mid)"] len by (simp add: ps snoc MAX_PARENT_IDS_def)
      then show False by simp
    qed
    have "set ps \<noteq> {fd}" using d by (auto simp: ps snoc)
    then have "delete_parent fd m = Inr (set ps = {fd}, ?m)"
      using run l by (simp add: delete_parent_def)
    with p d show ?thesis by (intro exI [of _ ?m] exI [of _ "pre @ z # mid"]) (auto simp: ps snoc)
  qed
qed

section \<open>Use counts as numbers\<close>

text \<open>The number of users of a descriptor; a well-formed table has only positive counts.\<close>

definition uses :: "fd_usage hash_table \<Rightarrow> i32 \<Rightarrow> nat" where
  "uses h fd = (case use.table_map h fd of None \<Rightarrow> 0 | Some u \<Rightarrow> nat (sint (usage u)))"

definition use_ok :: "fd_usage hash_table \<Rightarrow> bool" where
  "use_ok h \<longleftrightarrow> use.table_inv h \<and> use.table_distinct h \<and>
     (\<forall>fd u. use.table_map h fd = Some u \<longrightarrow> 0 < sint (usage u))"

lemma use_ok_init: "0 < n \<Longrightarrow> use_ok (hash_table_init n)"
  by (simp add: use_ok_def use.init_inv use.init_distinct use.init_map)

lemma uses_init: "0 < n \<Longrightarrow> uses (hash_table_init n) fd = 0"
  by (simp add: uses_def use.init_map)

lemma uses_zero: "use_ok h \<Longrightarrow> uses h fd = 0 \<longleftrightarrow> use.table_map h fd = None"
  by (auto simp: uses_def use_ok_def split: option.splits) (metis nat_le_0 not_le)

lemma uses_negative: "\<not> nonneg fd \<Longrightarrow> uses h fd = 0"
  by (simp add: uses_def use.table_map_invalid)

lemma sint_succ: "sint (x :: i32) < 2 ^ 31 - 1 \<Longrightarrow> - (2 ^ 31) \<le> sint x \<Longrightarrow> sint (x + 1) = sint x + 1"
  by (simp add: sint_word_ariths signed_take_bit_int_eq_self)

lemma sint_pred: "- (2 ^ 31) < sint (x :: i32) \<Longrightarrow> sint (x - 1) = sint x - 1"
  using sint_lt [of x] by (simp add: sint_word_ariths signed_take_bit_int_eq_self)

lemma increase_uses:
  assumes ok: "use_ok h" and fd: "nonneg fd" and max: "uses h fd < 2 ^ 31 - 1"
  shows "\<exists>h'. increase_fd_usage fd h = Inr h' \<and> use_ok h' \<and> uses h' = (uses h)(fd := Suc (uses h fd))"
proof (cases "use.table_map h fd")
  case None
  let ?u = "\<lparr>u_fd = fd, usage = 1\<rparr>"
  have "hash_table_find ht_ops_fdusage fd h = Inr None"
    using ok fd None by (simp add: use.find_map use_ok_def)
  then have run: "increase_fd_usage fd h = hash_table_insert ht_ops_fdusage (u_fd ?u) ?u h"
    by (simp add: increase_fd_usage_def)
  obtain h' where h': "hash_table_insert ht_ops_fdusage (u_fd ?u) ?u h = Inr h'" "use.table_inv h'"
    "use.table_map h' = (use.table_map h)(fd \<mapsto> ?u)" "use.table_distinct h'"
    using use.insert_map [of h ?u] ok fd None by (auto simp: use_ok_def)
  have "use_ok h'" using ok h' by (auto simp: use_ok_def split: if_splits)
  moreover have "uses h' = (uses h)(fd := Suc (uses h fd))"
    using None h'(3) by (auto simp: uses_def fun_eq_iff)
  ultimately show ?thesis using run h'(1) by auto
next
  case (Some u)
  let ?f = "\<lambda>u. u\<lparr>usage := usage u + 1\<rparr>"
  have pos: "0 < sint (usage u)" using ok Some by (auto simp: use_ok_def)
  have lt: "sint (usage u) < 2 ^ 31 - 1" using max Some pos by (simp add: uses_def)
  have succ: "sint (usage u + 1) = sint (usage u) + 1" using pos lt by (intro sint_succ) simp_all
  have "hash_table_find ht_ops_fdusage fd h = Inr (Some u)"
    using ok fd Some by (simp add: use.find_map use_ok_def)
  then have run: "increase_fd_usage fd h = hash_table_modify ht_ops_fdusage fd ?f h"
    by (simp add: increase_fd_usage_def)
  obtain h' where h': "hash_table_modify ht_ops_fdusage fd ?f h = Inr h'" "use.table_inv h'"
    "use.table_map h' = (use.table_map h)(fd := map_option ?f (use.table_map h fd))" "use.table_distinct h'"
    using use.modify_map [of h fd ?f] ok fd by (auto simp: use_ok_def)
  have "0 < sint (usage v)" if v: "use.table_map h' k = Some v" for k v
  proof (cases "k = fd")
    case True
    then have "v = ?f u" using v h'(3) Some by simp
    then show ?thesis using succ pos by simp
  next
    case False
    then show ?thesis using v ok h'(3) by (simp add: use_ok_def)
  qed
  then have "use_ok h'" using h' by (simp add: use_ok_def)
  moreover have "uses h' = (uses h)(fd := Suc (uses h fd))"
    using Some h'(3) succ pos by (auto simp: uses_def fun_eq_iff nat_add_distrib)
  ultimately show ?thesis using run h'(1) by auto
qed

lemma decrease_unused: "use_ok h \<Longrightarrow> nonneg fd \<Longrightarrow> uses h fd = 0 \<Longrightarrow> decrease_fd_usage fd h = Inl Assertion"
  by (simp add: uses_zero decrease_fd_usage_def use.find_map use_ok_def)

lemma decrease_uses:
  assumes ok: "use_ok h" and fd: "nonneg fd" and used: "0 < uses h fd"
  shows "\<exists>h'. decrease_fd_usage fd h = Inr (uses h fd = 1, h') \<and> use_ok h' \<and>
    uses h' = (uses h)(fd := uses h fd - 1)"
proof -
  let ?f = "\<lambda>u. u\<lparr>usage := usage u - 1\<rparr>"
  obtain u where u: "use.table_map h fd = Some u" using used by (cases "use.table_map h fd") (auto simp: uses_def)
  have pos: "0 < sint (usage u)" using ok u by (auto simp: use_ok_def)
  have pred: "sint (usage u - 1) = sint (usage u) - 1" using pos by (intro sint_pred) simp
  have one: "usage u - 1 = 0 \<longleftrightarrow> uses h fd = 1"
  proof -
    have "usage u - 1 = 0 \<longleftrightarrow> sint (usage u - 1) = 0" by (metis signed_0 signed_word_eqI)
    also have "\<dots> \<longleftrightarrow> uses h fd = 1" using pred pos u by (simp add: uses_def nat_eq_iff)
    finally show ?thesis .
  qed
  have find: "hash_table_find ht_ops_fdusage fd h = Inr (Some u)"
    using ok fd u by (simp add: use.find_map use_ok_def)
  obtain h1 where h1: "hash_table_modify ht_ops_fdusage fd ?f h = Inr h1" "use.table_inv h1"
    "use.table_map h1 = (use.table_map h)(fd := map_option ?f (use.table_map h fd))" "use.table_distinct h1"
    using use.modify_map [of h fd ?f] ok fd by (auto simp: use_ok_def)
  show ?thesis
  proof (cases "uses h fd = 1")
    case False
    then have nz: "usage u - 1 \<noteq> 0" using one by simp
    have "0 < sint (usage u - 1)" using False pred pos u by (auto simp: uses_def)
    then have "use_ok h1" using ok h1 u by (auto simp: use_ok_def split: if_splits)
    moreover have "uses h1 = (uses h)(fd := uses h fd - 1)"
      using u h1(3) pred pos by (auto simp: uses_def fun_eq_iff nat_diff_distrib)
    moreover have "decrease_fd_usage fd h = Inr (False, h1)"
      using find h1(1) nz by (simp add: decrease_fd_usage_def)
    ultimately show ?thesis using False by auto
  next
    case True
    then have z: "usage u - 1 = 0" using one by simp
    obtain h2 where h2: "hash_table_remove ht_ops_fdusage fd h1 = Inr (use.table_map h1 fd, h2)"
      "use.table_inv h2" "use.table_distinct h2" "use.table_map h2 = (use.table_map h1)(fd := None)"
      using use.remove_map [OF h1(2) fd] h1(4) by auto
    have "use_ok h2" using ok h1 h2 by (auto simp: use_ok_def split: if_splits)
    moreover have "uses h2 = (uses h)(fd := uses h fd - 1)"
      using True h1(3) h2(4) by (auto simp: uses_def fun_eq_iff)
    moreover have "decrease_fd_usage fd h = Inr (True, h2)"
      using find h1(1) h2(1) z by (simp add: decrease_fd_usage_def)
    ultimately show ?thesis using True by auto
  qed
qed

section \<open>What a table shows\<close>

text \<open>
  Nothing is allocated beyond \<open>next_addr\<close>; the items of a table and their maps are allocated; and
  \<open>view\<close> is the table as the program uses it, from descriptors to the contents of their maps.
\<close>

definition store_fresh :: "fd_store \<Rightarrow> bool" where
  "store_fresh s \<longleftrightarrow> (\<forall>a\<ge>next_addr s. fd_maps s a = None \<and> \<not> fd_live s a \<and> tables s a = None)"

definition live_item :: "fd_store \<Rightarrow> fd_item \<Rightarrow> bool" where
  "live_item s x \<longleftrightarrow> nonneg (old_fd x) \<and> fd_live s (fi_addr x) \<and>
     (\<exists>m. fd_maps s (fm_ptr x) = Some m \<and> nonneg (my_fd m))"

definition table_ok :: "fd_store \<Rightarrow> fd_item hash_table \<Rightarrow> bool" where
  "table_ok s t \<longleftrightarrow> fdt.table_inv t \<and> (\<forall>x\<in>set (ht_items t). live_item s x)"

definition view :: "fd_store \<Rightarrow> fd_item hash_table \<Rightarrow> i32 \<Rightarrow> fd_map option" where
  "view s t fd = Option.bind (fdt.table_map t fd) (\<lambda>x. fd_maps s (fm_ptr x))"

text \<open>Memory that was allocated before stays as it was.\<close>

definition old_same :: "fd_store \<Rightarrow> fd_store \<Rightarrow> bool" where
  "old_same s s' \<longleftrightarrow> next_addr s \<le> next_addr s' \<and> tables s' = tables s \<and>
     (\<forall>a<next_addr s. fd_maps s' a = fd_maps s a \<and> fd_live s' a = fd_live s a)"

lemma old_same_refl [simp]: "old_same s s"
  by (simp add: old_same_def)

lemma old_same_trans: "old_same s t \<Longrightarrow> old_same t u \<Longrightarrow> old_same s u"
  by (auto simp: old_same_def)

lemma live_item_bound:
  assumes "store_fresh s" "live_item s x"
  shows "fi_addr x < next_addr s \<and> fm_ptr x < next_addr s"
  using assms by (force simp: store_fresh_def live_item_def not_less [symmetric])

lemma live_item_old:
  assumes "store_fresh s" "live_item s x" "old_same s s'"
  shows "live_item s' x \<and> fd_maps s' (fm_ptr x) = fd_maps s (fm_ptr x)"
  using assms live_item_bound [OF assms(1,2)] by (simp add: old_same_def live_item_def)

lemma deref_live: "live_item s x \<Longrightarrow> \<exists>m. deref_item s x = Inr m \<and> fd_maps s (fm_ptr x) = Some m \<and> nonneg (my_fd m)"
  by (auto simp: live_item_def deref_item_def get_map_def)

lemma table_item: "fdt.table_inv t \<Longrightarrow> fdt.table_map t fd = Some x \<Longrightarrow> x \<in> set (ht_items t) \<and> old_fd x = fd"
  using fdt.slot_range [of fd t]
  by (force simp: fdt.table_map_def fdt.table_inv_def ht_items_def dest!: find_Some_in split: if_splits)

lemma view_old:
  assumes "store_fresh s" "table_ok s t" "old_same s s'"
  shows "view s' t = view s t \<and> table_ok s' t"
proof
  have "view s' t fd = view s t fd" for fd
  proof (cases "fdt.table_map t fd")
    case (Some x)
    then have "live_item s x" using assms(2) table_item by (auto simp: table_ok_def)
    with Some show ?thesis using live_item_old [OF assms(1) _ assms(3)] by (simp add: view_def)
  qed (simp add: view_def)
  then show "view s' t = view s t" by blast
  show "table_ok s' t" using assms(2) live_item_old [OF assms(1) _ assms(3)] by (simp add: table_ok_def)
qed

section \<open>Copying a table\<close>

definition copy_item :: "fd_store \<Rightarrow> i32 \<Rightarrow> fd_map \<Rightarrow> fd_item \<times> fd_store" where
  "copy_item s fd m =
     (\<lparr>fi_addr = next_addr s, old_fd = fd, fm_ptr = Suc (next_addr s)\<rparr>,
      s\<lparr>fd_live := (fd_live s)(next_addr s := True), fd_maps := (fd_maps s)(Suc (next_addr s) \<mapsto> m),
        next_addr := Suc (Suc (next_addr s))\<rparr>)"

lemma copy_item_fresh:
  assumes "store_fresh s" "copy_item s fd m = (it, s')"
  shows "store_fresh s' \<and> old_same s s'"
  using assms by (auto simp: copy_item_def store_fresh_def old_same_def)

lemma duplicate_one:
  assumes lt: "fi_addr x < next_addr s" "fm_ptr x < next_addr s" and "deref_item s x = Inr m" "copy_item s (old_fd x) m = (it, s2)"
  shows "duplicate_items (x # xs) ht u s =
    bindR (hash_table_insert ht_ops_fditem (old_fd x) it ht) (\<lambda>ht.
    bindR (increase_fd_usage (my_fd m) u) (\<lambda>u. duplicate_items xs ht u s2))"
proof -
  let ?s1 = "snd (new_fd_item s)"
  have d: "deref_item ?s1 x = Inr m"
    using assms(3) lt by (auto simp: deref_item_def get_map_def new_fd_item_def Let_def split: if_splits)
  have p: "put_item (it\<lparr>old_fd := old_fd x\<rparr>) m ?s1 = Inr s2"
    using assms(4) by (auto simp: put_item_def deref_item_def get_map_def set_map_def new_fd_item_def copy_item_def Let_def)
  have it: "fst (new_fd_item s)\<lparr>old_fd := old_fd x\<rparr> = it\<lparr>old_fd := old_fd x\<rparr>" "old_fd it = old_fd x" "it\<lparr>old_fd := old_fd x\<rparr> = it"
    using assms(4) by (auto simp: new_fd_item_def copy_item_def Let_def)
  have d': "deref_item (snd (new_fd_item s)) x = Inr m" by (rule d)
  show ?thesis
    using it(1,2) p [unfolded it(3)] d unfolding it(3) by (simp add: Let_def split_beta)
qed

lemma duplicate_items_spec:
  assumes "store_fresh s" "table_ok s ht" "\<forall>x\<in>set xs. live_item s x" "use_ok u"
    and "\<forall>fd. uses u fd + length xs < 2 ^ 31"
  shows "\<exists>ht' u' s'. duplicate_items xs ht u s = Inr (ht', u', s') \<and> store_fresh s' \<and> old_same s s' \<and>
    table_ok s' ht' \<and> use_ok u' \<and>
    (\<forall>fd. uses u' fd = uses u fd + length (filter (\<lambda>x. my_fd (the (fd_maps s (fm_ptr x))) = fd) xs)) \<and>
    (\<forall>fd. view s' ht' fd = (case view s ht fd of Some v \<Rightarrow> Some v
       | None \<Rightarrow> Option.bind (List.find (\<lambda>x. old_fd x = fd) xs) (\<lambda>x. fd_maps s (fm_ptr x))))"
  using assms
proof (induction xs arbitrary: s ht u)
  case Nil
  then show ?case by (auto split: option.splits)
next
  case (Cons x xs)
  have x: "live_item s x" using Cons.prems(3) by simp
  obtain m where m: "deref_item s x = Inr m" "fd_maps s (fm_ptr x) = Some m" "nonneg (my_fd m)"
    using deref_live [OF x] by blast
  obtain it s2 where it: "copy_item s (old_fd x) m = (it, s2)" by fastforce
  have s2: "store_fresh s2" "old_same s s2" using copy_item_fresh [OF Cons.prems(1) it] by auto
  have itp: "old_fd it = old_fd x" "fd_maps s2 (fm_ptr it) = Some m" "live_item s2 it"
    using it m(3) x by (auto simp: copy_item_def live_item_def)
  have ht2: "view s2 ht = view s ht" "table_ok s2 ht" using view_old [OF Cons.prems(1,2) s2(2)] by auto
  obtain ht' where ht': "hash_table_insert ht_ops_fditem (old_fd x) it ht = Inr ht'" "fdt.table_inv ht'"
    "fdt.table_map ht' = (if fdt.table_map ht (old_fd x) = None then (fdt.table_map ht)(old_fd x \<mapsto> it) else fdt.table_map ht)"
    "mset (ht_items ht') = add_mset it (mset (ht_items ht))"
    using fdt.insert_map [of ht it] ht2(2) itp by (auto simp: table_ok_def live_item_def)
  have "set (ht_items ht') = insert it (set (ht_items ht))"
    using ht'(4) by (metis set_mset_add_mset_insert set_mset_mset)
  then have ok': "table_ok s2 ht'" using ht2(2) ht'(2) itp(3) by (simp add: table_ok_def)
  have view': "view s2 ht' fd = (case view s ht fd of Some v \<Rightarrow> Some v | None \<Rightarrow> if old_fd x = fd then Some m else None)" for fd
  proof (cases "fdt.table_map ht fd")
    case None
    then show ?thesis using ht'(3) itp(2) ht2(1) by (simp add: view_def)
  next
    case (Some y)
    then have "live_item s y" using Cons.prems(2) table_item by (auto simp: table_ok_def)
    then obtain v where "fd_maps s (fm_ptr y) = Some v" using deref_live by blast
    with Some ht'(3) have "fdt.table_map ht' fd = Some y" "view s ht fd = Some v" by (auto simp: view_def)
    with Some show ?thesis using fun_cong [OF ht2(1), of fd] by (simp add: view_def)
  qed
  obtain u' where u': "increase_fd_usage (my_fd m) u = Inr u'" "use_ok u'"
    "uses u' = (uses u)(my_fd m := Suc (uses u (my_fd m)))"
  proof -
    have "uses u (my_fd m) + length (x # xs) < 2 ^ 31" using Cons.prems(5) by blast
    then show ?thesis using increase_uses [OF Cons.prems(4) m(3)] that by auto
  qed
  have live2: "\<forall>y\<in>set xs. live_item s2 y \<and> fd_maps s2 (fm_ptr y) = fd_maps s (fm_ptr y)"
    using Cons.prems(3) live_item_old [OF Cons.prems(1) _ s2(2)] by simp
  have max: "\<forall>fd. uses u' fd + length xs < 2 ^ 31"
  proof
    fix fd
    have "uses u fd + length (x # xs) < 2 ^ 31" using Cons.prems(5) by blast
    then show "uses u' fd + length xs < 2 ^ 31" unfolding u'(3) by (cases "fd = my_fd m") simp_all
  qed
  obtain ht'' u'' s'' where IH: "duplicate_items xs ht' u' s2 = Inr (ht'', u'', s'')" "store_fresh s''"
    "old_same s2 s''" "table_ok s'' ht''" "use_ok u''"
    "\<And>fd. uses u'' fd = uses u' fd + length (filter (\<lambda>x. my_fd (the (fd_maps s2 (fm_ptr x))) = fd) xs)"
    "\<And>fd. view s'' ht'' fd = (case view s2 ht' fd of Some v \<Rightarrow> Some v
       | None \<Rightarrow> Option.bind (List.find (\<lambda>x. old_fd x = fd) xs) (\<lambda>x. fd_maps s2 (fm_ptr x)))"
    using Cons.IH [OF s2(1) ok' _ u'(2) max] live2 by auto
  have run: "duplicate_items (x # xs) ht u s = Inr (ht'', u'', s'')"
    using duplicate_one [OF _ _ m(1) it] live_item_bound [OF Cons.prems(1) x] ht'(1) u'(1) IH(1) by simp
  have filt: "filter (\<lambda>x. my_fd (the (fd_maps s2 (fm_ptr x))) = fd) xs = filter (\<lambda>x. my_fd (the (fd_maps s (fm_ptr x))) = fd) xs" for fd
    using live2 by (intro filter_cong) auto
  have uses: "uses u'' fd = uses u fd + length (filter (\<lambda>x. my_fd (the (fd_maps s (fm_ptr x))) = fd) (x # xs))" for fd
    unfolding IH(6) filt using u'(3) m(2) by simp
  have bind: "Option.bind (List.find (\<lambda>x. old_fd x = fd) xs) (\<lambda>x. fd_maps s2 (fm_ptr x)) =
      Option.bind (List.find (\<lambda>x. old_fd x = fd) xs) (\<lambda>x. fd_maps s (fm_ptr x))" for fd
    by (rule Option.bind_cong) (use live2 in \<open>auto dest!: find_Some_in\<close>)
  have views: "view s'' ht'' fd = (case view s ht fd of Some v \<Rightarrow> Some v
       | None \<Rightarrow> Option.bind (List.find (\<lambda>x. old_fd x = fd) (x # xs)) (\<lambda>x. fd_maps s (fm_ptr x)))" for fd
    unfolding IH(7) bind view' using m(2) by (simp split: option.split)
  show ?case
    using run IH(2,4,5) old_same_trans [OF s2(2) IH(3)] uses views by (intro exI conjI) auto
qed

lemma duplicate_items_fresh:
  assumes "duplicate_items xs ht u s = Inr (ht', u', s')" "fdt.table_inv ht" "\<forall>x\<in>set xs. nonneg (old_fd x)"
  shows "\<forall>x\<in>set (ht_items ht'). x \<in> set (ht_items ht) \<or> next_addr s \<le> fm_ptr x"
  using assms
proof (induction xs arbitrary: ht u s)
  case (Cons x xs)
  let ?it = "\<lparr>fi_addr = next_addr s, old_fd = old_fd x, fm_ptr = Suc (next_addr s)\<rparr>"
  obtain m st t1 u1 where r: "hash_table_insert ht_ops_fditem (old_fd ?it) ?it ht = Inr t1"
    "put_item ?it m (snd (new_fd_item s)) = Inr st" "duplicate_items xs t1 u1 st = Inr (ht', u', s')"
    using Cons.prems(1) by (auto simp: res_iff Let_def split_beta new_fd_item_def)
  have inv: "fdt.table_inv t1" "mset (ht_items t1) = add_mset ?it (mset (ht_items ht))"
    using fdt.insert_map [OF Cons.prems(2), of ?it] r(1) Cons.prems(3) by auto
  have items: "set (ht_items t1) = insert ?it (set (ht_items ht))"
    using inv(2) by (metis set_mset_add_mset_insert set_mset_mset)
  have n: "next_addr s \<le> next_addr st"
    using r(2) by (auto simp: put_item_def res_iff set_map_def new_fd_item_def Let_def)
  have "\<forall>x\<in>set (ht_items ht'). x \<in> set (ht_items t1) \<or> next_addr st \<le> fm_ptr x"
    using Cons.IH [OF r(3) inv(1)] Cons.prems(3) by simp
  then show ?case using items n by fastforce
qed simp

text \<open>The whole copy.\<close>

lemma duplicate_process_ht_spec:
  assumes "store_fresh s" "tables s h = Some t" "table_ok s t" "use_ok u"
    and "\<forall>fd. uses u fd + length (ht_items t) < 2 ^ 31"
  shows "\<exists>a u' s' t'. duplicate_process_ht (Some h) u s = Inr (a, u', s') \<and>
    tables s' = (tables s)(a \<mapsto> t') \<and> a = next_addr s \<and> store_fresh s' \<and> table_ok s' t' \<and>
    (\<forall>b<next_addr s. fd_maps s' b = fd_maps s b \<and> fd_live s' b = fd_live s b) \<and>
    (\<forall>fd. view s' t' fd = Option.bind (List.find (\<lambda>x. old_fd x = fd) (ht_items t)) (\<lambda>x. fd_maps s (fm_ptr x))) \<and>
    (\<forall>x\<in>set (ht_items t'). next_addr s \<le> fm_ptr x) \<and>
    (\<forall>fd. uses u' fd = uses u fd + length (filter (\<lambda>x. my_fd (the (fd_maps s (fm_ptr x))) = fd) (ht_items t)))"
proof -
  let ?s = "s\<lparr>next_addr := Suc (next_addr s)\<rparr>"
  have fresh: "store_fresh ?s" using assms(1) by (auto simp: store_fresh_def)
  have inv: "0 < entries t" "take (entries t) (entry t) = entry t"
    using assms(3) by (simp_all add: table_ok_def fdt.table_inv_def)
  have empty: "table_ok ?s (hash_table_init (entries t))"
    using inv(1) by (simp add: table_ok_def fdt.init_inv) (simp add: hash_table_init_def ht_items_def)
  have live: "\<forall>x\<in>set (ht_items t). live_item ?s x"
    using assms(3) by (simp add: table_ok_def live_item_def)
  obtain t' u' s' where r: "duplicate_items (ht_items t) (hash_table_init (entries t)) u ?s = Inr (t', u', s')"
    "store_fresh s'" "old_same ?s s'" "table_ok s' t'"
    "\<And>fd. uses u' fd = uses u fd + length (filter (\<lambda>x. my_fd (the (fd_maps ?s (fm_ptr x))) = fd) (ht_items t))"
    "\<And>fd. view s' t' fd = (case view ?s (hash_table_init (entries t)) fd of Some v \<Rightarrow> Some v
       | None \<Rightarrow> Option.bind (List.find (\<lambda>x. old_fd x = fd) (ht_items t)) (\<lambda>x. fd_maps ?s (fm_ptr x)))"
    using duplicate_items_spec [OF fresh empty live assms(4,5)] by blast
  have none: "view ?s (hash_table_init (entries t)) fd = None" for fd
    using fdt.init_map [OF inv(1)] by (simp add: view_def)
  let ?s' = "set_table (next_addr s) t' s'"
  have view': "view ?s' t' = view s' t'" by (simp add: view_def set_table_def fun_eq_iff)
  have ok': "table_ok ?s' t'" using r(4) by (simp add: table_ok_def live_item_def set_table_def)
  have "next_addr s < next_addr s'" using r(3) by (simp add: old_same_def)
  then have fresh': "store_fresh ?s'" using r(2) by (auto simp: store_fresh_def set_table_def)
  have run: "duplicate_process_ht (Some h) u s = Inr (next_addr s, u', ?s')"
    using assms(2) r(1) inv(2) by (simp add: duplicate_process_ht_def get_table_def Let_def ht_items_def)
  have same: "\<forall>b<next_addr s. fd_maps ?s' b = fd_maps s b \<and> fd_live ?s' b = fd_live s b"
    using r(3) by (simp add: old_same_def set_table_def)
  have tabs: "tables ?s' = (tables s)(next_addr s \<mapsto> t')" using r(3) by (simp add: old_same_def set_table_def)
  have v: "\<forall>fd. view ?s' t' fd = Option.bind (List.find (\<lambda>x. old_fd x = fd) (ht_items t)) (\<lambda>x. fd_maps s (fm_ptr x))"
    unfolding view' by (simp add: r(6) none)
  have n: "\<forall>fd. uses u' fd = uses u fd + length (filter (\<lambda>x. my_fd (the (fd_maps s (fm_ptr x))) = fd) (ht_items t))"
    by (simp add: r(5))
  have "ht_items (hash_table_init (entries t) :: fd_item hash_table) = []" by (simp add: ht_items_def hash_table_init_def)
  then have "\<forall>x\<in>set (ht_items t'). next_addr s \<le> fm_ptr x"
    using duplicate_items_fresh [OF r(1) fdt.init_inv [OF inv(1)]] live by (fastforce simp: live_item_def)
  then show ?thesis using run tabs fresh' ok' same v n by blast
qed

section \<open>Properties\<close>

text \<open>The set of parents, and maps whose array represents one.\<close>

definition parent_set :: "fd_map \<Rightarrow> i32 set" where
  "parent_set m = set (parent_fds m) - {-1}"

definition parents_ok :: "fd_map \<Rightarrow> bool" where
  "parents_ok m \<longleftrightarrow> (\<exists>ps. parents_are ps m)"

lemma parents_okE:
  assumes "parents_ok m"
  obtains ps where "parents_are ps m" "set ps = parent_set m" "length ps = card (parent_set m)"
proof -
  obtain ps where ps: "parents_are ps m" using assms by (auto simp: parents_ok_def)
  moreover from ps have "set ps = parent_set m" by (simp add: parents_are_set parent_set_def)
  moreover from this ps have "length ps = card (parent_set m)"
    by (metis distinct_card parents_are_def)
  ultimately show ?thesis using that by blast
qed

lemma parents_are_ok: "parents_are ps m \<Longrightarrow> parents_ok m \<and> parent_set m = set ps"
  by (auto simp: parents_ok_def parents_are_set parent_set_def)

text \<open>A small store: one table of three slots with the descriptor 5, replayed as 7.\<close>

definition sample_map :: fd_map where
  "sample_map = \<lparr>my_fd = 7, fm_type = 0x8000, cur_pos = 10, fm_time_open = \<lparr>tv_sec = 0, tv_usec = 0\<rparr>,
     fm_name = ''f'', fm_created = 0, parent_fds = 5 # replicate 19 (-1), last_par_index = 0\<rparr>"

definition sample_item :: fd_item where
  "sample_item = \<lparr>fi_addr = 0, old_fd = 5, fm_ptr = 1\<rparr>"

definition sample_table :: "fd_item hash_table" where
  "sample_table = \<lparr>entry = [[], [], [sample_item]], entries = 3\<rparr>"

definition sample_store :: fd_store where
  "sample_store = \<lparr>fd_maps = [1 \<mapsto> sample_map], fd_live = (\<lambda>a. a = 0), tables = [2 \<mapsto> sample_table],
     next_addr = 3, junk = sample_map\<rparr>"

lemma sample_parents: "parents_ok sample_map" "parent_set sample_map = {5}"
proof -
  have "parents_are [5] sample_map"
    by (simp add: parents_are_def sample_map_def MAX_PARENT_IDS_def)
  then show "parents_ok sample_map" "parent_set sample_map = {5}" using parents_are_ok by auto
qed

lemma sample_deref: "deref_item sample_store sample_item = Inr sample_map"
  by (simp add: deref_item_def get_map_def sample_store_def sample_item_def)

lemma sample_ok: "store_fresh sample_store" "table_ok sample_store sample_table"
  by (auto simp: store_fresh_def sample_store_def table_ok_def fdt.table_inv_def sample_table_def
      ht_items_def live_item_def sample_item_def sample_map_def less_Suc_eq numeral_3_eq_3)

text \<open>
  C23: \<open>insert_parent_fd\<close> adds a descriptor to the set of parents of the map of an item and leaves
  everything else as it is. It aborts when the descriptor is there already, and a full array of
  \<open>MAX_PARENT_IDS\<close> parents drops the new one silently.
\<close>

theorem insert_parent_fd_refines:
  assumes "deref_item s x = Inr m" "parents_ok m" "fd \<noteq> -1"
  shows "if fd \<in> parent_set m then insert_parent_fd x fd s = Inl Assertion
    else if card (parent_set m) < MAX_PARENT_IDS then
      \<exists>m'. insert_parent_fd x fd s = Inr (set_map (fm_ptr x) m' s) \<and> parents_ok m' \<and>
        parent_set m' = insert fd (parent_set m) \<and>
        m' = m\<lparr>parent_fds := parent_fds m', last_par_index := last_par_index m'\<rparr>
    else insert_parent_fd x fd s = Inr (set_map (fm_ptr x) m s)"
proof -
  obtain ps where ps: "parents_are ps m" "set ps = parent_set m" "length ps = card (parent_set m)"
    using assms(2) by (rule parents_okE)
  have le: "length ps \<le> MAX_PARENT_IDS" using ps(1) by (simp add: parents_are_def)
  have put: "put_item x m' s = Inr (set_map (fm_ptr x) m' s)" for m'
    using assms(1) by (simp add: put_item_def)
  show ?thesis
  proof (cases "fd \<in> parent_set m")
    case True
    then show ?thesis using insert_parent_taken [OF ps(1)] ps(2) assms(1) by (simp add: insert_parent_fd_def)
  next
    case False
    show ?thesis
    proof (cases "length ps < MAX_PARENT_IDS")
      case True
      obtain fds where "insert_parent fd m = Inr (m\<lparr>parent_fds := fds, last_par_index := last_par_index m + 1\<rparr>)"
        "parents_are (ps @ [fd]) (m\<lparr>parent_fds := fds, last_par_index := last_par_index m + 1\<rparr>)"
        using insert_parent_free [OF ps(1) assms(3)] False True ps(2) by auto
      then show ?thesis
        using False True ps assms(1) put parents_are_ok [of "ps @ [fd]"]
        by (auto simp: insert_parent_fd_def)
    next
      case full: False
      then show ?thesis
        using False ps assms(1) put le insert_parent_full [OF ps(1) assms(3)]
        by (auto simp: insert_parent_fd_def)
    qed
  qed
qed

theorem insert_parent_fd_refines_witness:
  "\<exists>m'. insert_parent_fd sample_item 6 sample_store = Inr (set_map 1 m' sample_store) \<and>
     parent_set m' = {5, 6}"
  using insert_parent_fd_refines [OF sample_deref sample_parents(1), of 6]
  by (auto simp: sample_parents sample_item_def MAX_PARENT_IDS_def)

text \<open>
  C24: \<open>delete_parent_fd\<close> removes a descriptor from the set of parents and tells whether the set is
  empty now, although it keeps the array compact by moving its last entry. A descriptor that is
  not a parent stops the program, unless the array is full: then nothing happens.
\<close>

theorem delete_parent_fd_refines:
  assumes "deref_item s x = Inr m" "parents_ok m" "fd \<noteq> -1"
  shows "if fd \<in> parent_set m then
      \<exists>m'. delete_parent_fd x fd s = Inr (parent_set m' = {}, set_map (fm_ptr x) m' s) \<and> parents_ok m' \<and>
        parent_set m' = parent_set m - {fd} \<and>
        m' = m\<lparr>parent_fds := parent_fds m', last_par_index := last_par_index m'\<rparr>
    else if card (parent_set m) < MAX_PARENT_IDS then delete_parent_fd x fd s = Inl Assertion
    else delete_parent_fd x fd s = Inr (False, set_map (fm_ptr x) m s)"
proof -
  obtain ps where ps: "parents_are ps m" "set ps = parent_set m" "length ps = card (parent_set m)"
    using assms(2) by (rule parents_okE)
  have le: "length ps \<le> MAX_PARENT_IDS" using ps(1) by (simp add: parents_are_def)
  have put: "put_item x m' s = Inr (set_map (fm_ptr x) m' s)" for m'
    using assms(1) by (simp add: put_item_def)
  show ?thesis
  proof (cases "fd \<in> parent_set m")
    case True
    then obtain m' ps' where m': "delete_parent fd m = Inr (set ps = {fd}, m')" "parents_are ps' m'"
      "set ps' = set ps - {fd}" "m' = m\<lparr>parent_fds := parent_fds m', last_par_index := last_par_index m - 1\<rparr>"
      using delete_parent_present [OF ps(1), of fd] ps(2) by auto
    have p': "parents_ok m'" "parent_set m' = parent_set m - {fd}"
      using parents_are_ok [OF m'(2)] m'(3) ps(2) by auto
    have "set ps = {fd} \<longleftrightarrow> parent_set m' = {}" using p'(2) ps(2) True by auto
    moreover have "m' = m\<lparr>parent_fds := parent_fds m', last_par_index := last_par_index m'\<rparr>"
    proof -
      have l: "last_par_index m' = last_par_index m - 1" using arg_cong [OF m'(4), of last_par_index] by simp
      show ?thesis unfolding l by (rule m'(4))
    qed
    ultimately show ?thesis
      using True p' m'(1) assms(1) put by (intro iffD2 [OF if_P] exI [of _ m']) (auto simp: delete_parent_fd_def)
  next
    case False
    then have "delete_parent fd m = (if length ps < MAX_PARENT_IDS then Inl Assertion else Inr (last_par_index m = -1, m))"
      using delete_parent_absent [OF ps(1) assms(3)] ps(2) by auto
    moreover have "last_par_index m \<noteq> -1" if "length ps = MAX_PARENT_IDS"
      using ps(1) that by (simp add: parents_are_def MAX_PARENT_IDS_def)
    ultimately show ?thesis using False ps(3) le assms(1) put by (auto simp: delete_parent_fd_def)
  qed
qed

theorem delete_parent_fd_refines_witness:
  "\<exists>m'. delete_parent_fd sample_item 5 sample_store = Inr (True, set_map 1 m' sample_store) \<and>
     parent_set m' = {}"
  using delete_parent_fd_refines [OF sample_deref sample_parents(1), of 5]
  by (auto simp: sample_parents sample_item_def MAX_PARENT_IDS_def)

text \<open>
  Use counting: one more user followed by one fewer restores the number of users of every
  descriptor, and the second step reports the last user exactly when there was none before;
  without a user it aborts.
\<close>

theorem use_count_roundtrip:
  assumes "use_ok h" "nonneg fd" "uses h fd < 2 ^ 31 - 1"
  shows "\<exists>h1 h2. increase_fd_usage fd h = Inr h1 \<and> use_ok h1 \<and> uses h1 = (uses h)(fd := Suc (uses h fd)) \<and>
     decrease_fd_usage fd h1 = Inr (uses h fd = 0, h2) \<and> use_ok h2 \<and> uses h2 = uses h \<and>
     (uses h fd = 0 \<longrightarrow> decrease_fd_usage fd h2 = Inl Assertion)"
proof -
  obtain h1 where h1: "increase_fd_usage fd h = Inr h1" "use_ok h1" "uses h1 = (uses h)(fd := Suc (uses h fd))"
    using increase_uses [OF assms] by blast
  obtain h2 where h2: "decrease_fd_usage fd h1 = Inr (uses h1 fd = 1, h2)" "use_ok h2"
    "uses h2 = (uses h1)(fd := uses h1 fd - 1)"
    using decrease_uses [OF h1(2) assms(2)] h1(3) by auto
  have "uses h2 = uses h" using h1(3) h2(3) by auto
  with h1 h2 show ?thesis using decrease_unused [OF h2(2) assms(2)] by auto
qed

theorem use_count_roundtrip_witness:
  "\<exists>h1 h2. increase_fd_usage 7 (hash_table_init 3) = Inr h1 \<and> decrease_fd_usage 7 h1 = Inr (True, h2) \<and>
     uses h1 7 = 1 \<and> uses h2 7 = 0"
  using use_count_roundtrip [of "hash_table_init 3" 7] by (auto simp: use_ok_init uses_init)

text \<open>
  C22: \<open>duplicate_process_ht\<close>, the table of a forked process. The copy shows for every descriptor the
  contents of the first item with that descriptor, in memory of its own; the memory of the parent
  and all tables stay as they were; and every descriptor of the replay gains as many users as the
  parent's table has items for it.
\<close>

theorem duplicate_process_ht_copies:
  assumes "store_fresh s" "tables s h = Some t" "table_ok s t" "use_ok u"
    and "\<forall>fd. uses u fd + length (ht_items t) < 2 ^ 31"
  shows "\<exists>a u' s' t'. duplicate_process_ht (Some h) u s = Inr (a, u', s') \<and>
    tables s' = (tables s)(a \<mapsto> t') \<and> a = next_addr s \<and> store_fresh s' \<and> table_ok s' t' \<and>
    (\<forall>b<next_addr s. fd_maps s' b = fd_maps s b \<and> fd_live s' b = fd_live s b) \<and>
    (\<forall>fd. view s' t' fd = Option.bind (List.find (\<lambda>x. old_fd x = fd) (ht_items t)) (\<lambda>x. fd_maps s (fm_ptr x))) \<and>
    (\<forall>x\<in>set (ht_items t'). next_addr s \<le> fm_ptr x) \<and>
    (\<forall>fd. uses u' fd = uses u fd + length (filter (\<lambda>x. my_fd (the (fd_maps s (fm_ptr x))) = fd) (ht_items t)))"
  using assms by (rule duplicate_process_ht_spec)

theorem duplicate_process_ht_copies_witness:
  "\<exists>a u' s' t'. duplicate_process_ht (Some 2) (hash_table_init 3) sample_store = Inr (a, u', s') \<and>
     tables s' a = Some t' \<and> view s' t' 5 = Some sample_map \<and> uses u' 7 = 1"
proof -
  have items: "ht_items sample_table = [sample_item]" by (simp add: ht_items_def sample_table_def)
  have tab: "tables sample_store 2 = Some sample_table" by (simp add: sample_store_def)
  have m: "fd_maps sample_store (fm_ptr sample_item) = Some sample_map" "old_fd sample_item = 5" "my_fd sample_map = 7"
    by (simp_all add: sample_store_def sample_item_def sample_map_def)
  show ?thesis
    using duplicate_process_ht_copies [OF sample_ok(1) tab sample_ok(2), of "hash_table_init 3"] m
    by (force simp: use_ok_init uses_init items)
qed

end
