(* ===== verification/Fs_Trie.thy ===== *)
theory Fs_Trie
  imports C_Strings Op_Types
begin

text \<open>
  The trie of path components of \<open>adt/fs_trie.c\<close>. A node has a key, the structure it is embedded
  in (the payload) and the list of its children; a pointer to a node of the trie is the list of
  keys that leads to it from the root. Buffers that the functions fill are lists of characters
  with an explicit terminator, because \<open>trie_longest_prefix\<close> leaves some of them untouched.
\<close>

section \<open>Nodes\<close>

datatype 'a trie_node = Node (node_key: string) (node_val: 'a) (node_children: "'a trie_node list")

record 'a trie =
  root :: "'a trie_node"
  delim :: char

definition TRIE_OK :: i32 where "TRIE_OK = 0"
definition TRIE_MANY :: i32 where "TRIE_MANY = 2"
definition TRIE_ERR :: i32 where "TRIE_ERR = -1"

definition trie_init :: "char \<Rightarrow> 'a \<Rightarrow> 'a trie" where
  "trie_init d v = \<lparr>root = Node [d] v [], delim = d\<rparr>"

definition trie_find_child :: "'a trie_node \<Rightarrow> string \<Rightarrow> 'a trie_node option" where
  "trie_find_child n part_key = List.find (\<lambda>c. node_key c = part_key) (node_children n)"

definition trie_is_leaf :: "'a trie_node \<Rightarrow> bool" where
  "trie_is_leaf n \<longleftrightarrow> node_children n = []"

text \<open>Following a pointer and writing through it.\<close>

fun node_at :: "'a trie_node \<Rightarrow> string list \<Rightarrow> 'a trie_node option" where
  "node_at n [] = Some n"
| "node_at n (k # ks) = (case trie_find_child n k of None \<Rightarrow> None | Some c \<Rightarrow> node_at c ks)"

fun update_node :: "string list \<Rightarrow> ('a trie_node \<Rightarrow> 'a trie_node) \<Rightarrow> 'a trie_node \<Rightarrow> 'a trie_node" where
  "update_node [] f n = f n"
| "update_node (k # ks) f (Node key v cs) =
     Node key v (update_first (\<lambda>c. node_key c = k) (update_node ks f) cs)"

definition set_val :: "('a \<Rightarrow> 'a) \<Rightarrow> 'a trie_node \<Rightarrow> 'a trie_node" where
  "set_val g n = Node (node_key n) (g (node_val n)) (node_children n)"

definition add_child :: "'a trie_node \<Rightarrow> 'a trie_node \<Rightarrow> 'a trie_node" where
  "add_child c n = Node (node_key n) (node_val n) (node_children n @ [c])"

definition drop_child :: "string \<Rightarrow> 'a trie_node \<Rightarrow> 'a trie_node" where
  "drop_child k n = Node (node_key n) (node_val n) (remove_first (\<lambda>c. node_key c = k) (node_children n))"

section \<open>Lookup\<close>

text \<open>\<open>trie_find\<close>: \<open>strtok_r\<close> with the root's key, which \<open>trie_init\<close> makes of the delimiter.\<close>

fun find_loop :: "'a trie_node \<Rightarrow> string list \<Rightarrow> bool" where
  "find_loop n [] = True"
| "find_loop n (s # ss) = (case trie_find_child n s of None \<Rightarrow> False | Some c \<Rightarrow> find_loop c ss)"

definition trie_find :: "'a trie \<Rightarrow> string \<Rightarrow> string list option" where
  "trie_find t full_key =
     (let ss = strtok (delim t) full_key in if find_loop (root t) ss then Some ss else None)"

text \<open>
  \<open>trie_longest_prefix\<close>. The loop over the characters \<open>c\<close> of \<open>full_key\<close> keeps the last character,
  the number of characters outside of runs of delimiters, the position, the component read so
  far, the node reached (with its path) and the buffer. It stops early when a component is not
  there, and then returns the node reached.
\<close>

fun prefix_loop ::
  "char \<Rightarrow> string \<Rightarrow> string \<Rightarrow> char \<Rightarrow> nat \<Rightarrow> nat \<Rightarrow> string \<Rightarrow> string list \<Rightarrow> 'a trie_node \<Rightarrow> char list \<Rightarrow>
   bool \<times> string list \<times> 'a trie_node \<times> char list" where
  "prefix_loop d full [] lastc num_chars count part p n1 buff = (False, p, n1, buff)"
| "prefix_loop d full (x # c) lastc num_chars count part p n1 buff =
     (if lastc = d \<and> x = d then
        prefix_loop d full c x num_chars (Suc count) part p n1 buff
      else if x = d \<and> num_chars \<noteq> 0 then
        (case trie_find_child n1 part of
           None \<Rightarrow> (True, p, n1, buff)
         | Some n2 \<Rightarrow>
             prefix_loop d full c x (Suc num_chars) (Suc count) [] (p @ [part]) n2
               ((take count full @ drop count buff)[Suc count := NUL]))
      else if x \<noteq> d then
        prefix_loop d full c x (Suc num_chars) (Suc count) (part @ [x]) p n1 buff
      else prefix_loop d full c x (Suc num_chars) (Suc count) part p n1 buff)"

text \<open>\<open>strcpy(buff, s)\<close> into a buffer that is long enough.\<close>

definition strcpy :: "char list \<Rightarrow> string \<Rightarrow> char list" where
  "strcpy buff s = s @ NUL # drop (Suc (length s)) buff"

definition trie_longest_prefix :: "'a trie \<Rightarrow> string \<Rightarrow> char list \<Rightarrow> string list \<times> char list" where
  "trie_longest_prefix t full_key buff =
     (let (stopped, p, n1, buff) =
        prefix_loop (delim t) full_key full_key NUL 0 0 [] [] (root t) (buff[0 := NUL]) in
      if stopped then (p, buff)
      else (case rindex full_key (delim t) of
          None \<Rightarrow>
            (case trie_find_child (root t) full_key of
               Some _ \<Rightarrow> ([full_key], strcpy buff full_key)
             | None \<Rightarrow> ([], buff))
        | Some i \<Rightarrow>
            (let part_key = drop (Suc i) full_key in
             case trie_find_child n1 part_key of
               Some _ \<Rightarrow> (p @ [part_key], strcpy buff full_key)
             | None \<Rightarrow> (p, buff))))"

section \<open>Insertion\<close>

text \<open>Where two buffers differ first: the loop that skips the common part.\<close>

fun common_len :: "char list \<Rightarrow> char list \<Rightarrow> nat" where
  "common_len (x # xs) (y # ys) = (if x = y then Suc (common_len xs ys) else 0)"
| "common_len xs ys = 0"

fun insert_nodes :: "'a \<Rightarrow> string list \<Rightarrow> string list \<Rightarrow> 'a trie_node \<Rightarrow> string list \<times> 'a trie_node" where
  "insert_nodes v [] p r = (p, r)"
| "insert_nodes v (s # ss) p r = insert_nodes v ss (p @ [s]) (update_node p (add_child (Node s v [])) r)"

definition trie_insert2 :: "'a trie \<Rightarrow> string \<Rightarrow> 'a \<Rightarrow> string list \<times> 'a trie" where
  "trie_insert2 t full_key v =
     (let (p, prefix) = trie_longest_prefix t full_key (replicate (Suc (length full_key)) NUL) in
      if cstr prefix = full_key then (p, t)
      else (let i = (if p \<noteq> [] \<and> cstr prefix \<noteq> [] then common_len prefix (strdup full_key) else 0);
                (p, r) = insert_nodes v (strtok (delim t) (drop i full_key)) p (root t) in
            (p, t\<lparr>root := r\<rparr>)))"

section \<open>Deletion\<close>

text \<open>
  \<open>trie_delete2\<close> deletes a node with everything below it, except that of the root only what is
  below. The return value tells whether it had children.
\<close>

definition trie_delete2 :: "'a trie \<Rightarrow> string list \<Rightarrow> i32 \<times> 'a trie" where
  "trie_delete2 t p =
     (let rv = (case node_at (root t) p of
          Some n \<Rightarrow> if node_children n = [] then TRIE_OK else TRIE_MANY
        | None \<Rightarrow> TRIE_ERR) in
      (rv, t\<lparr>root :=
         (if p = [] then Node (node_key (root t)) (node_val (root t)) []
          else update_node (butlast p) (drop_child (last p)) (root t))\<rparr>))"

definition trie_delete :: "'a trie \<Rightarrow> string \<Rightarrow> i32 \<times> 'a trie" where
  "trie_delete t full_key =
     (case trie_find t full_key of None \<Rightarrow> (TRIE_ERR, t) | Some p \<Rightarrow> trie_delete2 t p)"

section \<open>Traversal\<close>

text \<open>
  \<open>trie_apply\<close> visits children before their parent. \<open>trie_apply_full\<close> builds the name of each node
  in a buffer of \<open>MAX_LINE\<close> characters.
\<close>

fun trie_apply2 :: "('a trie_node \<Rightarrow> 's \<Rightarrow> 's) \<Rightarrow> 'a trie_node \<Rightarrow> 's \<Rightarrow> 's"
  and trie_apply2_list :: "('a trie_node \<Rightarrow> 's \<Rightarrow> 's) \<Rightarrow> 'a trie_node list \<Rightarrow> 's \<Rightarrow> 's" where
  "trie_apply2 f (Node k v cs) s = f (Node k v cs) (trie_apply2_list f cs s)"
| "trie_apply2_list f [] s = s"
| "trie_apply2_list f (c # cs) s = trie_apply2_list f cs (trie_apply2 f c s)"

definition trie_apply :: "('a trie_node \<Rightarrow> 's \<Rightarrow> 's) \<Rightarrow> 'a trie \<Rightarrow> 's \<Rightarrow> 's" where
  "trie_apply f t s = trie_apply2 f (root t) s"

fun trie_apply2_full ::
    "('a trie_node \<Rightarrow> string \<Rightarrow> 's \<Rightarrow> 's) \<Rightarrow> char \<Rightarrow> string \<Rightarrow> 'a trie_node \<Rightarrow> 's \<Rightarrow> 's res"
  and trie_apply2_full_list ::
    "('a trie_node \<Rightarrow> string \<Rightarrow> 's \<Rightarrow> 's) \<Rightarrow> char \<Rightarrow> string \<Rightarrow> 'a trie_node list \<Rightarrow> 's \<Rightarrow> 's res" where
  "trie_apply2_full f d nm (Node k v cs) s =
     (let nm = (if nm \<noteq> [] then nm @ [d] @ k else k) in
      if MAX_LINE \<le> length nm then Inl Overflow
      else bindR (trie_apply2_full_list f d nm cs s) (\<lambda>s. Inr (f (Node k v cs) nm s)))"
| "trie_apply2_full_list f d nm [] s = Inr s"
| "trie_apply2_full_list f d nm (c # cs) s =
     bindR (trie_apply2_full f d nm c s) (\<lambda>s. trie_apply2_full_list f d nm cs s)"

definition trie_apply_full :: "('a trie_node \<Rightarrow> string \<Rightarrow> 's \<Rightarrow> 's) \<Rightarrow> 'a trie \<Rightarrow> 's \<Rightarrow> 's res" where
  "trie_apply_full f t s = trie_apply2_full f (delim t) [] (root t) s"

section \<open>Paths\<close>

text \<open>
  Well-formed nodes: the keys below are components (not empty, without the delimiter and the
  terminator) and siblings have different keys. \<open>walk\<close> is the longest part of a path that exists.
\<close>

definition component :: "char \<Rightarrow> string \<Rightarrow> bool" where
  "component d k \<longleftrightarrow> k \<noteq> [] \<and> d \<notin> set k"

fun node_ok :: "char \<Rightarrow> 'a trie_node \<Rightarrow> bool" where
  "node_ok d (Node k v cs) \<longleftrightarrow> distinct (map node_key cs) \<and>
     (\<forall>c\<in>set cs. component d (node_key c) \<and> node_ok d c)"

definition trie_ok :: "'a trie \<Rightarrow> bool" where
  "trie_ok t \<longleftrightarrow> delim t \<noteq> NUL \<and> node_ok (delim t) (root t)"

fun walk :: "'a trie_node \<Rightarrow> string list \<Rightarrow> string list" where
  "walk n [] = []"
| "walk n (k # ks) = (case trie_find_child n k of None \<Rightarrow> [] | Some c \<Rightarrow> k # walk c ks)"

definition paths :: "'a trie \<Rightarrow> string list set" where
  "paths t = {p. node_at (root t) p \<noteq> None}"

lemma find_child_Some: "trie_find_child n k = Some c \<Longrightarrow> c \<in> set (node_children n) \<and> node_key c = k"
  unfolding trie_find_child_def by (rule find_Some_in)

lemma node_ok_child: "node_ok d n \<Longrightarrow> trie_find_child n k = Some c \<Longrightarrow> component d k \<and> node_ok d c"
  by (cases n) (auto dest!: find_child_Some)

lemma find_child_empty: "node_ok d n \<Longrightarrow> trie_find_child n [] = None"
  using node_ok_child [of d n "[]"] by (cases "trie_find_child n []") (auto simp: component_def)

lemma node_at_append: "node_at n (p @ q) = Option.bind (node_at n p) (\<lambda>c. node_at c q)"
  by (induction p arbitrary: n) (auto split: option.splits)

lemma node_ok_at: "node_ok d n \<Longrightarrow> node_at n p = Some c \<Longrightarrow> node_ok d c"
  by (induction p arbitrary: n) (auto split: option.splits dest: node_ok_child)

lemma walk_prefix: "\<exists>q. ks = walk n ks @ q \<and> node_at n (walk n ks) \<noteq> None \<and>
    (q \<noteq> [] \<longrightarrow> trie_find_child (the (node_at n (walk n ks))) (hd q) = None)"
proof (induction n ks rule: walk.induct)
  case (2 n k ks)
  show ?case
  proof (cases "trie_find_child n k")
    case (Some c)
    with 2 [OF Some] show ?thesis by auto
  qed auto
qed auto

lemma find_loop_walk: "find_loop n ks \<longleftrightarrow> walk n ks = ks"
  by (induction n ks rule: walk.induct) (auto split: option.splits)

lemma find_loop_node_at: "find_loop n ks \<longleftrightarrow> node_at n ks \<noteq> None"
  by (induction n ks rule: find_loop.induct) (auto split: option.splits)

lemma trie_find_paths: "trie_find t k = (if strtok (delim t) k \<in> paths t then Some (strtok (delim t) k) else None)"
  by (simp add: trie_find_def Let_def find_loop_node_at paths_def)

lemma walk_append:
  assumes "node_at n p = Some c"
  shows "walk n (p @ q) = p @ walk c q"
  using assms by (induction p arbitrary: n) (auto split: option.splits)

section \<open>The longest prefix\<close>

text \<open>
  The loop has read \<open>pre\<close>, whose components \<open>p\<close> all exist and which ends with a delimiter, and the
  characters \<open>part\<close> of the next component.
\<close>

definition loop_inv :: "char \<Rightarrow> string \<Rightarrow> string \<Rightarrow> char \<Rightarrow> nat \<Rightarrow> nat \<Rightarrow> string \<Rightarrow> string list \<Rightarrow> string \<Rightarrow> bool" where
  "loop_inv d full c lastc num_chars count part p pre \<longleftrightarrow>
     full = pre @ part @ c \<and> count = length pre + length part \<and> p = strtok d pre \<and> d \<notin> set part \<and>
     (pre = [] \<or> last pre = d) \<and> (num_chars = 0 \<longrightarrow> pre = [] \<and> part = []) \<and>
     (part = [] \<longrightarrow> num_chars = 0 \<or> lastc = d) \<and> (lastc = d \<longrightarrow> part = [] \<and> num_chars \<noteq> 0)"

lemma strtok_split: "pre = [] \<or> last pre = d \<Longrightarrow> strtok d (pre @ s) = strtok d pre @ strtok d s"
  by (cases pre rule: rev_cases) (auto simp: strtok_join)

lemma strtok_snoc: "strtok d (s @ [d]) = strtok d s"
  using strtok_join [of d s "[]"] by simp

lemma strtok_part: "d \<notin> set part \<Longrightarrow> strtok d part = (if part = [] then [] else [part])"
  by simp

text \<open>What the loop has done to a buffer that held \<open>b0\<close>.\<close>

definition buf_inv :: "char list \<Rightarrow> char \<Rightarrow> string \<Rightarrow> nat \<Rightarrow> string list \<Rightarrow> char list \<Rightarrow> bool" where
  "buf_inv b0 d full n p buff \<longleftrightarrow> length buff = length b0 \<and>
     (\<forall>i>n. i < length b0 \<longrightarrow> buff ! i = b0 ! i) \<and> (p = [] \<longrightarrow> buff = b0) \<and>
     (p \<noteq> [] \<longrightarrow> (\<exists>cnt. 0 < cnt \<and> cnt < length full \<and> cnt < n \<and> full ! cnt = d \<and> strtok d (take cnt full) = p \<and>
        take cnt buff = take cnt full \<and> buff ! cnt = b0 ! cnt \<and> buff ! Suc cnt = NUL))"

lemma buf_inv_mono: "buf_inv b0 d full n p buff \<Longrightarrow> n \<le> n' \<Longrightarrow> buf_inv b0 d full n' p buff"
  by (fastforce simp: buf_inv_def)

lemma buf_inv_write:
  assumes "buf_inv b0 d full (length pre) p buff" "full = pre @ part @ d # c" "part \<noteq> []"
    and "length full < length b0" "strtok d (pre @ part) = q @ [part]"
  shows "buf_inv b0 d full (Suc (length pre + length part)) (q @ [part])
    ((take (length pre + length part) full @ drop (length pre + length part) buff)[Suc (length pre + length part) := NUL])"
proof -
  let ?n = "length pre + length part"
  let ?b = "(take ?n full @ drop ?n buff)[Suc ?n := NUL]"
  have len: "length buff = length b0" "?n < length full" "Suc ?n < length b0" using assms by (auto simp: buf_inv_def)
  have take: "take ?n full = pre @ part" using assms(2) by simp
  have l1: "length (take ?n full) = ?n" using len by simp
  have lb: "length ?b = length b0" using len l1 by simp
  have at: "?b ! i = buff ! i" if "?n \<le> i" "i \<noteq> Suc ?n" "i < length b0" for i
    using that len l1 by (simp add: nth_append)
  have same: "?b ! i = b0 ! i" if "Suc ?n < i" "i < length b0" for i
    using at [of i] that assms(1) by (simp add: buf_inv_def)
  have "?b ! ?n = b0 ! ?n"
    using at [of ?n] assms(1,3) len by (simp add: buf_inv_def)
  moreover have "take ?n ?b = take ?n full" using l1 len by simp
  moreover have "?b ! Suc ?n = NUL" using len l1 by simp
  moreover have "full ! ?n = d" using assms(2) by (simp add: nth_append)
  ultimately show ?thesis
    unfolding buf_inv_def using lb same len take assms(3,5) by (auto intro!: exI [of _ ?n])
qed

lemma prefix_loop_spec:
  assumes "prefix_loop d full c lastc num_chars count part p n1 buff = (stopped, p', n', buff')"
    and "loop_inv d full c lastc num_chars count part p pre" "node_at r p = Some n1"
    and "buf_inv b0 d full (length pre) p buff" "length full < length b0"
  shows "node_at r p' = Some n' \<and> (\<exists>n. buf_inv b0 d full n p' buff') \<and>
    (if stopped then walk r (strtok d full) = p' \<and> length p' < length (strtok d full)
     else \<exists>pre part. full = pre @ part \<and> (pre = [] \<or> last pre = d) \<and> d \<notin> set part \<and> p' = strtok d pre)"
  using assms
proof (induction d full c lastc num_chars count part p n1 buff arbitrary: pre rule: prefix_loop.induct)
  case (1 d full lastc num_chars count part p n1 buff)
  then have "stopped = False" "p' = p" "n' = n1" "buff' = buff" by auto
  with 1 show ?case unfolding loop_inv_def by auto
next
  case (2 d full x c lastc num_chars count part p n1 buff)
  have inv: "full = pre @ part @ x # c" "count = length pre + length part" "p = strtok d pre" "d \<notin> set part"
    "pre = [] \<or> last pre = d" "num_chars = 0 \<longrightarrow> pre = [] \<and> part = []" "part = [] \<longrightarrow> num_chars = 0 \<or> lastc = d"
    "lastc = d \<longrightarrow> part = [] \<and> num_chars \<noteq> 0"
    using 2(6) by (simp_all add: loop_inv_def)
  show ?case
  proof (cases "lastc = d \<and> x = d")
    case True
    have "loop_inv d full c x num_chars (Suc count) part p (pre @ [x])"
      using inv True by (auto simp: loop_inv_def strtok_snoc)
    moreover have "buf_inv b0 d full (length (pre @ [x])) p buff" using 2(8) by (rule buf_inv_mono) simp
    ultimately show ?thesis using 2(1) [OF True] 2(5) 2(7) 2(9) True by simp
  next
    case no: False
    show ?thesis
    proof (cases "x = d \<and> num_chars \<noteq> 0")
      case True
      then have part: "part \<noteq> []" using inv(7) no by auto
      have tp: "strtok d (pre @ part) = p @ [part]" using strtok_split [OF inv(5)] inv(3,4) part by simp
      show ?thesis
      proof (cases "trie_find_child n1 part")
        case None
        have "strtok d full = p @ part # strtok d c"
          using strtok_join [of d "pre @ part" c] tp inv(1) True by simp
        moreover have "walk n1 (part # strtok d c) = []" using None by simp
        ultimately have "walk r (strtok d full) = p" "length p < length (strtok d full)"
          using walk_append [OF 2(7)] by auto
        moreover have "stopped" "p' = p" "n' = n1" "buff' = buff" using 2(5) no True None by auto
        ultimately show ?thesis using 2(7,8) by auto
      next
        case (Some n2)
        have l: "loop_inv d full c x (Suc num_chars) (Suc count) [] (p @ [part]) (pre @ part @ [x])"
          using inv True tp strtok_snoc [of d "pre @ part"] by (auto simp: loop_inv_def)
        have n: "node_at r (p @ [part]) = Some n2" using 2(7) Some by (simp add: node_at_append)
        have full: "full = pre @ part @ d # c" using inv(1) True by simp
        have b: "buf_inv b0 d full (length (pre @ part @ [x])) (p @ [part]) ((take count full @ drop count buff)[Suc count := NUL])"
          using buf_inv_write [OF 2(8) full part 2(9) tp] inv(2) by simp
        show ?thesis using 2(2) [OF no True Some _ l n b 2(9)] 2(5) no True Some by auto
      qed
    next
      case no2: False
      show ?thesis
      proof (cases "x \<noteq> d")
        case True
        have l: "loop_inv d full c x (Suc num_chars) (Suc count) (part @ [x]) p pre"
          using inv True by (auto simp: loop_inv_def)
        show ?thesis using 2(3) [OF no no2 True _ l 2(7-9)] 2(5) no no2 True by simp
      next
        case False
        then have z: "num_chars = 0" "x = d" using no2 by auto
        have l: "loop_inv d full c x (Suc num_chars) (Suc count) part p (pre @ [x])"
          using inv z by (auto simp: loop_inv_def strtok_snoc [of d "[]", simplified])
        have b: "buf_inv b0 d full (length (pre @ [x])) p buff" using 2(8) by (rule buf_inv_mono) simp
        show ?thesis using 2(4) [OF no no2 False _ l 2(7) b 2(9)] 2(5) no no2 False by simp
      qed
    qed
  qed
qed

text \<open>
  The node found is the one that the longest existing part of the path leads to. The buffer holds
  the whole key when the last component was found, nothing when no component was, and otherwise
  the key up to a delimiter (and there what it held before).
\<close>

lemma trie_longest_prefix_spec:
  assumes ok: "trie_ok t" and key: "c_string k" and len: "length k < length buff"
    and run: "trie_longest_prefix t k buff = (p, b)"
  shows "p = walk (root t) (strtok (delim t) k) \<and>
    (cstr b = k \<and> p = strtok (delim t) k \<and> p \<noteq> [] \<or>
     (\<exists>n. buf_inv (buff[0 := NUL]) (delim t) k n p b))"
proof -
  let ?d = "delim t" and ?r = "root t" and ?b = "buff[0 := NUL]"
  have d: "?d \<noteq> NUL" and r: "node_ok ?d ?r" using ok by (simp_all add: trie_ok_def)
  obtain stopped p' n' b' where loop: "prefix_loop ?d k k NUL 0 0 [] [] ?r ?b = (stopped, p', n', b')"
    by (metis prod_cases4)
  have "loop_inv ?d k k NUL 0 0 [] [] []" using d by (simp add: loop_inv_def strtok_def)
  moreover have "buf_inv ?b ?d k (length []) [] ?b" by (simp add: buf_inv_def)
  ultimately have spec: "node_at ?r p' = Some n'" "\<exists>n. buf_inv ?b ?d k n p' b'"
    "if stopped then walk ?r (strtok ?d k) = p' \<and> length p' < length (strtok ?d k)
     else \<exists>pre part. k = pre @ part \<and> (pre = [] \<or> last pre = ?d) \<and> ?d \<notin> set part \<and> p' = strtok ?d pre"
    using prefix_loop_spec [OF loop, of "[]" ?r ?b] len by auto
  show ?thesis
  proof (cases stopped)
    case True
    then show ?thesis using run loop spec by (simp add: trie_longest_prefix_def)
  next
    case False
    then obtain pre part where k: "k = pre @ part" "pre = [] \<or> last pre = ?d" "?d \<notin> set part" "p' = strtok ?d pre"
      using spec(3) by auto
    have toks: "strtok ?d k = p' @ (if part = [] then [] else [part])"
      using strtok_split [OF k(2)] k strtok_part [OF k(3)] by simp
    have w: "walk ?r (strtok ?d k) =
        p' @ (if part = [] \<or> trie_find_child n' part = None then [] else [part])"
      using walk_append [OF spec(1)] toks by (auto split: option.split)
    have run': "(p, b) = (case trie_find_child n' part of Some _ \<Rightarrow> (p' @ [part], strcpy b' k) | None \<Rightarrow> (p', b'))"
    proof (cases "pre = []")
      case True
      then have "rindex k ?d = None" "p' = []" using k by (simp_all add: rindex_None)
      moreover have "n' = ?r" using spec(1) \<open>p' = []\<close> by simp
      moreover have "k = part" using k True by simp
      ultimately show ?thesis using run loop False by (auto simp: trie_longest_prefix_def split: option.splits)
    next
      case pre: False
      then have "k = butlast pre @ ?d # part" using k(1,2) by (metis append_Cons append_assoc append_butlast_last_id append_Nil)
      then have "rindex k ?d = Some (length (butlast pre))" using rindex_app_last [OF k(3)] by metis
      moreover have "drop (Suc (length (butlast pre))) k = part" using k(1) pre by simp
      ultimately show ?thesis using run loop False by (simp add: trie_longest_prefix_def)
    qed
    have empty: "trie_find_child n' [] = None" using find_child_empty [OF node_ok_at [OF r spec(1)]] .
    have cpy: "cstr (strcpy b' k) = k" using cstr_app [OF key] by (simp add: strcpy_def)
    show ?thesis
    proof (cases "trie_find_child n' part")
      case None
      then show ?thesis using run' w spec(2) by simp
    next
      case (Some c)
      then have "part \<noteq> []" using empty by auto
      then show ?thesis using run' w Some toks cpy by simp
    qed
  qed
qed

lemma take_all_NUL: "take n b = s \<Longrightarrow> n < length b \<Longrightarrow> b ! n = NUL \<Longrightarrow> c_string s \<Longrightarrow> cstr b = s"
  by (metis cstr_app id_take_nth_drop)

lemma common_len_take:
  "take n b = take n k \<Longrightarrow> n < length b \<Longrightarrow> n < length k \<Longrightarrow> b ! n \<noteq> k ! n \<Longrightarrow> common_len b k = n"
proof (induction n arbitrary: b k)
  case 0
  then show ?case by (cases b; cases k) auto
next
  case (Suc n)
  then obtain x b' y k' where "b = x # b'" "k = y # k'" by (cases b; cases k) auto
  with Suc show ?case by auto
qed

text \<open>With a buffer of zeros, insertion goes on after the components that exist.\<close>

lemma trie_insert2_eq:
  assumes ok: "trie_ok t" and key: "c_string k"
  shows "trie_insert2 t k v =
    (let toks = strtok (delim t) k; p = walk (root t) toks;
         (p, r) = insert_nodes v (drop (length p) toks) p (root t) in (p, t\<lparr>root := r\<rparr>))"
proof -
  let ?d = "delim t" and ?r = "root t" and ?z = "replicate (Suc (length k)) NUL"
  let ?toks = "strtok ?d k" and ?p = "walk ?r (strtok ?d k)"
  have d: "?d \<noteq> NUL" using ok by (simp add: trie_ok_def)
  obtain b where b: "trie_longest_prefix t k ?z = (?p, b)"
    using trie_longest_prefix_spec [OF ok key, of ?z] by (cases "trie_longest_prefix t k ?z") auto
  have z: "?z[0 := NUL] = ?z" by simp
  have spec: "cstr b = k \<and> ?p = ?toks \<and> ?p \<noteq> [] \<or> (\<exists>n. buf_inv ?z ?d k n ?p b)"
    using trie_longest_prefix_spec [OF ok key _ b] unfolding z by simp
  obtain q where q: "?toks = ?p @ q" using walk_prefix [of ?toks ?r] by blast
  show ?thesis
  proof (cases "cstr b = k \<and> ?p = ?toks \<and> ?p \<noteq> []")
    case True
    then show ?thesis using b by (simp add: trie_insert2_def Let_def)
  next
    case False
    then obtain n where inv: "buf_inv ?z ?d k n ?p b" using spec by blast
    show ?thesis
    proof (cases "?p = []")
      case True
      then have "cstr b = []" using inv by (simp add: buf_inv_def cstr_def)
      then show ?thesis using b True by (auto simp: trie_insert2_def Let_def)
    next
      case p: False
      then obtain cnt where cnt: "0 < cnt" "cnt < length k" "k ! cnt = ?d" "strtok ?d (take cnt k) = ?p"
        "take cnt b = take cnt k" "b ! cnt = NUL" and lb: "length b = Suc (length k)"
        using inv by (auto simp: buf_inv_def nth_Cons split: nat.splits)
      have cb: "cstr b = take cnt k"
        using take_all_NUL [OF cnt(5)] cnt lb c_string_take_drop [OF key] by simp
      have nk: "cstr b \<noteq> k" using cb cnt(2) by (metis length_take min.absorb4 nat_neq_iff)
      have ne: "cstr b \<noteq> []" using cb cnt(1,2) by auto
      have "common_len b (strdup k) = cnt"
        using cnt lb d by (intro common_len_take) (simp_all add: strdup_def nth_append)
      moreover have "strtok ?d (drop cnt k) = drop (length ?p) ?toks"
      proof -
        have k: "k = take cnt k @ ?d # drop (Suc cnt) k" using cnt(2,3) by (metis id_take_nth_drop)
        have "strtok ?d k = ?p @ strtok ?d (drop (Suc cnt) k)"
          using strtok_join [of ?d "take cnt k" "drop (Suc cnt) k"] k cnt(4) by simp
        moreover have "strtok ?d (drop cnt k) = strtok ?d (drop (Suc cnt) k)"
          using cnt(2,3) by (metis Cons_nth_drop_Suc strtok_delim(1))
        ultimately show ?thesis by (metis append_eq_conv_conj)
      qed
      ultimately show ?thesis using b p nk ne by (simp add: trie_insert2_def Let_def)
    qed
  qed
qed

section \<open>The trie as a map\<close>

definition vals :: "'a trie_node \<Rightarrow> string list \<Rightarrow> 'a option" where
  "vals r q = map_option node_val (node_at r q)"

lemma vals_simps [simp]:
  "vals n [] = Some (node_val n)"
  "vals n (k # ks) = (case trie_find_child n k of None \<Rightarrow> None | Some c \<Rightarrow> vals c ks)"
  by (auto simp: vals_def split: option.splits)

lemma vals_None: "vals r q = None \<longleftrightarrow> node_at r q = None"
  by (simp add: vals_def)

lemma vals_prefix: "vals r (p @ q) \<noteq> None \<Longrightarrow> vals r p \<noteq> None"
  by (cases "node_at r p") (auto simp: vals_None node_at_append)

lemma update_node_key: "(\<And>n. node_key (f n) = node_key n) \<Longrightarrow> node_key (update_node p f n) = node_key n"
  by (cases p; cases n) auto

lemma find_child_update:
  assumes "\<And>n. node_key (f n) = node_key n"
  shows "trie_find_child (update_node (k # ks) f n) k' =
    (if k' = k then map_option (update_node ks f) (trie_find_child n k) else trie_find_child n k')"
proof (cases n)
  case (Node key v cs)
  show ?thesis
  proof (cases "k' = k")
    case True
    then show ?thesis
      using update_node_key [OF assms] by (simp add: Node trie_find_child_def find_update_first_same)
  next
    case False
    have "List.find (\<lambda>c. node_key c = k') (update_first (\<lambda>c. node_key c = k) (update_node ks f) cs) =
        List.find (\<lambda>c. node_key c = k') cs"
      by (rule find_update_first_other) (use False update_node_key [OF assms] in auto)
    then show ?thesis using False by (simp add: Node trie_find_child_def)
  qed
qed

lemma node_val_update: "p \<noteq> [] \<Longrightarrow> node_val (update_node p f n) = node_val n"
  by (cases p; cases n) auto

text \<open>Writing below one path does not change the others.\<close>

lemma vals_update:
  assumes key: "\<And>n. node_key (f n) = node_key n"
  shows "node_at r p = Some n \<Longrightarrow>
    vals (update_node p f r) q =
      (if take (length p) q = p then vals (f n) (drop (length p) q) else vals r q)"
proof (induction p arbitrary: r q)
  case (Cons k p)
  then obtain c where c: "trie_find_child r k = Some c" "node_at c p = Some n" by (auto split: option.splits)
  show ?case
  proof (cases q)
    case Nil
    then show ?thesis by (simp add: node_val_update)
  next
    case q: (Cons k' q')
    show ?thesis
    proof (cases "k' = k")
      case True
      have "vals (update_node (k # p) f r) q = vals (update_node p f c) q'"
        using c find_child_update [OF key, where k = k and ks = p and n = r and k' = k'] True
        by (simp only: q vals_simps) simp
      moreover have "vals r q = vals c q'" using c True q by simp
      ultimately show ?thesis using Cons.IH [OF c(2), of q'] True q by simp
    next
      case False
      have "vals (update_node (k # p) f r) q = vals r q"
        using find_child_update [OF key, where k = k and ks = p and n = r and k' = k'] False
        by (simp only: q vals_simps) simp
      then show ?thesis using False q by simp
    qed
  qed
qed simp

lemma node_ok_update:
  assumes key: "\<And>n. node_key (f n) = node_key n"
  shows "node_at r p = Some n \<Longrightarrow> node_ok d r \<Longrightarrow> node_ok d (f n) \<Longrightarrow> node_ok d (update_node p f r)"
proof (induction p arbitrary: r)
  case (Cons k p)
  obtain key v cs where r: "r = Node key v cs" by (cases r)
  obtain c where c: "trie_find_child r k = Some c" "node_at c p = Some n"
    using Cons.prems(1) by (auto split: option.splits)
  have ok: "node_ok d (update_node p f c)"
    using Cons.IH [OF c(2)] node_ok_child [OF Cons.prems(2) c(1)] Cons.prems(3) by simp
  let ?g = "update_node p f"
  have keys: "map node_key (update_first (\<lambda>c. node_key c = k) ?g cs) = map node_key cs"
    by (rule update_first_map) (rule update_node_key [OF key])
  have "x \<in> set cs \<or> x = ?g c" if "x \<in> set (update_first (\<lambda>c. node_key c = k) ?g cs)" for x
  proof -
    have "List.find (\<lambda>c. node_key c = k) cs = Some c" using c(1) by (simp add: trie_find_child_def r)
    then show ?thesis using that by (induction cs) (auto split: if_splits)
  qed
  moreover have "component d (node_key (?g c))"
    using node_ok_child [OF Cons.prems(2) c(1)] find_child_Some [OF c(1)] update_node_key [OF key, of p c] by simp
  moreover have "\<forall>x\<in>set cs. component d (node_key x) \<and> node_ok d x" "distinct (map node_key cs)"
    using Cons.prems(2) r by auto
  ultimately show ?case using ok keys by (auto simp: r)
qed simp

lemma find_child_add:
  "trie_find_child (add_child c n) k =
    (case trie_find_child n k of Some x \<Rightarrow> Some x | None \<Rightarrow> if node_key c = k then Some c else None)"
  by (simp add: trie_find_child_def add_child_def find_append split: option.split)

lemma vals_add_child:
  assumes "node_at r p = Some n" "trie_find_child n s = None"
  shows "vals (update_node p (add_child (Node s v [])) r) = (vals r)(p @ [s] \<mapsto> v)"
proof
  fix q
  show "vals (update_node p (add_child (Node s v [])) r) q = ((vals r)(p @ [s] \<mapsto> v)) q"
  proof (cases "take (length p) q = p")
    case False
    then have "q \<noteq> p @ [s]" by auto
    then show ?thesis using vals_update [OF _ assms(1), of "add_child (Node s v [])"] False by (simp add: add_child_def)
  next
    case True
    then obtain q' where q: "q = p @ q'" by (metis append_take_drop_id)
    have "vals (update_node p (add_child (Node s v [])) r) q = vals (add_child (Node s v []) n) q'"
      using vals_update [OF _ assms(1), of "add_child (Node s v [])"] q by (simp add: add_child_def)
    also have "\<dots> = ((vals n)([s] \<mapsto> v)) q'"
    proof (cases q')
      case Nil
      then show ?thesis by (simp add: add_child_def)
    next
      case (Cons k ks)
      have "vals (Node s v []) ks = (if ks = [] then Some v else None)"
        by (cases ks) (auto simp: trie_find_child_def)
      then show ?thesis
        unfolding Cons vals_simps find_child_add using assms(2)
        by (auto split: option.split)
    qed
    also have "\<dots> = ((vals r)(p @ [s] \<mapsto> v)) q"
      using assms(1) by (auto simp: q vals_def node_at_append)
    finally show ?thesis .
  qed
qed

lemma node_ok_add_child:
  assumes "node_ok d n" "trie_find_child n s = None" "component d s"
  shows "node_ok d (add_child (Node s v []) n)"
  using assms
  by (cases n) (auto simp: add_child_def trie_find_child_def find_None_iff_all)

lemma insert_nodes_spec:
  assumes "node_ok d r" "node_at r p = Some n" "ss = [] \<or> trie_find_child n (hd ss) = None"
    and "\<forall>s\<in>set ss. component d s" "insert_nodes v ss p r = (p', r')"
  shows "p' = p @ ss \<and> node_ok d r' \<and>
    vals r' = (\<lambda>q. case vals r q of Some x \<Rightarrow> Some x
      | None \<Rightarrow> if take (length q) (p @ ss) = q then Some v else None)"
  using assms
proof (induction ss arbitrary: p r n)
  case Nil
  have old: "vals r q \<noteq> None" if "take (length q) p = q" for q
    using vals_prefix [of r q "drop (length q) p"] that Nil.prems(2)
    by (metis append_take_drop_id option.distinct(1) vals_None)
  have "vals r q = (case vals r q of Some x \<Rightarrow> Some x | None \<Rightarrow> if take (length q) p = q then Some v else None)" for q
    using old [of q] by (cases "vals r q") auto
  then have "vals r = (\<lambda>q. case vals r q of Some x \<Rightarrow> Some x | None \<Rightarrow> if take (length q) p = q then Some v else None)"
    by (rule ext)
  moreover have "p' = p" "r' = r" using Nil.prems(5) by simp_all
  ultimately show ?case using Nil.prems(1) unfolding append_Nil2 by blast
next
  case (Cons s ss)
  let ?f = "add_child (Node s v [])"
  let ?r = "update_node p ?f r"
  have key: "node_key (?f m) = node_key m" for m :: "'a trie_node" by (simp add: add_child_def)
  have none: "trie_find_child n s = None" using Cons.prems(3) by simp
  have v1: "vals ?r = (vals r)(p @ [s] \<mapsto> v)" using Cons.prems(2) none by (rule vals_add_child)
  have ok1: "node_ok d ?r"
    using node_ok_update [OF key Cons.prems(2,1)] node_ok_add_child [OF node_ok_at [OF Cons.prems(1,2)] none]
      Cons.prems(4) by simp
  obtain n1 where n1: "node_at ?r (p @ [s]) = Some n1"
    using v1 vals_None [of ?r "p @ [s]"] by fastforce
  have leaf: "trie_find_child n1 k = None" for k
  proof -
    have "vals ?r ((p @ [s]) @ [k]) = vals r (p @ [s, k])" using v1 by simp
    moreover have "vals r (p @ [s, k]) = None"
      using none Cons.prems(2) vals_prefix [of r "p @ [s]" "[k]"] by (auto simp: vals_def node_at_append)
    ultimately have "vals ?r ((p @ [s]) @ [k]) = None" by simp
    then have "node_at ?r ((p @ [s]) @ [k]) = None" by (simp only: vals_None)
    then have "node_at n1 [k] = None" by (simp only: node_at_append [of ?r "p @ [s]"] n1 Option.bind.simps)
    then show ?thesis by (simp split: option.splits)
  qed
  have "insert_nodes v ss (p @ [s]) ?r = (p', r')" using Cons.prems(5) by simp
  then have IH: "p' = (p @ [s]) @ ss" "node_ok d r'"
    "vals r' = (\<lambda>q. case vals ?r q of Some x \<Rightarrow> Some x
      | None \<Rightarrow> if take (length q) ((p @ [s]) @ ss) = q then Some v else None)"
    using Cons.IH [OF ok1 n1] leaf Cons.prems(4) by auto
  have "vals r' q = (case vals r q of Some x \<Rightarrow> Some x
      | None \<Rightarrow> if take (length q) (p @ s # ss) = q then Some v else None)" for q
  proof (cases "q = p @ [s]")
    case True
    then have "vals r q = None" using none Cons.prems(2) by (auto simp: vals_def node_at_append)
    then show ?thesis using True IH(3) v1 by simp
  next
    case False
    then show ?thesis using IH(3) v1 by (simp split: option.split)
  qed
  then have "vals r' = (\<lambda>q. case vals r q of Some x \<Rightarrow> Some x
      | None \<Rightarrow> if take (length q) (p @ s # ss) = q then Some v else None)" by (rule ext)
  then show ?case using IH(1,2) by simp
qed

lemma walk_rest:
  assumes "node_at n (walk n ks) = Some c"
  shows "drop (length (walk n ks)) ks = [] \<or> trie_find_child c (hd (drop (length (walk n ks)) ks)) = None"
proof -
  obtain q where q: "ks = walk n ks @ q" "q \<noteq> [] \<longrightarrow> trie_find_child c (hd q) = None"
    using walk_prefix [of ks n] assms by auto
  from q(1) have "drop (length (walk n ks)) ks = q" by (metis append_eq_conv_conj)
  with q(2) show ?thesis by auto
qed

lemma strtok_components: "\<forall>s\<in>set (strtok d k). component d s"
  using strtok_props by (auto simp: component_def)

lemma trie_insert2_vals:
  assumes ok: "trie_ok t" and key: "c_string k" and run: "trie_insert2 t k v = (p, t')"
  shows "p = strtok (delim t) k \<and> trie_ok t' \<and> delim t' = delim t \<and> trie_find t' k = Some p \<and>
    vals (root t') = (\<lambda>q. case vals (root t) q of Some x \<Rightarrow> Some x
      | None \<Rightarrow> if take (length q) p = q then Some v else None)"
proof -
  let ?s = "strtok (delim t) k" and ?w = "walk (root t) (strtok (delim t) k)"
  have r: "node_ok (delim t) (root t)" using ok by (simp add: trie_ok_def)
  obtain p' r' where ins: "insert_nodes v (drop (length ?w) ?s) ?w (root t) = (p', r')" by (rule prod.exhaust)
  then have eq: "p = p'" "t' = t\<lparr>root := r'\<rparr>"
    using trie_insert2_eq [OF ok key, of v] run by (simp_all add: Let_def)
  obtain q where q: "?s = ?w @ q" "node_at (root t) ?w \<noteq> None" using walk_prefix [of ?s "root t"] by blast
  then obtain c where c: "node_at (root t) ?w = Some c" by blast
  have w: "?w @ drop (length ?w) ?s = ?s" using q(1) by (metis append_eq_conv_conj)
  have "\<forall>s\<in>set (drop (length ?w) ?s). component (delim t) s"
    using strtok_components by (metis in_set_dropD)
  from insert_nodes_spec [OF r c walk_rest [OF c] this ins]
  have spec: "p' = ?s" "node_ok (delim t) r'" "vals r' = (\<lambda>q. case vals (root t) q of Some x \<Rightarrow> Some x
      | None \<Rightarrow> if take (length q) ?s = q then Some v else None)"
    unfolding w by blast+
  have "vals r' ?s \<noteq> None" unfolding spec(3) by (simp split: option.split)
  then have "?s \<in> paths t'" by (simp add: paths_def vals_None eq)
  moreover have p: "p = ?s" and t': "trie_ok t'" "delim t' = delim t" "root t' = r'"
    using spec(1,2) ok eq by (simp_all add: trie_ok_def)
  ultimately have "trie_find t' k = Some ?s" by (simp add: trie_find_paths)
  with spec(3) t' show ?thesis unfolding p by (simp only: simp_thms)
qed

section \<open>Deletion removes a subtree\<close>

lemma find_remove_first_none:
  assumes "distinct (map node_key cs)"
  shows "List.find (\<lambda>c. node_key c = k') (remove_first (\<lambda>c. node_key c = k) cs) =
    (if k' = k then None else List.find (\<lambda>c. node_key c = k') cs)"
proof (cases "k' = k")
  case True
  then show ?thesis using remove_first_key_notin [OF assms, of k] by (force simp: find_None_iff_all)
next
  case False
  have "List.find (\<lambda>c. node_key c = k') (remove_first (\<lambda>c. node_key c = k) cs) = List.find (\<lambda>c. node_key c = k') cs"
    by (rule find_remove_first_other) (use False in auto)
  then show ?thesis using False by simp
qed

lemma vals_drop_child:
  assumes "node_ok d n"
  shows "vals (drop_child s n) q = (if take 1 q = [s] then None else vals n q)"
  using assms
  by (cases q; cases n) (auto simp: drop_child_def trie_find_child_def find_remove_first_none)

lemma node_ok_drop_child: "node_ok d n \<Longrightarrow> node_ok d (drop_child s n)"
  using set_remove_first [of "\<lambda>c. node_key c = s"]
  by (cases n) (auto simp: drop_child_def remove_first_map_distinct)

lemma trie_delete2_vals:
  assumes ok: "trie_ok t" and p: "p \<in> paths t" "p \<noteq> []" and run: "trie_delete2 t p = (rv, t')"
  shows "trie_ok t' \<and> vals (root t') = (\<lambda>q. if take (length p) q = p then None else vals (root t) q)"
proof -
  obtain q s where q: "p = q @ [s]" using p(2) by (cases p rule: rev_cases) auto
  obtain n where n: "node_at (root t) q = Some n"
    using p(1) by (cases "node_at (root t) q") (auto simp: paths_def q node_at_append)
  have key: "node_key (drop_child s m) = node_key m" for m :: "'a trie_node" by (simp add: drop_child_def)
  have okn: "node_ok (delim t) (root t)" "node_ok (delim t) n"
    using ok node_ok_at n by (auto simp: trie_ok_def)
  have t': "root t' = update_node q (drop_child s) (root t)" "delim t' = delim t"
    using run p(2) by (auto simp: trie_delete2_def Let_def q)
  have "vals (root t') x = (if take (length p) x = p then None else vals (root t) x)" for x
  proof (cases "take (length q) x = q")
    case True
    then obtain y where x: "x = q @ y" by (metis append_take_drop_id)
    have "take (length p) x = p \<longleftrightarrow> take 1 y = [s]" by (cases y) (auto simp: x q)
    then show ?thesis
      using vals_update [OF key n, of x] vals_drop_child [OF okn(2)] n
      by (simp add: t' x) (simp add: vals_def node_at_append)
  next
    case False
    then have "take (length p) x \<noteq> p"
      by (metis append_eq_conv_conj length_append linorder_le_cases q take_append take_take min.absorb1 le_add1)
    with False show ?thesis using vals_update [OF key n, of x] by (simp add: t')
  qed
  moreover have "trie_ok t'"
    using ok t' node_ok_update [OF key n okn(1) node_ok_drop_child [OF okn(2)]] by (simp add: trie_ok_def)
  ultimately show ?thesis by blast
qed

lemma trie_delete_vals:
  assumes "trie_ok t" "strtok (delim t) k \<noteq> []"
  shows "trie_ok (snd (trie_delete t k)) \<and> delim (snd (trie_delete t k)) = delim t \<and>
    vals (root (snd (trie_delete t k))) =
      (\<lambda>q. if take (length (strtok (delim t) k)) q = strtok (delim t) k then None else vals (root t) q)"
proof (cases "strtok (delim t) k \<in> paths t")
  case True
  then have del: "trie_delete t k = trie_delete2 t (strtok (delim t) k)" by (simp add: trie_delete_def trie_find_paths)
  have "delim (snd (trie_delete2 t (strtok (delim t) k))) = delim t" by (simp add: trie_delete2_def Let_def)
  then show ?thesis
    using trie_delete2_vals [OF assms(1) True assms(2) prod.collapse [symmetric]] by (simp add: del)
next
  case False
  let ?p = "strtok (delim t) k"
  have "vals (root t) q = None" if "take (length ?p) q = ?p" for q
  proof -
    have q: "?p @ drop (length ?p) q = q" using append_take_drop_id [of "length ?p" q] unfolding that .
    have "vals (root t) ?p = None" using False by (simp add: paths_def vals_None)
    then show ?thesis using vals_prefix [of "root t" ?p "drop (length ?p) q"] unfolding q by blast
  qed
  then show ?thesis using False assms(1) by (auto simp: trie_delete_def trie_find_paths)
qed

section \<open>What the trie promises\<close>

lemma vals_add_leaf: "vals (Node k v []) q = (if q = [] then Some v else None)"
  by (cases q) (auto simp: trie_find_child_def)

text \<open>
  C25: \<open>trie_longest_prefix\<close> returns the deepest node that exists on the way to the key: its path is
  the longest part of the list of components of the key (runs of delimiters count as one, leading
  and trailing ones do not matter) that is in the trie, and the whole list exactly when
  \<open>trie_find\<close> finds the key.
\<close>

theorem trie_longest_prefix_deepest:
  assumes "trie_ok t" "c_string k" "length k < length buff" "trie_longest_prefix t k buff = (p, b)"
  shows "p \<in> paths t \<and> (\<exists>q. strtok (delim t) k = p @ q \<and> (\<forall>x y. q = x @ y \<and> x \<noteq> [] \<longrightarrow> p @ x \<notin> paths t)) \<and>
    (trie_find t k = Some p \<longleftrightarrow> p = strtok (delim t) k)"
proof -
  let ?s = "strtok (delim t) k"
  have p: "p = walk (root t) ?s" using trie_longest_prefix_spec [OF assms] by simp
  obtain q where q: "?s = p @ q" "node_at (root t) p \<noteq> None"
    "q \<noteq> [] \<longrightarrow> trie_find_child (the (node_at (root t) p)) (hd q) = None"
    using walk_prefix [of ?s "root t"] p by blast
  have "p @ x \<notin> paths t" if "q = x @ y" "x \<noteq> []" for x y
    using q(2,3) that by (cases x) (auto simp: paths_def node_at_append)
  then have "\<forall>x y. q = x @ y \<and> x \<noteq> [] \<longrightarrow> p @ x \<notin> paths t" by blast
  moreover have "trie_find t k = Some p \<longleftrightarrow> p = ?s" using p by (auto simp: trie_find_def Let_def find_loop_walk)
  moreover have "p \<in> paths t" using q(2) by (simp add: paths_def)
  ultimately show ?thesis using q(1) by blast
qed

definition sample_trie :: "nat trie" where
  "sample_trie = \<lparr>root = Node ''/'' 0 [Node ''etc'' 1 [Node ''init'' 1 []]], delim = CHR ''/''\<rparr>"

lemma sample_trie_ok: "trie_ok sample_trie"
  by (simp add: trie_ok_def sample_trie_def component_def NUL_def)

lemma trie_longest_prefix_deepest_witness:
  "fst (trie_longest_prefix sample_trie ''//etc/passwd'' (replicate 20 NUL)) = [''etc''] \<and>
   trie_find sample_trie ''//etc/passwd'' = None"
proof -
  have key: "c_string ''//etc/passwd''" by (simp add: c_string_def NUL_def)
  have run: "trie_longest_prefix sample_trie ''//etc/passwd'' (replicate 20 NUL) =
      ([''etc''], ''//etc'' @ NUL # replicate 14 NUL)"
    by code_simp
  have "trie_find sample_trie ''//etc/passwd'' = Some [''etc''] \<longleftrightarrow>
      [''etc''] = strtok (delim sample_trie) ''//etc/passwd''"
    using trie_longest_prefix_deepest [OF sample_trie_ok key _ run] by simp
  moreover have "trie_find sample_trie ''//etc/passwd'' = None" by code_simp
  ultimately show ?thesis using run by simp
qed

text \<open>
  C26: \<open>trie_insert2\<close> returns the node whose path is the list of components of the key, keeps the
  trie well formed, keeps every node that is there with its payload, and adds a node with the new
  payload for each missing part of the path, and nothing else; the key is found afterwards.
\<close>

theorem trie_insert_adds:
  assumes ok: "trie_ok t" and key: "c_string k" and run: "trie_insert2 t k v = (p, t')"
  shows "p = strtok (delim t) k \<and> trie_ok t' \<and> trie_find t' k = Some p \<and>
    vals (root t') = (\<lambda>q. case vals (root t) q of Some x \<Rightarrow> Some x
      | None \<Rightarrow> if take (length q) p = q then Some v else None)"
  using trie_insert2_vals [OF assms] by blast

lemma trie_insert_adds_witness:
  "vals (root (snd (trie_insert2 sample_trie ''/etc/rc/'' 7))) [''etc'', ''rc''] = Some 7 \<and>
   vals (root (snd (trie_insert2 sample_trie ''/etc/rc/'' 7))) [''etc''] = Some 1"
proof -
  have key: "c_string ''/etc/rc/''" by (simp add: c_string_def NUL_def)
  note spec = trie_insert_adds [OF sample_trie_ok key, of 7 "fst (trie_insert2 sample_trie ''/etc/rc/'' 7)", OF prod.collapse [symmetric]]
  have "vals (root sample_trie) [''etc'', ''rc''] = None" "vals (root sample_trie) [''etc''] = Some 1"
    "fst (trie_insert2 sample_trie ''/etc/rc/'' 7) = [''etc'', ''rc'']"
    by code_simp+
  with spec show ?thesis by simp
qed

text \<open>
  C27: \<open>trie_delete\<close> leaves the trie alone and returns \<open>TRIE_ERR\<close> when the key is not found. When it is,
  the node goes with everything below it and nothing else (for the root: only what is below), the
  trie stays well formed, and the return value tells whether there was something below.
\<close>

theorem trie_delete_removes:
  assumes ok: "trie_ok t" and run: "trie_delete t k = (rv, t')"
  shows "case trie_find t k of
      None \<Rightarrow> rv = TRIE_ERR \<and> t' = t
    | Some p \<Rightarrow> trie_ok t' \<and>
        (p \<noteq> [] \<longrightarrow> vals (root t') = (\<lambda>q. if take (length p) q = p then None else vals (root t) q)) \<and>
        (p = [] \<longrightarrow> vals (root t') = (\<lambda>q. if q = [] then vals (root t) [] else None)) \<and>
        (rv = TRIE_OK \<longleftrightarrow> (\<forall>s. p @ [s] \<notin> paths t)) \<and> (rv \<noteq> TRIE_OK \<longrightarrow> rv = TRIE_MANY)"
proof (cases "trie_find t k")
  case None
  then show ?thesis using run by (simp add: trie_delete_def)
next
  case (Some p)
  then have p: "p \<in> paths t" and del: "trie_delete2 t p = (rv, t')"
    using run by (auto simp: trie_delete_def trie_find_paths split: if_splits)
  then obtain n where n: "node_at (root t) p = Some n" by (auto simp: paths_def)
  have "(\<forall>s. p @ [s] \<notin> paths t) \<longleftrightarrow> (\<forall>s. trie_find_child n s = None)"
    using n by (simp add: paths_def node_at_append split: option.split)
  also have "\<dots> \<longleftrightarrow> node_children n = []"
    by (cases n, cases "node_children n") (auto simp: trie_find_child_def)
  finally have rv: "(rv = TRIE_OK \<longleftrightarrow> (\<forall>s. p @ [s] \<notin> paths t)) \<and> (rv \<noteq> TRIE_OK \<longrightarrow> rv = TRIE_MANY)"
    using del n by (auto simp: trie_delete2_def Let_def TRIE_OK_def TRIE_MANY_def)
  show ?thesis
  proof (cases "p = []")
    case True
    then have "t' = t\<lparr>root := Node (node_key (root t)) (node_val (root t)) []\<rparr>"
      using del by (simp add: trie_delete2_def Let_def)
    then have "trie_ok t'" "vals (root t') q = (if q = [] then vals (root t) [] else None)" for q
      using ok by (simp_all add: trie_ok_def vals_add_leaf)
    then show ?thesis using Some True rv by auto
  next
    case False
    then show ?thesis using trie_delete2_vals [OF ok p False del] Some rv by simp
  qed
qed

lemma trie_delete_removes_witness:
  "vals (root (snd (trie_delete sample_trie ''/etc''))) [''etc'', ''init''] = None \<and>
   fst (trie_delete sample_trie ''/etc'') = TRIE_MANY"
proof -
  note spec = trie_delete_removes [OF sample_trie_ok, of "''/etc''" "fst (trie_delete sample_trie ''/etc'')", OF prod.collapse [symmetric]]
  have "trie_find sample_trie ''/etc'' = Some [''etc'']" "fst (trie_delete sample_trie ''/etc'') \<noteq> TRIE_OK"
    by code_simp+
  with spec show ?thesis by simp
qed

end
