(* ===== verification/Sim_Fs.thy ===== *)
theory Sim_Fs
  imports Fs_Trie In_Common
begin

text \<open>
  The simulated file system of \<open>simfs.c\<close>: the trie of the files the replay has met, and the
  simulation of \<open>access\<close>, \<open>stat\<close>, \<open>mkdir\<close>, \<open>unlink\<close>, \<open>rmdir\<close> and \<open>open\<close> on it. What the real file
  system holds is a parameter: which names \<open>access(name, F_OK)\<close> finds, the size \<open>stat\<close> gives for
  them, and the current directory (\<open>None\<close> when \<open>getcwd\<close> does not fit in the buffer).
\<close>

record disk =
  on_disk :: "string \<Rightarrow> bool"
  st_size :: "string \<Rightarrow> i64"
  cwd :: "string option"

record simfs =
  physical :: bool
  sf_created :: bool
  phys_size :: i64
  virt_size :: i64

definition SIMFS_PHYS :: i32 where "SIMFS_PHYS = -1"
definition SIMFS_VIRT :: i32 where "SIMFS_VIRT = -2"
definition SIMFS_ENOENT :: i32 where "SIMFS_ENOENT = 1"
definition SIMFS_EENT :: i32 where "SIMFS_EENT = 2"

definition simfs_new_trie_node :: simfs where
  "simfs_new_trie_node = \<lparr>physical = False, sf_created = False, phys_size = -1, virt_size = 0\<rparr>"

definition simfs_new_trie_node_phys :: simfs where
  "simfs_new_trie_node_phys = \<lparr>physical = True, sf_created = False, phys_size = 0, virt_size = 0\<rparr>"

section \<open>Absolute names\<close>

text \<open>One round of the loop on \<open>"/.."\<close> found at \<open>off\<close>, and of the loop on \<open>"/."\<close>.\<close>

definition drop_dotdot :: "string \<Rightarrow> nat \<Rightarrow> string res" where
  "drop_dotdot buff off =
     (if off = 0 then Inr (drop 3 buff)
      else (case rindex (take off buff) (CHR ''/'') of
          None \<Rightarrow> Inl Assertion
        | Some i \<Rightarrow> Inr (take i buff @ drop (off + 3) buff)))"

definition drop_dot :: "string \<Rightarrow> nat \<Rightarrow> string" where
  "drop_dot buff off =
     (if off = 0 then if length buff = 2 then ''/'' else drop 2 buff
      else take off buff @ drop (off + 2) buff)"

lemma drop_dotdot_shorter:
  assumes "strstr buff ''/..'' = Some off" "drop_dotdot buff off = Inr b"
  shows "length b < length buff"
proof -
  have "off + 3 \<le> length buff" using strstr_Some [OF assms(1)] by simp
  moreover have "length (take i buff @ drop (off + 3) buff) < length buff"
    if "rindex (take off buff) (CHR ''/'') = Some i" for i
    using rindex_Some [OF that] calculation by auto
  ultimately show ?thesis using assms(2) by (auto simp: drop_dotdot_def split: if_splits option.splits)
qed

lemma drop_dot_shorter:
  assumes "strstr buff ''/.'' = Some off"
  shows "length (drop_dot buff off) < length buff"
proof -
  have "off + 2 \<le> length buff" using strstr_Some [OF assms] by simp
  then show ?thesis by (auto simp: drop_dot_def)
qed

function dotdot_loop :: "string \<Rightarrow> string res" where
  "dotdot_loop buff =
     (case strstr buff ''/..'' of
        None \<Rightarrow> Inr buff
      | Some off \<Rightarrow> bindR (drop_dotdot buff off) dotdot_loop)"
  by pat_completeness auto

termination dotdot_loop
  by (relation "measure length") (auto intro: drop_dotdot_shorter)

function dot_loop :: "string \<Rightarrow> string" where
  "dot_loop buff =
     (case strstr buff ''/.'' of None \<Rightarrow> buff | Some off \<Rightarrow> dot_loop (drop_dot buff off))"
  by pat_completeness auto

termination dot_loop
  by (relation "measure length") (auto intro: drop_dot_shorter)

declare dotdot_loop.simps [simp del] dot_loop.simps [simp del]

definition simfs_absolute_name :: "disk \<Rightarrow> string \<Rightarrow> nat \<Rightarrow> string res" where
  "simfs_absolute_name dk nm buf_size =
     bindR
       (if buf_size \<le> length nm then Inl Overflow
        else if take 1 nm \<noteq> ''/'' then
          (case cwd dk of
             None \<Rightarrow> Inl Exit_Call
           | Some dir \<Rightarrow>
               if buf_size < length dir + length nm + 1 + 1 then Inl Exit_Call
               else Inr (dir @ ''/'' @ nm))
        else Inr nm)
       (\<lambda>buff. bindR (dotdot_loop buff) (\<lambda>buff. Inr (dot_loop buff)))"

section \<open>Filling in what is on the disk\<close>

text \<open>
  \<open>simfs_populate\<close>: \<open>existing\<close> is a string in a buffer of \<open>cap\<close> characters, extended by one
  component after the other while the disk has it; \<open>missing\<close> loses as many characters.
\<close>

fun populate_loop ::
  "disk \<Rightarrow> nat \<Rightarrow> string list \<Rightarrow> string \<Rightarrow> nat \<Rightarrow> simfs trie \<Rightarrow> (bool \<times> string \<times> nat \<times> simfs trie) res" where
  "populate_loop dk cap [] existing mis_off t = Inr (True, existing, mis_off, t)"
| "populate_loop dk cap (s # ss) existing mis_off t =
     (let slash = (if existing = [] \<or> last existing \<noteq> CHR ''/'' then ''/'' else []);
          name = existing @ slash @ s in
      if cap \<le> length name then Inl Overflow
      else if on_disk dk name then
        (let (p, t) = trie_insert2 t name simfs_new_trie_node_phys;
             t = t\<lparr>root := update_node p (set_val (\<lambda>f. f\<lparr>phys_size := st_size dk name\<rparr>)) (root t)\<rparr> in
         populate_loop dk cap ss name (mis_off + length slash + length s) t)
      else Inr (False, existing, mis_off, t))"

definition simfs_populate ::
  "disk \<Rightarrow> nat \<Rightarrow> string \<Rightarrow> string \<Rightarrow> simfs trie \<Rightarrow> (bool \<times> string \<times> string \<times> simfs trie) res" where
  "simfs_populate dk cap existing missing t =
     bindR (populate_loop dk cap (strtok (CHR ''/'') missing) existing 0 t) (\<lambda>(rv, existing, mis_off, t).
       if length missing < mis_off then Inl Overflow
       else Inr (rv, existing, drop mis_off missing, t))"

definition simfs_init :: "simfs trie" where
  "simfs_init = trie_init (CHR ''/'') (simfs_new_trie_node\<lparr>physical := True\<rparr>)"

text \<open>\<open>simfs->physical\<close> for the node a prefix search returned.\<close>

definition physical_at :: "simfs trie \<Rightarrow> string list \<Rightarrow> bool res" where
  "physical_at t p = bindR (of_opt Dangling (node_at (root t) p)) (\<lambda>n. Inr (physical (node_val n)))"

definition mark_created :: "string list \<Rightarrow> simfs trie \<Rightarrow> simfs trie" where
  "mark_created p t = t\<lparr>root := update_node p (set_val (\<lambda>f. f\<lparr>sf_created := True\<rparr>)) (root t)\<rparr>"

definition trie_insert :: "simfs trie \<Rightarrow> string \<Rightarrow> string list \<times> simfs trie" where
  "trie_insert t full_key = trie_insert2 t full_key simfs_new_trie_node"

section \<open>The simulated system calls\<close>

text \<open>
  Every operation starts with the absolute name, the longest prefix that is in the trie (in a
  copy of the name) and the position up to which the two agree. The results are the return value
  and the trie; a return value that is read without having been set is \<open>None\<close>.
\<close>

definition simfs_access :: "disk \<Rightarrow> access_op \<Rightarrow> simfs trie \<Rightarrow> (i32 option \<times> simfs trie) res" where
  "simfs_access dk o_p t =
     bindR (simfs_absolute_name dk (access_name o_p) MAX_LINE) (\<lambda>name.
     let (p, buff) = trie_longest_prefix t name (strdup name) in
     if cstr buff = name then
       if access_retval o_p = 0 then Inr (Some 0, t)
       else bindR (physical_at t p) (\<lambda>phys.
         if phys then Inr (Some SIMFS_EENT, snd (trie_delete t name))
         else Inr (Some SIMFS_EENT, t))
     else (let i = common_len (cstr buff) name in
       bindR (simfs_populate dk (Suc (length name)) (cstr buff) (drop i name) t) (\<lambda>(ex, buff, missing, t).
       if access_retval o_p \<noteq> 0 then
         if ex then Inr (Some SIMFS_EENT, snd (trie_delete t name))
         else Inr (Some 0, t)
       else if \<not> ex then Inr (None, snd (trie_insert t name))
       else Inr (Some 0, t))))"

definition simfs_stat :: "disk \<Rightarrow> stat_op \<Rightarrow> simfs trie \<Rightarrow> (i32 option \<times> simfs trie) res" where
  "simfs_stat dk o_p t =
     bindR (simfs_absolute_name dk (stat_name o_p) MAX_LINE) (\<lambda>name.
     let (p, buff) = trie_longest_prefix t name (strdup name) in
     if cstr buff = name then
       if stat_retval o_p = 0 then Inr (Some 0, t)
       else bindR (physical_at t p) (\<lambda>phys.
         if phys then Inr (Some SIMFS_EENT, snd (trie_delete t name))
         else Inr (Some SIMFS_EENT, t))
     else (let i = common_len (cstr buff) name in
       bindR (simfs_populate dk (Suc (length name)) (cstr buff) (drop i name) t) (\<lambda>(ex, buff, missing, t).
       if stat_retval o_p \<noteq> 0 then
         if ex then Inr (Some SIMFS_EENT, snd (trie_delete t name))
         else Inr (Some 0, t)
       else if \<not> ex then Inr (Some SIMFS_ENOENT, snd (trie_insert t name))
       else Inr (Some 0, t))))"

text \<open>
  \<open>simfs_mkdir\<close> fills in the disk first. It looks at the last character of \<open>missing\<close>, which must
  not be empty then.
\<close>

definition simfs_mkdir :: "disk \<Rightarrow> mkdir_op \<Rightarrow> simfs trie \<Rightarrow> (i32 option \<times> simfs trie) res" where
  "simfs_mkdir dk o_p t =
     bindR (simfs_absolute_name dk (mkdir_name o_p) MAX_LINE) (\<lambda>name.
     let (p, buff) = trie_longest_prefix t name (strdup name); i = common_len (cstr buff) name in
     bindR (simfs_populate dk (Suc (length name)) (cstr buff) (drop i name) t) (\<lambda>(ex, buff, missing, t).
     if buff = name then
       if mkdir_retval o_p \<noteq> 0 then Inr (Some 0, t) else Inr (Some SIMFS_EENT, t)
     else if missing = [] then Inl Overflow
     else (let missing = (if last missing = CHR ''/'' then butlast missing else missing);
               missing = (if take 1 missing = ''/'' then drop 1 missing else missing);
               would_succ = (strccount missing (CHR ''/'') = 0) in
       if mkdir_retval o_p \<noteq> 0 then
         if \<not> would_succ then Inr (Some 0, t)
         else Inr (Some SIMFS_EENT, snd (trie_delete t name))
       else (let (n, t) = trie_insert t name in
         Inr (Some (if would_succ then 0 else SIMFS_ENOENT), mark_created n t)))))"

definition simfs_unlink :: "disk \<Rightarrow> unlink_op \<Rightarrow> simfs trie \<Rightarrow> (i32 option \<times> simfs trie) res" where
  "simfs_unlink dk o_p t =
     bindR (simfs_absolute_name dk (unlink_name o_p) MAX_LINE) (\<lambda>name.
     let (p, buff) = trie_longest_prefix t name (strdup name) in
     if cstr buff = name then
       if unlink_retval o_p = 0 then Inr (Some 0, snd (trie_delete t name))
       else Inr (Some SIMFS_EENT, snd (trie_delete t name))
     else (let i = common_len (cstr buff) name in
       bindR (simfs_populate dk (Suc (length name)) (cstr buff) (drop i name) t) (\<lambda>(ex, buff, missing, t).
       if unlink_retval o_p \<noteq> 0 then
         if ex then Inr (Some SIMFS_EENT, snd (trie_delete t name))
         else Inr (Some 0, t)
       else Inr (Some SIMFS_ENOENT, snd (trie_delete (snd (trie_insert t name)) name)))))"

definition simfs_rmdir :: "disk \<Rightarrow> rmdir_op \<Rightarrow> simfs trie \<Rightarrow> (i32 option \<times> simfs trie) res" where
  "simfs_rmdir dk o_p t =
     simfs_unlink dk
       \<lparr>unlink_name = rmdir_name o_p, unlink_retval = rmdir_retval o_p, unlink_info = rmdir_info o_p\<rparr> t"

definition simfs_creat :: "disk \<Rightarrow> open_op \<Rightarrow> simfs trie \<Rightarrow> (i32 option \<times> simfs trie) res" where
  "simfs_creat dk o_p t =
     bindR (simfs_absolute_name dk (open_name o_p) MAX_LINE) (\<lambda>name.
     let (p, buff) = trie_longest_prefix t name (strdup name); i = common_len (cstr buff) name in
     bindR (simfs_populate dk (Suc (length name)) (cstr buff) (drop i name) t) (\<lambda>(ex, buff, missing, t).
     if buff = name then
       if has_flag (open_flags o_p) O_CREAT then
         if has_flag (open_flags o_p) O_EXCL then
           if open_retval o_p = -1 then Inr (Some 0, t) else Inr (Some SIMFS_EENT, t)
         else Inr (Some 0, t)
       else if open_retval o_p = -1 then Inr (Some SIMFS_EENT, snd (trie_delete t name))
       else Inr (Some 0, t)
     else (let missing = (if take 1 missing = ''/'' then drop 1 missing else missing);
               would_succ = (strccount missing (CHR ''/'') = 0) in
       if \<not> has_flag (open_flags o_p) O_CREAT then
         if open_retval o_p = -1 then Inr (Some 0, t)
         else Inr (Some SIMFS_ENOENT, snd (trie_insert t name))
       else if open_retval o_p = -1 then
         if \<not> would_succ then Inr (Some 0, t)
         else Inr (Some SIMFS_EENT, snd (trie_delete t name))
       else (let (n, t) = trie_insert t name in
         Inr (Some (if would_succ then 0 else SIMFS_ENOENT), mark_created n t)))))"

section \<open>Queries\<close>

definition simfs_has_file :: "simfs trie \<Rightarrow> string \<Rightarrow> i32 res" where
  "simfs_has_file t name =
     (let (p, buff) = trie_longest_prefix t name (strdup name) in
      if cstr buff = name then
        bindR (physical_at t p) (\<lambda>phys. Inr (if phys then SIMFS_PHYS else SIMFS_VIRT))
      else Inr SIMFS_ENOENT)"

definition simfs_is_file :: "simfs trie_node \<Rightarrow> bool" where
  "simfs_is_file n = trie_is_leaf n"

text \<open>\<open>simfs_find\<close> returns a pointer to the structure: its path, read and written through the trie.\<close>

definition simfs_find :: "disk \<Rightarrow> simfs trie \<Rightarrow> string \<Rightarrow> string list option res" where
  "simfs_find dk t name =
     bindR (simfs_absolute_name dk name MAX_LINE) (\<lambda>name. Inr (trie_find t name))"

definition get_simfs :: "simfs trie \<Rightarrow> string list \<Rightarrow> simfs res" where
  "get_simfs t p = bindR (of_opt Dangling (node_at (root t) p)) (\<lambda>n. Inr (node_val n))"

definition put_simfs :: "string list \<Rightarrow> simfs \<Rightarrow> simfs trie \<Rightarrow> simfs trie" where
  "put_simfs p f t = t\<lparr>root := update_node p (set_val (\<lambda>_. f)) (root t)\<rparr>"

end
