(* ===== verification/Simulate.thy ===== *)
theory Simulate
  imports Fd_Map Sim_Fs
begin

text \<open>
  The simulation of \<open>simulate.c\<close>: it notes the bytes that every read and write moved in tables
  keyed by the file name, and keeps the simulated file system up to date. The global variables
  are a record; the tables are absent before \<open>simulate_init\<close> and after \<open>simulate_finish\<close>.
\<close>

record rw_op =
  rw_offset :: i64
  rw_size :: i64
  rw_start :: int32timeval
  rw_dur :: i32

record sim_item =
  si_name :: string
  si_created :: i32
  si_time_open :: int32timeval
  si_list :: "rw_op list"

record sim_state =
  sim_map_read :: "sim_item hash_table option"
  sim_map_write :: "sim_item hash_table option"
  sim_mode :: i32
  sim_fs :: "simfs trie option"
  simfs_mask :: i32
  open_fd_counter :: i32

text \<open>\<open>strncmp(sim_item->name, key, MAX_STRING) == 0\<close>\<close>

definition ht_ops_sim :: "(string, sim_item) hash_table_operations" where
  "ht_ops_sim = \<lparr>hash = ht_hash_str, compare = (\<lambda>k x. take MAX_STRING (si_name x) = take MAX_STRING k)\<rparr>"

interpretation simt: table_ops ht_ops_sim "\<lambda>s. length s < MAX_STRING" si_name
  by unfold_locales (auto simp: ht_ops_sim_def ht_hash_str_range)

section \<open>Start and end\<close>

definition sim_start :: sim_state where
  "sim_start = \<lparr>sim_map_read = None, sim_map_write = None, sim_mode = 0, sim_fs = None, simfs_mask = 0,
     open_fd_counter = 999\<rparr>"

definition simulate_init :: "i32 \<Rightarrow> sim_state \<Rightarrow> sim_state" where
  "simulate_init mode s =
     (if sim_map_read s \<noteq> None then s
      else if sim_map_write s \<noteq> None then s
      else s\<lparr>sim_mode := mode,
             sim_map_read := Some (hash_table_init HASH_TABLE_SIZE),
             sim_map_write := Some (hash_table_init HASH_TABLE_SIZE),
             sim_fs := Some simfs_init, simfs_mask := mode\<rparr>)"

text \<open>The trie is freed; the pointer to it is not reset, but nothing reads it before the next start.\<close>

definition simfs_finish :: "sim_state \<Rightarrow> sim_state" where
  "simfs_finish s = s\<lparr>sim_fs := None, simfs_mask := 0\<rparr>"

definition simulate_finish :: "sim_state \<Rightarrow> sim_state" where
  "simulate_finish s =
     (if sim_map_read s = None then s
      else if sim_map_write s = None then s
      else simfs_finish (s\<lparr>sim_map_read := None, sim_map_write := None\<rparr>))"

definition simulate_get_map_read :: "sim_state \<Rightarrow> sim_item hash_table option" where
  "simulate_get_map_read s = sim_map_read s"

definition simulate_get_map_write :: "sim_state \<Rightarrow> sim_item hash_table option" where
  "simulate_get_map_write s = sim_map_write s"

definition sim_checks :: "sim_state \<Rightarrow> bool" where
  "sim_checks s \<longleftrightarrow> has_flag (sim_mode s) ACT_CHECK \<or> has_flag (sim_mode s) ACT_PREPARE"

definition sim_notes :: "sim_state \<Rightarrow> bool" where
  "sim_notes s \<longleftrightarrow> has_flag (sim_mode s) ACT_SIMULATE"

section \<open>Noting reads and writes\<close>

text \<open>
  \<open>simulate_get_sim_item\<close> makes an item for a file name that is met for the first time.
  \<open>simulate_append_rw\<close> then appends to its list. The model of the two together works on the table.
\<close>

definition simulate_get_sim_item :: "fd_map \<Rightarrow> sim_item hash_table \<Rightarrow> sim_item hash_table res" where
  "simulate_get_sim_item m ht =
     bindR (hash_table_find ht_ops_sim (fm_name m) ht) (\<lambda>item.
     case item of
       Some _ \<Rightarrow> Inr ht
     | None \<Rightarrow> hash_table_insert ht_ops_sim (fm_name m)
         \<lparr>si_name = fm_name m, si_created = fm_created m, si_time_open = fm_time_open m, si_list = []\<rparr> ht)"

definition simulate_append_rw ::
  "string \<Rightarrow> i64 \<Rightarrow> i64 \<Rightarrow> int32timeval \<Rightarrow> i32 \<Rightarrow> i64 \<Rightarrow> sim_item hash_table \<Rightarrow> sim_item hash_table res" where
  "simulate_append_rw key sz offset st du retval ht =
     hash_table_modify ht_ops_sim key
       (\<lambda>it. it\<lparr>si_list := si_list it @
          [\<lparr>rw_offset = offset, rw_size = retval, rw_start = st, rw_dur = du\<rparr>]\<rparr>) ht"

definition note_read :: "fd_map \<Rightarrow> i64 \<Rightarrow> i64 \<Rightarrow> op_info \<Rightarrow> i64 \<Rightarrow> sim_state \<Rightarrow> sim_state res" where
  "note_read m sz offset info retval s =
     bindR (of_opt Null_Deref (sim_map_read s)) (\<lambda>ht.
     bindR (simulate_get_sim_item m ht) (\<lambda>ht.
     bindR (simulate_append_rw (fm_name m) sz offset (start info) (dur info) retval ht) (\<lambda>ht.
     Inr (s\<lparr>sim_map_read := Some ht\<rparr>))))"

definition note_write :: "fd_map \<Rightarrow> i64 \<Rightarrow> i64 \<Rightarrow> op_info \<Rightarrow> i64 \<Rightarrow> sim_state \<Rightarrow> sim_state res" where
  "note_write m sz offset info retval s =
     bindR (of_opt Null_Deref (sim_map_write s)) (\<lambda>ht.
     bindR (simulate_get_sim_item m ht) (\<lambda>ht.
     bindR (simulate_append_rw (fm_name m) sz offset (start info) (dur info) retval ht) (\<lambda>ht.
     Inr (s\<lparr>sim_map_write := Some ht\<rparr>))))"

text \<open>The two updates of sizes in the file system: \<open>virt_size\<close> grows to \<open>off\<close>, \<open>phys_size\<close> as well
  for a physical file, unless the current position is behind its end.\<close>

definition grow_virt :: "i64 \<Rightarrow> simfs \<Rightarrow> simfs" where
  "grow_virt off f = (if virt_size f < off then f\<lparr>virt_size := off\<rparr> else f)"

definition grow_phys :: "i64 \<Rightarrow> i64 \<Rightarrow> simfs \<Rightarrow> simfs" where
  "grow_phys pos off f =
     (if physical f then
        if phys_size f < pos then f
        else if phys_size f < off then f\<lparr>phys_size := off\<rparr> else f
      else f)"

text \<open>\<open>simfs_find\<close> at the head of every function; \<open>trie_find\<close> asserts that the trie exists.\<close>

definition find_sim :: "disk \<Rightarrow> string \<Rightarrow> sim_state \<Rightarrow> (simfs trie \<times> string list option) res" where
  "find_sim dk name s =
     bindR (simfs_absolute_name dk name MAX_LINE) (\<lambda>name.
     bindR (of_opt Assertion (sim_fs s)) (\<lambda>t. Inr (t, trie_find t name)))"

definition update_sim :: "simfs trie \<Rightarrow> string list \<Rightarrow> (simfs \<Rightarrow> simfs) \<Rightarrow> sim_state \<Rightarrow> sim_state" where
  "update_sim t p f s = s\<lparr>sim_fs := Some (t\<lparr>root := update_node p (set_val f) (root t)\<rparr>)\<rparr>"

definition simulate_write :: "disk \<Rightarrow> fd_map \<Rightarrow> write_op \<Rightarrow> sim_state \<Rightarrow> sim_state res" where
  "simulate_write dk m o_p s =
     bindR (find_sim dk (fm_name m) s) (\<lambda>(t, simfs).
     if sim_checks s \<and> simfs = None then Inr s
     else (let off = cur_pos m + write_retval o_p;
               s = (if sim_checks s
                    then update_sim t (the simfs) (\<lambda>f. grow_phys (cur_pos m) off (grow_virt off f)) s
                    else s) in
       if sim_notes s then note_write m (write_size o_p) (cur_pos m) (write_info o_p) (write_retval o_p) s
       else Inr s))"

definition simulate_read :: "disk \<Rightarrow> fd_map \<Rightarrow> read_op \<Rightarrow> sim_state \<Rightarrow> sim_state res" where
  "simulate_read dk m o_p s =
     bindR (find_sim dk (fm_name m) s) (\<lambda>(t, simfs).
     if sim_checks s \<and> simfs = None then Inr s
     else (let off = cur_pos m + read_retval o_p;
               s = (if sim_checks s then update_sim t (the simfs) (grow_virt off) s else s) in
       if sim_notes s then note_read m (read_size o_p) (cur_pos m) (read_info o_p) (read_retval o_p) s
       else Inr s))"

definition simulate_pwrite :: "disk \<Rightarrow> fd_map \<Rightarrow> pwrite_op \<Rightarrow> sim_state \<Rightarrow> sim_state res" where
  "simulate_pwrite dk m o_p s =
     bindR (find_sim dk (fm_name m) s) (\<lambda>(t, simfs).
     if sim_checks s \<and> simfs = None then Inr s
     else (let off = cur_pos m;
               s = (if sim_checks s
                    then update_sim t (the simfs) (\<lambda>f. grow_phys (cur_pos m) off (grow_virt off f)) s
                    else s) in
       if sim_notes s then note_write m (pwrite_size o_p) (pwrite_offset o_p) (pwrite_info o_p) (pwrite_retval o_p) s
       else Inr s))"

definition simulate_pread :: "disk \<Rightarrow> fd_map \<Rightarrow> pread_op \<Rightarrow> sim_state \<Rightarrow> sim_state res" where
  "simulate_pread dk m o_p s =
     bindR (find_sim dk (fm_name m) s) (\<lambda>(t, simfs).
     if sim_checks s \<and> simfs = None then Inr s
     else (let off = cur_pos m;
               s = (if sim_checks s then update_sim t (the simfs) (grow_virt off) s else s) in
       if sim_notes s then note_read m (pread_size o_p) (pread_offset o_p) (pread_info o_p) (pread_retval o_p) s
       else Inr s))"

text \<open>
  \<open>simulate_sendfile\<close> with the maps of the two descriptors, \<open>None\<close> for the null pointer. The first
  statement reads the name of the output descriptor before the pointer is tested.
\<close>

definition sendfile_in :: "disk \<Rightarrow> fd_map \<Rightarrow> sendfile_op \<Rightarrow> sim_state \<Rightarrow> (bool \<times> sim_state) res" where
  "sendfile_in dk m o_p s =
     bindR (find_sim dk (fm_name m) s) (\<lambda>(t, simfs).
     if sim_checks s \<and> simfs = None then Inr (False, s)
     else (let off = (if sendfile_offset o_p = OFFSET_INVAL then cur_pos m else sendfile_offset o_p);
               s = (if sim_checks s then update_sim t (the simfs) (grow_virt (off + sendfile_retval o_p)) s else s) in
       if sim_notes s then
         bindR (note_read m (sendfile_size o_p) off (sendfile_info o_p) (sendfile_retval o_p) s) (\<lambda>s. Inr (True, s))
       else Inr (True, s)))"

definition sendfile_out :: "disk \<Rightarrow> fd_map \<Rightarrow> sendfile_op \<Rightarrow> sim_state \<Rightarrow> sim_state res" where
  "sendfile_out dk m o_p s =
     bindR (find_sim dk (fm_name m) s) (\<lambda>(t, simfs).
     if sim_checks s \<and> simfs = None then Inr s
     else (let off = cur_pos m + sendfile_retval o_p;
               s = (if sim_checks s then update_sim t (the simfs) (grow_virt off) s else s) in
       if sim_notes s then
         note_write m (sendfile_size o_p) (cur_pos m) (sendfile_info o_p) (sendfile_retval o_p) s
       else Inr s))"

definition simulate_sendfile ::
  "disk \<Rightarrow> fd_map option \<Rightarrow> fd_map option \<Rightarrow> sendfile_op \<Rightarrow> sim_state \<Rightarrow> sim_state res" where
  "simulate_sendfile dk in_map out_map o_p s =
     bindR (of_opt Null_Deref out_map) (\<lambda>m_out.
     bindR (find_sim dk (fm_name m_out) s) (\<lambda>_.
     bindR (case in_map of None \<Rightarrow> Inr (True, s) | Some m \<Rightarrow> sendfile_in dk m o_p s) (\<lambda>(go_on, s).
     if go_on then sendfile_out dk m_out o_p s else Inr s)))"

section \<open>Operations on names\<close>

definition with_fs ::
  "(simfs trie \<Rightarrow> (i32 option \<times> simfs trie) res) \<Rightarrow> sim_state \<Rightarrow> sim_state res" where
  "with_fs f s =
     (if sim_checks s then
        bindR (of_opt Assertion (sim_fs s)) (\<lambda>t. bindR (f t) (\<lambda>(_, t). Inr (s\<lparr>sim_fs := Some t\<rparr>)))
      else Inr s)"

definition simulate_access :: "disk \<Rightarrow> access_op \<Rightarrow> sim_state \<Rightarrow> sim_state res" where
  "simulate_access dk o_p = with_fs (simfs_access dk o_p)"

definition simulate_stat :: "disk \<Rightarrow> stat_op \<Rightarrow> sim_state \<Rightarrow> sim_state res" where
  "simulate_stat dk o_p = with_fs (simfs_stat dk o_p)"

definition simulate_mkdir :: "disk \<Rightarrow> mkdir_op \<Rightarrow> sim_state \<Rightarrow> sim_state res" where
  "simulate_mkdir dk o_p = with_fs (simfs_mkdir dk o_p)"

definition simulate_rmdir :: "disk \<Rightarrow> rmdir_op \<Rightarrow> sim_state \<Rightarrow> sim_state res" where
  "simulate_rmdir dk o_p = with_fs (simfs_rmdir dk o_p)"

definition simulate_unlink :: "disk \<Rightarrow> unlink_op \<Rightarrow> sim_state \<Rightarrow> sim_state res" where
  "simulate_unlink dk o_p = with_fs (simfs_unlink dk o_p)"

definition simulate_creat :: "disk \<Rightarrow> open_op \<Rightarrow> sim_state \<Rightarrow> sim_state res" where
  "simulate_creat dk o_p = with_fs (simfs_creat dk o_p)"

definition simulate_get_open_fd :: "sim_state \<Rightarrow> i32 \<times> sim_state" where
  "simulate_get_open_fd s = (let fd = open_fd_counter s + 1 in (fd, s\<lparr>open_fd_counter := fd\<rparr>))"

section \<open>Reports\<close>

fun max_offset_loop :: "rw_op list \<Rightarrow> i64 \<Rightarrow> i64" where
  "max_offset_loop [] max_off = max_off"
| "max_offset_loop (r # rs) max_off =
     (let off = rw_offset r + rw_size r in
      max_offset_loop rs (if max_off < off then off else max_off))"

definition simulate_get_max_offset :: "sim_item \<Rightarrow> i64" where
  "simulate_get_max_offset it = max_offset_loop (si_list it) 0"

text \<open>The printing functions are modelled by the lines they print, appended to those before.\<close>

definition simulate_print_filename_size :: "sim_item \<Rightarrow> string list \<Rightarrow> string list" where
  "simulate_print_filename_size it out =
     out @ [si_name it @ '': '' @ decimal (unat (simulate_get_max_offset it)) @ ''B'']"

definition simulate_list_files :: "sim_state \<Rightarrow> string list res" where
  "simulate_list_files s =
     bindR (of_opt Null_Deref (sim_map_read s)) (\<lambda>r.
     bindR (of_opt Null_Deref (sim_map_write s)) (\<lambda>w.
     Inr (hash_table_apply simulate_print_filename_size w
       (hash_table_apply simulate_print_filename_size r [''Read files:''] @ [[], ''Write files:'']))))"

text \<open>\<open>simulate_check_file\<close>: files that are too small, and files that do not exist at all.\<close>

definition simulate_check_file :: "simfs trie_node \<Rightarrow> string \<Rightarrow> string list \<Rightarrow> string list" where
  "simulate_check_file n full_name out =
     (let f = node_val n; line = full_name @ '' '' @ decimal (unat (virt_size f)) in
      if physical f then
        if phys_size f < virt_size f then out @ [line @ '': File is too small, recreate it.''] else out
      else if simfs_is_file n \<and> \<not> sf_created f then out @ [line @ '': File doesn't exist at all.'']
      else out)"

definition simfs_apply :: "(simfs trie_node \<Rightarrow> 's \<Rightarrow> 's) \<Rightarrow> sim_state \<Rightarrow> 's \<Rightarrow> 's res" where
  "simfs_apply f s x = bindR (of_opt Null_Deref (sim_fs s)) (\<lambda>t. Inr (trie_apply f t x))"

definition simfs_apply_full_name :: "(simfs trie_node \<Rightarrow> string \<Rightarrow> 's \<Rightarrow> 's) \<Rightarrow> sim_state \<Rightarrow> 's \<Rightarrow> 's res" where
  "simfs_apply_full_name f s x = bindR (of_opt Null_Deref (sim_fs s)) (\<lambda>t. trie_apply_full f t x)"

definition simulate_check_files :: "sim_state \<Rightarrow> string list res" where
  "simulate_check_files s = simfs_apply_full_name simulate_check_file s [''Create following files:'']"

end
