(* ===== verification/Replicate.thy ===== *)
theory Replicate
  imports Simulate Namemap
begin

unbundle bit_operations_syntax

text \<open>
  The replay engine of \<open>replicate.c\<close>: one function per recorded call, which keeps the descriptor
  tables of the traced processes and either simulates the call or performs it. The operating
  system is a parameter: the effect of a system call on the state of the world, the pattern
  matcher of the C library, and the contents of files and of the file system. Delays, output and
  the choice of a processor are left out.
\<close>

section \<open>The environment\<close>

datatype syscall =
    Sys_open string i32 "i32 option"
  | Sys_close i32
  | Sys_read i32 i64
  | Sys_write i32 i64
  | Sys_pread i32 i64 i64
  | Sys_pwrite i32 i64 i64
  | Sys_lseek i32 i64 i32
  | Sys_unlink string
  | Sys_mkdir string i32
  | Sys_rmdir string
  | Sys_access string i32
  | Sys_stat string

text \<open>
  \<open>sendfile\<close> also gives the offset it stores through its pointer argument. \<open>junk_mode\<close> and
  \<open>junk_start\<close> are what the fields of fresh items hold that the code does not set.
\<close>

record 'w env =
  sys :: "syscall \<Rightarrow> 'w \<Rightarrow> i64 \<times> 'w"
  sys_sendfile :: "i32 \<Rightarrow> i32 \<Rightarrow> i64 \<Rightarrow> i64 \<Rightarrow> 'w \<Rightarrow> i64 \<times> i64 \<times> 'w"
  disk_of :: "'w \<Rightarrow> disk"
  files_of :: "'w \<Rightarrow> string \<Rightarrow> string option"
  fnmatch :: "string \<Rightarrow> string \<Rightarrow> int"
  junk_mode :: i32
  junk_start :: int32timeval

record 'w rep =
  world :: 'w
  fd_mappings :: "process_hash_item hash_table"
  usage_map :: "fd_usage hash_table"
  store :: fd_store
  sim :: sim_state
  names :: namemap
  global_parent_pid :: i32
  global_fix_missing :: bool
  global_devnull_fd :: i32
  global_devzero_fd :: i32
  pipe_fd :: i32
  socket_fd :: i32

definition S_IFIFO :: i32 where "S_IFIFO = 0x1000"
definition S_IFDIR :: i32 where "S_IFDIR = 0x4000"
definition S_IFREG :: i32 where "S_IFREG = 0x8000"
definition S_IFSOCK :: i32 where "S_IFSOCK = 0xC000"
definition O_IGNORE :: i32 where "O_IGNORE = 0x80000000"
definition S_IFIGNORE :: i32 where "S_IFIGNORE = push_bit 30 1 - 1"

lemmas type_defs = S_IFIFO_def S_IFDIR_def S_IFREG_def S_IFSOCK_def S_IFIGNORE_def FT_SPEC_def

text \<open>A call, its result as \<open>int\<close> or as \<open>ssize_t\<close>.\<close>

definition call64 :: "'w env \<Rightarrow> syscall \<Rightarrow> 'w rep \<Rightarrow> i64 \<times> 'w rep" where
  "call64 e c s = (let (r, w) = sys e c (world s) in (r, s\<lparr>world := w\<rparr>))"

definition call32 :: "'w env \<Rightarrow> syscall \<Rightarrow> 'w rep \<Rightarrow> i32 \<times> 'w rep" where
  "call32 e c s = (let (r, s) = call64 e c s in (ucast r, s))"

text \<open>Calls into the modules below, on their part of the state.\<close>

definition with_sim :: "(sim_state \<Rightarrow> sim_state res) \<Rightarrow> 'w rep \<Rightarrow> 'w rep res" where
  "with_sim f s = bindR (f (sim s)) (\<lambda>x. Inr (s\<lparr>sim := x\<rparr>))"

definition with_store :: "(fd_store \<Rightarrow> fd_store res) \<Rightarrow> 'w rep \<Rightarrow> 'w rep res" where
  "with_store f s = bindR (f (store s)) (\<lambda>x. Inr (s\<lparr>store := x\<rparr>))"

definition update_map :: "fd_item \<Rightarrow> (fd_map \<Rightarrow> fd_map) \<Rightarrow> 'w rep \<Rightarrow> 'w rep res" where
  "update_map it f = with_store (\<lambda>st. bindR (deref_item st it) (\<lambda>m. put_item it (f m) st))"

definition use_fd :: "i32 \<Rightarrow> 'w rep \<Rightarrow> 'w rep res" where
  "use_fd fd s = bindR (increase_fd_usage fd (usage_map s)) (\<lambda>u. Inr (s\<lparr>usage_map := u\<rparr>))"

definition ht_find :: "addr \<Rightarrow> i32 \<Rightarrow> 'w rep \<Rightarrow> fd_item option res" where
  "ht_find ht fd s = bindR (get_table (store s) ht) (\<lambda>t. hash_table_find ht_ops_fditem fd t)"

definition ht_insert :: "addr \<Rightarrow> i32 \<Rightarrow> fd_item \<Rightarrow> 'w rep \<Rightarrow> 'w rep res" where
  "ht_insert ht fd it = with_store (\<lambda>st. bindR (get_table st ht) (\<lambda>t.
     bindR (hash_table_insert ht_ops_fditem fd it t) (\<lambda>t. Inr (set_table ht t st))))"

text \<open>\<open>hash_table_remove\<close> with \<open>ht_remove_callback_fditem\<close>, which frees the item.\<close>

definition ht_remove :: "addr \<Rightarrow> i32 \<Rightarrow> 'w rep \<Rightarrow> 'w rep res" where
  "ht_remove ht fd = with_store (\<lambda>st. bindR (get_table st ht) (\<lambda>t.
     bindR (hash_table_remove ht_ops_fditem fd t) (\<lambda>(x, t).
     Inr (case x of None \<Rightarrow> st | Some x \<Rightarrow> free_item x (set_table ht t st)))))"

definition alloc_item :: "'w rep \<Rightarrow> fd_item \<times> 'w rep" where
  "alloc_item s = (let (it, st) = new_fd_item (store s) in (it, s\<lparr>store := st\<rparr>))"

definition map_name :: "'w env \<Rightarrow> string \<Rightarrow> 'w rep \<Rightarrow> string option res" where
  "map_name e name s = namemap_get_name (fnmatch e) (names s) name"

definition replicates :: "i32 \<Rightarrow> bool" where "replicates m \<longleftrightarrow> has_flag m ACT_REPLICATE"
definition simulates :: "i32 \<Rightarrow> bool" where "simulates m \<longleftrightarrow> has_flag m ACT_SIMULATE"

section \<open>Processes\<close>

definition replicate_clone :: "clone_op \<Rightarrow> 'w rep \<Rightarrow> 'w rep res" where
  "replicate_clone o_p s =
     (let p = clone_retval o_p in
      bindR (get_process_ht (fd_mappings s) p) (\<lambda>ht.
      if ht \<noteq> None then Inr s
      else (let (h_it, st) = new_process_ht p (store s);
                st = st\<lparr>tables := (tables st)(the (p_ht h_it) := None)\<rparr> in
        bindR (get_process_ht (fd_mappings s) (pid (clone_info o_p))) (\<lambda>parent.
        bindR (if has_flag (clone_mode o_p) CLONE_FILES then Inr (parent, usage_map s, st)
               else bindR (duplicate_process_ht parent (usage_map s) st) (\<lambda>(h, u, st). Inr (Some h, u, st)))
          (\<lambda>(h, u, st).
        bindR (hash_table_insert ht_ops_fdmapping p (h_it\<lparr>p_ht := h\<rparr>) (fd_mappings s)) (\<lambda>t.
        Inr (s\<lparr>fd_mappings := t, usage_map := u, store := st\<rparr>)))))))"

definition replicate_missing_ht :: "i32 \<Rightarrow> 'w rep \<Rightarrow> (addr option \<times> 'w rep) res" where
  "replicate_missing_ht p s =
     (if \<not> global_fix_missing s then Inr (None, s)
      else bindR (replicate_clone
          \<lparr>clone_mode = CLONE_FILES, clone_retval = p,
           clone_info = \<lparr>pid = global_parent_pid s, dur = 0, start = \<lparr>tv_sec = 0, tv_usec = 0\<rparr>\<rparr>\<rparr> s) (\<lambda>s.
        bindR (get_process_ht (fd_mappings s) p) (\<lambda>ht. Inr (ht, s))))"

text \<open>The lookup with which the handlers start.\<close>

definition find_ht :: "i32 \<Rightarrow> 'w rep \<Rightarrow> (addr option \<times> 'w rep) res" where
  "find_ht p s =
     bindR (get_process_ht (fd_mappings s) p) (\<lambda>ht.
     if ht = None then replicate_missing_ht p s else Inr (ht, s))"

section \<open>Opening and looking up descriptors\<close>

text \<open>The body of \<open>replicate_open\<close> for a call that failed originally: it is only tried again.\<close>

definition open_failed :: "'w env \<Rightarrow> open_op \<Rightarrow> i32 \<Rightarrow> fd_item \<Rightarrow> 'w rep \<Rightarrow> 'w rep res" where
  "open_failed e o_p m it s =
     bindR (map_name e (open_name o_p) s) (\<lambda>name.
     case name of
       None \<Rightarrow> Inr s
     | Some name \<Rightarrow>
         bindR
           (if replicates m then
              (let (retval, s) = call32 e (Sys_open name 0 None) s in
               Inr (if retval \<noteq> -1 then snd (call32 e (Sys_close retval) s) else s))
            else if simulates m then
              with_sim (simulate_creat (disk_of e (world s)) (o_p\<lparr>open_name := name\<rparr>)) s
            else Inr s)
           (with_store (delete_fd_item it)))"

text \<open>Entering the result of an open into the table of the process.\<close>

definition enter_open :: "addr \<Rightarrow> open_op \<Rightarrow> string \<Rightarrow> i32 \<Rightarrow> i32 \<Rightarrow> fd_item \<Rightarrow> 'w rep \<Rightarrow> 'w rep res" where
  "enter_open ht o_p name flags retval it s =
     (let it = it\<lparr>old_fd := open_retval o_p\<rparr> in
      bindR (update_map it (\<lambda>m. m\<lparr>my_fd := retval, cur_pos := 0,
          fm_time_open := start (open_info o_p), fm_name := take (MAX_STRING - 1) name,
          fm_created := and flags O_CREAT\<rparr>) s) (\<lambda>s.
      bindR (with_store (insert_parent_fd it (open_retval o_p)) s) (\<lambda>s.
      bindR (update_map it (\<lambda>m. m\<lparr>fm_type :=
          (if has_flag flags O_IGNORE then S_IFIGNORE
           else if has_flag flags O_DIRECTORY then S_IFDIR else S_IFREG)\<rparr>) s) (\<lambda>s.
      bindR (ht_insert ht (open_retval o_p) it s) (\<lambda>s. use_fd retval s)))))"

text \<open>The descriptor of a new open: that of the system, or a number of the simulation.\<close>

definition open_call ::
  "'w env \<Rightarrow> open_op \<Rightarrow> string \<Rightarrow> i32 \<Rightarrow> i32 \<Rightarrow> 'w rep \<Rightarrow> (i32 \<times> 'w rep) res" where
  "open_call e o_p name flags m s =
     (if replicates m \<and> \<not> has_flag flags O_IGNORE then
        Inr (call32 e (Sys_open name flags
          (if open_mode o_p = MODE_UNDEF then None else Some (open_mode o_p))) s)
      else
        bindR (if simulates m \<and> \<not> has_flag flags O_IGNORE
               then with_sim (simulate_creat (disk_of e (world s)) (o_p\<lparr>open_name := name\<rparr>)) s
               else Inr s) (\<lambda>s.
        let (retval, x) = simulate_get_open_fd (sim s) in Inr (retval, s\<lparr>sim := x\<rparr>)))"

definition replicate_open :: "'w env \<Rightarrow> open_op \<Rightarrow> i32 \<Rightarrow> 'w rep \<Rightarrow> 'w rep res" where
  "replicate_open e o_p m s =
     (let fd = open_retval o_p; (it, s) = alloc_item s in
      if fd = -1 then open_failed e o_p m it s
      else
        bindR (find_ht (pid (open_info o_p)) s) (\<lambda>(ht, s).
        case ht of
          None \<Rightarrow> with_store (delete_fd_item it) s
        | Some ht \<Rightarrow>
            bindR (map_name e (open_name o_p) s) (\<lambda>mapped.
            let flags = (if mapped = None then or (open_flags o_p) O_IGNORE else open_flags o_p);
                name = (case mapped of None \<Rightarrow> open_name o_p | Some n \<Rightarrow> n) in
            bindR (ht_find ht fd s) (\<lambda>found.
            if found \<noteq> None then
              if has_flag flags O_IGNORE then Inr s else with_store (delete_fd_item it) s
            else
              bindR (open_call e o_p name flags m s)
                (\<lambda>(retval, s). if retval = -1 then Inr s else enter_open ht o_p name flags retval it s)))))"

definition replicate_get_missing_name :: "i32 \<Rightarrow> i32 \<Rightarrow> string" where
  "replicate_get_missing_name p fd =
     ''UNKNOWN_FILE_'' @ zero_padded 6 (sint p) @ ''_'' @ zero_padded 6 (sint fd)"

definition missing_open :: "'w env \<Rightarrow> i32 \<Rightarrow> op_info \<Rightarrow> open_op" where
  "missing_open e fd info =
     \<lparr>open_name = replicate_get_missing_name (pid info) fd, open_flags = O_RDWR, open_mode = junk_mode e,
      open_retval = fd, open_info = \<lparr>pid = pid info, dur = 0, start = start info\<rparr>\<rparr>"

definition replicate_get_fd_map ::
  "'w env \<Rightarrow> addr \<Rightarrow> i32 \<Rightarrow> op_info \<Rightarrow> i32 \<Rightarrow> 'w rep \<Rightarrow> (fd_item option \<times> 'w rep) res" where
  "replicate_get_fd_map e ht fd info m s =
     bindR (ht_find ht fd s) (\<lambda>found.
     if found \<noteq> None then Inr (found, s)
     else if \<not> global_fix_missing s then Inr (None, s)
     else bindR (replicate_open e (missing_open e fd info) m s) (\<lambda>s.
       bindR (ht_find ht fd s) (\<lambda>found. Inr (found, s))))"

definition supported_type :: "i32 \<Rightarrow> bool" where
  "supported_type t \<longleftrightarrow> t = S_IFDIR \<or> t = S_IFREG"

text \<open>The first part of the handlers of calls on a descriptor: its table and its item.\<close>

definition locate ::
  "'w env \<Rightarrow> op_info \<Rightarrow> i32 \<Rightarrow> i32 \<Rightarrow> 'w rep \<Rightarrow> ((addr \<times> fd_item) option \<times> 'w rep) res" where
  "locate e info fd m s =
     bindR (find_ht (pid info) s) (\<lambda>(ht, s).
     case ht of
       None \<Rightarrow> Inr (None, s)
     | Some ht \<Rightarrow>
         bindR (replicate_get_fd_map e ht fd info m s) (\<lambda>(it, s).
         Inr (case it of None \<Rightarrow> None | Some it \<Rightarrow> Some (ht, it), s)))"

section \<open>Reading and writing\<close>

text \<open>
  The common middle of the four handlers: in simulation the original result counts, and calls that
  failed are not simulated; otherwise the call is made on \<open>data_buffer\<close>, which holds \<open>MAX_DATA\<close>
  bytes (the larger buffer that is allocated for a larger size is not used). In neither mode the
  program stops.
\<close>

definition transfer ::
  "'w env \<Rightarrow> i32 \<Rightarrow> i64 \<Rightarrow> (sim_state \<Rightarrow> sim_state res) \<Rightarrow> syscall \<Rightarrow> 'w rep \<Rightarrow> (i64 \<times> 'w rep) res" where
  "transfer e m op_retval simulate c s =
     (if simulates m then
        if op_retval \<noteq> -1 then bindR (with_sim simulate s) (\<lambda>s. Inr (op_retval, s))
        else Inr (op_retval, s)
      else if replicates m then
        (let (retval, s) = call64 e c s in
         if sint MAX_DATA < sint retval then Inl Overflow else Inr (retval, s))
      else Inl Assertion)"

definition replicate_read :: "'w env \<Rightarrow> read_op \<Rightarrow> i32 \<Rightarrow> 'w rep \<Rightarrow> 'w rep res" where
  "replicate_read e o_p m s =
     bindR (locate e (read_info o_p) (read_fd o_p) m s) (\<lambda>(found, s).
     case found of
       None \<Rightarrow> Inr s
     | Some (ht, it) \<Rightarrow>
         bindR (deref_item (store s) it) (\<lambda>fm.
         if \<not> supported_type (fm_type fm) then Inr s
         else bindR (transfer e m (read_retval o_p) (simulate_read (disk_of e (world s)) fm o_p)
             (Sys_read (my_fd fm) (read_size o_p)) s)
           (\<lambda>(retval, s). update_map it (\<lambda>fm. fm\<lparr>cur_pos := cur_pos fm + retval\<rparr>) s)))"

definition replicate_write :: "'w env \<Rightarrow> write_op \<Rightarrow> i32 \<Rightarrow> 'w rep \<Rightarrow> 'w rep res" where
  "replicate_write e o_p m s =
     bindR (locate e (write_info o_p) (write_fd o_p) m s) (\<lambda>(found, s).
     case found of
       None \<Rightarrow> Inr s
     | Some (ht, it) \<Rightarrow>
         bindR (deref_item (store s) it) (\<lambda>fm.
         if \<not> supported_type (fm_type fm) then Inr s
         else bindR (transfer e m (write_retval o_p) (simulate_write (disk_of e (world s)) fm o_p)
             (Sys_write (my_fd fm) (write_size o_p)) s)
           (\<lambda>(retval, s). update_map it (\<lambda>fm. fm\<lparr>cur_pos := cur_pos fm + retval\<rparr>) s)))"

definition replicate_pread :: "'w env \<Rightarrow> pread_op \<Rightarrow> i32 \<Rightarrow> 'w rep \<Rightarrow> 'w rep res" where
  "replicate_pread e o_p m s =
     bindR (locate e (pread_info o_p) (pread_fd o_p) m s) (\<lambda>(found, s).
     case found of
       None \<Rightarrow> Inr s
     | Some (ht, it) \<Rightarrow>
         bindR (deref_item (store s) it) (\<lambda>fm.
         if \<not> supported_type (fm_type fm) then Inr s
         else bindR (transfer e m (pread_retval o_p) (simulate_pread (disk_of e (world s)) fm o_p)
             (Sys_pread (my_fd fm) (pread_size o_p) (pread_offset o_p)) s)
           (\<lambda>(retval, s). Inr s)))"

definition replicate_pwrite :: "'w env \<Rightarrow> pwrite_op \<Rightarrow> i32 \<Rightarrow> 'w rep \<Rightarrow> 'w rep res" where
  "replicate_pwrite e o_p m s =
     bindR (locate e (pwrite_info o_p) (pwrite_fd o_p) m s) (\<lambda>(found, s).
     case found of
       None \<Rightarrow> Inr s
     | Some (ht, it) \<Rightarrow>
         bindR (deref_item (store s) it) (\<lambda>fm.
         if \<not> supported_type (fm_type fm) then Inr s
         else bindR (transfer e m (pwrite_retval o_p) (simulate_pwrite (disk_of e (world s)) fm o_p)
             (Sys_pwrite (my_fd fm) (pwrite_size o_p) (pwrite_offset o_p)) s)
           (\<lambda>(retval, s). Inr s)))"

section \<open>Pipes and sockets\<close>

definition get_pipe_fd :: "'w rep \<Rightarrow> i32 \<times> 'w rep" where
  "get_pipe_fd s = (let fd = pipe_fd s - 1 in (fd, s\<lparr>pipe_fd := fd\<rparr>))"

definition get_socket_fd :: "'w rep \<Rightarrow> i32 \<times> 'w rep" where
  "get_socket_fd s = (let fd = socket_fd s - 1 in (fd, s\<lparr>socket_fd := fd\<rparr>))"

text \<open>One end of a pipe; the use count that grows is that of the original descriptor.\<close>

definition enter_pipe :: "addr \<Rightarrow> i32 \<Rightarrow> 'w rep \<Rightarrow> 'w rep res" where
  "enter_pipe ht fd s =
     (let (it, s) = alloc_item s; (myfd, s) = get_pipe_fd s; it = it\<lparr>old_fd := fd\<rparr> in
      bindR (update_map it (\<lambda>fm. fm\<lparr>my_fd := myfd, fm_type := S_IFIFO\<rparr>) s) (\<lambda>s.
      bindR (with_store (insert_parent_fd it fd) s) (\<lambda>s.
      bindR (ht_insert ht fd it s) (\<lambda>s. use_fd fd s))))"

definition replicate_pipe :: "pipe_op \<Rightarrow> 'w rep \<Rightarrow> 'w rep res" where
  "replicate_pipe o_p s =
     (if pipe_retval o_p = -1 then Inr s
      else bindR (find_ht (pid (pipe_info o_p)) s) (\<lambda>(ht, s).
        case ht of
          None \<Rightarrow> Inr s
        | Some ht \<Rightarrow>
            bindR (ht_find ht (pipe_fd1 o_p) s) (\<lambda>found1.
            if found1 \<noteq> None then Inr s
            else bindR (ht_find ht (pipe_fd2 o_p) s) (\<lambda>found2.
              if found2 \<noteq> None then Inr s
              else bindR (enter_pipe ht (pipe_fd1 o_p) s) (\<lambda>s. enter_pipe ht (pipe_fd2 o_p) s)))))"

definition replicate_socket :: "socket_op \<Rightarrow> 'w rep \<Rightarrow> 'w rep res" where
  "replicate_socket o_p s =
     (let fd = socket_retval o_p in
      if fd = -1 then Inr s
      else bindR (find_ht (pid (socket_info o_p)) s) (\<lambda>(ht, s).
        case ht of
          None \<Rightarrow> Inr s
        | Some ht \<Rightarrow>
            bindR (ht_find ht fd s) (\<lambda>found.
            if found \<noteq> None then Inr s
            else (let (it, s) = alloc_item s; (retval, s) = get_socket_fd s; it = it\<lparr>old_fd := fd\<rparr> in
              bindR (update_map it (\<lambda>fm. fm\<lparr>my_fd := retval, fm_time_open := start (socket_info o_p),
                  fm_name := take (MAX_STRING - 1) (fm_name fm), fm_type := S_IFSOCK\<rparr>) s) (\<lambda>s.
              bindR (with_store (insert_parent_fd it fd) s) (\<lambda>s.
              bindR (ht_insert ht fd it s) (\<lambda>s. use_fd retval s)))))))"

section \<open>Closing and duplicating\<close>

text \<open>
  \<open>replicate_close\<close>: a supported descriptor loses a user, and the last one closes it. The item
  leaves the table, and with its last parent the map is freed.
\<close>

definition drop_user :: "'w env \<Rightarrow> fd_map \<Rightarrow> i32 \<Rightarrow> 'w rep \<Rightarrow> (i32 \<times> 'w rep) res" where
  "drop_user e fm m s =
     (if \<not> supported_type (fm_type fm) then Inr (0, s)
      else bindR (decrease_fd_usage (my_fd fm) (usage_map s)) (\<lambda>(last_user, u).
        let s = s\<lparr>usage_map := u\<rparr> in
        if last_user \<and> replicates m then Inr (call32 e (Sys_close (my_fd fm)) s) else Inr (0, s)))"

definition replicate_close :: "'w env \<Rightarrow> close_op \<Rightarrow> i32 \<Rightarrow> 'w rep \<Rightarrow> 'w rep res" where
  "replicate_close e o_p m s =
     bindR (locate e (close_info o_p) (close_fd o_p) m s) (\<lambda>(found, s).
     case found of
       None \<Rightarrow> Inr s
     | Some (ht, it) \<Rightarrow>
         bindR (deref_item (store s) it) (\<lambda>fm.
         bindR (drop_user e fm m s) (\<lambda>(retval, s).
         if retval = -1 then Inr s
         else bindR (delete_parent_fd it (close_fd o_p) (store s)) (\<lambda>(last_parent, st).
           bindR (ht_remove ht (close_fd o_p) (s\<lparr>store := st\<rparr>)) (\<lambda>s.
           if last_parent then with_store (free_map (fm_ptr it)) s else Inr s)))))"

text \<open>
  \<open>replicate_dup\<close>: the new item points to the map of the old one. It looks up the old descriptor
  once more to decide whether to close the new one first.
\<close>

definition replicate_dup :: "'w env \<Rightarrow> dup_op \<Rightarrow> i32 \<Rightarrow> 'w rep \<Rightarrow> 'w rep res" where
  "replicate_dup e o_p m s =
     (let new_fd = dup_retval o_p in
      if new_fd = -1 then Inr s
      else bindR (locate e (dup_info o_p) (dup_old_fd o_p) m s) (\<lambda>(found, s).
        case found of
          None \<Rightarrow> Inr s
        | Some (ht, it) \<Rightarrow>
            (let (it_new, s) = alloc_item s in
             bindR (with_store (free_map (fm_ptr it_new)) s) (\<lambda>s.
             let it_new = it_new\<lparr>old_fd := new_fd, fm_ptr := fm_ptr it\<rparr> in
             bindR (ht_find ht (dup_old_fd o_p) s) (\<lambda>found.
             bindR (if found \<noteq> None then
                 replicate_close e \<lparr>close_fd = new_fd, close_retval = 0,
                   close_info = \<lparr>pid = pid (dup_info o_p), dur = 0, start = junk_start e\<rparr>\<rparr> m s
               else Inr s) (\<lambda>s.
             bindR (with_store (insert_parent_fd it new_fd) s) (\<lambda>s.
             bindR (ht_insert ht new_fd it_new s) (\<lambda>s.
             bindR (deref_item (store s) it_new) (\<lambda>fm. use_fd (my_fd fm) s)))))))))"

section \<open>Seeking\<close>

text \<open>
  Both handlers follow the branch of a 64-bit system, which has no \<open>SYS__llseek\<close>. The branches
  that only differ in what they print are one.
\<close>

definition replicate_llseek :: "'w env \<Rightarrow> llseek_op \<Rightarrow> i32 \<Rightarrow> 'w rep \<Rightarrow> 'w rep res" where
  "replicate_llseek e o_p m s =
     bindR (locate e (llseek_info o_p) (llseek_fd o_p) m s) (\<lambda>(found, s).
     case found of
       None \<Rightarrow> Inr s
     | Some (ht, it) \<Rightarrow>
         bindR (deref_item (store s) it) (\<lambda>fm.
         if \<not> supported_type (fm_type fm) then Inr s
         else (let (retval, s) =
             (if replicates m then call64 e (Sys_lseek (my_fd fm) (llseek_offset o_p) (llseek_flag o_p)) s
              else (llseek_retval o_p, s)) in
           if retval = -1 \<and> retval \<noteq> llseek_retval o_p then Inr s
           else if simulates m then update_map it (\<lambda>fm. fm\<lparr>cur_pos := llseek_f_offset o_p\<rparr>) s
           else Inr s)))"

definition replicate_lseek :: "'w env \<Rightarrow> lseek_op \<Rightarrow> i32 \<Rightarrow> 'w rep \<Rightarrow> 'w rep res" where
  "replicate_lseek e o_p m s =
     bindR (locate e (lseek_info o_p) (lseek_fd o_p) m s) (\<lambda>(found, s).
     case found of
       None \<Rightarrow> Inr s
     | Some (ht, it) \<Rightarrow>
         bindR (deref_item (store s) it) (\<lambda>fm.
         if \<not> supported_type (fm_type fm) then Inr s
         else (let (retval, s) =
             (if replicates m then call64 e (Sys_lseek (my_fd fm) (lseek_offset o_p) (lseek_flag o_p)) s
              else (lseek_retval o_p, s)) in
           if retval = -1 \<and> retval \<noteq> lseek_retval o_p then Inr s
           else if simulates m then update_map it (\<lambda>fm. fm\<lparr>cur_pos := retval\<rparr>) s
           else Inr s)))"

section \<open>sendfile\<close>

text \<open>
  The middle of \<open>replicate_sendfile\<close>, for the maps of the two descriptors, one of which is of a
  supported type: the result and the offset afterwards. \<open>LINUX_VERSION_CODE\<close> is not defined (no
  file includes \<open>linux/version.h\<close>), so when one descriptor is not supported the other one is read
  or written instead.
\<close>

definition do_sendfile ::
  "'w env \<Rightarrow> i32 \<Rightarrow> fd_map \<Rightarrow> fd_map \<Rightarrow> sendfile_op \<Rightarrow> 'w rep \<Rightarrow> (i64 \<times> i64 \<times> 'w rep) res" where
  "do_sendfile e m fm_in fm_out o_p s =
     (let in_ok = supported_type (fm_type fm_in); out_ok = supported_type (fm_type fm_out);
          off = sendfile_offset o_p; sz = sendfile_size o_p in
      if replicates m then
        if in_ok \<and> out_ok then
          (let (r, off, w) = sys_sendfile e (my_fd fm_out) (my_fd fm_in) off sz (world s) in
           Inr (r, off, s\<lparr>world := w\<rparr>))
        else (let (r, s) = call64 e
               (if out_ok then
                  if off = OFFSET_INVAL then Sys_write (my_fd fm_out) sz else Sys_pwrite (my_fd fm_out) sz off
                else
                  if off = OFFSET_INVAL then Sys_read (my_fd fm_in) sz else Sys_pread (my_fd fm_in) sz off) s in
           Inr (r, off, s))
      else if simulates m then
        bindR (if sendfile_retval o_p \<noteq> -1
               then with_sim (simulate_sendfile (disk_of e (world s))
                   (if in_ok then Some fm_in else None) (if out_ok then Some fm_out else None) o_p) s
               else Inr s) (\<lambda>s. Inr (sendfile_retval o_p, off, s))
      else Inr (0, off, s))"

text \<open>The positions afterwards; the input position moves only when no offset was given.\<close>

definition sendfile_positions ::
  "fd_item \<Rightarrow> fd_item \<Rightarrow> sendfile_op \<Rightarrow> i64 \<Rightarrow> i64 \<Rightarrow> 'w rep \<Rightarrow> 'w rep res" where
  "sendfile_positions it_in it_out o_p retval off s =
     (if retval = -1 \<and> retval \<noteq> sendfile_retval o_p then Inr s
      else bindR
        (if off = OFFSET_INVAL then
           update_map it_in (\<lambda>fm. fm\<lparr>cur_pos := cur_pos fm +
             (if retval \<noteq> sendfile_retval o_p then retval else sendfile_size o_p)\<rparr>) s
         else Inr s)
        (update_map it_out (\<lambda>fm. fm\<lparr>cur_pos := cur_pos fm + retval\<rparr>)))"

definition replicate_sendfile :: "'w env \<Rightarrow> sendfile_op \<Rightarrow> i32 \<Rightarrow> 'w rep \<Rightarrow> 'w rep res" where
  "replicate_sendfile e o_p m s =
     bindR (locate e (sendfile_info o_p) (sendfile_out_fd o_p) m s) (\<lambda>(found, s).
     case found of
       None \<Rightarrow> Inr s
     | Some (ht, it_out) \<Rightarrow>
         bindR (replicate_get_fd_map e ht (sendfile_in_fd o_p) (sendfile_info o_p) m s) (\<lambda>(found, s).
         case found of
           None \<Rightarrow> Inr s
         | Some it_in \<Rightarrow>
             bindR (deref_item (store s) it_out) (\<lambda>fm_out.
             bindR (deref_item (store s) it_in) (\<lambda>fm_in.
             if \<not> supported_type (fm_type fm_in) \<and> \<not> supported_type (fm_type fm_out) then Inr s
             else bindR (do_sendfile e m fm_in fm_out o_p s) (\<lambda>(retval, off, s).
               sendfile_positions it_in it_out o_p retval off s)))))"

section \<open>Calls on names\<close>

text \<open>
  Each looks up the mapped name, gives up when the file is to be ignored, and performs the call or
  simulates it. \<open>unlink\<close>, \<open>mkdir\<close> and \<open>rmdir\<close> simulate the call with the recorded name, \<open>access\<close> and
  \<open>stat\<close> with the mapped one. The results are only compared with the recorded ones for a message.
\<close>

definition replicate_name ::
  "'w env \<Rightarrow> string \<Rightarrow> i32 \<Rightarrow> (string \<Rightarrow> syscall) \<Rightarrow> (disk \<Rightarrow> string \<Rightarrow> sim_state \<Rightarrow> sim_state res) \<Rightarrow>
   'w rep \<Rightarrow> 'w rep res" where
  "replicate_name e name m c simulate s =
     bindR (map_name e name s) (\<lambda>mapped.
     case mapped of
       None \<Rightarrow> Inr s
     | Some n \<Rightarrow>
         if replicates m then Inr (snd (call32 e (c n) s))
         else if simulates m then with_sim (simulate (disk_of e (world s)) n) s
         else Inr s)"

definition replicate_unlink :: "'w env \<Rightarrow> unlink_op \<Rightarrow> i32 \<Rightarrow> 'w rep \<Rightarrow> 'w rep res" where
  "replicate_unlink e o_p m =
     replicate_name e (unlink_name o_p) m Sys_unlink (\<lambda>dk _. simulate_unlink dk o_p)"

definition replicate_mkdir :: "'w env \<Rightarrow> mkdir_op \<Rightarrow> i32 \<Rightarrow> 'w rep \<Rightarrow> 'w rep res" where
  "replicate_mkdir e o_p m =
     replicate_name e (mkdir_name o_p) m (\<lambda>n. Sys_mkdir n (mkdir_mode o_p)) (\<lambda>dk _. simulate_mkdir dk o_p)"

definition replicate_rmdir :: "'w env \<Rightarrow> rmdir_op \<Rightarrow> i32 \<Rightarrow> 'w rep \<Rightarrow> 'w rep res" where
  "replicate_rmdir e o_p m =
     replicate_name e (rmdir_name o_p) m Sys_rmdir (\<lambda>dk _. simulate_rmdir dk o_p)"

definition replicate_access :: "'w env \<Rightarrow> access_op \<Rightarrow> i32 \<Rightarrow> 'w rep \<Rightarrow> 'w rep res" where
  "replicate_access e o_p m =
     replicate_name e (access_name o_p) m (\<lambda>n. Sys_access n (access_mode o_p))
       (\<lambda>dk n. simulate_access dk (o_p\<lparr>access_name := n\<rparr>))"

definition replicate_stat :: "'w env \<Rightarrow> stat_op \<Rightarrow> i32 \<Rightarrow> 'w rep \<Rightarrow> 'w rep res" where
  "replicate_stat e o_p m =
     replicate_name e (stat_name o_p) m Sys_stat (\<lambda>dk n. simulate_stat dk (o_p\<lparr>stat_name := n\<rparr>))"

section \<open>Start and end\<close>

text \<open>One of the three standard descriptors, entered in the table under \<open>key\<close>.\<close>

definition enter_std :: "addr \<Rightarrow> i32 \<Rightarrow> string \<Rightarrow> i32 \<Rightarrow> 'w rep \<Rightarrow> 'w rep res" where
  "enter_std ht fd name key s =
     (let (it, s) = alloc_item s; it = it\<lparr>old_fd := fd\<rparr> in
      bindR (update_map it (\<lambda>fm. fm\<lparr>my_fd := fd, fm_name := name, fm_type := FT_SPEC\<rparr>) s) (\<lambda>s.
      bindR (with_store (insert_parent_fd it fd) s) (\<lambda>s.
      bindR (ht_insert ht key it s) (\<lambda>s. use_fd key s))))"

definition replicate_init ::
  "'w env \<Rightarrow> i32 \<Rightarrow> string option \<Rightarrow> string option \<Rightarrow> 'w rep \<Rightarrow> (i32 \<times> 'w rep) res" where
  "replicate_init e p ifilename mfilename s =
     bindR (namemap_init (files_of e (world s)) ifilename mfilename) (\<lambda>(rv, nm).
     let s = s\<lparr>names := nm\<rparr> in
     if rv \<noteq> 0 then Inr (-1, s)
     else
       (let (h_it, st) = new_process_ht p (store s) in
        bindR (hash_table_insert ht_ops_fdmapping p h_it (hash_table_init HASH_TABLE_SIZE)) (\<lambda>t.
        let s = s\<lparr>fd_mappings := t, usage_map := hash_table_init HASH_TABLE_SIZE, store := st,
                 global_parent_pid := p\<rparr>;
            ht = the (p_ht h_it) in
        bindR (enter_std ht 0 ''stdin'' 1 s) (\<lambda>s.
        bindR (enter_std ht 1 ''stdout'' 1 s) (\<lambda>s.
        bindR (enter_std ht 2 ''stderr'' 2 s) (\<lambda>s.
        let (fd, s) = call32 e (Sys_open ''/dev/null'' O_WRONLY None) s;
            s = s\<lparr>global_devnull_fd := fd\<rparr> in
        if fd = -1 then Inr (-1, s)
        else (let (fd, s) = call32 e (Sys_open ''/dev/zero'' 0 None) s in
          Inr (0, s\<lparr>global_devzero_fd := fd\<rparr>))))))))"

text \<open>\<open>replicate_finish\<close> frees the names and the use counts; the descriptor tables stay.\<close>

definition replicate_finish :: "'w rep \<Rightarrow> 'w rep" where
  "replicate_finish s =
     s\<lparr>names := \<lparr>ht_map = hash_table_init (entries (ht_map (names s))), l_igns = []\<rparr>,
       usage_map := hash_table_init (entries (usage_map s))\<rparr>"

section \<open>The replay\<close>

text \<open>
  The macro \<open>REPLICATE\<close> without its delays: the first item initializes the structures with its
  process. The result carries the return value -1 when that failed.
\<close>

definition REPLICATE ::
  "'w env \<Rightarrow> bool \<Rightarrow> string option \<Rightarrow> string option \<Rightarrow> op_info \<Rightarrow> ('w rep \<Rightarrow> 'w rep res) \<Rightarrow>
   'w rep \<Rightarrow> (i32 \<times> 'w rep) res" where
  "REPLICATE e first ifile mfile info handler s =
     bindR (if first then replicate_init e (pid info) ifile mfile s else Inr (0, s)) (\<lambda>(rv, s).
     if rv \<noteq> 0 then Inr (-1, s) else bindR (handler s) (\<lambda>s. Inr (0, s)))"

definition replicate_item ::
  "'w env \<Rightarrow> i32 \<Rightarrow> string option \<Rightarrow> string option \<Rightarrow> bool \<Rightarrow> op_item \<Rightarrow> 'w rep \<Rightarrow> (i32 \<times> 'w rep) res" where
  "replicate_item e m ifile mfile first it s =
     (let go = (\<lambda>info handler. REPLICATE e first ifile mfile info handler s); c = type it in
      if c = OP_WRITE then bindR (as_write it) (\<lambda>x. go (write_info x) (replicate_write e x m))
      else if c = OP_READ then bindR (as_read it) (\<lambda>x. go (read_info x) (replicate_read e x m))
      else if c = OP_PWRITE then bindR (as_pwrite it) (\<lambda>x. go (pwrite_info x) (replicate_pwrite e x m))
      else if c = OP_PREAD then bindR (as_pread it) (\<lambda>x. go (pread_info x) (replicate_pread e x m))
      else if c = OP_OPEN then bindR (as_open it) (\<lambda>x. go (open_info x) (replicate_open e x m))
      else if c = OP_CLOSE then bindR (as_close it) (\<lambda>x. go (close_info x) (replicate_close e x m))
      else if c = OP_UNLINK then bindR (as_unlink it) (\<lambda>x. go (unlink_info x) (replicate_unlink e x m))
      else if c = OP_LSEEK then bindR (as_lseek it) (\<lambda>x. go (lseek_info x) (replicate_lseek e x m))
      else if c = OP_LLSEEK then bindR (as_llseek it) (\<lambda>x. go (llseek_info x) (replicate_llseek e x m))
      else if c = OP_CLONE then bindR (as_clone it) (\<lambda>x. go (clone_info x) (replicate_clone x))
      else if c = OP_MKDIR then bindR (as_mkdir it) (\<lambda>x. go (mkdir_info x) (replicate_mkdir e x m))
      else if c = OP_RMDIR then bindR (as_rmdir it) (\<lambda>x. go (rmdir_info x) (replicate_rmdir e x m))
      else if c = OP_DUP \<or> c = OP_DUP2 \<or> c = OP_DUP3 then bindR (as_dup it) (\<lambda>x. go (dup_info x) (replicate_dup e x m))
      else if c = OP_PIPE then bindR (as_pipe it) (\<lambda>x. go (pipe_info x) (replicate_pipe x))
      else if c = OP_ACCESS then bindR (as_access it) (\<lambda>x. go (access_info x) (replicate_access e x m))
      else if c = OP_STAT then bindR (as_stat it) (\<lambda>x. go (stat_info x) (replicate_stat e x m))
      else if c = OP_SOCKET then bindR (as_socket it) (\<lambda>x. go (socket_info x) (replicate_socket x))
      else if c = OP_SENDFILE then bindR (as_sendfile it) (\<lambda>x. go (sendfile_info x) (replicate_sendfile e x m))
      else Inr (-1, s))"

fun replicate_loop ::
  "'w env \<Rightarrow> i32 \<Rightarrow> string option \<Rightarrow> string option \<Rightarrow> bool \<Rightarrow> op_item list \<Rightarrow> 'w rep \<Rightarrow> (i32 \<times> 'w rep) res" where
  "replicate_loop e m ifile mfile first [] s = Inr (0, replicate_finish s)"
| "replicate_loop e m ifile mfile first (it # its) s =
     bindR (replicate_item e m ifile mfile first it s) (\<lambda>(rv, s).
     if rv \<noteq> 0 then Inr (rv, s) else replicate_loop e m ifile mfile False its s)"

definition replicate_all ::
  "'w env \<Rightarrow> op_item list \<Rightarrow> i32 \<Rightarrow> string option \<Rightarrow> string option \<Rightarrow> 'w rep \<Rightarrow> (i32 \<times> 'w rep) res" where
  "replicate_all e its m ifile mfile s =
     replicate_loop e m ifile mfile True its
       (if has_flag m FIX_MISSING then s else s\<lparr>global_fix_missing := False\<rparr>)"

text \<open>The initial values of the global and static variables; \<open>junk\<close> is what fresh memory holds.\<close>

definition rep_start :: "'w \<Rightarrow> fd_map \<Rightarrow> sim_state \<Rightarrow> 'w rep" where
  "rep_start w jk x =
     \<lparr>world = w, fd_mappings = hash_table_init 0, usage_map = hash_table_init 0,
      store = \<lparr>fd_maps = Map.empty, fd_live = (\<lambda>_. False), tables = Map.empty, next_addr = 0, junk = jk\<rparr>,
      sim = x, names = \<lparr>ht_map = hash_table_init 0, l_igns = []\<rparr>,
      global_parent_pid = 0, global_fix_missing = True, global_devnull_fd = 0, global_devzero_fd = 0,
      pipe_fd = 0x7FFFFFFF, socket_fd = 100000001\<rparr>"

end
