(* ===== verification/Replicate_Frame.thy ===== *)
theory Replicate_Frame
  imports Replicate
begin

text \<open>
  What the handlers of \<open>Replicate\<close> leave alone: the dispatch on the type of an item, and an interface to
  what handlers change, which follows them once with the rules of \<open>ensuresR\<close>. It is used twice: a
  replay that only simulates makes no system call, and no replay takes the tables of the simulation
  away.
\<close>

section \<open>The dispatch\<close>

text \<open>
  The dispatch on the type of an item: a known type either does not fit the structure or runs one
  of the handlers, and an unknown one ends the replay with -1.
\<close>

inductive is_handler :: "'w env \<Rightarrow> i32 \<Rightarrow> ('w rep \<Rightarrow> 'w rep res) \<Rightarrow> bool" for e m where
  "is_handler e m (replicate_write e x m)"
| "is_handler e m (replicate_read e x m)"
| "is_handler e m (replicate_pwrite e x m)"
| "is_handler e m (replicate_pread e x m)"
| "is_handler e m (replicate_open e x m)"
| "is_handler e m (replicate_close e x m)"
| "is_handler e m (replicate_unlink e x m)"
| "is_handler e m (replicate_lseek e x m)"
| "is_handler e m (replicate_llseek e x m)"
| "is_handler e m (replicate_clone x)"
| "is_handler e m (replicate_mkdir e x m)"
| "is_handler e m (replicate_rmdir e x m)"
| "is_handler e m (replicate_dup e x m)"
| "is_handler e m (replicate_pipe x)"
| "is_handler e m (replicate_access e x m)"
| "is_handler e m (replicate_stat e x m)"
| "is_handler e m (replicate_socket x)"
| "is_handler e m (replicate_sendfile e x m)"

definition dispatched ::
  "'w env \<Rightarrow> i32 \<Rightarrow> string option \<Rightarrow> string option \<Rightarrow> bool \<Rightarrow> 'w rep \<Rightarrow> (i32 \<times> 'w rep) res \<Rightarrow> bool" where
  "dispatched e m ifile mfile first s r \<longleftrightarrow> r = Inr (-1, s) \<or> r = Inl Type_Confusion \<or>
     (\<exists>info h. is_handler e m h \<and> r = REPLICATE e first ifile mfile info h s)"

lemma dispatched_if:
  "(b \<Longrightarrow> dispatched e m i f t s x) \<Longrightarrow> (\<not> b \<Longrightarrow> dispatched e m i f t s y) \<Longrightarrow>
   dispatched e m i f t s (if b then x else y)"
  by simp

lemma dispatched_bind:
  "(\<And>x. dispatched e m i f t s (g x)) \<Longrightarrow> r \<in> insert (Inl Type_Confusion) (range Inr) \<Longrightarrow>
   dispatched e m i f t s (bindR r g)"
  by (cases r) (auto simp: dispatched_def [of e m i f t s "Inl _"])

lemma dispatched_handler: "is_handler e m h \<Longrightarrow> dispatched e m i f t s (REPLICATE e t i f info h s)"
  by (auto simp: dispatched_def)

lemma as_range:
  "as_read it \<in> insert (Inl Type_Confusion) (range Inr)" "as_write it \<in> insert (Inl Type_Confusion) (range Inr)"
  "as_pread it \<in> insert (Inl Type_Confusion) (range Inr)" "as_pwrite it \<in> insert (Inl Type_Confusion) (range Inr)"
  "as_pipe it \<in> insert (Inl Type_Confusion) (range Inr)" "as_mkdir it \<in> insert (Inl Type_Confusion) (range Inr)"
  "as_rmdir it \<in> insert (Inl Type_Confusion) (range Inr)" "as_clone it \<in> insert (Inl Type_Confusion) (range Inr)"
  "as_dup it \<in> insert (Inl Type_Confusion) (range Inr)" "as_open it \<in> insert (Inl Type_Confusion) (range Inr)"
  "as_close it \<in> insert (Inl Type_Confusion) (range Inr)" "as_unlink it \<in> insert (Inl Type_Confusion) (range Inr)"
  "as_llseek it \<in> insert (Inl Type_Confusion) (range Inr)" "as_lseek it \<in> insert (Inl Type_Confusion) (range Inr)"
  "as_access it \<in> insert (Inl Type_Confusion) (range Inr)" "as_stat it \<in> insert (Inl Type_Confusion) (range Inr)"
  "as_socket it \<in> insert (Inl Type_Confusion) (range Inr)" "as_sendfile it \<in> insert (Inl Type_Confusion) (range Inr)"
  by (cases "body it"; simp add: as_defs)+

lemma replicate_item_dispatched: "dispatched e m ifile mfile first s (replicate_item e m ifile mfile first it s)"
proof -
  have unknown: "dispatched e m ifile mfile first s (Inr (-1, s))" by (simp add: dispatched_def)
  show ?thesis
    unfolding replicate_item_def Let_def
    by (rule dispatched_if dispatched_bind dispatched_handler is_handler.intros as_range unknown)+
qed

section \<open>What handlers may change\<close>

text \<open>The simulation never takes its tables away.\<close>

definition maps_kept :: "sim_state \<Rightarrow> sim_state \<Rightarrow> bool" where
  "maps_kept x y \<longleftrightarrow> (sim_map_read x \<noteq> None \<longrightarrow> sim_map_read y \<noteq> None) \<and>
     (sim_map_write x \<noteq> None \<longrightarrow> sim_map_write y \<noteq> None)"

definition sim_op :: "(sim_state \<Rightarrow> sim_state res) \<Rightarrow> bool" where
  "sim_op f \<longleftrightarrow> (\<forall>x. ensuresR (maps_kept x) (f x))"

lemma maps_kept_simps [simp]: "maps_kept x x" "maps_kept x (update_sim t p g x)" "maps_kept x (x\<lparr>sim_fs := fs\<rparr>)"
  "maps_kept x (x\<lparr>open_fd_counter := n\<rparr>)" "maps_kept x (x\<lparr>sim_map_read := Some r\<rparr>)" "maps_kept x (x\<lparr>sim_map_write := Some w\<rparr>)"
  by (simp_all add: maps_kept_def update_sim_def)

lemma maps_kept_trans: "maps_kept x y \<Longrightarrow> maps_kept y z \<Longrightarrow> maps_kept x z"
  by (auto simp: maps_kept_def)

lemma note_kept:
  "note_read m sz off info rv x = Inr y \<Longrightarrow> maps_kept x y"
  "note_write m sz off info rv x = Inr y \<Longrightarrow> maps_kept x y"
  by (auto simp: note_read_def note_write_def res_iff)

lemma note_updated_kept:
  "note_read m sz off info rv (update_sim t p g x) = Inr y \<Longrightarrow> maps_kept x y"
  "note_write m sz off info rv (update_sim t p g x) = Inr y \<Longrightarrow> maps_kept x y"
  by (rule maps_kept_trans [OF maps_kept_simps(2)], erule note_kept)+

lemma sim_op_transfers:
  "sim_op (simulate_read dk m o_read)" "sim_op (simulate_write dk m o_write)"
  "sim_op (simulate_pread dk m o_pread)" "sim_op (simulate_pwrite dk m o_pwrite)"
  unfolding sim_op_def ensuresR_def simulate_read_def simulate_write_def simulate_pread_def simulate_pwrite_def
  by (auto simp: Let_def res_iff dest: note_kept note_updated_kept split: if_splits)

lemma sim_op_sendfile: "sim_op (simulate_sendfile dk m_in m_out o_p)"
proof -
  have "maps_kept x y" if "sendfile_in dk m o_p x = Inr (g, y)" for m x y g
    using that by (auto simp: sendfile_in_def Let_def res_iff dest: note_kept note_updated_kept split: if_splits)
  moreover have "maps_kept x y" if "sendfile_out dk m o_p x = Inr y" for m x y
    using that by (auto simp: sendfile_out_def Let_def res_iff dest: note_kept note_updated_kept split: if_splits)
  ultimately show ?thesis
    using maps_kept_trans
    by (fastforce simp: sim_op_def ensuresR_def simulate_sendfile_def res_iff split: option.splits if_splits)
qed

lemma sim_op_names:
  "sim_op (simulate_access dk o_access)" "sim_op (simulate_stat dk o_stat)" "sim_op (simulate_mkdir dk o_mkdir)"
  "sim_op (simulate_rmdir dk o_rmdir)" "sim_op (simulate_unlink dk o_unlink)" "sim_op (simulate_creat dk o_open)"
  by (auto simp: sim_op_def ensuresR_def simulate_access_def simulate_stat_def simulate_mkdir_def simulate_rmdir_def
      simulate_unlink_def simulate_creat_def with_fs_def res_iff split: if_splits)

lemmas sim_ops = sim_op_transfers sim_op_sendfile sim_op_names

text \<open>
  The interface of the handlers to whatever a replay is to keep: they change descriptor tables, use counts
  and counters at will, the simulation by its operations, and the world only in the mode \<open>m\<close> that
  replicates.
\<close>

named_theorems frame_intro \<open>functions that keep what is to be kept\<close>

locale handler_frame =
  fixes keeps :: "'w rep \<Rightarrow> bool"
    and m :: i32
  assumes keep_store: "keeps s \<Longrightarrow> keeps (s\<lparr>store := st\<rparr>)"
    and keep_usage: "keeps s \<Longrightarrow> keeps (s\<lparr>usage_map := u\<rparr>)"
    and keep_procs: "keeps s \<Longrightarrow> keeps (s\<lparr>fd_mappings := t\<rparr>)"
    and keep_pipe: "keeps s \<Longrightarrow> keeps (s\<lparr>pipe_fd := fd\<rparr>)"
    and keep_socket: "keeps s \<Longrightarrow> keeps (s\<lparr>socket_fd := fd\<rparr>)"
    and keep_sim: "keeps s \<Longrightarrow> maps_kept (sim s) x \<Longrightarrow> keeps (s\<lparr>sim := x\<rparr>)"
    and keep_finish: "keeps s \<Longrightarrow> keeps (replicate_finish s)"
    and keep_world: "keeps s \<Longrightarrow> replicates m \<Longrightarrow> keeps (s\<lparr>world := w\<rparr>)"
begin

lemmas keep_rules = keep_store keep_usage keep_procs keep_pipe keep_socket

abbreviation keeps1 :: "'w rep res \<Rightarrow> bool" where
  "keeps1 \<equiv> ensuresR keeps"

abbreviation keeps2 :: "('v \<times> 'w rep) res \<Rightarrow> bool" where
  "keeps2 \<equiv> ensuresR (\<lambda>(v, s). keeps s)"

lemma keep_bind1: "keeps1 r \<Longrightarrow> (\<And>s. keeps s \<Longrightarrow> ensuresR R (f s)) \<Longrightarrow> ensuresR R (bindR r f)"
  by (rule ensures_bind)

lemma keep_bind2: "keeps2 r \<Longrightarrow> (\<And>v s. keeps s \<Longrightarrow> ensuresR R (f (v, s))) \<Longrightarrow> ensuresR R (bindR r f)"
  by (fastforce simp: ensuresR_def res_iff)

lemma keep_bind3:
  "ensuresR (\<lambda>(u, v, s). keeps s) r \<Longrightarrow> (\<And>u v s. keeps s \<Longrightarrow> ensuresR R (f (u, v, s))) \<Longrightarrow> ensuresR R (bindR r f)"
  by (fastforce simp: ensuresR_def res_iff)

lemmas keep_steps = ensures_rules keep_bind1 keep_bind2 keep_bind3 ensures_bind0

lemma keep_primitives [frame_intro]:
  assumes "keeps s"
  shows "sim_op f \<Longrightarrow> keeps1 (with_sim f s)" "keeps1 (with_store g s)" "keeps1 (update_map it h s)"
    "keeps1 (use_fd fd s)" "keeps1 (ht_insert ht fd it s)" "keeps1 (ht_remove ht fd s)"
  using assms keep_sim [OF assms]
  by (auto simp: with_sim_def with_store_def update_map_def use_fd_def ht_insert_def ht_remove_def
      ensuresR_def res_iff sim_op_def intro: keep_rules)

lemma keep_counters:
  "alloc_item s = (it, s') \<Longrightarrow> keeps s \<Longrightarrow> keeps s'"
  "get_pipe_fd s = (fd, s') \<Longrightarrow> keeps s \<Longrightarrow> keeps s'"
  "get_socket_fd s = (fd, s') \<Longrightarrow> keeps s \<Longrightarrow> keeps s'"
  by (auto simp: alloc_item_def get_pipe_fd_def get_socket_fd_def Let_def intro: keep_rules split: prod.splits)

lemma keep_calls:
  "call64 e c s = (r64, s') \<Longrightarrow> keeps s \<Longrightarrow> replicates m \<Longrightarrow> keeps s'"
  "call32 e c s = (r32, s') \<Longrightarrow> keeps s \<Longrightarrow> replicates m \<Longrightarrow> keeps s'"
  by (auto simp: call32_def call64_def Let_def intro: keep_world split: prod.splits)

lemma keep_call_snd: "keeps s \<Longrightarrow> replicates m \<Longrightarrow> keeps (snd (call32 e c s))"
  by (cases "call32 e c s") (simp add: keep_calls(2) [of e c s])

lemma keep_if: "(b \<Longrightarrow> keeps x) \<Longrightarrow> (\<not> b \<Longrightarrow> keeps y) \<Longrightarrow> keeps (if b then x else y)"
  by simp

lemma keep_call_result [frame_intro]:
  "keeps s \<Longrightarrow> replicates m \<Longrightarrow> keeps2 (Inr (call32 e c s))"
  by (cases "call32 e c s") (simp add: ensuresR_def keep_calls(2) [of e c s])

lemma clone_keeps [frame_intro]: "keeps s \<Longrightarrow> keeps1 (replicate_clone o_p s)"
  by (auto simp: replicate_clone_def Let_def ensuresR_def res_iff intro!: keep_rules split: prod.splits if_splits)

lemma missing_ht_keeps [frame_intro]: "keeps s \<Longrightarrow> keeps2 (replicate_missing_ht p s)"
  unfolding replicate_missing_ht_def by (rule frame_intro keep_steps | assumption | simp)+

lemma find_ht_keeps [frame_intro]: "keeps s \<Longrightarrow> keeps2 (find_ht p s)"
  unfolding find_ht_def by (rule frame_intro keep_steps | assumption | simp)+

lemma open_failed_keeps [frame_intro]: "keeps s \<Longrightarrow> keeps1 (open_failed e o_p m it s)"
  unfolding open_failed_def Let_def
  by (rule frame_intro keep_steps sim_ops keep_if keep_call_snd | assumption | erule keep_calls | simp)+

lemma enter_open_keeps [frame_intro]: "keeps s \<Longrightarrow> keeps1 (enter_open ht o_p name flags retval it s)"
  unfolding enter_open_def Let_def by (rule frame_intro keep_steps | assumption | simp)+

lemma open_call_keeps [frame_intro]: "keeps s \<Longrightarrow> keeps2 (open_call e o_p name flags m s)"
  unfolding open_call_def Let_def simulate_get_open_fd_def
  by (rule frame_intro keep_steps sim_ops | assumption | clarsimp simp: keep_sim)+

lemma open_keeps [frame_intro]: "keeps s \<Longrightarrow> keeps1 (replicate_open e o_p m s)"
  unfolding replicate_open_def Let_def by (rule frame_intro keep_steps | assumption | simp add: keep_counters)+

lemma get_fd_map_keeps [frame_intro]: "keeps s \<Longrightarrow> keeps2 (replicate_get_fd_map e ht fd info m s)"
  unfolding replicate_get_fd_map_def by (rule frame_intro keep_steps | assumption | simp)+

lemma locate_keeps [frame_intro]: "keeps s \<Longrightarrow> keeps2 (locate e info fd m s)"
  unfolding locate_def by (rule frame_intro keep_steps | assumption | simp)+

lemma parts_keep [frame_intro]:
  assumes "keeps s"
  shows "sim_op sm \<Longrightarrow> keeps2 (transfer e m r sm c s)" "keeps2 (drop_user e fm m s)"
    "ensuresR (\<lambda>(r, off, s). keeps s) (do_sendfile e m fm_in fm_out o_p s)"
  unfolding transfer_def drop_user_def do_sendfile_def Let_def
  using assms by - (rule frame_intro keep_steps sim_ops keep_usage | assumption | erule keep_calls | simp add: keep_world)+

lemma sub_keep [frame_intro]:
  assumes "keeps s"
  shows "keeps1 (enter_pipe ht fd s)" "keeps1 (sendfile_positions it_in it_out so r off s)"
    "(\<And>dk n. sim_op (sm dk n)) \<Longrightarrow> keeps1 (replicate_name e name m c sm s)"
  unfolding enter_pipe_def sendfile_positions_def replicate_name_def Let_def
  using assms by - (rule frame_intro keep_steps | assumption | erule keep_counters | simp add: keep_call_snd)+

lemma close_keeps [frame_intro]: "keeps s \<Longrightarrow> keeps1 (replicate_close e o_p m s)"
  unfolding replicate_close_def by (rule frame_intro keep_steps keep_store | assumption | simp)+

lemma handlers_keep [frame_intro]:
  assumes "keeps s"
  shows "keeps1 (replicate_read e o_read m s)" "keeps1 (replicate_write e o_write m s)"
    "keeps1 (replicate_pread e o_pread m s)" "keeps1 (replicate_pwrite e o_pwrite m s)"
    "keeps1 (replicate_dup e o_dup m s)" "keeps1 (replicate_llseek e o_llseek m s)"
    "keeps1 (replicate_lseek e o_lseek m s)" "keeps1 (replicate_sendfile e o_sendfile m s)"
    "keeps1 (replicate_pipe o_pipe s)" "keeps1 (replicate_socket o_socket s)"
  unfolding replicate_read_def replicate_write_def replicate_pread_def replicate_pwrite_def
    replicate_dup_def replicate_llseek_def replicate_lseek_def replicate_sendfile_def
    replicate_pipe_def replicate_socket_def Let_def
  using assms by - (rule frame_intro keep_steps sim_ops | assumption | erule keep_counters keep_calls | simp split: if_splits)+

lemma name_handlers_keep [frame_intro]:
  assumes "keeps s"
  shows "keeps1 (replicate_unlink e o_unlink m s)" "keeps1 (replicate_mkdir e o_mkdir m s)"
    "keeps1 (replicate_rmdir e o_rmdir m s)" "keeps1 (replicate_access e o_access m s)"
    "keeps1 (replicate_stat e o_stat m s)"
  unfolding replicate_unlink_def replicate_mkdir_def replicate_rmdir_def replicate_access_def replicate_stat_def
  using assms by - (rule frame_intro sim_ops | assumption)+

lemma is_handler_keeps: "is_handler e m h \<Longrightarrow> keeps s \<Longrightarrow> keeps1 (h s)"
  by (erule is_handler.cases) (simp_all only: handlers_keep name_handlers_keep open_keeps close_keeps clone_keeps)

lemma item_keeps [frame_intro]:
  assumes "keeps s"
  shows "keeps2 (replicate_item e m ifile mfile False it s)"
proof -
  have "keeps2 (REPLICATE e False ifile mfile info h s)" if "is_handler e m h" for info h
    using is_handler_keeps [OF that assms] by (auto simp: REPLICATE_def ensuresR_def res_iff)
  then show ?thesis
    using replicate_item_dispatched [of e m ifile mfile False s it] assms
    by (auto simp: dispatched_def ensuresR_def)
qed

lemma std_keeps [frame_intro]: "keeps s \<Longrightarrow> keeps1 (enter_std ht fd name key s)"
  unfolding enter_std_def Let_def by (rule frame_intro keep_steps | assumption | erule keep_counters | simp)+

lemma loop_keeps: "keeps s \<Longrightarrow> keeps2 (replicate_loop e m ifile mfile False its s)"
proof (induction its arbitrary: s)
  case Nil
  then show ?case by (simp add: ensuresR_def keep_finish)
next
  case (Cons it its)
  show ?case
    unfolding replicate_loop.simps
    using Cons by - (rule keep_bind2 [OF item_keeps] | rule ensures_rules | simp)+
qed

end

section \<open>Simulation makes no system call\<close>

interpretation quiet: handler_frame "\<lambda>s. replicates m \<or> world s = w" m for m w
  by unfold_locales (auto simp: replicate_finish_def)

lemma is_handler_world:
  assumes "is_handler e m h" "\<not> replicates m"
  shows "ensuresR (\<lambda>s'. world s' = world s) (h s)"
  using quiet.is_handler_keeps [OF assms(1), where w = "world s" and s = s] assms(2) by simp

lemma replicate_loop_world:
  assumes "\<not> replicates m"
  shows "ensuresR (\<lambda>(rv, s'). world s' = world s) (replicate_loop e m ifile mfile False its s)"
  using quiet.loop_keeps [where m = m and w = "world s" and s = s] assms by simp

lemma enter_std_world: "world s = w \<Longrightarrow> ensuresR (\<lambda>s. world s = w) (enter_std ht fd name key s)"
  using quiet.std_keeps [where m = 0 and w = w and s = s] by (simp add: replicates_def has_flag_def)

text \<open>The initialization opens two devices, and nothing else.\<close>

definition device_worlds :: "'w env \<Rightarrow> 'w \<Rightarrow> 'w set" where
  "device_worlds e w =
     (let w1 = snd (sys e (Sys_open ''/dev/null'' O_WRONLY None) w) in
      {w, w1, snd (sys e (Sys_open ''/dev/zero'' 0 None) w1)})"

lemma replicate_init_world:
  assumes "world s = w"
  shows "ensuresR (\<lambda>(rv, s). world s \<in> device_worlds e w) (replicate_init e p ifile mfile s)"
proof -
  have dev: "ensuresR (\<lambda>(rv, s). world s \<in> device_worlds e w)
      (let (fd, s) = call32 e (Sys_open ''/dev/null'' O_WRONLY None) s;
            s = s\<lparr>global_devnull_fd := fd\<rparr> in
        if fd = -1 then Inr (-1, s)
        else (let (fd, s) = call32 e (Sys_open ''/dev/zero'' 0 None) s in
          Inr (0 :: i32, s\<lparr>global_devzero_fd := fd\<rparr>)))" if "world s = w" for s :: "'a rep"
    using that by (auto simp: call32_def call64_def Let_def device_worlds_def ensuresR_def split: prod.splits)
  show ?thesis
    unfolding replicate_init_def Let_def
    apply (rule ensures_bind0, rule ensures_prod, rule ensures_if)
     apply (rule ensures_Inr) using assms apply (simp add: device_worlds_def Let_def)
    apply (rule ensures_prod, rule ensures_bind0)
    apply (rule ensures_bind [OF enter_std_world])
     apply (simp add: assms)
    apply (rule ensures_bind [OF enter_std_world], assumption)
    apply (rule ensures_bind [OF enter_std_world], assumption)
    using dev unfolding Let_def by assumption
qed


section \<open>Replays keep the tables of the simulation\<close>

interpretation tables: handler_frame "\<lambda>s. maps_kept x (sim s)" m for x m
  by unfold_locales (auto simp: replicate_finish_def intro: maps_kept_trans)

lemma enter_std_sim: "ensuresR (\<lambda>s'. sim s' = sim s) (enter_std ht fd name key s)"
  by (auto simp: enter_std_def Let_def alloc_item_def update_map_def with_store_def ht_insert_def use_fd_def
      ensuresR_def res_iff split: prod.splits)

lemma replicate_init_sim: "ensuresR (\<lambda>(rv, s'). sim s' = sim s) (replicate_init e p ifile mfile s)"
proof -
  have dev: "ensuresR (\<lambda>(rv, s'). sim s' = x)
      (let (fd, s) = call32 e (Sys_open ''/dev/null'' O_WRONLY None) s;
            s = s\<lparr>global_devnull_fd := fd\<rparr> in
        if fd = -1 then Inr (-1, s)
        else (let (fd, s) = call32 e (Sys_open ''/dev/zero'' 0 None) s in
          Inr (0 :: i32, s\<lparr>global_devzero_fd := fd\<rparr>)))" if "sim s = x" for s :: "'a rep" and x
    using that by (auto simp: call32_def call64_def Let_def ensuresR_def split: prod.splits)
  have std: "sim s = x \<Longrightarrow> ensuresR (\<lambda>s'. sim s' = x) (enter_std ht fd name key s)" for ht fd name key x and s :: "'a rep"
    using enter_std_sim [of s] by simp
  show ?thesis
    unfolding replicate_init_def Let_def
    apply (rule ensures_bind0, rule ensures_prod, rule ensures_if)
     apply (rule ensures_Inr, simp)
    apply (rule ensures_prod, rule ensures_bind0)
    apply (rule ensures_bind [OF std], simp)
    apply (rule ensures_bind [OF std], assumption)
    apply (rule ensures_bind [OF std], assumption)
    using dev unfolding Let_def by assumption
qed

lemma replicate_all_keeps_maps:
  assumes "replicate_all e its m ifile mfile s = Inr (rv, s')"
  shows "maps_kept (sim s) (sim s')"
proof (cases its)
  case Nil
  then show ?thesis using assms by (auto simp: replicate_all_def replicate_finish_def split: if_splits)
next
  case (Cons it rest)
  let ?s = "if has_flag m FIX_MISSING then s else s\<lparr>global_fix_missing := False\<rparr>"
  from assms Cons obtain rv1 s1 where s1: "replicate_item e m ifile mfile True it ?s = Inr (rv1, s1)"
    and rest: "if rv1 \<noteq> 0 then s' = s1 else replicate_loop e m ifile mfile False rest s1 = Inr (rv, s')"
    by (auto simp: replicate_all_def res_iff split: if_splits)
  have "maps_kept (sim s) (sim s2)" if h: "is_handler e m h" and r: "REPLICATE e True ifile mfile info h ?s = Inr (rv2, s2)"
    for info h rv2 s2
  proof -
    from r obtain rv3 s3 where s3: "replicate_init e (pid info) ifile mfile ?s = Inr (rv3, s3)"
      "if rv3 \<noteq> 0 then s2 = s3 else h s3 = Inr s2"
      by (auto simp: REPLICATE_def res_iff split: if_splits)
    have "maps_kept (sim s) (sim s3)" using replicate_init_sim [of ?s e "pid info" ifile mfile] s3(1) by (simp add: ensuresR_def)
    then show ?thesis using tables.is_handler_keeps [OF h, where x = "sim s" and s = s3] s3(2) by (auto simp: ensuresR_def split: if_splits)
  qed
  note step = this
  have "dispatched e m ifile mfile True ?s (Inr (rv1, s1))"
    using replicate_item_dispatched [of e m ifile mfile True ?s it] unfolding s1 .
  then consider "s1 = ?s" | info h where "is_handler e m h" "REPLICATE e True ifile mfile info h ?s = Inr (rv1, s1)"
    unfolding dispatched_def by (elim disjE exE conjE) (simp, simp, metis)
  then have "maps_kept (sim s) (sim s1)" by cases (use step in auto)
  then show ?thesis
    using rest tables.loop_keeps [where x = "sim s" and s = s1 and m = m, of e ifile mfile rest]
    by (auto simp: ensuresR_def split: if_splits)
qed

end
