(* ===== verification/Desc_Machine.thy ===== *)
theory Desc_Machine
  imports Base_Prelude
begin

text \<open>
  What the descriptor tables of the replay stand for: an abstract machine of processes, tables,
  descriptors and open files. It knows neither memory nor hash tables, and its steps are the ways in
  which the program means to change descriptors. The handlers of \<open>replicate.c\<close> are shown to be
  sequences of these steps (theory \<open>Replay_Machine\<close>).
\<close>

section \<open>Bindings\<close>

text \<open>A table binds a descriptor to an open file.\<close>

type_synonym binding = "addr \<times> i32 \<times> addr"

definition files_in :: "binding set \<Rightarrow> addr set" where
  "files_in B = (\<lambda>(t, fd, f). f) ` B"

definition slots :: "binding set \<Rightarrow> addr \<Rightarrow> (i32 \<times> addr) set" where
  "slots B t = {(fd, f). (t, fd, f) \<in> B}"

text \<open>A table that binds the descriptors of another one, each to a file of its own.\<close>

definition copy_of :: "binding set \<Rightarrow> addr \<Rightarrow> addr \<Rightarrow> bool" where
  "copy_of B t t' \<longleftrightarrow> (\<exists>g. inj_on g (slots B t) \<and> slots B t' = (\<lambda>x. (fst x, g x)) ` slots B t)"

text \<open>
  One change of the bindings, in which only descriptors of \<open>F\<close> may be closed: a new file is
  entered under any number; a number is made to refer to a file that the same table binds already;
  a binding goes; or a new table gets a copy of another one.
\<close>

inductive bind_step :: "i32 set \<Rightarrow> binding set \<Rightarrow> binding set \<Rightarrow> bool" for F where
  Enter: "f \<notin> files_in B \<Longrightarrow> bind_step F B (insert (t, fd, f) B)"
| Dup: "(t, fd, f) \<in> B \<Longrightarrow> (t, fd', f) \<notin> B \<Longrightarrow> bind_step F B (insert (t, fd', f) B)"
| Leave: "(t, fd, f) \<in> B \<Longrightarrow> fd \<in> F \<Longrightarrow> bind_step F B (B - {(t, fd, f)})"
| Copy: "slots B t' = {} \<Longrightarrow> t \<noteq> t' \<Longrightarrow> inj_on g (slots B t) \<Longrightarrow> g ` slots B t \<inter> files_in B = {} \<Longrightarrow>
    bind_step F B (B \<union> (\<lambda>x. (t', fst x, g x)) ` slots B t)"

inductive_cases bind_stepE: "bind_step F B B'"

lemma bind_step_mono: "bind_step F B B' \<Longrightarrow> F \<subseteq> F' \<Longrightarrow> bind_step F' B B'"
  by (induction rule: bind_step.induct) (auto intro: bind_step.intros)

lemma bind_steps_mono: "(bind_step F)\<^sup>*\<^sup>* B B' \<Longrightarrow> F \<subseteq> F' \<Longrightarrow> (bind_step F')\<^sup>*\<^sup>* B B'"
  by (rule rtranclp_mono [THEN predicate2D, rotated]) (auto intro: bind_step_mono)

lemma copy_of_copied:
  assumes "slots B t' = {}" "t \<noteq> t'" "inj_on g (slots B t)"
  shows "copy_of (B \<union> (\<lambda>x. (t', fst x, g x)) ` slots B t) t t'"
proof -
  let ?B = "B \<union> (\<lambda>x. (t', fst x, g x)) ` slots B t"
  have "slots ?B t = slots B t" using assms(2) by (auto simp: slots_def)
  moreover have "slots ?B t' = (\<lambda>x. (fst x, g x)) ` slots B t" using assms(1) by (auto simp: slots_def)
  ultimately show ?thesis using assms(3) by (auto simp: copy_of_def)
qed

section \<open>Processes\<close>

text \<open>
  The table of each process. A process that joined one that has no table is lost: it is known, and
  never gets a table again.
\<close>

record dstate =
  procs :: "i32 \<rightharpoonup> addr"
  lost :: "i32 set"
  binds :: "binding set"

inductive desc_step :: "i32 set \<Rightarrow> dstate \<Rightarrow> dstate \<Rightarrow> bool" for F where
  Bind: "bind_step F (binds s) B \<Longrightarrow> desc_step F s (s\<lparr>binds := B\<rparr>)"
| Join: "procs s q = None \<Longrightarrow> q \<notin> lost s \<Longrightarrow> procs s p = Some t \<Longrightarrow> desc_step F s (s\<lparr>procs := (procs s)(q \<mapsto> t)\<rparr>)"
| Fork: "procs s q = None \<Longrightarrow> q \<notin> lost s \<Longrightarrow> procs s p = Some t \<Longrightarrow> t' \<notin> ran (procs s) \<Longrightarrow>
    copy_of (binds s) t t' \<Longrightarrow> desc_step F s (s\<lparr>procs := (procs s)(q \<mapsto> t')\<rparr>)"
| Lose: "procs s q = None \<Longrightarrow> procs s p = None \<Longrightarrow> desc_step F s (s\<lparr>lost := insert q (lost s)\<rparr>)"

inductive_cases desc_stepE: "desc_step F s s'"

abbreviation desc_steps :: "i32 set \<Rightarrow> dstate \<Rightarrow> dstate \<Rightarrow> bool" where
  "desc_steps F \<equiv> (desc_step F)\<^sup>*\<^sup>*"

lemma desc_step_mono: "desc_step F s s' \<Longrightarrow> F \<subseteq> F' \<Longrightarrow> desc_step F' s s'"
  by (induction rule: desc_step.induct) (auto intro: desc_step.intros bind_step_mono)

lemma desc_steps_mono: "desc_steps F s s' \<Longrightarrow> F \<subseteq> F' \<Longrightarrow> desc_steps F' s s'"
  by (rule rtranclp_mono [THEN predicate2D, rotated]) (auto intro: desc_step_mono)

lemma desc_steps_binds:
  assumes "(bind_step F)\<^sup>*\<^sup>* (binds s) B"
  shows "desc_steps F s (s\<lparr>binds := B\<rparr>)"
  using assms
proof (induction rule: rtranclp_induct)
  case (step B B')
  have "desc_step F (s\<lparr>binds := B\<rparr>) (s\<lparr>binds := B, binds := B'\<rparr>)"
    by (rule desc_step.Bind) (use step.hyps(2) in simp)
  with step.IH show ?case by (metis dstate.update_convs(3) dstate.surjective dstate.select_convs(1,2) rtranclp.rtrancl_into_rtrancl)
qed simp

section \<open>Invariants\<close>

text \<open>No file is bound by two tables, and tables of different processes only differ by forks.\<close>

definition apart :: "binding set \<Rightarrow> bool" where
  "apart B \<longleftrightarrow> (\<forall>t fd f t' fd'. (t, fd, f) \<in> B \<longrightarrow> (t', fd', f) \<in> B \<longrightarrow> t = t')"

lemma files_in_iff: "f \<in> files_in B \<longleftrightarrow> (\<exists>t fd. (t, fd, f) \<in> B)"
  by (force simp: files_in_def)

lemma apartD: "apart B \<Longrightarrow> (t, fd, f) \<in> B \<Longrightarrow> (t', fd', f) \<in> B \<Longrightarrow> t = t'"
  unfolding apart_def by blast

lemma bind_step_apart: "bind_step F B B' \<Longrightarrow> apart B \<Longrightarrow> apart B'"
proof (induction rule: bind_step.induct)
  case (Enter f B t fd)
  then have "\<And>t fd. (t, fd, f) \<notin> B" by (auto simp: files_in_iff)
  then show ?case using apartD [OF Enter.prems] unfolding apart_def by blast
next
  case (Dup t fd f B fd')
  then show ?case using apartD [OF Dup.prems] unfolding apart_def by blast
next
  case (Leave t fd f B)
  then show ?case using apartD [OF Leave.prems] unfolding apart_def by blast
next
  case (Copy B t' t g)
  let ?C = "(\<lambda>x. (t', fst x, g x)) ` slots B t"
  have C: "f \<notin> files_in B \<and> u = t'" if "(u, fd, f) \<in> ?C" for u fd f
    using that Copy.hyps(4) by auto
  have new: "(u', fd', f) \<notin> B \<and> u = t'" if "(u, fd, f) \<in> ?C" for u fd f u' fd'
    using C [OF that] by (auto simp: files_in_iff)
  show ?case
    unfolding apart_def
  proof (intro allI impI)
    fix u fd f u' fd'
    assume "(u, fd, f) \<in> B \<union> ?C" "(u', fd', f) \<in> B \<union> ?C"
    then show "u = u'"
      using new [of u fd f u' fd'] new [of u' fd' f u fd] apartD [OF Copy.prems, of u fd f u' fd'] by blast
  qed
qed

lemma desc_steps_apart:
  assumes "desc_steps F s s'" "apart (binds s)"
  shows "apart (binds s')"
  using assms
proof (induction rule: rtranclp_induct)
  case (step s s')
  then show ?case by (auto elim!: desc_stepE intro: bind_step_apart)
qed

text \<open>Descriptors that are not closed stay as they are.\<close>

lemma bind_step_keeps: "bind_step F B B' \<Longrightarrow> (t, fd, f) \<in> B \<Longrightarrow> fd \<notin> F \<Longrightarrow> (t, fd, f) \<in> B'"
  by (auto elim!: bind_stepE)

lemma desc_steps_keeps:
  assumes "desc_steps F s s'" "(t, fd, f) \<in> binds s" "fd \<notin> F"
  shows "(t, fd, f) \<in> binds s'"
  using assms
proof (induction rule: rtranclp_induct)
  case (step s s')
  then show ?case by (auto elim!: desc_stepE intro: bind_step_keeps)
qed

text \<open>A process keeps its table, and a process that is lost stays without one.\<close>

lemma desc_steps_procs:
  assumes "desc_steps F s s'"
  shows "procs s p = Some t \<Longrightarrow> procs s' p = Some t"
    "q \<in> lost s \<Longrightarrow> procs s q = None \<Longrightarrow> q \<in> lost s' \<and> procs s' q = None"
  using assms
proof (induction rule: rtranclp_induct)
  case (step s s')
  { case 1 with step show ?case by (auto elim!: desc_stepE) }
  { case 2 with step show ?case by (auto elim!: desc_stepE) }
qed simp_all

end
