(* ===== verification/Fd_Heap.thy ===== *)
theory Fd_Heap
  imports Fd_Map Desc_Machine
begin

text \<open>
  When the memory of the descriptor tables is in order. Items and maps are shared through pointers
  and freed one by one, so the invariant says which of them are allocated, and that the set of
  parents in a map covers the items that point to it. Every operation of \<open>Fd_Map\<close> keeps it, and
  what it does to the tables is a sequence of steps of the machine in \<open>Desc_Machine\<close>.
\<close>

section \<open>The invariant\<close>

text \<open>The items in all tables, with the tables they are in.\<close>

definition heap_entries :: "fd_store \<Rightarrow> (addr \<times> fd_item) set" where
  "heap_entries st = {(a, x). \<exists>t. tables st a = Some t \<and> x \<in> set (ht_items t)}"

text \<open>
  An item is good when it and its map are allocated, and it is registered as one of at most \<open>k\<close>
  parents of the map.
\<close>

definition good_map :: "nat \<Rightarrow> fd_map \<Rightarrow> i32 \<Rightarrow> bool" where
  "good_map k m fd \<longleftrightarrow> parents_ok m \<and> fd \<in> parent_set m \<and> card (parent_set m) \<le> k"

definition good_item :: "nat \<Rightarrow> fd_store \<Rightarrow> fd_item \<Rightarrow> bool" where
  "good_item k st x \<longleftrightarrow> fd_live st (fi_addr x) \<and>
     (\<exists>m. fd_maps st (fm_ptr x) = Some m \<and> good_map k m (old_fd x))"

definition tables_ok :: "fd_store \<Rightarrow> bool" where
  "tables_ok st \<longleftrightarrow> (\<forall>a t. tables st a = Some t \<longrightarrow> fdt.table_inv t \<and> distinct (ht_items t))"

text \<open>Different items are different objects, and do not have the same map under the same number.\<close>

definition entries_apart :: "(addr \<times> fd_item) set \<Rightarrow> bool" where
  "entries_apart E \<longleftrightarrow> (\<forall>p\<in>E. \<forall>q\<in>E.
     fi_addr (snd p) = fi_addr (snd q) \<or> fm_ptr (snd p) = fm_ptr (snd q) \<and> old_fd (snd p) = old_fd (snd q) \<longrightarrow> p = q)"

definition heap_ok :: "nat \<Rightarrow> fd_store \<Rightarrow> bool" where
  "heap_ok k st \<longleftrightarrow> store_fresh st \<and> tables_ok st \<and> entries_apart (heap_entries st) \<and>
     (\<forall>p\<in>heap_entries st. good_item k st (snd p))"

text \<open>An allocated item that is in no table yet, with a map of its own whose parents are \<open>P\<close>.\<close>

definition spare :: "fd_store \<Rightarrow> addr \<Rightarrow> bool" where
  "spare st a \<longleftrightarrow> fd_live st a \<and> (\<forall>p\<in>heap_entries st. fi_addr (snd p) \<noteq> a)"

definition own_map :: "fd_store \<Rightarrow> addr \<Rightarrow> i32 set \<Rightarrow> bool" where
  "own_map st a P \<longleftrightarrow> (\<exists>m. fd_maps st a = Some m \<and> parents_ok m \<and> parent_set m = P) \<and>
     (\<forall>p\<in>heap_entries st. fm_ptr (snd p) \<noteq> a)"

definition pending :: "fd_store \<Rightarrow> fd_item \<Rightarrow> i32 set \<Rightarrow> bool" where
  "pending st x P \<longleftrightarrow> spare st (fi_addr x) \<and> own_map st (fm_ptr x) P"

text \<open>The bindings that the tables stand for.\<close>

definition binds_of :: "fd_store \<Rightarrow> binding set" where
  "binds_of st = (\<lambda>(a, x). (a, old_fd x, fm_ptr x)) ` heap_entries st"

text \<open>
  What an operation keeps: tables stay allocated, items stay except those of the descriptors \<open>F\<close>,
  and what was allocated below \<open>n\<close> without being used by a table stays as it is; and the bindings
  change by steps of the machine that close nothing but descriptors of \<open>F\<close>.
\<close>

definition keeps :: "nat \<Rightarrow> i32 set \<Rightarrow> fd_store \<Rightarrow> fd_store \<Rightarrow> bool" where
  "keeps n F st st' \<longleftrightarrow> next_addr st \<le> next_addr st' \<and> dom (tables st) \<subseteq> dom (tables st') \<and>
     (\<forall>p\<in>heap_entries st. old_fd (snd p) \<notin> F \<longrightarrow> p \<in> heap_entries st') \<and>
     (\<forall>a<n. spare st a \<longrightarrow> spare st' a) \<and> (\<forall>a<n. \<forall>P. own_map st a P \<longrightarrow> own_map st' a P) \<and>
     (bind_step F)\<^sup>*\<^sup>* (binds_of st) (binds_of st')"

lemma keeps_refl [simp]: "keeps n F st st"
  by (simp add: keeps_def)

lemma keeps_trans: "keeps n F st st1 \<Longrightarrow> keeps n F st1 st2 \<Longrightarrow> keeps n F st st2"
  unfolding keeps_def by (intro conjI; meson le_trans subset_trans rtranclp_trans)

lemma keeps_mono: "keeps n F st st' \<Longrightarrow> n' \<le> n \<Longrightarrow> F \<subseteq> F' \<Longrightarrow> keeps n' F' st st'"
  unfolding keeps_def by (intro conjI; meson less_le_trans subsetD bind_steps_mono)

lemma keeps_binds: "keeps n F st st' \<Longrightarrow> (bind_step F)\<^sup>*\<^sup>* (binds_of st) (binds_of st')"
  by (simp add: keeps_def)

lemma keeps_pending:
  assumes "keeps n F st st'" "pending st x P" "fi_addr x < n" "fm_ptr x < n"
  shows "pending st' x P"
  using assms by (simp add: keeps_def pending_def)

lemma keeps_tables: "keeps n F st st' \<Longrightarrow> tables st a \<noteq> None \<Longrightarrow> tables st' a \<noteq> None"
  by (auto simp: keeps_def)

lemma heap_entries_same: "tables st' = tables st \<Longrightarrow> heap_entries st' = heap_entries st"
  by (simp add: heap_entries_def)

lemma binds_of_entries: "heap_entries st' = heap_entries st \<Longrightarrow> binds_of st' = binds_of st"
  by (simp add: binds_of_def)

lemma binds_of_iff: "(a, fd, f) \<in> binds_of st \<longleftrightarrow> (\<exists>x. (a, x) \<in> heap_entries st \<and> old_fd x = fd \<and> fm_ptr x = f)"
  by (force simp: binds_of_def)

lemma files_of_binds: "f \<in> files_in (binds_of st) \<longleftrightarrow> (\<exists>p\<in>heap_entries st. fm_ptr (snd p) = f)"
  by (force simp: files_in_iff binds_of_iff)

lemma tables_ok_same: "tables st' = tables st \<Longrightarrow> tables_ok st' = tables_ok st"
  by (simp add: tables_ok_def)

lemma good_item_mono: "good_item k st x \<Longrightarrow> k \<le> k' \<Longrightarrow> good_item k' st x"
  by (auto simp: good_item_def good_map_def)

lemma heap_ok_mono: "heap_ok k st \<Longrightarrow> k \<le> k' \<Longrightarrow> heap_ok k' st"
  by (auto simp: heap_ok_def intro: good_item_mono)

lemma good_deref: "good_item k st x \<Longrightarrow> \<exists>m. deref_item st x = Inr m \<and> fd_maps st (fm_ptr x) = Some m \<and> good_map k m (old_fd x)"
  by (auto simp: good_item_def deref_item_def get_map_def)

lemma pending_deref: "pending st x P \<Longrightarrow> \<exists>m. deref_item st x = Inr m \<and> fd_maps st (fm_ptr x) = Some m \<and> parents_ok m \<and> parent_set m = P"
  by (auto simp: pending_def spare_def own_map_def deref_item_def get_map_def)

text \<open>Allocated addresses are below \<open>next_addr\<close>.\<close>

lemma fresh_bounds:
  assumes "store_fresh st"
  shows "fd_live st a \<Longrightarrow> a < next_addr st" "fd_maps st b = Some m \<Longrightarrow> b < next_addr st"
    "tables st c = Some t \<Longrightarrow> c < next_addr st"
  using assms by (force simp: store_fresh_def not_less [symmetric])+

lemma entry_bounds:
  assumes "heap_ok k st" "p \<in> heap_entries st"
  shows "fi_addr (snd p) < next_addr st \<and> fm_ptr (snd p) < next_addr st"
  using assms fresh_bounds by (fastforce simp: heap_ok_def good_item_def)

lemma pending_bounds:
  assumes "heap_ok k st" "pending st x P"
  shows "fi_addr x < next_addr st \<and> fm_ptr x < next_addr st"
  using assms fresh_bounds by (fastforce simp: heap_ok_def pending_def spare_def own_map_def)

section \<open>Allocation\<close>

text \<open>Memory that is allocated anew changes nothing.\<close>

lemma old_same_heap_ok:
  assumes "heap_ok k st" "old_same st st'" "store_fresh st'"
  shows "heap_ok k st' \<and> keeps (next_addr st) F st st' \<and> heap_entries st' = heap_entries st"
proof -
  have E: "heap_entries st' = heap_entries st" using assms(2) by (intro heap_entries_same) (simp add: old_same_def)
  have good: "good_item k st' (snd p)" if "p \<in> heap_entries st" for p
    using that entry_bounds [OF assms(1) that] assms(1,2) by (auto simp: heap_ok_def good_item_def old_same_def)
  have "heap_ok k st'"
    using assms E good tables_ok_same [of st' st] by (simp add: heap_ok_def old_same_def)
  moreover have "keeps (next_addr st) F st st'"
    using assms(2) E binds_of_entries [OF E] by (auto simp: keeps_def spare_def own_map_def old_same_def)
  ultimately show ?thesis using E by blast
qed

lemma new_fd_item_pending:
  assumes "heap_ok k st" "new_fd_item st = (x, st')"
  shows "heap_ok k st' \<and> keeps (next_addr st) F st st' \<and> heap_entries st' = heap_entries st \<and>
    pending st' x {} \<and> next_addr st \<le> fi_addr x \<and> next_addr st \<le> fm_ptr x"
proof -
  have fresh: "store_fresh st" using assms(1) by (simp add: heap_ok_def)
  have x: "x = \<lparr>fi_addr = next_addr st, old_fd = 0, fm_ptr = Suc (next_addr st)\<rparr>"
    and st': "tables st' = tables st" "next_addr st' = Suc (Suc (next_addr st))"
    "fd_live st' = (fd_live st)(next_addr st := True)"
    "fd_maps st' = (fd_maps st)(Suc (next_addr st) \<mapsto>
       (junk st)\<lparr>parent_fds := replicate MAX_PARENT_IDS (-1), last_par_index := -1\<rparr>)"
    using assms(2) by (auto simp: new_fd_item_def Let_def)
  have "old_same st st'" using st' by (simp add: old_same_def)
  moreover have "store_fresh st'" using fresh st' by (simp add: store_fresh_def)
  ultimately have ok: "heap_ok k st'" "keeps (next_addr st) F st st'" "heap_entries st' = heap_entries st"
    using old_same_heap_ok [OF assms(1)] by blast+
  have "fi_addr (snd p) \<noteq> fi_addr x \<and> fm_ptr (snd p) \<noteq> fm_ptr x" if "p \<in> heap_entries st" for p
    using entry_bounds [OF assms(1) that] x by auto
  then have "pending st' x {}"
    using ok(3) st' x parents_are_ok [OF parents_are_new] by (auto simp: pending_def spare_def own_map_def)
  with ok x show ?thesis by simp
qed

section \<open>Writing to maps\<close>

lemma set_map_heap_ok:
  assumes ok: "heap_ok k st" and m: "fd_maps st a = Some m"
    and m': "\<And>x. x \<in> snd ` heap_entries st \<Longrightarrow> fm_ptr x = a \<Longrightarrow> good_map k m (old_fd x) \<Longrightarrow> good_map k m' (old_fd x)"
  shows "heap_ok k (set_map a m' st)"
proof -
  have E: "heap_entries (set_map a m' st) = heap_entries st" by (rule heap_entries_same) (simp add: set_map_def)
  have "good_item k (set_map a m' st) (snd p)" if "p \<in> heap_entries st" for p
    using ok that m m' [of "snd p"] by (auto simp: heap_ok_def good_item_def set_map_def)
  moreover have "store_fresh (set_map a m' st)"
    using ok m by (auto simp: heap_ok_def store_fresh_def set_map_def)
  moreover have "tables_ok (set_map a m' st)" using ok by (simp add: heap_ok_def tables_ok_def set_map_def)
  ultimately show ?thesis using ok E by (simp add: heap_ok_def)
qed

lemma set_map_keeps:
  assumes "n \<le> a \<or> \<not> (\<exists>P. own_map st a P)"
  shows "keeps n F st (set_map a m' st)"
  using assms by (auto simp: keeps_def spare_def own_map_def heap_entries_def set_map_def binds_of_def)

lemma set_map_pending:
  assumes "pending st x P" "parents_ok m'" "parent_set m' = Q"
  shows "pending (set_map (fm_ptr x) m' st) x Q"
  using assms by (auto simp: pending_def spare_def own_map_def heap_entries_def set_map_def)

lemma entry_not_own: "p \<in> heap_entries st \<Longrightarrow> \<not> own_map st (fm_ptr (snd p)) P"
  by (auto simp: own_map_def)

lemma pending_not_entry: "pending st x P \<Longrightarrow> y \<in> snd ` heap_entries st \<Longrightarrow> fm_ptr y \<noteq> fm_ptr x \<and> fi_addr y \<noteq> fi_addr x"
  by (auto simp: pending_def spare_def own_map_def)

text \<open>A write that leaves the parents alone, to an item of a table or to a pending one.\<close>

definition same_parents :: "(fd_map \<Rightarrow> fd_map) \<Rightarrow> bool" where
  "same_parents f \<longleftrightarrow> (\<forall>m. parents_ok (f m) = parents_ok m \<and> parent_set (f m) = parent_set m)"

lemma same_parentsI:
  "(\<And>m. parent_fds (f m) = parent_fds m) \<Longrightarrow> (\<And>m. last_par_index (f m) = last_par_index m) \<Longrightarrow> same_parents f"
  by (simp add: same_parents_def parents_ok_def parents_are_def parent_set_def)

lemma put_pending:
  assumes "heap_ok k st" "pending st x P" "same_parents f" "n \<le> fm_ptr x"
  shows "\<exists>m. deref_item st x = Inr m \<and> put_item x (f m) st = Inr (set_map (fm_ptr x) (f m) st) \<and>
    heap_ok k (set_map (fm_ptr x) (f m) st) \<and> keeps n F st (set_map (fm_ptr x) (f m) st) \<and>
    pending (set_map (fm_ptr x) (f m) st) x P"
proof -
  obtain m where m: "deref_item st x = Inr m" "fd_maps st (fm_ptr x) = Some m" "parents_ok m" "parent_set m = P"
    using pending_deref [OF assms(2)] by blast
  have "heap_ok k (set_map (fm_ptr x) (f m) st)"
    using assms(1) m(2) by (rule set_map_heap_ok) (use pending_not_entry [OF assms(2)] in blast)
  moreover have "pending (set_map (fm_ptr x) (f m) st) x P"
    using assms(2) by (rule set_map_pending) (use m assms(3) in \<open>simp_all add: same_parents_def\<close>)
  ultimately show ?thesis using m(1) assms(4) by (simp add: put_item_def set_map_keeps)
qed

lemma put_entry:
  assumes "heap_ok k st" "(a, x) \<in> heap_entries st" "same_parents f"
  shows "\<exists>m. deref_item st x = Inr m \<and> put_item x (f m) st = Inr (set_map (fm_ptr x) (f m) st) \<and>
    heap_ok k (set_map (fm_ptr x) (f m) st) \<and> keeps n F st (set_map (fm_ptr x) (f m) st)"
proof -
  have "good_item k st x" using assms(1,2) by (force simp: heap_ok_def)
  then obtain m where m: "deref_item st x = Inr m" "fd_maps st (fm_ptr x) = Some m" using good_deref by blast
  have "heap_ok k (set_map (fm_ptr x) (f m) st)"
    using assms(1) m(2) by (rule set_map_heap_ok) (use assms(3) in \<open>simp add: good_map_def same_parents_def\<close>)
  moreover have "keeps n F st (set_map (fm_ptr x) (f m) st)"
    using entry_not_own [OF assms(2)] by (intro set_map_keeps) simp
  ultimately show ?thesis using m(1) by (simp add: put_item_def)
qed

section \<open>Parents\<close>

lemma insert_parent_step:
  assumes "parents_ok m" "fd \<noteq> -1" "insert_parent fd m = Inr m'" "card (parent_set m) < MAX_PARENT_IDS"
  shows "fd \<notin> parent_set m \<and> parents_ok m' \<and> parent_set m' = insert fd (parent_set m)"
proof -
  obtain ps where ps: "parents_are ps m" "set ps = parent_set m" "length ps = card (parent_set m)"
    using assms(1) by (rule parents_okE)
  have new: "fd \<notin> set ps" using insert_parent_taken [OF ps(1)] assms(3) by auto
  then obtain m1 where "insert_parent fd m = Inr m1" "parents_are (ps @ [fd]) m1"
    using insert_parent_free [OF ps(1) assms(2)] ps(3) assms(4) by auto
  then show ?thesis using new ps(2) assms(3) parents_are_ok [of "ps @ [fd]"] by auto
qed

lemma delete_parent_step:
  assumes "parents_ok m" "fd \<in> parent_set m"
  shows "\<exists>m'. delete_parent fd m = Inr (parent_set m' = {}, m') \<and> parents_ok m' \<and> parent_set m' = parent_set m - {fd}"
proof -
  obtain ps where ps: "parents_are ps m" "set ps = parent_set m" using assms(1) by (rule parents_okE)
  obtain m' ps' where m': "delete_parent fd m = Inr (set ps = {fd}, m')" "parents_are ps' m'" "set ps' = set ps - {fd}"
    using delete_parent_present [OF ps(1), of fd] assms(2) ps(2) by auto
  moreover have "set ps = {fd} \<longleftrightarrow> set ps - {fd} = {}" using assms(2) ps(2) by auto
  ultimately show ?thesis using ps(2) parents_are_ok [OF m'(2)] by auto
qed

lemma parent_slot_no_dangling: "parent_slot fd ps i \<noteq> Inl Dangling"
  by (induction ps arbitrary: i) auto

lemma insert_parent_no_dangling: "insert_parent fd m \<noteq> Inl Dangling"
  using parent_slot_no_dangling [of fd "parent_fds m" 0]
  by (cases "parent_slot fd (parent_fds m) 0") (auto simp: insert_parent_def split: option.splits)

lemma insert_parent_pending:
  assumes ok: "heap_ok k st" and x: "pending st x {}" and fd: "fd \<noteq> -1" and n: "n \<le> fm_ptr x"
  shows "safeR (\<lambda>st'. heap_ok k st' \<and> keeps n F st st' \<and> pending st' x {fd}) (insert_parent_fd x fd st)"
proof -
  obtain m where m: "deref_item st x = Inr m" "fd_maps st (fm_ptr x) = Some m" "parents_ok m" "parent_set m = {}"
    using pending_deref [OF x] by blast
  have "heap_ok k (set_map (fm_ptr x) m' st) \<and> keeps n F st (set_map (fm_ptr x) m' st) \<and>
      pending (set_map (fm_ptr x) m' st) x {fd}" if m': "insert_parent fd m = Inr m'" for m'
  proof -
    have p: "parents_ok m'" "parent_set m' = {fd}"
      using insert_parent_step [OF m(3) fd m'] m(4) by (simp_all add: MAX_PARENT_IDS_def)
    have "heap_ok k (set_map (fm_ptr x) m' st)"
      using ok m(2) by (rule set_map_heap_ok) (use pending_not_entry [OF x] in blast)
    then show ?thesis using set_map_keeps n set_map_pending [OF x p] by blast
  qed
  then show ?thesis
    using m(1) insert_parent_no_dangling
    by (auto simp: insert_parent_fd_def put_item_def safeR_def ensuresR_def elim!: bindR.elims)
qed

text \<open>\<open>dup\<close> registers one more parent: the bound grows by one.\<close>

lemma insert_parent_entry:
  assumes ok: "heap_ok k st" and x: "(a, x) \<in> heap_entries st" and fd: "fd \<noteq> -1" and k: "k < MAX_PARENT_IDS"
  shows "safeR (\<lambda>st'. heap_ok (Suc k) st' \<and> keeps n F st st' \<and> tables st' = tables st \<and> fd_live st' = fd_live st \<and>
      (\<exists>m. fd_maps st' (fm_ptr x) = Some m \<and> good_map (Suc k) m fd) \<and>
      (\<forall>p\<in>heap_entries st. fm_ptr (snd p) = fm_ptr x \<longrightarrow> old_fd (snd p) \<noteq> fd)) (insert_parent_fd x fd st)"
proof -
  have "good_item k st x" using ok x by (force simp: heap_ok_def)
  then obtain m where m: "deref_item st x = Inr m" "fd_maps st (fm_ptr x) = Some m" "good_map k m (old_fd x)"
    using good_deref by blast
  have "heap_ok (Suc k) (set_map (fm_ptr x) m' st) \<and> keeps n F st (set_map (fm_ptr x) m' st) \<and>
      good_map (Suc k) m' fd \<and> (\<forall>p\<in>heap_entries st. fm_ptr (snd p) = fm_ptr x \<longrightarrow> old_fd (snd p) \<noteq> fd)"
    if m': "insert_parent fd m = Inr m'" for m'
  proof -
    have p: "fd \<notin> parent_set m" "parents_ok m'" "parent_set m' = insert fd (parent_set m)"
      using insert_parent_step [OF _ fd m'] m(3) k by (simp_all add: good_map_def)
    have card: "card (parent_set m') \<le> Suc k"
      using p m(3) by (simp add: good_map_def card_insert_if parent_set_def)
    have "heap_ok (Suc k) (set_map (fm_ptr x) m' st)"
      using heap_ok_mono [OF ok] m(2) by (rule set_map_heap_ok) (use p card in \<open>simp_all add: good_map_def\<close>)
    moreover have "keeps n F st (set_map (fm_ptr x) m' st)"
      using entry_not_own [OF x] by (intro set_map_keeps) simp
    moreover have "\<forall>p\<in>heap_entries st. fm_ptr (snd p) = fm_ptr x \<longrightarrow> old_fd (snd p) \<noteq> fd"
      using ok m(2) p(1) by (auto simp: heap_ok_def good_item_def good_map_def)
    ultimately show ?thesis using p card by (simp add: good_map_def)
  qed
  then show ?thesis
    using m(1) insert_parent_no_dangling
    by (auto simp: insert_parent_fd_def put_item_def safeR_def ensuresR_def set_map_def elim!: bindR.elims)
qed

section \<open>Insertion\<close>

lemma ht_no_dangling:
  "hash_table_insert ht_ops_fditem fd x t \<noteq> Inl Dangling" "hash_table_find ht_ops_fditem fd t \<noteq> Inl Dangling"
  "hash_table_remove ht_ops_fditem fd t \<noteq> Inl Dangling"
  by (auto simp: hash_table_insert_def hash_table_find_def hash_table_remove_def ht_ops_fditem_def ht_hash_int_def
      assertR_def split: option.splits)

lemma ht_key_nonneg:
  "hash_table_insert ht_ops_fditem fd x t = Inr t' \<Longrightarrow> nonneg fd" "hash_table_find ht_ops_fditem fd t = Inr y \<Longrightarrow> nonneg fd"
  by (auto simp: hash_table_insert_def hash_table_find_def ht_ops_fditem_def ht_hash_int_def assertR_def split: if_splits)

lemma ht_insert_items:
  assumes "fdt.table_inv t" "nonneg (old_fd x)" "hash_table_insert ht_ops_fditem fd x t = Inr t'"
  shows "fdt.table_inv t' \<and> mset (ht_items t') = add_mset x (mset (ht_items t))"
proof -
  have fd: "nonneg fd" using ht_key_nonneg(1) [OF assms(3)] .
  let ?c = "entry t ! fdt.slot t fd"
  have t': "t' = fdt.set_chain t fd (?c @ [x])" using fdt.insert_eq [OF assms(1) fd, of x] assms(3) by simp
  have "fdt.table_inv t'"
    unfolding t' using assms(1) fd by (rule fdt.set_chain_inv) (use fdt.chain_slot [OF assms(1) fd] assms(2) in auto)
  then show ?thesis using fdt.set_chain_mset [OF assms(1) fd, of "?c @ [x]"] t' by simp
qed

lemma heap_insert:
  assumes ok: "heap_ok k st" and t: "tables st a = Some t" and x: "good_item k st x" "nonneg (old_fd x)"
    and apart: "\<forall>p\<in>heap_entries st. fi_addr (snd p) \<noteq> fi_addr x \<and> (fm_ptr (snd p) = fm_ptr x \<longrightarrow> old_fd (snd p) \<noteq> old_fd x)"
    and run: "hash_table_insert ht_ops_fditem fd x t = Inr t'"
    and n: "n \<le> fi_addr x" "n \<le> fm_ptr x \<or> (\<forall>P. \<not> own_map st (fm_ptr x) P)"
    and own: "\<forall>p\<in>heap_entries st. fm_ptr (snd p) = fm_ptr x \<longrightarrow> (\<exists>y. (a, y) \<in> heap_entries st \<and> fm_ptr y = fm_ptr x)"
  shows "heap_ok k (set_table a t' st) \<and> keeps n F st (set_table a t' st) \<and>
    heap_entries (set_table a t' st) = insert (a, x) (heap_entries st)"
proof -
  let ?s = "set_table a t' st"
  have inv: "fdt.table_inv t" "distinct (ht_items t)" using ok t by (auto simp: heap_ok_def tables_ok_def)
  have t': "fdt.table_inv t'" "mset (ht_items t') = add_mset x (mset (ht_items t))"
    using ht_insert_items [OF inv(1) x(2) run] by blast+
  have set: "set (ht_items t') = insert x (set (ht_items t))"
    using t'(2) by (metis set_mset_add_mset_insert set_mset_mset)
  have "x \<notin> set (ht_items t)" using apart t by (force simp: heap_entries_def)
  then have dist: "distinct (ht_items t')" using t'(2) inv(2)
    by (metis distinct.simps(2) mset.simps(2) mset_eq_imp_distinct_iff)
  have E: "heap_entries ?s = insert (a, x) (heap_entries st)"
    using t set by (auto simp: heap_entries_def set_table_def split: if_splits)
  have "tables_ok ?s" using ok t' dist by (auto simp: heap_ok_def tables_ok_def set_table_def)
  moreover have "entries_apart (heap_entries ?s)"
    unfolding E entries_apart_def
  proof (intro ballI impI)
    fix p q
    assume pq: "p \<in> insert (a, x) (heap_entries st)" "q \<in> insert (a, x) (heap_entries st)"
      "fi_addr (snd p) = fi_addr (snd q) \<or> fm_ptr (snd p) = fm_ptr (snd q) \<and> old_fd (snd p) = old_fd (snd q)"
    have old: "p = q" if "p \<in> heap_entries st" "q \<in> heap_entries st"
      using ok that pq(3) unfolding heap_ok_def entries_apart_def by blast
    show "p = q"
      using pq old apart by (cases "p = (a, x)"; cases "q = (a, x)") (metis insertE snd_conv)+
  qed
  moreover have "\<forall>p\<in>heap_entries ?s. good_item k ?s (snd p)"
    using ok x E by (auto simp: heap_ok_def good_item_def set_table_def)
  moreover have "store_fresh ?s" using ok t by (auto simp: heap_ok_def store_fresh_def set_table_def)
  moreover have "keeps n F st ?s"
  proof -
    have B: "binds_of ?s = insert (a, old_fd x, fm_ptr x) (binds_of st)" by (simp add: binds_of_def E)
    have "bind_step F (binds_of st) (binds_of ?s)"
    proof (cases "fm_ptr x \<in> files_in (binds_of st)")
      case True
      then obtain y where y: "(a, y) \<in> heap_entries st" "fm_ptr y = fm_ptr x"
        using own by (auto simp: files_of_binds)
      then have "(a, old_fd y, fm_ptr x) \<in> binds_of st" by (auto simp: binds_of_iff)
      moreover have "(a, old_fd x, fm_ptr x) \<notin> binds_of st" using apart by (fastforce simp: binds_of_iff)
      ultimately show ?thesis unfolding B by (rule bind_step.Dup)
    qed (simp add: B bind_step.Enter)
    then have steps: "(bind_step F)\<^sup>*\<^sup>* (binds_of st) (binds_of ?s)" by (rule r_into_rtranclp)
    show ?thesis
      unfolding keeps_def using n t steps
      by (auto simp: E set_table_def spare_def own_map_def E [unfolded set_table_def])
  qed
  ultimately show ?thesis using E by (simp add: heap_ok_def)
qed

section \<open>Freeing\<close>

lemma free_map_heap_ok:
  assumes "heap_ok k st" "\<forall>p\<in>heap_entries st. fm_ptr (snd p) \<noteq> a"
  shows "heap_ok k (st\<lparr>fd_maps := (fd_maps st)(a := None)\<rparr>)"
  using assms by (auto simp: heap_ok_def store_fresh_def tables_ok_def good_item_def heap_entries_def)

lemma free_item_heap_ok:
  assumes "heap_ok k st" "\<forall>p\<in>heap_entries st. fi_addr (snd p) \<noteq> fi_addr x"
  shows "heap_ok k (free_item x st)"
  using assms by (auto simp: free_item_def heap_ok_def store_fresh_def tables_ok_def good_item_def heap_entries_def)

lemma free_keeps:
  "n \<le> a \<Longrightarrow> keeps n F st (st\<lparr>fd_maps := (fd_maps st)(a := None)\<rparr>)"
  "n \<le> fi_addr x \<Longrightarrow> keeps n F st (free_item x st)"
  by (auto simp: keeps_def spare_def own_map_def heap_entries_def free_item_def binds_of_def)

text \<open>\<open>free(fd_item_new->fd_map)\<close> in \<open>replicate_dup\<close>: the item stays.\<close>

lemma free_pending_map:
  assumes "heap_ok k st" "pending st x P" "n \<le> fm_ptr x"
  shows "\<exists>st'. free_map (fm_ptr x) st = Inr st' \<and> heap_ok k st' \<and> keeps n F st st' \<and> spare st' (fi_addr x) \<and>
    tables st' = tables st"
proof -
  obtain m where m: "fd_maps st (fm_ptr x) = Some m" using assms(2) by (auto simp: pending_def own_map_def)
  have "\<forall>p\<in>heap_entries st. fm_ptr (snd p) \<noteq> fm_ptr x" using pending_not_entry [OF assms(2)] by blast
  then have "heap_ok k (st\<lparr>fd_maps := (fd_maps st)(fm_ptr x := None)\<rparr>)" using assms(1) free_map_heap_ok by blast
  moreover have "spare (st\<lparr>fd_maps := (fd_maps st)(fm_ptr x := None)\<rparr>) (fi_addr x)"
    using assms(2) by (simp add: pending_def spare_def heap_entries_def)
  ultimately show ?thesis using m assms(3) by (simp add: free_map_def get_map_def free_keeps)
qed

lemma delete_pending:
  assumes "heap_ok k st" "pending st x P" "n \<le> fm_ptr x" "n \<le> fi_addr x"
  shows "\<exists>st'. delete_fd_item x st = Inr st' \<and> heap_ok k st' \<and> keeps n F st st'"
proof -
  obtain st1 where st1: "free_map (fm_ptr x) st = Inr st1" "heap_ok k st1" "keeps n F st st1" "spare st1 (fi_addr x)"
    using free_pending_map [OF assms(1-3)] by blast
  have "heap_ok k (free_item x st1)" using st1(2) by (rule free_item_heap_ok) (use st1(4) in \<open>simp add: spare_def\<close>)
  moreover have "keeps n F st (free_item x st1)" using st1(3) free_keeps(2) [OF assms(4)] by (rule keeps_trans)
  ultimately show ?thesis using st1(1) by (simp add: delete_fd_item_def)
qed

section \<open>Closing an item\<close>

text \<open>
  The part of \<open>replicate_close\<close> that works on the store: the parent goes, the item goes, and the
  map goes with its last parent. No other item pointed to what was freed.
\<close>

definition close_item :: "addr \<Rightarrow> i32 \<Rightarrow> fd_item \<Rightarrow> fd_store \<Rightarrow> fd_store res" where
  "close_item a fd x st =
     bindR (delete_parent_fd x fd st) (\<lambda>(last_parent, st).
     bindR (get_table st a) (\<lambda>t.
     bindR (hash_table_remove ht_ops_fditem fd t) (\<lambda>(y, t).
     let st = (case y of None \<Rightarrow> st | Some y \<Rightarrow> free_item y (set_table a t st)) in
     if last_parent then free_map (fm_ptr x) st else Inr st)))"

lemma close_item_ok:
  assumes ok: "heap_ok k st" and t: "tables st a = Some t" and find: "fdt.table_map t fd = Some x"
  shows "\<exists>st'. close_item a fd x st = Inr st' \<and> heap_ok k st' \<and> keeps n {fd} st st' \<and>
    heap_entries st' = heap_entries st - {(a, x)} \<and> \<not> fd_live st' (fi_addr x)"
proof -
  have inv: "fdt.table_inv t" "distinct (ht_items t)" using ok t by (auto simp: heap_ok_def tables_ok_def)
  have x: "x \<in> set (ht_items t)" "old_fd x = fd" using table_item [OF inv(1) find] by auto
  have fd: "nonneg fd" using find fdt.table_map_invalid by fastforce
  have xE: "(a, x) \<in> heap_entries st" using x(1) t by (auto simp: heap_entries_def)
  then have "good_item k st x" using ok by (force simp: heap_ok_def)
  then obtain m where m: "deref_item st x = Inr m" "fd_maps st (fm_ptr x) = Some m" "parents_ok m" "fd \<in> parent_set m"
    "card (parent_set m) \<le> k"
    using good_deref x(2) by (force simp: good_map_def)
  obtain m' where m': "delete_parent fd m = Inr (parent_set m' = {}, m')" "parents_ok m'" "parent_set m' = parent_set m - {fd}"
    using delete_parent_step [OF m(3,4)] by blast
  obtain t' where t': "hash_table_remove ht_ops_fditem fd t = Inr (Some x, t')" "fdt.table_inv t'"
    "add_mset x (mset (ht_items t')) = mset (ht_items t)"
    using fdt.remove_map [OF inv(1) fd] find by auto
  have dist: "distinct (ht_items t')" "x \<notin> set (ht_items t')" "set (ht_items t') = set (ht_items t) - {x}"
  proof -
    have "distinct (x # ht_items t')" "set (x # ht_items t') = set (ht_items t)"
      using t'(3) inv(2) by (metis mset.simps(2) mset_eq_imp_distinct_iff, metis mset.simps(2) set_mset_mset)
    then show "distinct (ht_items t')" "x \<notin> set (ht_items t')" "set (ht_items t') = set (ht_items t) - {x}" by auto
  qed
  let ?s1 = "set_table a t' st"
  let ?s2 = "set_map (fm_ptr x) m' ?s1"
  let ?s3 = "free_item x ?s2"
  let ?s4 = "if parent_set m' = {} then ?s3\<lparr>fd_maps := (fd_maps ?s3)(fm_ptr x := None)\<rparr> else ?s3"
  have apart: "p = (a, x)" if "p \<in> heap_entries st"
      "fi_addr (snd p) = fi_addr x \<or> fm_ptr (snd p) = fm_ptr x \<and> old_fd (snd p) = fd" for p
    using ok xE that x(2) unfolding heap_ok_def entries_apart_def by (metis snd_conv)
  have E1: "heap_entries ?s1 = heap_entries st - {(a, x)}"
    using t dist(3) apart by (fastforce simp: heap_entries_def set_table_def split: if_splits)
  have ok1: "heap_ok k ?s1"
    using ok t'(2) dist(1) E1 t unfolding heap_ok_def tables_ok_def entries_apart_def
    by (auto simp: good_item_def set_table_def store_fresh_def)
  have ok2: "heap_ok k ?s2"
    using ok1
  proof (rule set_map_heap_ok [where m = m])
    show "fd_maps ?s1 (fm_ptr x) = Some m" using m(2) by (simp add: set_table_def)
    fix y
    assume y: "y \<in> snd ` heap_entries ?s1" "fm_ptr y = fm_ptr x" "good_map k m (old_fd y)"
    then have "old_fd y \<noteq> fd" using E1 apart by fastforce
    moreover have "card (parent_set m') \<le> k" using m'(3) m(5) by (metis card_Diff1_le le_trans)
    ultimately show "good_map k m' (old_fd y)" using y(3) m' by (simp add: good_map_def)
  qed
  have E2: "heap_entries ?s2 = heap_entries ?s1" by (simp add: heap_entries_def set_map_def)
  have ok3: "heap_ok k ?s3"
    using ok2 by (rule free_item_heap_ok) (use apart E1 E2 in fastforce)
  have E3: "heap_entries ?s3 = heap_entries ?s1" using E2 by (simp add: heap_entries_def free_item_def)
  have ok4: "heap_ok k ?s4"
  proof (cases "parent_set m' = {}")
    case True
    have "fm_ptr (snd p) \<noteq> fm_ptr x" if p: "p \<in> heap_entries ?s3" for p
    proof
      assume eq: "fm_ptr (snd p) = fm_ptr x"
      have "good_item k st (snd p)" using p E3 E1 ok by (auto simp: heap_ok_def)
      then have "old_fd (snd p) \<in> parent_set m" using eq m(2) by (auto simp: good_item_def good_map_def)
      then have "old_fd (snd p) = fd" using True m'(3) by auto
      then show False using apart [of p] eq p E3 E1 by auto
    qed
    then show ?thesis using True free_map_heap_ok [OF ok3] by simp
  qed (use ok3 in simp)
  have E4: "heap_entries ?s4 = heap_entries st - {(a, x)}" using E3 E1 by (simp add: heap_entries_def)
  have "delete_parent_fd x fd st = Inr (parent_set m' = {}, set_map (fm_ptr x) m' st)"
    using m(1) m'(1) by (simp add: delete_parent_fd_def put_item_def)
  then have run: "close_item a fd x st = Inr ?s4"
    using t t'(1)
    by (simp add: close_item_def get_table_def set_map_def set_table_def free_item_def free_map_def get_map_def)
  have "keeps n {fd} st ?s4"
    unfolding keeps_def
  proof (intro conjI allI impI ballI)
    show "next_addr st \<le> next_addr ?s4" by (simp add: free_item_def set_map_def set_table_def)
    show "dom (tables st) \<subseteq> dom (tables ?s4)" by (auto simp: free_item_def set_map_def set_table_def)
    show "p \<in> heap_entries ?s4" if "p \<in> heap_entries st" "old_fd (snd p) \<notin> {fd}" for p
      using that x(2) unfolding E4 by auto
    show "spare ?s4 b" if "b < n" "spare st b" for b
      using that xE unfolding spare_def E4 by (auto simp: free_item_def set_map_def set_table_def)
    show "own_map ?s4 b P" if "b < n" "own_map st b P" for b P
      using that xE unfolding own_map_def E4 by (auto simp: free_item_def set_map_def set_table_def)
    show "(bind_step {fd})\<^sup>*\<^sup>* (binds_of st) (binds_of ?s4)"
    proof (rule r_into_rtranclp)
      have "binds_of ?s4 = binds_of st - {(a, fd, fm_ptr x)}"
      proof (intro set_eqI iffI)
        fix b
        assume "b \<in> binds_of ?s4"
        then obtain p where p: "p \<in> heap_entries st" "p \<noteq> (a, x)" "b = (fst p, old_fd (snd p), fm_ptr (snd p))"
          unfolding binds_of_def E4 by (auto simp: case_prod_beta)
        then show "b \<in> binds_of st - {(a, fd, fm_ptr x)}" using apart [OF p(1)] by (force simp: binds_of_def)
      next
        fix b
        assume b: "b \<in> binds_of st - {(a, fd, fm_ptr x)}"
        then obtain p where p: "p \<in> heap_entries st" "b = (fst p, old_fd (snd p), fm_ptr (snd p))"
          by (force simp: binds_of_def)
        then have "p \<noteq> (a, x)" using b x(2) by auto
        then show "b \<in> binds_of ?s4" unfolding binds_of_def E4 using p by (force simp: case_prod_beta)
      qed
      moreover have "(a, fd, fm_ptr x) \<in> binds_of st" using xE x(2) by (auto simp: binds_of_iff)
      ultimately show "bind_step {fd} (binds_of st) (binds_of ?s4)" by (simp add: bind_step.Leave)
    qed
  qed
  moreover have "\<not> fd_live ?s4 (fi_addr x)" by (simp add: free_item_def)
  ultimately show ?thesis using run ok4 E4 by blast
qed

section \<open>Tables of processes\<close>

lemma new_table:
  assumes ok: "heap_ok k st" and t: "fdt.table_inv t" "distinct (ht_items t)"
    and a: "a < next_addr st" "tables st a = None"
    and good: "\<forall>x\<in>set (ht_items t). good_item k st x \<and> n \<le> fi_addr x \<and> n \<le> fm_ptr x"
    and apart: "entries_apart (heap_entries st \<union> Pair a ` set (ht_items t))"
    and steps: "(bind_step F)\<^sup>*\<^sup>* (binds_of st) (binds_of (set_table a t st))"
  shows "heap_ok k (set_table a t st) \<and> keeps n F st (set_table a t st)"
proof -
  let ?s = "set_table a t st"
  have E: "heap_entries ?s = heap_entries st \<union> Pair a ` set (ht_items t)"
    using a(2) by (auto simp: heap_entries_def set_table_def split: if_splits)
  have "tables_ok ?s" using ok t by (auto simp: heap_ok_def tables_ok_def set_table_def)
  moreover have "\<forall>p\<in>heap_entries ?s. good_item k ?s (snd p)"
    using ok good unfolding E by (auto simp: heap_ok_def good_item_def set_table_def)
  moreover have "store_fresh ?s" using ok a by (auto simp: heap_ok_def store_fresh_def set_table_def)
  moreover have "keeps n F st ?s"
    unfolding keeps_def
  proof (intro conjI allI impI ballI)
    show "spare ?s b" if "b < n" "spare st b" for b
      using that good unfolding spare_def E by (auto simp: set_table_def)
    show "own_map ?s b P" if "b < n" "own_map st b P" for b P
      using that good unfolding own_map_def E by (auto simp: set_table_def)
    show "p \<in> heap_entries ?s" if "p \<in> heap_entries st" for p using that E by simp
  qed (use steps in \<open>auto simp: set_table_def\<close>)
  ultimately show ?thesis using apart E by (simp add: heap_ok_def)
qed

lemma new_process_ht_fresh:
  assumes "heap_ok k st" "new_process_ht p st = (h_it, st')"
  shows "heap_ok k (st'\<lparr>tables := (tables st')(the (p_ht h_it) := None)\<rparr>) \<and>
    keeps (next_addr st) F st (st'\<lparr>tables := (tables st')(the (p_ht h_it) := None)\<rparr>) \<and>
    tables (st'\<lparr>tables := (tables st')(the (p_ht h_it) := None)\<rparr>) = tables st"
proof -
  let ?s = "st'\<lparr>tables := (tables st')(the (p_ht h_it) := None)\<rparr>"
  have fresh: "store_fresh st" using assms(1) by (simp add: heap_ok_def)
  have h: "h_it = \<lparr>p_pid = p, p_ht = Some (next_addr st)\<rparr>"
    "st' = st\<lparr>tables := (tables st)(next_addr st \<mapsto> hash_table_init HASH_TABLE_SIZE), next_addr := Suc (next_addr st)\<rparr>"
    using assms(2) by (auto simp: new_process_ht_def Let_def)
  have "tables st (next_addr st) = None" using fresh by (simp add: store_fresh_def)
  then have tabs: "tables ?s = tables st" using h by (auto simp: fun_eq_iff)
  have same: "old_same st ?s" unfolding old_same_def tabs by (simp add: h)
  have "store_fresh ?s" using fresh unfolding store_fresh_def tabs by (simp add: h)
  with same tabs old_same_heap_ok [OF assms(1)] show ?thesis by blast
qed

lemma entries_apart_Un:
  assumes "entries_apart E" "entries_apart D"
    and "\<And>p q. p \<in> E \<Longrightarrow> q \<in> D \<Longrightarrow> fi_addr (snd p) \<noteq> fi_addr (snd q) \<and> fm_ptr (snd p) \<noteq> fm_ptr (snd q)"
  shows "entries_apart (E \<union> D)"
  using assms unfolding entries_apart_def by (metis Un_iff)

text \<open>The table that is being filled by \<open>duplicate_items\<close>: new items with maps of their own.\<close>

definition copy_ok :: "nat \<Rightarrow> nat \<Rightarrow> fd_store \<Rightarrow> fd_item hash_table \<Rightarrow> bool" where
  "copy_ok n k st ht \<longleftrightarrow> fdt.table_inv ht \<and> distinct (ht_items ht) \<and>
     (\<forall>x\<in>set (ht_items ht). good_item k st x \<and> n \<le> fi_addr x \<and> n \<le> fm_ptr x) \<and>
     (\<forall>x\<in>set (ht_items ht). \<forall>y\<in>set (ht_items ht). fi_addr x = fi_addr y \<or> fm_ptr x = fm_ptr y \<longrightarrow> x = y)"

lemma good_item_bounds: "store_fresh st \<Longrightarrow> good_item k st x \<Longrightarrow> fi_addr x < next_addr st \<and> fm_ptr x < next_addr st"
  using fresh_bounds by (fastforce simp: good_item_def)

lemma good_item_old: "store_fresh st \<Longrightarrow> good_item k st x \<Longrightarrow> old_same st st' \<Longrightarrow> good_item k st' x"
  using good_item_bounds [of st k x] by (auto simp: good_item_def old_same_def)

lemma increase_no_dangling: "increase_fd_usage fd u \<noteq> Inl Dangling"
  by (auto simp: increase_fd_usage_def hash_table_find_def hash_table_insert_def hash_table_modify_def
      ht_ops_fdusage_def ht_hash_int_def assertR_def split: option.splits)

lemma decrease_no_dangling: "decrease_fd_usage fd u \<noteq> Inl Dangling"
  by (auto simp: decrease_fd_usage_def hash_table_find_def hash_table_remove_def hash_table_modify_def
      ht_ops_fdusage_def ht_hash_int_def assertR_def split: option.splits)

text \<open>The new items stand for the old ones one by one.\<close>

definition copies :: "fd_item list \<Rightarrow> fd_item hash_table \<Rightarrow> fd_item hash_table \<Rightarrow> bool" where
  "copies xs ht ht' \<longleftrightarrow> (\<exists>ys. mset (ht_items ht') = mset (ht_items ht) + mset ys \<and> map old_fd ys = map old_fd xs)"

lemma duplicate_items_safe:
  assumes "store_fresh st" "n \<le> next_addr st" "\<forall>x\<in>set xs. good_item k st x \<and> nonneg (old_fd x)" "copy_ok n k st ht"
  shows "safeR (\<lambda>(ht', u', st'). store_fresh st' \<and> old_same st st' \<and> copy_ok n k st' ht' \<and> copies xs ht ht')
    (duplicate_items xs ht u st)"
  using assms
proof (induction xs arbitrary: st ht u)
  case Nil
  then show ?case by (simp add: safeR_def ensuresR_def copies_def)
next
  case (Cons x xs)
  have x: "good_item k st x" "nonneg (old_fd x)" using Cons.prems(3) by auto
  obtain m where m: "deref_item st x = Inr m" "fd_maps st (fm_ptr x) = Some m" "good_map k m (old_fd x)"
    using good_deref [OF x(1)] by blast
  obtain it st2 where it: "copy_item st (old_fd x) m = (it, st2)" by fastforce
  have st2: "store_fresh st2" "old_same st st2" using copy_item_fresh [OF Cons.prems(1) it] by auto
  have itp: "old_fd it = old_fd x" "fi_addr it = next_addr st" "fm_ptr it = Suc (next_addr st)" "good_item k st2 it"
    using it m(3) by (auto simp: copy_item_def good_item_def)
  have inv: "fdt.table_inv ht" using Cons.prems(4) by (simp add: copy_ok_def)
  have bound: "fi_addr y < next_addr st \<and> fm_ptr y < next_addr st" if "y \<in> set (ht_items ht)" for y
    using Cons.prems(4) that by (intro good_item_bounds [OF Cons.prems(1)]) (auto simp: copy_ok_def)
  have ok: "copy_ok n k st2 ht'" if ins: "hash_table_insert ht_ops_fditem (old_fd x) it ht = Inr ht'" for ht'
  proof -
    have "nonneg (old_fd it)" using itp(1) x(2) by simp
    note i = ht_insert_items [OF inv this ins]
    have set: "set (ht_items ht') = insert it (set (ht_items ht))"
      using i by (metis set_mset_add_mset_insert set_mset_mset)
    have notin: "it \<notin> set (ht_items ht)" using bound [of it] itp(2) by auto
    have dist: "distinct (ht_items ht')"
      using i notin Cons.prems(4) by (metis copy_ok_def distinct.simps(2) mset.simps(2) mset_eq_imp_distinct_iff)
    have "good_item k st2 y" if "y \<in> set (ht_items ht)" for y
      using Cons.prems(4) that good_item_old [OF Cons.prems(1) _ st2(2)] by (auto simp: copy_ok_def)
    moreover have "z = w" if "z \<in> set (ht_items ht')" "w \<in> set (ht_items ht')" "fi_addr z = fi_addr w \<or> fm_ptr z = fm_ptr w" for z w
      using that Cons.prems(4) bound itp unfolding set copy_ok_def by fastforce
    moreover have "n \<le> fi_addr z \<and> n \<le> fm_ptr z" if "z \<in> set (ht_items ht')" for z
      using that Cons.prems(2,4) itp unfolding set copy_ok_def by auto
    ultimately show ?thesis using dist i itp(4) unfolding copy_ok_def set by blast
  qed
  have rest: "\<forall>y\<in>set xs. good_item k st2 y \<and> nonneg (old_fd y)"
    using Cons.prems(3) good_item_old [OF Cons.prems(1) _ st2(2)] by auto
  have n2: "n \<le> next_addr st2" using Cons.prems(2) st2(2) by (simp add: old_same_def)
  have step: "duplicate_items (x # xs) ht u st =
      bindR (hash_table_insert ht_ops_fditem (old_fd x) it ht) (\<lambda>ht.
      bindR (increase_fd_usage (my_fd m) u) (\<lambda>u. duplicate_items xs ht u st2))"
    using duplicate_one [OF _ _ m(1) it] good_item_bounds [OF Cons.prems(1) x(1)] by blast
  show ?case
    unfolding step
  proof (rule safe_bind0 [OF ht_no_dangling(1)], rule safe_bind0 [OF increase_no_dangling])
    fix ht' u'
    assume ins: "hash_table_insert ht_ops_fditem (old_fd x) it ht = Inr ht'"
    have "nonneg (old_fd it)" using itp(1) x(2) by simp
    then have m: "mset (ht_items ht') = add_mset it (mset (ht_items ht))" using ht_insert_items [OF inv _ ins] by blast
    have "copies (x # xs) ht ht1" if c: "copies xs ht' ht1" for ht1
    proof -
      obtain ys where "mset (ht_items ht1) = mset (ht_items ht') + mset ys" "map old_fd ys = map old_fd xs"
        using c unfolding copies_def by blast
      then show ?thesis using m itp(1) unfolding copies_def by (intro exI [of _ "it # ys"]) simp
    qed
    then show "safeR (\<lambda>(ht', u', st'). store_fresh st' \<and> old_same st st' \<and> copy_ok n k st' ht' \<and> copies (x # xs) ht ht')
        (duplicate_items xs ht' u' st2)"
      using Cons.IH [OF st2(1) n2 rest ok [OF ins], of u'] old_same_trans [OF st2(2)]
      by (elim safe_weaken) auto
  qed
qed

lemma list_function:
  assumes "distinct xs" "length ys = length xs"
  shows "\<exists>g. map g xs = ys"
proof -
  have "map (\<lambda>x. the (map_of (zip xs ys) x)) xs = ys"
    by (rule nth_equalityI) (use assms in \<open>simp_all add: map_of_zip_nth\<close>)
  then show ?thesis by blast
qed

text \<open>Putting such a table into the store copies the bindings.\<close>

lemma copied_table:
  assumes ok: "heap_ok k st" and t: "tables st b = Some t" and a: "tables st a = None"
    and c: "copies (ht_items t) ht0 ht" "ht_items ht0 = []" "distinct (map fm_ptr (ht_items ht))"
    and new: "\<forall>x\<in>set (ht_items ht). \<forall>p\<in>heap_entries st. fm_ptr (snd p) \<noteq> fm_ptr x"
  shows "bind_step F (binds_of st) (binds_of (set_table a ht st)) \<and> copy_of (binds_of (set_table a ht st)) b a"
proof -
  let ?slot = "\<lambda>x. (old_fd x, fm_ptr x)" and ?B = "binds_of st"
  obtain ys where ys: "mset (ht_items ht) = mset ys" "map old_fd ys = map old_fd (ht_items t)"
    using c(1,2) by (auto simp: copies_def)
  have set: "set ys = set (ht_items ht)" using ys(1) by (metis set_mset_mset)
  have "mset (map fm_ptr ys) = mset (map fm_ptr (ht_items ht))" using ys(1) by (simp add: mset_map)
  then have dys: "distinct (map fm_ptr ys)" using c(3) mset_eq_imp_distinct_iff by blast
  have slots: "slots ?B b = set (map ?slot (ht_items t))" using t by (auto simp: slots_def binds_of_iff heap_entries_def)
  have "inj_on ?slot (set (ht_items t))"
  proof (rule inj_onI)
    fix x y
    assume "x \<in> set (ht_items t)" "y \<in> set (ht_items t)" "?slot x = ?slot y"
    moreover have "(b, x) \<in> heap_entries st" "(b, y) \<in> heap_entries st" using calculation t by (auto simp: heap_entries_def)
    ultimately show "x = y" using ok unfolding heap_ok_def entries_apart_def by fastforce
  qed
  then have dt: "distinct (map ?slot (ht_items t))" using ok t by (auto simp: distinct_map heap_ok_def tables_ok_def)
  have len: "length (map fm_ptr ys) = length (map ?slot (ht_items t))" using ys(2) by (metis length_map)
  obtain g where g: "map g (map ?slot (ht_items t)) = map fm_ptr ys" using list_function [OF dt len] by blast
  have inj: "inj_on g (slots ?B b)" unfolding slots using g dys by (metis distinct_map)
  have img: "g ` slots ?B b = fm_ptr ` set (ht_items ht)" unfolding slots using g set by (metis list.set_map)
  have pairs: "map (\<lambda>x. (fst x, g x)) (map ?slot (ht_items t)) = map ?slot ys"
  proof (rule nth_equalityI)
    fix i
    assume i: "i < length (map (\<lambda>x. (fst x, g x)) (map ?slot (ht_items t)))"
    then have "map g (map ?slot (ht_items t)) ! i = map fm_ptr ys ! i" "map old_fd ys ! i = map old_fd (ht_items t) ! i"
      using g ys(2) by simp_all
    with i len show "map (\<lambda>x. (fst x, g x)) (map ?slot (ht_items t)) ! i = map ?slot ys ! i" by simp
  qed (use len in simp)
  have pimg: "(\<lambda>x. (fst x, g x)) ` slots ?B b = ?slot ` set (ht_items ht)"
    unfolding slots using pairs set by (metis list.set_map)
  have none: "slots ?B a = {}" using a by (auto simp: slots_def binds_of_iff heap_entries_def)
  have ab: "b \<noteq> a" using t a by auto
  have "heap_entries (set_table a ht st) = heap_entries st \<union> Pair a ` set (ht_items ht)"
    using a by (auto simp: heap_entries_def set_table_def split: if_splits)
  then have "binds_of (set_table a ht st) = ?B \<union> (\<lambda>x. (a, ?slot x)) ` set (ht_items ht)"
    by (auto simp: binds_of_def image_iff)
  also have "(\<lambda>x. (a, ?slot x)) ` set (ht_items ht) = Pair a ` ((\<lambda>x. (fst x, g x)) ` slots ?B b)"
    unfolding pimg by (simp add: image_image)
  finally have B: "binds_of (set_table a ht st) = ?B \<union> (\<lambda>x. (a, fst x, g x)) ` slots ?B b"
    by (simp only: image_image)
  have "g ` slots ?B b \<inter> files_in ?B = {}" unfolding img using new by (auto simp: files_of_binds)
  then show ?thesis
    unfolding B using bind_step.Copy [OF none ab inj] copy_of_copied [OF none ab inj] by blast
qed

lemma duplicate_process_ht_safe:
  assumes ok: "heap_ok k st" and h: "\<forall>a. h = Some a \<longrightarrow> tables st a \<noteq> None"
  shows "safeR (\<lambda>(a, u', st'). heap_ok k st' \<and> keeps (next_addr st) F st st' \<and> tables st' a \<noteq> None \<and>
      (\<exists>b. h = Some b \<and> copy_of (binds_of st') b a) \<and> tables st a = None)
    (duplicate_process_ht h u st)"
proof (cases h)
  case None
  then show ?thesis by (simp add: duplicate_process_ht_def safe_Inl)
next
  case (Some b)
  then obtain t where t: "tables st b = Some t" using h by blast
  let ?s = "st\<lparr>next_addr := Suc (next_addr st)\<rparr>"
  have fresh: "store_fresh ?s" using ok by (auto simp: heap_ok_def store_fresh_def)
  have inv: "fdt.table_inv t" "take (entries t) (entry t) = entry t" "0 < entries t"
    using ok t by (auto simp: heap_ok_def tables_ok_def fdt.table_inv_def)
  have "old_same st ?s" by (simp add: old_same_def)
  with ok fresh have s: "heap_ok k ?s" "keeps (next_addr st) F st ?s" "heap_entries ?s = heap_entries st"
    using old_same_heap_ok by blast+
  have items: "\<forall>x\<in>set (ht_items t). good_item k ?s x \<and> nonneg (old_fd x)"
  proof
    fix x
    assume x: "x \<in> set (ht_items t)"
    then have "(b, x) \<in> heap_entries ?s" using t by (auto simp: heap_entries_def)
    then show "good_item k ?s x \<and> nonneg (old_fd x)"
      using s(1) fdt.table_inv_valid [OF inv(1) x] by (force simp: heap_ok_def)
  qed
  have copy: "copy_ok (Suc (next_addr st)) k ?s (hash_table_init (entries t))"
    using inv(3) fdt.init_inv by (auto simp: copy_ok_def hash_table_init_def ht_items_def)
  have run: "duplicate_process_ht h u st =
      bindR (duplicate_items (ht_items t) (hash_table_init (entries t)) u ?s)
        (\<lambda>(ht, u, s). Inr (next_addr st, u, set_table (next_addr st) ht s))"
    using Some t inv(2) by (simp add: duplicate_process_ht_def get_table_def Let_def ht_items_def)
  have unused: "tables st (next_addr st) = None" using ok by (auto simp: heap_ok_def store_fresh_def)
  have fin: "heap_ok k (set_table (next_addr st) ht s') \<and> keeps (next_addr st) F st (set_table (next_addr st) ht s') \<and>
      copy_of (binds_of (set_table (next_addr st) ht s')) b (next_addr st)"
    if d: "store_fresh s'" "old_same ?s s'" "copy_ok (Suc (next_addr st)) k s' ht"
      "copies (ht_items t) (hash_table_init (entries t)) ht" for ht s'
  proof -
    have s': "heap_ok k s'" "keeps (next_addr ?s) F ?s s'" "heap_entries s' = heap_entries ?s"
      using old_same_heap_ok [OF s(1) d(2,1)] by blast+
    have none: "next_addr st < next_addr s'" "tables s' (next_addr st) = None"
      using d(2) ok by (auto simp: old_same_def heap_ok_def store_fresh_def)
    have old: "fi_addr (snd p) < next_addr st \<and> fm_ptr (snd p) < next_addr st" if "p \<in> heap_entries s'" for p
      using entry_bounds [OF ok, of p] that s'(3) s(3) by simp
    have apart: "entries_apart (heap_entries s' \<union> Pair (next_addr st) ` set (ht_items ht))"
    proof (rule entries_apart_Un)
      show "entries_apart (heap_entries s')" using s'(1) by (simp add: heap_ok_def)
      show "entries_apart (Pair (next_addr st) ` set (ht_items ht))"
        using d(3) by (auto simp: entries_apart_def copy_ok_def)
      show "fi_addr (snd p) \<noteq> fi_addr (snd q) \<and> fm_ptr (snd p) \<noteq> fm_ptr (snd q)"
        if "p \<in> heap_entries s'" "q \<in> Pair (next_addr st) ` set (ht_items ht)" for p q
        using old [OF that(1)] that(2) d(3) by (fastforce simp: copy_ok_def)
    qed
    have tb: "tables s' b = Some t" using d(2) t by (simp add: old_same_def)
    have "ht_items (hash_table_init (entries t) :: fd_item hash_table) = []" by (simp add: hash_table_init_def ht_items_def)
    moreover have "distinct (map fm_ptr (ht_items ht))" using d(3) by (auto simp: copy_ok_def distinct_map inj_on_def)
    moreover have "\<forall>x\<in>set (ht_items ht). \<forall>p\<in>heap_entries s'. fm_ptr (snd p) \<noteq> fm_ptr x"
      using old d(3) by (fastforce simp: copy_ok_def)
    ultimately have copied: "bind_step F (binds_of s') (binds_of (set_table (next_addr st) ht s'))"
      "copy_of (binds_of (set_table (next_addr st) ht s')) b (next_addr st)"
      using copied_table [OF s'(1) tb none(2) d(4)] by blast+
    have new: "heap_ok k (set_table (next_addr st) ht s') \<and> keeps (next_addr st) F s' (set_table (next_addr st) ht s')"
      using d(3) by (intro new_table [OF s'(1) _ _ none _ apart r_into_rtranclp [of "bind_step F", OF copied(1)]]) (auto simp: copy_ok_def)
    have "keeps (next_addr st) F st s'"
      using keeps_trans [OF s(2) keeps_mono [OF s'(2), of "next_addr st" F]] by simp
    then show ?thesis using new keeps_trans copied(2) by blast
  qed
  show ?thesis
    unfolding run
    by (rule safe_bind [OF duplicate_items_safe [OF fresh _ items copy]])
      (use fin unused Some in \<open>auto intro!: safe_Inr simp: set_table_def\<close>)
qed

end
