(* ===== verification/Replicate_Heap.thy ===== *)
theory Replicate_Heap
  imports Replicate_Frame Fd_Heap
begin

text \<open>
  Memory safety of the replay: no handler uses freed memory, as long as the memory of the
  descriptor tables is in order (theory \<open>Fd_Heap\<close>), which the initialization establishes and every
  handler keeps. The exceptions are \<open>dup\<close> onto the same number and more duplicates of a
  descriptor than a map has room for; what happens then is shown at the end.
\<close>

section \<open>The simulation uses no freed memory\<close>

abbreviation no_dangling :: "'a res \<Rightarrow> bool" where
  "no_dangling r \<equiv> r \<noteq> Inl Dangling"

named_theorems no_dangling_intro \<open>functions that use no freed memory\<close>

lemma no_dangling_bind: "no_dangling r \<Longrightarrow> (\<And>x. r = Inr x \<Longrightarrow> no_dangling (f x)) \<Longrightarrow> no_dangling (bindR r f)"
  by (cases r) auto

lemma no_dangling_if: "(b \<Longrightarrow> no_dangling x) \<Longrightarrow> (\<not> b \<Longrightarrow> no_dangling y) \<Longrightarrow> no_dangling (if b then x else y)"
  by simp

lemma no_dangling_opt:
  "(x = None \<Longrightarrow> no_dangling a) \<Longrightarrow> (\<And>y. x = Some y \<Longrightarrow> no_dangling (b y)) \<Longrightarrow>
   no_dangling (case x of None \<Rightarrow> a | Some y \<Rightarrow> b y)"
  by (cases x) auto

lemma no_dangling_prod: "(\<And>a b. x = (a, b) \<Longrightarrow> no_dangling (f a b)) \<Longrightarrow> no_dangling (case x of (a, b) \<Rightarrow> f a b)"
  by (cases x) auto

lemma no_dangling_of_opt: "e \<noteq> Dangling \<Longrightarrow> no_dangling (of_opt e x)"
  by (cases x) auto

lemma no_dangling_base: "no_dangling (Inr x)" "no_dangling (Inl Assertion)" "no_dangling (Inl Overflow)"
  "no_dangling (Inl Exit_Call)" "no_dangling (Inl Null_Deref)"
  by simp_all

lemmas no_dangling_steps = no_dangling_base no_dangling_if no_dangling_opt no_dangling_prod no_dangling_of_opt

lemma str_hash_no_dangling [no_dangling_intro]:
  "no_dangling (hash_table_insert ht_ops_sim k x t)" "no_dangling (hash_table_find ht_ops_sim k t)"
  "no_dangling (hash_table_modify ht_ops_sim k f t)"
  "no_dangling (hash_table_find ht_ops_namemap k t')" "no_dangling (hash_table_insert ht_ops_namemap k y t')"
  by (simp_all add: hash_table_insert_def hash_table_find_def hash_table_modify_def ht_ops_sim_def
      ht_ops_namemap_def ht_hash_str_def assertR_def)

lemma dotdot_no_dangling [no_dangling_intro]: "no_dangling (dotdot_loop b)"
proof (induction b rule: dotdot_loop.induct)
  case (1 b)
  have d: "no_dangling (drop_dotdot b off)" for off
    unfolding drop_dotdot_def by (rule no_dangling_steps | simp)+
  show ?case
    by (subst dotdot_loop.simps) (rule no_dangling_steps no_dangling_bind d 1 | assumption)+
qed

lemma absolute_no_dangling [no_dangling_intro]: "no_dangling (simfs_absolute_name dk nm n)"
  unfolding simfs_absolute_name_def by (rule no_dangling_intro no_dangling_steps no_dangling_bind)+

lemma populate_loop_no_dangling [no_dangling_intro]: "no_dangling (populate_loop dk cap ss ex off t)"
proof (induction ss arbitrary: ex off t)
  case (Cons s ss)
  show ?case
    unfolding populate_loop.simps Let_def
    by (rule no_dangling_steps no_dangling_bind Cons)+
qed simp

lemma populate_no_dangling [no_dangling_intro]: "no_dangling (simfs_populate dk cap ex mis t)"
  unfolding simfs_populate_def by (rule no_dangling_intro no_dangling_steps no_dangling_bind)+

text \<open>The node that a prefix search returns is there.\<close>

lemma prefix_loop_node:
  "prefix_loop d full c lastc nc cnt part p n1 buff = (stopped, p', n', buff') \<Longrightarrow>
   node_at r p = Some n1 \<Longrightarrow> node_at r p' = Some n'"
  by (induction d full c lastc nc cnt part p n1 buff rule: prefix_loop.induct)
    (auto split: if_splits option.splits simp: node_at_append)

lemma longest_prefix_node: "trie_longest_prefix t k b = (p, b') \<Longrightarrow> node_at (root t) p \<noteq> None"
  by (auto simp: trie_longest_prefix_def Let_def node_at_append split: prod.splits if_splits option.splits
      dest!: prefix_loop_node [where r = "root t"])

lemma physical_no_dangling: "trie_longest_prefix t k b = (p, b') \<Longrightarrow> no_dangling (physical_at t p)"
  using longest_prefix_node by (fastforce simp: physical_at_def)

lemma simfs_no_dangling [no_dangling_intro]:
  "no_dangling (simfs_access dk o_access t)" "no_dangling (simfs_stat dk o_stat t)"
  "no_dangling (simfs_mkdir dk o_mkdir t)" "no_dangling (simfs_unlink dk o_unlink t)"
  "no_dangling (simfs_creat dk o_open t)"
  unfolding simfs_access_def simfs_stat_def simfs_mkdir_def simfs_unlink_def simfs_creat_def Let_def
  by (rule no_dangling_intro no_dangling_steps no_dangling_bind physical_no_dangling | assumption)+

lemma simulate_names_no_dangling [no_dangling_intro]:
  "no_dangling (simulate_access dk o_access x)" "no_dangling (simulate_stat dk o_stat x)"
  "no_dangling (simulate_mkdir dk o_mkdir x)" "no_dangling (simulate_unlink dk o_unlink x)"
  "no_dangling (simulate_rmdir dk o_rmdir x)" "no_dangling (simulate_creat dk o_open x)"
  unfolding simulate_access_def simulate_stat_def simulate_mkdir_def simulate_unlink_def
    simulate_rmdir_def simulate_creat_def with_fs_def simfs_rmdir_def
  by (rule no_dangling_intro no_dangling_steps no_dangling_bind | simp)+

lemma note_no_dangling [no_dangling_intro]:
  "no_dangling (note_read m sz off info r x)" "no_dangling (note_write m sz off info r x)"
  "no_dangling (find_sim dk nm x)"
  unfolding note_read_def note_write_def find_sim_def simulate_get_sim_item_def simulate_append_rw_def
  by (rule no_dangling_intro no_dangling_steps no_dangling_bind | simp)+

lemma sendfile_no_dangling [no_dangling_intro]:
  "no_dangling (sendfile_in dk m o_p x)" "no_dangling (sendfile_out dk m o_p x)"
  unfolding sendfile_in_def sendfile_out_def Let_def
  by (rule no_dangling_intro no_dangling_steps no_dangling_bind | simp)+

lemma simulate_no_dangling [no_dangling_intro]:
  "no_dangling (simulate_read dk m o_read x)" "no_dangling (simulate_write dk m o_write x)"
  "no_dangling (simulate_pread dk m o_pread x)" "no_dangling (simulate_pwrite dk m o_pwrite x)"
  "no_dangling (simulate_sendfile dk im om o_send x)"
  unfolding simulate_read_def simulate_write_def simulate_pread_def simulate_pwrite_def simulate_sendfile_def Let_def
  by (rule no_dangling_intro no_dangling_steps no_dangling_bind | simp)+

lemma map_name_no_dangling [no_dangling_intro]: "no_dangling (map_name e nm s)"
  unfolding map_name_def namemap_get_name_def
  by (rule no_dangling_intro no_dangling_steps no_dangling_bind)+

section \<open>States in order\<close>

text \<open>The store is in order, with at most \<open>k\<close> parents for each map, and the tables of all processes are allocated.\<close>

definition good :: "nat \<Rightarrow> 'w rep \<Rightarrow> bool" where
  "good k s \<longleftrightarrow> heap_ok k (store s) \<and> prc.table_inv (fd_mappings s) \<and>
     (\<forall>x\<in>set (ht_items (fd_mappings s)). \<forall>a. p_ht x = Some a \<longrightarrow> tables (store s) a \<noteq> None)"

text \<open>The machine state that the tables stand for.\<close>

definition dview :: "'w rep \<Rightarrow> dstate" where
  "dview s = \<lparr>procs = (\<lambda>p. Option.bind (prc.table_map (fd_mappings s) p) p_ht),
     lost = {p. \<exists>x. prc.table_map (fd_mappings s) p = Some x \<and> p_ht x = None},
     binds = binds_of (store s)\<rparr>"

lemma dview_simps [simp]:
  "procs (dview s) p = Option.bind (prc.table_map (fd_mappings s) p) p_ht"
  "p \<in> lost (dview s) \<longleftrightarrow> (\<exists>x. prc.table_map (fd_mappings s) p = Some x \<and> p_ht x = None)"
  "binds (dview s) = binds_of (store s)"
  by (simp_all add: dview_def)

lemma dview_store: "dview (s\<lparr>store := st\<rparr>) = (dview s)\<lparr>binds := binds_of st\<rparr>"
  by (simp add: dview_def)

definition post :: "nat \<Rightarrow> nat \<Rightarrow> i32 set \<Rightarrow> 'w rep \<Rightarrow> 'w rep \<Rightarrow> bool" where
  "post k n F s s' \<longleftrightarrow> good k s' \<and> keeps n F (store s) (store s') \<and> desc_steps F (dview s) (dview s')"

lemma post_refl: "good k s \<Longrightarrow> post k n F s s"
  by (simp add: post_def)

lemma post_trans: "post k n F s s1 \<Longrightarrow> post k' n F s1 s2 \<Longrightarrow> post k' n F s s2"
  using keeps_trans rtranclp_trans by (auto simp: post_def)

lemma post_mono: "post k n F s s' \<Longrightarrow> n' \<le> n \<Longrightarrow> F \<subseteq> F' \<Longrightarrow> post k n' F' s s'"
  using keeps_mono desc_steps_mono by (auto simp: post_def)

lemma post_good: "post k n F s s' \<Longrightarrow> good k s'"
  by (simp add: post_def)

lemma good_heap: "good k s \<Longrightarrow> heap_ok k (store s)"
  by (simp add: good_def)

text \<open>Only the store and the table of processes matter.\<close>

definition same_mem :: "'w rep \<Rightarrow> 'w rep \<Rightarrow> bool" where
  "same_mem s s' \<longleftrightarrow> store s' = store s \<and> fd_mappings s' = fd_mappings s"

lemma same_mem_good: "same_mem s s' \<Longrightarrow> good k s' = good k s"
  by (simp add: same_mem_def good_def)

lemma same_mem_dview: "same_mem s s' \<Longrightarrow> dview s' = dview s"
  by (simp add: same_mem_def dview_def)

lemma same_mem_post: "same_mem s s' \<Longrightarrow> good k s \<Longrightarrow> post k n F s s'"
  using same_mem_good [of s s' k] same_mem_dview [of s s'] by (simp add: post_def) (simp add: same_mem_def)

lemma same_mem_refl: "same_mem s s"
  by (simp add: same_mem_def)

lemma same_mem_update: "same_mem s (s\<lparr>world := w\<rparr>)" "same_mem s (s\<lparr>sim := x\<rparr>)"
  "same_mem s (s\<lparr>pipe_fd := fd\<rparr>)" "same_mem s (s\<lparr>socket_fd := fd\<rparr>)"
  "same_mem s (s\<lparr>usage_map := u\<rparr>)"
  by (simp_all add: same_mem_def)

lemma call64_same: "call64 e c s = (r, s') \<Longrightarrow> same_mem s s'"
  by (auto simp: call64_def Let_def same_mem_update split: prod.splits)

lemma call32_same: "call32 e c s = (r, s') \<Longrightarrow> same_mem s s'"
  by (cases "call64 e c s") (auto simp: call32_def Let_def dest: call64_same)

lemma call32_snd_same: "same_mem s (snd (call32 e c s))"
  by (cases "call32 e c s") (auto dest: call32_same)

lemma get_fd_same:
  "get_pipe_fd s = (fd, s') \<Longrightarrow> same_mem s s'" "get_socket_fd s = (fd, s') \<Longrightarrow> same_mem s s'"
  unfolding get_pipe_fd_def get_socket_fd_def Let_def
  by (elim Pair_inject, hypsubst, rule same_mem_update)+

lemmas same_mem_intro = call32_same call64_same get_fd_same call32_snd_same same_mem_refl same_mem_update

lemma safe_and: "no_dangling r \<Longrightarrow> (\<And>x. r = Inr x \<Longrightarrow> Q x) \<Longrightarrow> safeR Q r"
  by (auto simp: safeR_def ensuresR_def)

lemma with_sim_safe: "(\<And>x. no_dangling (f x)) \<Longrightarrow> safeR (same_mem s) (with_sim f s)"
  unfolding with_sim_def by (rule safe_bind0) (auto intro: safe_Inr simp: same_mem_def)

lemma use_fd_safe: "safeR (same_mem s) (use_fd fd s)"
  unfolding use_fd_def by (rule safe_bind0 [OF increase_no_dangling]) (auto intro: safe_Inr simp: same_mem_def)

lemma good_store:
  assumes "good k s" "heap_ok k' st" "keeps n F (store s) st"
  shows "post k' n F s (s\<lparr>store := st\<rparr>)"
  using assms keeps_tables desc_steps_binds [of F "dview s" "binds_of st"] keeps_binds [OF assms(3)]
  by (auto simp: post_def good_def dview_store)

lemma with_store_safe:
  assumes "good k s" "safeR (\<lambda>st. heap_ok k' st \<and> keeps n F (store s) st \<and> Q st) (f (store s))"
  shows "safeR (\<lambda>s'. post k' n F s s' \<and> Q (store s')) (with_store f s)"
  unfolding with_store_def
  using assms(2) by (rule safe_bind) (use good_store [OF assms(1)] in \<open>auto intro!: safe_Inr\<close>)

section \<open>Processes\<close>

lemma prc_find_no_dangling: "no_dangling (hash_table_find ht_ops_fdmapping p t)"
  by (auto simp: hash_table_find_def ht_ops_fdmapping_def ht_hash_int_def assertR_def)

lemma prc_entry:
  assumes "prc.table_inv t" "prc.table_map t p = Some x"
  shows "x \<in> set (ht_items t) \<and> p_pid x = p"
proof -
  have p: "nonneg p" using assms(2) prc.table_map_invalid by fastforce
  then show ?thesis
    using prc.slot_range [OF p, of t] assms
    by (force simp: prc.table_map_def prc.table_inv_def ht_items_def dest!: find_Some_in split: if_splits)
qed

lemma get_process_ht_safe:
  assumes "good k s"
  shows "safeR (\<lambda>ht. (\<forall>a. ht = Some a \<longrightarrow> tables (store s) a \<noteq> None) \<and> ht = procs (dview s) p)
    (get_process_ht (fd_mappings s) p)"
  unfolding get_process_ht_def
proof (rule safe_bind0 [OF prc_find_no_dangling])
  fix x
  assume run: "hash_table_find ht_ops_fdmapping p (fd_mappings s) = Inr x"
  have inv: "prc.table_inv (fd_mappings s)" using assms by (simp add: good_def)
  have p: "nonneg p" using run by (auto simp: hash_table_find_def ht_ops_fdmapping_def ht_hash_int_def assertR_def split: if_splits)
  have x: "prc.table_map (fd_mappings s) p = x" using prc.find_map [OF inv p] run by simp
  have "it \<in> set (ht_items (fd_mappings s)) \<and> p_pid it = p" if "x = Some it" for it
    using prc_entry [OF inv] x that by blast
  then show "safeR (\<lambda>ht. (\<forall>a. ht = Some a \<longrightarrow> tables (store s) a \<noteq> None) \<and> ht = procs (dview s) p)
      (case x of None \<Rightarrow> Inr None | Some it \<Rightarrow> Inr (if p = p_pid it then p_ht it else None))"
    using assms x by (auto simp: good_def intro!: safe_Inr split: option.split)
qed

lemma prc_insert:
  assumes "prc.table_inv t" "p_pid h = p" "hash_table_insert ht_ops_fdmapping p h t = Inr t'"
  shows "prc.table_inv t' \<and> set (ht_items t') = insert h (set (ht_items t)) \<and>
    prc.table_map t' = (if prc.table_map t p = None then (prc.table_map t)(p \<mapsto> h) else prc.table_map t)"
proof -
  have "nonneg p" using assms(3) by (auto simp: hash_table_insert_def ht_ops_fdmapping_def ht_hash_int_def assertR_def split: if_splits)
  then have t': "prc.table_inv t'" "mset (ht_items t') = add_mset h (mset (ht_items t))"
    "prc.table_map t' = (if prc.table_map t p = None then (prc.table_map t)(p \<mapsto> h) else prc.table_map t)"
    using prc.insert_map [OF assms(1), of h] assms(2,3) by auto
  have "set (ht_items t') = insert h (set (ht_items t))" using t'(2) by (metis set_mset_add_mset_insert set_mset_mset)
  with t' show ?thesis by simp
qed

text \<open>Registering a process: it joins the table of another one, gets a copy of it, or is lost.\<close>

lemma enrol_steps:
  assumes steps: "(bind_step F)\<^sup>*\<^sup>* (binds_of (store s)) (binds_of st')"
    and t': "prc.table_map t' = (if prc.table_map (fd_mappings s) p = None
      then (prc.table_map (fd_mappings s))(p \<mapsto> h) else prc.table_map (fd_mappings s))"
    and none: "procs (dview s) p = None"
    and h: "case p_ht h of None \<Rightarrow> procs (dview s) q = None
      | Some a \<Rightarrow> (\<exists>t. procs (dview s) q = Some t \<and>
          (a = t \<or> a \<notin> ran (procs (dview s)) \<and> copy_of (binds_of st') t a))"
  shows "desc_steps F (dview s) (dview (s\<lparr>fd_mappings := t', usage_map := u, store := st'\<rparr>))"
proof -
  let ?d = "(dview s)\<lparr>binds := binds_of st'\<rparr>" and ?s = "s\<lparr>fd_mappings := t', usage_map := u, store := st'\<rparr>"
  have d: "desc_steps F (dview s) ?d" using steps by (intro desc_steps_binds) simp
  have "desc_steps F ?d (dview ?s)"
  proof (cases "prc.table_map (fd_mappings s) p")
    case (Some x)
    then have "dview ?s = ?d" by (simp add: dview_def t')
    then show ?thesis by simp
  next
    case None
    then have new: "procs ?d p = None" "p \<notin> lost ?d" by (simp_all add: dview_def)
    show ?thesis
    proof (cases "p_ht h")
      case None
      have "dview ?s = ?d\<lparr>lost := insert p (lost ?d)\<rparr>"
        using \<open>prc.table_map (fd_mappings s) p = None\<close> None by (auto simp: dview_def t' fun_eq_iff)
      moreover have "procs ?d q = None" using h None by simp
      ultimately show ?thesis using desc_step.Lose [OF new(1)] by (metis r_into_rtranclp)
    next
      case (Some a)
      have v: "dview ?s = ?d\<lparr>procs := (procs ?d)(p \<mapsto> a)\<rparr>"
        using \<open>prc.table_map (fd_mappings s) p = None\<close> Some by (auto simp: dview_def t' fun_eq_iff)
      obtain t where t: "procs ?d q = Some t" "a = t \<or> a \<notin> ran (procs ?d) \<and> copy_of (binds ?d) t a"
        using h Some by auto
      from t(2) have "desc_step F ?d (?d\<lparr>procs := (procs ?d)(p \<mapsto> a)\<rparr>)"
        by (elim disjE conjE) (use desc_step.Join [OF new t(1)] desc_step.Fork [OF new t(1)] in auto)
      then show ?thesis unfolding v by (rule r_into_rtranclp)
    qed
  qed
  with d show ?thesis by (rule rtranclp_trans)
qed

lemma prc_insert_no_dangling: "no_dangling (hash_table_insert ht_ops_fdmapping p h t)"
  by (auto simp: hash_table_insert_def ht_ops_fdmapping_def ht_hash_int_def assertR_def)

lemma replicate_clone_safe:
  assumes good: "good k s"
  shows "safeR (post k (next_addr (store s)) F s) (replicate_clone o_p s)"
  unfolding replicate_clone_def Let_def
proof (rule safe_bind [OF get_process_ht_safe [OF good]], rule safe_if, (rule safe_Inr, rule post_refl, rule good), rule safe_prod)
  fix ht and h_it :: process_hash_item and st :: fd_store
  assume "(\<forall>a. ht = Some a \<longrightarrow> tables (store s) a \<noteq> None) \<and> ht = procs (dview s) (clone_retval o_p)" "\<not> ht \<noteq> None"
  then have unknown: "procs (dview s) (clone_retval o_p) = None" by simp
  let ?p = "clone_retval o_p" and ?st = "st\<lparr>tables := (tables st)(the (p_ht h_it) := None)\<rparr>"
  let ?n = "next_addr (store s)"
  assume new: "new_process_ht ?p (store s) = (h_it, st)"
  have h: "p_pid h_it = ?p" using new by (auto simp: new_process_ht_def Let_def)
  have st: "heap_ok k ?st" "keeps ?n F (store s) ?st" "tables ?st = tables (store s)"
    using new_process_ht_fresh [OF good_heap [OF good] new] by blast+
  have n: "?n \<le> next_addr ?st" using st(2) by (simp only: keeps_def)
  let ?q = "pid (clone_info o_p)"
  define enrols where "enrols hh st' \<longleftrightarrow> (\<forall>a. hh = Some a \<longrightarrow> tables st' a \<noteq> None) \<and>
    (case hh of None \<Rightarrow> procs (dview s) ?q = None
      | Some a \<Rightarrow> (\<exists>t. procs (dview s) ?q = Some t \<and>
          (a = t \<or> a \<notin> ran (procs (dview s)) \<and> copy_of (binds_of st') t a)))" for hh and st' :: fd_store
  have owned: "tables (store s) a \<noteq> None" if a: "a \<in> ran (procs (dview s))" for a
  proof -
    obtain p x where "prc.table_map (fd_mappings s) p = Some x" "p_ht x = Some a"
      using a by (auto simp: ran_def bind_eq_Some_conv)
    then show ?thesis using good prc_entry by (fastforce simp: good_def)
  qed
  have fin: "post k ?n F s (s\<lparr>fd_mappings := t', usage_map := u, store := st'\<rparr>)"
    if "hash_table_insert ht_ops_fdmapping ?p (h_it\<lparr>p_ht := hh\<rparr>) (fd_mappings s) = Inr t'"
      "heap_ok k st'" "keeps ?n F (store s) st'" "enrols hh st'" "procs (dview s) ?p = None" for hh t' u st'
  proof -
    have t': "prc.table_inv t'" "set (ht_items t') = insert (h_it\<lparr>p_ht := hh\<rparr>) (set (ht_items (fd_mappings s)))"
      "prc.table_map t' = (if prc.table_map (fd_mappings s) ?p = None
        then (prc.table_map (fd_mappings s))(?p \<mapsto> h_it\<lparr>p_ht := hh\<rparr>) else prc.table_map (fd_mappings s))"
      using prc_insert [OF _ _ that(1)] good h by (auto simp: good_def)
    have "desc_steps F (dview s) (dview (s\<lparr>fd_mappings := t', usage_map := u, store := st'\<rparr>))"
      using that(4) by (intro enrol_steps [OF keeps_binds [OF that(3)] t'(3) that(5)]) (auto simp: enrols_def split: option.splits)
    then show ?thesis using t'(1,2) that(2-4) good keeps_tables [OF that(3)] by (auto simp: post_def good_def enrols_def)
  qed
  show "safeR (post k ?n F s) (bindR (get_process_ht (fd_mappings s) (pid (clone_info o_p))) (\<lambda>parent.
        bindR (if has_flag (clone_mode o_p) CLONE_FILES then Inr (parent, usage_map s, ?st)
               else bindR (duplicate_process_ht parent (usage_map s) ?st) (\<lambda>(h, u, st). Inr (Some h, u, st)))
          (\<lambda>(h, u, st).
        bindR (hash_table_insert ht_ops_fdmapping ?p (h_it\<lparr>p_ht := h\<rparr>) (fd_mappings s)) (\<lambda>t.
        Inr (s\<lparr>fd_mappings := t, usage_map := u, store := st\<rparr>)))))"
  proof (rule safe_bind [OF get_process_ht_safe [OF good]],
      rule safe_bind [where Q = "\<lambda>(h, u, st'). heap_ok k st' \<and> keeps ?n F (store s) st' \<and> enrols h st'"])
    fix parent
    assume parent: "(\<forall>a. parent = Some a \<longrightarrow> tables (store s) a \<noteq> None) \<and> parent = procs (dview s) ?q"
    have dup: "safeR (\<lambda>(h, u, st'). heap_ok k st' \<and> keeps ?n F (store s) st' \<and> enrols (Some h) st')
        (duplicate_process_ht parent (usage_map s) ?st)"
    proof -
      have "heap_ok k st' \<and> keeps ?n F (store s) st' \<and> enrols (Some h) st'"
        if *: "heap_ok k st'" "keeps (next_addr ?st) F ?st st'" "tables st' h \<noteq> None" "parent = Some b"
          "copy_of (binds_of st') b h" "tables ?st h = None" for h b st'
      proof -
        have "keeps ?n F (store s) st'" using keeps_trans [OF st(2) keeps_mono [OF *(2) n subset_refl]] .
        moreover have "h \<notin> ran (procs (dview s))" using *(6) owned [of h] st(3) by auto
        then have "enrols (Some h) st'" using *(3-6) parent unfolding enrols_def by auto
        ultimately show ?thesis using *(1) by blast
      qed
      note res = this
      have "\<forall>a. parent = Some a \<longrightarrow> tables ?st a \<noteq> None" using parent unfolding st(3) by blast
      from duplicate_process_ht_safe [OF st(1) this, of F "usage_map s"] show ?thesis
        by (rule safe_weaken) (use res in blast)
    qed
    have same: "enrols parent ?st"
      using parent st(3) by (auto simp: enrols_def split: option.splits)
    show "safeR (\<lambda>(h, u, st'). heap_ok k st' \<and> keeps ?n F (store s) st' \<and> enrols h st')
        (if has_flag (clone_mode o_p) CLONE_FILES then Inr (parent, usage_map s, ?st)
         else bindR (duplicate_process_ht parent (usage_map s) ?st) (\<lambda>(h, u, st). Inr (Some h, u, st)))"
      using st same by (intro safe_if safe_Inr safe_bind [OF dup]) (auto intro: safe_Inr)
  next
    fix parent and r :: "addr option \<times> fd_usage hash_table \<times> fd_store"
    assume "(\<lambda>(h, u, st'). heap_ok k st' \<and> keeps ?n F (store s) st' \<and> enrols h st') r"
    then show "safeR (post k ?n F s) (case r of (h, u, st) \<Rightarrow>
        bindR (hash_table_insert ht_ops_fdmapping ?p (h_it\<lparr>p_ht := h\<rparr>) (fd_mappings s)) (\<lambda>t.
        Inr (s\<lparr>fd_mappings := t, usage_map := u, store := st\<rparr>)))"
      by (intro safe_prod safe_bind0 [OF prc_insert_no_dangling] safe_Inr) (use fin unknown in auto)
  qed
qed

lemma find_ht_safe:
  assumes good: "good k s"
  shows "safeR (\<lambda>(ht, s'). post k (next_addr (store s)) F s s' \<and> (\<forall>a. ht = Some a \<longrightarrow> tables (store s') a \<noteq> None)) (find_ht p s)"
  unfolding find_ht_def
proof (rule safe_bind [OF get_process_ht_safe [OF good]], rule safe_if)
  fix ht
  show "safeR (\<lambda>(ht, s'). post k (next_addr (store s)) F s s' \<and> (\<forall>a. ht = Some a \<longrightarrow> tables (store s') a \<noteq> None))
      (replicate_missing_ht p s)"
    unfolding replicate_missing_ht_def
    by (intro safe_if safe_Inr safe_bind [OF replicate_clone_safe [OF good]]
        safe_bind [OF get_process_ht_safe]) (auto intro: post_refl good post_good)
qed (auto intro!: safe_Inr post_refl good)

section \<open>Opening\<close>

lemma alloc_safe:
  assumes "good k s" "alloc_item s = (it, s')"
  shows "post k (next_addr (store s)) F s s' \<and> pending (store s') it {} \<and>
    next_addr (store s) \<le> fi_addr it \<and> next_addr (store s) \<le> fm_ptr it"
proof -
  obtain st where st: "new_fd_item (store s) = (it, st)" "s' = s\<lparr>store := st\<rparr>"
    using assms(2) by (cases "new_fd_item (store s)") (simp add: alloc_item_def Let_def)
  have "heap_ok k st \<and> keeps (next_addr (store s)) F (store s) st \<and> heap_entries st = heap_entries (store s) \<and>
      pending st it {} \<and> next_addr (store s) \<le> fi_addr it \<and> next_addr (store s) \<le> fm_ptr it"
    using good_heap [OF assms(1)] st(1) by (rule new_fd_item_pending)
  then show ?thesis using good_store [OF assms(1)] st(2) by simp
qed

lemma pending_old_fd [simp]: "pending st (it\<lparr>old_fd := fd\<rparr>) P = pending st it P"
  by (simp add: pending_def)

lemma pending_same: "same_mem s s' \<Longrightarrow> pending (store s') it P = pending (store s) it P"
  by (simp add: same_mem_def)

lemma update_pending_safe:
  assumes "good k s" "pending (store s) it P" "same_parents f" "n \<le> fm_ptr it"
  shows "safeR (\<lambda>s'. post k n F s s' \<and> pending (store s') it P) (update_map it f s)"
proof -
  obtain m where "deref_item (store s) it = Inr m" "put_item it (f m) (store s) = Inr (set_map (fm_ptr it) (f m) (store s))"
    "heap_ok k (set_map (fm_ptr it) (f m) (store s))" "keeps n F (store s) (set_map (fm_ptr it) (f m) (store s))"
    "pending (set_map (fm_ptr it) (f m) (store s)) it P"
    using put_pending [OF good_heap [OF assms(1)] assms(2,3,4)] by blast
  then show ?thesis
    unfolding update_map_def by (intro with_store_safe [OF assms(1)]) (simp add: safe_Inr)
qed

lemma parent_pending_safe:
  assumes "good k s" "pending (store s) it {}" "fd \<noteq> -1" "n \<le> fm_ptr it"
  shows "safeR (\<lambda>s'. post k n F s s' \<and> pending (store s') it {fd}) (with_store (insert_parent_fd it fd) s)"
  using assms(1) by (rule with_store_safe) (rule insert_parent_pending [OF good_heap [OF assms(1)] assms(2-4)])

text \<open>Entering an item into a table.\<close>

lemma ht_insert_safe:
  assumes good: "good k s" and ht: "tables (store s) ht \<noteq> None"
    and it: "good_item k (store s) it" "nonneg (old_fd it) \<or> old_fd it = key"
    and apart: "\<forall>p\<in>heap_entries (store s). fi_addr (snd p) \<noteq> fi_addr it \<and> (fm_ptr (snd p) = fm_ptr it \<longrightarrow> old_fd (snd p) \<noteq> old_fd it)"
    and n: "n \<le> fi_addr it" "n \<le> fm_ptr it \<or> (\<forall>P. \<not> own_map (store s) (fm_ptr it) P)"
    and own: "\<forall>p\<in>heap_entries (store s). fm_ptr (snd p) = fm_ptr it \<longrightarrow>
      (\<exists>y. (ht, y) \<in> heap_entries (store s) \<and> fm_ptr y = fm_ptr it)"
  shows "safeR (\<lambda>s'. post k n F s s' \<and> (ht, it) \<in> heap_entries (store s')) (ht_insert ht key it s)"
proof -
  obtain t where t: "tables (store s) ht = Some t" using ht by blast
  have "safeR (\<lambda>st. heap_ok k st \<and> keeps n F (store s) st \<and> (ht, it) \<in> heap_entries st)
      (bindR (get_table (store s) ht) (\<lambda>t. bindR (hash_table_insert ht_ops_fditem key it t) (\<lambda>t. Inr (set_table ht t (store s)))))"
    using t by (auto simp: get_table_def intro!: safe_bind0 [OF ht_no_dangling(1)] safe_Inr)
      (use heap_insert [OF good_heap [OF good] t it(1) _ apart _ n own] it(2) ht_key_nonneg(1) in blast)+
  then show ?thesis unfolding ht_insert_def by (rule with_store_safe [OF good])
qed

lemma ht_insert_pending_safe:
  assumes good: "good k s" "1 \<le> k" and ht: "tables (store s) ht \<noteq> None"
    and it: "pending (store s) it {old_fd it}" "nonneg (old_fd it) \<or> old_fd it = key" "n \<le> fi_addr it" "n \<le> fm_ptr it"
  shows "safeR (post k n F s) (ht_insert ht key it s)"
proof -
  have "good_item k (store s) it"
    using it(1) good(2) by (auto simp: pending_def spare_def own_map_def good_item_def good_map_def)
  moreover have "\<forall>p\<in>heap_entries (store s). fi_addr (snd p) \<noteq> fi_addr it \<and> (fm_ptr (snd p) = fm_ptr it \<longrightarrow> old_fd (snd p) \<noteq> old_fd it)"
    using it(1) by (auto simp: pending_def spare_def own_map_def)
  ultimately have "safeR (\<lambda>s'. post k n F s s' \<and> (ht, it) \<in> heap_entries (store s')) (ht_insert ht key it s)"
    using good(1) ht it by (intro ht_insert_safe) (auto simp: pending_def own_map_def)
  then show ?thesis by (rule safe_weaken) simp
qed

text \<open>Sequencing: each step keeps what is needed of the state before.\<close>

lemma post_bind:
  assumes "safeR (\<lambda>s'. post k n F s s' \<and> Q s') r" "\<And>s'. post k n F s s' \<Longrightarrow> Q s' \<Longrightarrow> safeR (post k' n F s') (f s')"
  shows "safeR (post k' n F s) (bindR r f)"
  using assms(1)
  by (rule safe_bind) (elim conjE, rule safe_weaken [OF assms(2)], auto intro: post_trans)

lemma post_bind2:
  assumes "safeR (\<lambda>(v, s'). post k n F s s' \<and> Q v s') r"
    "\<And>v s'. post k n F s s' \<Longrightarrow> Q v s' \<Longrightarrow> safeR (post k' n F s') (f (v, s'))"
  shows "safeR (post k' n F s) (bindR r f)"
  using assms(1)
  by (rule safe_bind) (clarify, rule safe_weaken [OF assms(2)], auto intro: post_trans)

lemma same_mem_bind:
  assumes "safeR (same_mem s) r" "good k s" "\<And>s'. same_mem s s' \<Longrightarrow> good k s' \<Longrightarrow> safeR (post k' n F s') (f s')"
  shows "safeR (post k' n F s) (bindR r f)"
  using assms(1)
  by (rule safe_bind)
    (rule safe_weaken [OF assms(3)], use assms(2) same_mem_good post_trans [OF same_mem_post] in auto)

lemma same_mem_safe: "safeR (same_mem s) r \<Longrightarrow> good k s \<Longrightarrow> safeR (post k n F s) r"
  by (erule safe_weaken) (rule same_mem_post)

lemma post_tables: "post k n F s s' \<Longrightarrow> tables (store s) a \<noteq> None \<Longrightarrow> tables (store s') a \<noteq> None"
  unfolding post_def using keeps_tables by blast

lemma enter_open_safe:
  assumes good: "good k s" "1 \<le> k" and ht: "tables (store s) ht \<noteq> None" and it: "pending (store s) it {}"
    and fd: "open_retval o_p \<noteq> -1" and n: "n \<le> fi_addr it" "n \<le> fm_ptr it"
  shows "safeR (post k n F s) (enter_open ht o_p nm flags retval it s)"
  unfolding enter_open_def Let_def
proof (rule post_bind [OF update_pending_safe])
  let ?it = "it\<lparr>old_fd := open_retval o_p\<rparr>"
  show "good k s" "pending (store s) ?it {}" "n \<le> fm_ptr ?it" using good it n by simp_all
  show "same_parents (\<lambda>m. m\<lparr>my_fd := retval, cur_pos := 0, fm_time_open := start (open_info o_p),
      fm_name := take (MAX_STRING - 1) nm, fm_created := flags AND O_CREAT\<rparr>)"
    by (rule same_parentsI) simp_all
  fix s1
  assume s1: "post k n F s s1" "pending (store s1) ?it {}"
  show "safeR (post k n F s1) (bindR (with_store (insert_parent_fd ?it (open_retval o_p)) s1) (\<lambda>s.
      bindR (update_map ?it (\<lambda>m. m\<lparr>fm_type :=
          (if has_flag flags O_IGNORE then S_IFIGNORE
           else if has_flag flags O_DIRECTORY then S_IFDIR else S_IFREG)\<rparr>) s) (\<lambda>s.
      bindR (ht_insert ht (open_retval o_p) ?it s) (\<lambda>s. use_fd retval s))))"
  proof (rule post_bind [OF parent_pending_safe [OF post_good [OF s1(1)] s1(2) fd]])
    show "n \<le> fm_ptr ?it" using n by simp
    fix s2
    assume s2: "post k n F s1 s2" "pending (store s2) ?it {open_retval o_p}"
    show "safeR (post k n F s2) (bindR (update_map ?it (\<lambda>m. m\<lparr>fm_type :=
          (if has_flag flags O_IGNORE then S_IFIGNORE
           else if has_flag flags O_DIRECTORY then S_IFDIR else S_IFREG)\<rparr>) s2) (\<lambda>s.
      bindR (ht_insert ht (open_retval o_p) ?it s) (\<lambda>s. use_fd retval s)))"
    proof (rule post_bind [OF update_pending_safe [OF post_good [OF s2(1)] s2(2)]])
      show "same_parents (\<lambda>m. m\<lparr>fm_type := (if has_flag flags O_IGNORE then S_IFIGNORE
           else if has_flag flags O_DIRECTORY then S_IFDIR else S_IFREG)\<rparr>)"
        by (rule same_parentsI) simp_all
      show "n \<le> fm_ptr ?it" using n by simp
      fix s3
      assume s3: "post k n F s2 s3" "pending (store s3) ?it {open_retval o_p}"
      have ht3: "tables (store s3) ht \<noteq> None" using post_tables [OF s3(1) post_tables [OF s2(1) post_tables [OF s1(1) ht]]] .
      have "safeR (post k n F s3) (ht_insert ht (open_retval o_p) ?it s3)"
        using post_good [OF s3(1)] good(2) ht3 by (rule ht_insert_pending_safe) (use s3(2) n in simp_all)
      then show "safeR (post k n F s3) (bindR (ht_insert ht (open_retval o_p) ?it s3) (\<lambda>s. use_fd retval s))"
        using same_mem_safe [OF use_fd_safe post_good] by (intro post_bind [where Q = "\<lambda>_. True"]) auto
    qed
  qed
qed

lemma ht_find_safe:
  assumes good: "good k s" and ht: "tables (store s) ht \<noteq> None"
  shows "safeR (\<lambda>x. nonneg fd \<and> (\<exists>t. tables (store s) ht = Some t \<and> x = fdt.table_map t fd)) (ht_find ht fd s)"
proof -
  obtain t where t: "tables (store s) ht = Some t" using ht by blast
  then have inv: "fdt.table_inv t" using good by (auto simp: good_def heap_ok_def tables_ok_def)
  show ?thesis
    unfolding ht_find_def get_table_def t of_opt_simps bindR.simps
  proof (rule safe_and [OF ht_no_dangling(2)])
    fix x
    assume run: "hash_table_find ht_ops_fditem fd t = Inr x"
    then have "nonneg fd" by (rule ht_key_nonneg)
    then show "nonneg fd \<and> (\<exists>t'. Some t = Some t' \<and> x = fdt.table_map t' fd)"
      using run fdt.find_map [OF inv \<open>nonneg fd\<close>] \<open>nonneg fd\<close> by simp
  qed
qed

lemma delete_item_safe:
  assumes "good k s" "pending (store s) it P" "n \<le> fm_ptr it" "n \<le> fi_addr it"
  shows "safeR (post k n F s) (with_store (delete_fd_item it) s)"
proof -
  obtain st where "delete_fd_item it (store s) = Inr st" "heap_ok k st" "keeps n F (store s) st"
    using delete_pending [OF good_heap [OF assms(1)] assms(2-4)] by blast
  then show ?thesis using good_store [OF assms(1)] by (simp add: with_store_def safe_Inr)
qed

lemma open_failed_safe:
  assumes good: "good k s" and it: "pending (store s) it {}" and n: "n \<le> fm_ptr it" "n \<le> fi_addr it"
  shows "safeR (post k n F s) (open_failed e o_p m it s)"
  unfolding open_failed_def Let_def
proof (rule safe_bind0 [OF map_name_no_dangling], rule safe_opt)
  show "safeR (post k n F s) (Inr s)" by (rule safe_Inr, rule post_refl, rule good)
  fix name :: string
  have "safeR (same_mem s) (case call32 e (Sys_open name 0 None) s of (retval, s) \<Rightarrow>
      Inr (if retval \<noteq> -1 then snd (call32 e (Sys_close retval) s) else s))"
  proof (rule safe_prod, rule safe_Inr)
    fix r s1
    assume "call32 e (Sys_open name 0 None) s = (r, s1)"
    then have "same_mem s s1" by (rule call32_same)
    then show "same_mem s (if r \<noteq> -1 then snd (call32 e (Sys_close r) s1) else s1)"
      using call32_snd_same [of s1 e "Sys_close r"] by (simp add: same_mem_def)
  qed
  then have "safeR (same_mem s) (if replicates m then case call32 e (Sys_open name 0 None) s of (retval, s) \<Rightarrow>
        Inr (if retval \<noteq> -1 then snd (call32 e (Sys_close retval) s) else s)
      else if simulates m then with_sim (simulate_creat (disk_of e (world s)) (o_p\<lparr>open_name := name\<rparr>)) s
      else Inr s)"
    by (intro safe_if with_sim_safe safe_Inr same_mem_refl no_dangling_intro) auto
  then show "safeR (post k n F s) (bindR (if replicates m then case call32 e (Sys_open name 0 None) s of (retval, s) \<Rightarrow>
        Inr (if retval \<noteq> -1 then snd (call32 e (Sys_close retval) s) else s)
      else if simulates m then with_sim (simulate_creat (disk_of e (world s)) (o_p\<lparr>open_name := name\<rparr>)) s
      else Inr s) (with_store (delete_fd_item it)))"
    by (rule same_mem_bind [OF _ good]) (use delete_item_safe it n pending_same in blast)
qed

lemma open_call_safe: "safeR (\<lambda>(r, s'). same_mem s s') (open_call e o_p name flags m s)"
proof -
  have "safeR (same_mem s) (if simulates m \<and> \<not> has_flag flags O_IGNORE
      then with_sim (simulate_creat (disk_of e (world s)) (o_p\<lparr>open_name := name\<rparr>)) s else Inr s)"
    by (intro safe_if with_sim_safe safe_Inr same_mem_refl no_dangling_intro)
  then show ?thesis
    unfolding open_call_def Let_def
    by (intro safe_if safe_Inr, cases "call32 e (Sys_open name flags
        (if open_mode o_p = MODE_UNDEF then None else Some (open_mode o_p))) s", force dest: call32_same)
      (erule safe_bind, auto simp: simulate_get_open_fd_def Let_def same_mem_def intro!: safe_Inr)
qed

lemma replicate_open_safe:
  assumes good: "good k s" "1 \<le> k"
  shows "safeR (post k (next_addr (store s)) F s) (replicate_open e o_p m s)"
  unfolding replicate_open_def Let_def
  apply (rule safe_prod)
  subgoal premises alloc for it s0
  proof -
    let ?n = "next_addr (store s)"
    have s0: "post k ?n F s s0" "pending (store s0) it {}" "?n \<le> fi_addr it" "?n \<le> fm_ptr it"
      using alloc_safe [OF good(1) alloc] by blast+
    note g0 = post_good [OF s0(1)]
    have n0: "?n \<le> next_addr (store s0)" using s0(1) by (simp add: post_def keeps_def)
    have b0: "fi_addr it < next_addr (store s0)" "fm_ptr it < next_addr (store s0)"
      using pending_bounds [OF good_heap [OF g0] s0(2)] by auto
    have step: "post k ?n F s0 s' \<and> pending (store s') it {}" if p: "post k (next_addr (store s0)) F s0 s'" for s'
    proof -
      have "keeps (next_addr (store s0)) F (store s0) (store s')" using p by (simp add: post_def)
      then show ?thesis using post_mono [OF p n0 subset_refl] keeps_pending [OF _ s0(2) b0] by blast
    qed
    have find: "safeR (\<lambda>(ht, s'). post k ?n F s0 s' \<and> pending (store s') it {} \<and>
        (\<forall>a. ht = Some a \<longrightarrow> tables (store s') a \<noteq> None)) (find_ht p s0)" for p
      using find_ht_safe [OF g0, of F p]
      by (rule safe_weaken) (use step in auto)
    show ?thesis
      apply (rule safe_weaken [OF _ post_trans [OF s0(1)]])
       apply (rule safe_if)
        apply (rule open_failed_safe [OF g0 s0(2,4,3)])
       apply (rule post_bind2 [OF find])
       apply (unfold prod.case)
       apply (rule safe_opt)
      subgoal using s0 by (intro delete_item_safe) (auto intro: post_good)
      subgoal premises prems for ht s1 a
      proof -
        have g1: "good k s1" "pending (store s1) it {}" "tables (store s1) a \<noteq> None"
          using prems post_good by auto
        have fin: "safeR (post k ?n F s1) (bindR (open_call e o_p name flags m s1)
            (\<lambda>(retval, s). if retval = -1 then Inr s else enter_open a o_p name flags retval it s))" for name flags
          by (rule post_bind2 [where Q = "\<lambda>_ s'. same_mem s1 s'"], rule safe_weaken [OF open_call_safe],
              use g1(1) same_mem_post in blast, unfold prod.case, intro safe_if safe_Inr)
            (use g1 good(2) prems(1) s0(3,4) in \<open>auto intro!: enter_open_safe post_refl simp: same_mem_good pending_same, auto simp: same_mem_def\<close>)
        show ?thesis
          by (rule safe_bind0 [OF map_name_no_dangling], rule safe_bind [OF ht_find_safe [OF g1(1,3)]], intro safe_if)
            (use g1 fin s0(3,4) in \<open>auto intro!: safe_Inr post_refl delete_item_safe\<close>)
      qed
      apply assumption
      done
  qed
  done

section \<open>Looking up\<close>

text \<open>The item that a lookup of \<open>fd\<close> in the table \<open>ht\<close> finds.\<close>

definition found :: "'w rep \<Rightarrow> addr \<Rightarrow> i32 \<Rightarrow> fd_item \<Rightarrow> bool" where
  "found s ht fd it \<longleftrightarrow> (\<exists>t. tables (store s) ht = Some t \<and> fdt.table_map t fd = Some it)"

lemma found_entry:
  assumes "good k s" "found s ht fd it"
  shows "(ht, it) \<in> heap_entries (store s) \<and> old_fd it = fd \<and> nonneg fd \<and> tables (store s) ht \<noteq> None"
proof -
  obtain t where t: "tables (store s) ht = Some t" "fdt.table_map t fd = Some it" using assms(2) by (auto simp: found_def)
  then have "fdt.table_inv t" using assms(1) by (auto simp: good_def heap_ok_def tables_ok_def)
  then have "it \<in> set (ht_items t)" "old_fd it = fd" using table_item t(2) by blast+
  moreover have "nonneg fd" using t(2) fdt.table_map_invalid by fastforce
  ultimately show ?thesis using t(1) by (auto simp: heap_entries_def)
qed

lemma found_same: "same_mem s s' \<Longrightarrow> found s' ht fd it = found s ht fd it"
  by (simp add: found_def same_mem_def)

lemma entry_deref:
  assumes "good k s" "(ht, it) \<in> heap_entries (store s)"
  shows "\<exists>fm. deref_item (store s) it = Inr fm"
proof -
  have "good_item k (store s) it" using assms by (force simp: good_def heap_ok_def)
  then show ?thesis using good_deref by blast
qed

lemma deref_no_dangling: "good k s \<Longrightarrow> (ht, it) \<in> heap_entries (store s) \<Longrightarrow> no_dangling (deref_item (store s) it)"
  using entry_deref by fastforce

lemma entry_keeps:
  "post k n F s s' \<Longrightarrow> (ht, it) \<in> heap_entries (store s) \<Longrightarrow> old_fd it \<notin> F \<Longrightarrow> (ht, it) \<in> heap_entries (store s')"
  by (force simp: post_def keeps_def)

lemma get_fd_map_safe:
  assumes good: "good k s" "1 \<le> k" and ht: "tables (store s) ht \<noteq> None"
  shows "safeR (\<lambda>(x, s'). post k (next_addr (store s)) F s s' \<and> (\<forall>it. x = Some it \<longrightarrow> found s' ht fd it))
    (replicate_get_fd_map e ht fd info m s)"
  unfolding replicate_get_fd_map_def
proof (rule safe_bind [OF ht_find_safe [OF good(1) ht]], intro safe_if)
  show "safeR (\<lambda>(x, s'). post k (next_addr (store s)) F s s' \<and> (\<forall>it. x = Some it \<longrightarrow> found s' ht fd it))
      (bindR (replicate_open e (missing_open e fd info) m s) (\<lambda>s. bindR (ht_find ht fd s) (\<lambda>found. Inr (found, s))))"
  proof (rule safe_bind [OF replicate_open_safe [OF good, of F]])
    fix s'
    assume s': "post k (next_addr (store s)) F s s'"
    show "safeR (\<lambda>(x, s'). post k (next_addr (store s)) F s s' \<and> (\<forall>it. x = Some it \<longrightarrow> found s' ht fd it))
        (bindR (ht_find ht fd s') (\<lambda>found. Inr (found, s')))"
      by (rule safe_bind [OF ht_find_safe [OF post_good [OF s'] post_tables [OF s' ht]]])
        (use s' in \<open>auto intro!: safe_Inr simp: found_def\<close>)
  qed
qed (auto intro!: safe_Inr post_refl good simp: found_def)

lemma locate_safe:
  assumes good: "good k s" "1 \<le> k"
  shows "safeR (\<lambda>(x, s'). post k (next_addr (store s)) F s s' \<and> (\<forall>ht it. x = Some (ht, it) \<longrightarrow> found s' ht fd it))
    (locate e info fd m s)"
  unfolding locate_def
  apply (rule safe_bind [OF find_ht_safe [OF good(1), of F]])
  apply (rule safe_prod, rule safe_opt)
  subgoal by (auto intro: safe_Inr)
  subgoal premises prems for r x s1 ht
  proof -
    have s1: "post k (next_addr (store s)) F s s1" "tables (store s1) ht \<noteq> None" using prems by auto
    have n: "next_addr (store s) \<le> next_addr (store s1)" using s1(1) by (simp add: post_def keeps_def)
    show ?thesis
      by (rule safe_bind [OF get_fd_map_safe [OF post_good [OF s1(1)] good(2) s1(2), of F]])
        (use post_trans [OF s1(1) post_mono [OF _ n]] in \<open>auto intro!: safe_Inr split: option.splits\<close>)
  qed
  done

text \<open>The frame of a handler of a call on a descriptor.\<close>

lemma located:
  assumes good: "good k s" "1 \<le> k"
    and step: "\<And>ht it s1. good k s1 \<Longrightarrow> found s1 ht fd it \<Longrightarrow> post k (next_addr (store s)) F s s1 \<Longrightarrow>
      safeR (post k' (next_addr (store s)) F s1) (f (Some (ht, it), s1))"
    and none: "\<And>s1. good k s1 \<Longrightarrow> safeR (post k' (next_addr (store s)) F s1) (f (None, s1))"
  shows "safeR (post k' (next_addr (store s)) F s) (bindR (locate e info fd m s) f)"
proof (rule post_bind2 [OF locate_safe [OF good, of F fd]])
  fix x s1
  assume *: "post k (next_addr (store s)) F s s1" "\<forall>ht it. x = Some (ht, it) \<longrightarrow> found s1 ht fd it"
  show "safeR (post k' (next_addr (store s)) F s1) (f (x, s1))"
  proof (cases x)
    case None
    then show ?thesis using none post_good [OF *(1)] by simp
  next
    case (Some y)
    then show ?thesis using step [OF post_good [OF *(1)] _ *(1)] *(2) by (cases y) simp
  qed
qed

section \<open>Reading, writing and seeking\<close>

lemma transfer_safe:
  assumes "\<And>x. no_dangling (sm x)"
  shows "safeR (\<lambda>(r, s'). same_mem s s') (transfer e m r sm c s)"
  unfolding transfer_def Let_def
  by (cases "call64 e c s")
    (auto intro!: safe_if safe_Inr safe_Inl safe_bind [OF with_sim_safe [OF assms]] same_mem_refl dest: call64_same)

lemma same_mem_post_eq: "same_mem s s' \<Longrightarrow> post k n F s' = post k n F s"
  using same_mem_dview [of s s'] by (simp add: post_def fun_eq_iff same_mem_def)

lemma update_entry_safe:
  assumes "good k s" "(ht, it) \<in> heap_entries (store s)" "same_parents f"
  shows "safeR (post k n F s) (update_map it f s)"
proof -
  obtain m where "deref_item (store s) it = Inr m" "put_item it (f m) (store s) = Inr (set_map (fm_ptr it) (f m) (store s))"
    "heap_ok k (set_map (fm_ptr it) (f m) (store s))" "keeps n F (store s) (set_map (fm_ptr it) (f m) (store s))"
    using put_entry [OF good_heap [OF assms(1)] assms(2,3)] by blast
  then have "safeR (\<lambda>s'. post k n F s s' \<and> True) (update_map it f s)"
    unfolding update_map_def by (intro with_store_safe [OF assms(1)]) (simp add: safe_Inr)
  then show ?thesis by simp
qed

lemma same_parents_updates [simp]:
  "same_parents (\<lambda>fm. fm\<lparr>cur_pos := p fm\<rparr>)" "same_parents (\<lambda>fm. fm\<lparr>my_fd := r, fm_type := t\<rparr>)"
  "same_parents (\<lambda>fm. fm\<lparr>my_fd := r, fm_name := nm, fm_type := t\<rparr>)"
  "same_parents (\<lambda>fm. fm\<lparr>my_fd := r, fm_time_open := tm, fm_name := take l (fm_name fm), fm_type := t\<rparr>)"
  by (rule same_parentsI; simp)+

lemma transferred:
  assumes good: "good k s" "1 \<le> k" and it: "found s ht fd it" and sm: "\<And>fm x. no_dangling (sm fm x)"
    and f: "\<And>r s1. same_mem s s1 \<Longrightarrow> good k s1 \<Longrightarrow> (ht, it) \<in> heap_entries (store s1) \<Longrightarrow> safeR (post k n F s1) (f (r, s1))"
  shows "safeR (post k n F s) (bindR (deref_item (store s) it) (\<lambda>fm.
     if \<not> supported_type (fm_type fm) then Inr s else bindR (transfer e m r (sm fm) (c fm) s) f))"
proof (rule safe_bind0, rule deref_no_dangling [OF good(1)])
  show E: "(ht, it) \<in> heap_entries (store s)" using found_entry [OF good(1) it] by blast
  fix fm
  show "safeR (post k n F s) (if \<not> supported_type (fm_type fm) then Inr s else bindR (transfer e m r (sm fm) (c fm) s) f)"
  proof (rule safe_if, rule safe_Inr, rule post_refl, rule good(1), rule post_bind2 [where Q = "\<lambda>_ s'. same_mem s s'"])
    show "safeR (\<lambda>(v, s'). post k n F s s' \<and> same_mem s s') (transfer e m r (sm fm) (c fm) s)"
      using transfer_safe [OF sm] by (rule safe_weaken) (use same_mem_post [OF _ good(1)] in auto)
    fix v s1
    assume s1: "same_mem s s1" "post k n F s s1"
    have "(ht, it) \<in> heap_entries (store s1)" using E s1(1) by (simp add: same_mem_def)
    then show "safeR (post k n F s1) (f (v, s1))" using f [OF s1(1) post_good [OF s1(2)]] by blast
  qed
qed

lemma transfer_handlers_safe:
  assumes good: "good k s" "1 \<le> k"
  shows "safeR (post k (next_addr (store s)) F s) (replicate_read e o_read m s)"
    "safeR (post k (next_addr (store s)) F s) (replicate_write e o_write m s)"
    "safeR (post k (next_addr (store s)) F s) (replicate_pread e o_pread m s)"
    "safeR (post k (next_addr (store s)) F s) (replicate_pwrite e o_pwrite m s)"
  unfolding replicate_read_def replicate_write_def replicate_pread_def replicate_pwrite_def
  by (rule located [OF good]; simp only: prod.case option.case;
      auto intro!: transferred good(2) update_entry_safe no_dangling_intro safe_Inr post_refl)+

lemma seek_handlers_safe:
  assumes good: "good k s" "1 \<le> k"
  shows "safeR (post k (next_addr (store s)) F s) (replicate_lseek e o_lseek m s)"
    "safeR (post k (next_addr (store s)) F s) (replicate_llseek e o_llseek m s)"
proof -
  have step: "safeR (post k n F s1) (bindR (deref_item (store s1) it) (\<lambda>fm.
         if \<not> supported_type (fm_type fm) then Inr s1
         else (let (retval, s) = (if replicates m then call64 e (c fm) s1 else (r, s1)) in
           if retval = -1 \<and> retval \<noteq> r then Inr s
           else if simulates m then update_map it (\<lambda>fm. fm\<lparr>cur_pos := p retval\<rparr>) s
           else Inr s)))" if s1: "good k s1" "found s1 ht fd it" for s1 ht fd it n and c :: "fd_map \<Rightarrow> syscall" and r p
  proof (rule safe_bind0, rule deref_no_dangling [OF s1(1)])
    show E: "(ht, it) \<in> heap_entries (store s1)" using found_entry [OF s1] by blast
    have upd: "safeR (post k n F s1) (update_map it (\<lambda>fm. fm\<lparr>cur_pos := q\<rparr>) s2)" if "same_mem s1 s2" for q s2
    proof -
      have "good k s2" "(ht, it) \<in> heap_entries (store s2)"
        using s1(1) E that same_mem_good by (blast, simp add: same_mem_def)
      then show ?thesis
        unfolding same_mem_post_eq [OF that, symmetric] by (rule update_entry_safe) simp
    qed
    fix fm
    have "same_mem s1 s2" if "(if replicates m then call64 e (c fm) s1 else (r, s1)) = (v, s2)" for v s2
      using that by (auto split: if_splits intro: same_mem_refl dest: call64_same)
    then show "safeR (post k n F s1) (if \<not> supported_type (fm_type fm) then Inr s1
         else (let (retval, s) = (if replicates m then call64 e (c fm) s1 else (r, s1)) in
           if retval = -1 \<and> retval \<noteq> r then Inr s
           else if simulates m then update_map it (\<lambda>fm. fm\<lparr>cur_pos := p retval\<rparr>) s
           else Inr s))"
      unfolding Let_def
      by (intro safe_if safe_prod safe_Inr upd) (auto intro: post_refl s1(1) same_mem_post)
  qed
  show "safeR (post k (next_addr (store s)) F s) (replicate_lseek e o_lseek m s)"
    "safeR (post k (next_addr (store s)) F s) (replicate_llseek e o_llseek m s)"
    unfolding replicate_lseek_def replicate_llseek_def
    by (rule located [OF good]; simp only: prod.case option.case; (rule step | rule safe_Inr post_refl)+; assumption)+
qed

section \<open>Pipes, sockets and names\<close>

text \<open>A new item that is not the result of an open.\<close>

lemma enter_new_safe:
  assumes good: "good k s" "1 \<le> k" and ht: "tables (store s) ht \<noteq> None" and it: "pending (store s) it {}"
    and fd: "nonneg fd" and f: "same_parents f" and n: "n \<le> fi_addr it" "n \<le> fm_ptr it"
  shows "safeR (post k n F s) (bindR (update_map (it\<lparr>old_fd := fd\<rparr>) f s) (\<lambda>s.
      bindR (with_store (insert_parent_fd (it\<lparr>old_fd := fd\<rparr>) fd) s) (\<lambda>s.
      bindR (ht_insert ht key (it\<lparr>old_fd := fd\<rparr>) s) (\<lambda>s. use_fd u s))))"
proof (rule post_bind [OF update_pending_safe [OF good(1) _ f]])
  let ?it = "it\<lparr>old_fd := fd\<rparr>"
  show "pending (store s) ?it {}" "n \<le> fm_ptr ?it" using it n by simp_all
  fix s1
  assume s1: "post k n F s s1" "pending (store s1) ?it {}"
  have m1: "fd \<noteq> -1" using fd by auto
  show "safeR (post k n F s1) (bindR (with_store (insert_parent_fd ?it fd) s1) (\<lambda>s.
      bindR (ht_insert ht key ?it s) (\<lambda>s. use_fd u s)))"
  proof (rule post_bind [OF parent_pending_safe [OF post_good [OF s1(1)] s1(2) m1]])
    show "n \<le> fm_ptr ?it" using n by simp
    fix s2
    assume s2: "post k n F s1 s2" "pending (store s2) ?it {fd}"
    have ht2: "tables (store s2) ht \<noteq> None" using post_tables [OF s2(1) post_tables [OF s1(1) ht]] .
    have "safeR (post k n F s2) (ht_insert ht key ?it s2)"
      using post_good [OF s2(1)] good(2) ht2 by (rule ht_insert_pending_safe) (use s2(2) n fd in simp_all)
    then show "safeR (post k n F s2) (bindR (ht_insert ht key ?it s2) (\<lambda>s. use_fd u s))"
      using same_mem_safe [OF use_fd_safe post_good] by (intro post_bind [where Q = "\<lambda>_. True"]) auto
  qed
qed

lemma post_safe_trans: "safeR (post k' n F s1) r \<Longrightarrow> post k n F s s1 \<Longrightarrow> safeR (post k' n F s) r"
  by (erule safe_weaken) (rule post_trans)

lemma post_next: "post k n F s s' \<Longrightarrow> next_addr (store s) \<le> next_addr (store s')"
  by (simp add: post_def keeps_def)

lemma enter_pipe_safe:
  assumes good: "good k s" "1 \<le> k" and ht: "tables (store s) ht \<noteq> None" and fd: "nonneg fd" and n: "n \<le> next_addr (store s)"
  shows "safeR (post k n F s) (enter_pipe ht fd s)"
  unfolding enter_pipe_def Let_def
  apply (rule safe_prod, rule safe_prod)
  subgoal premises prems for it s1 myfd s2
  proof -
    have a: "post k (next_addr (store s)) F s s1" "pending (store s1) it {}" "next_addr (store s) \<le> fi_addr it"
      "next_addr (store s) \<le> fm_ptr it"
      using alloc_safe [OF good(1) prems(1)] by blast+
    have m: "same_mem s1 s2" using prems(2) by (rule get_fd_same)
    have p: "post k n F s s2"
      using post_trans [OF post_mono [OF a(1) n subset_refl] same_mem_post [OF m post_good [OF a(1)]]] .
    have "safeR (post k n F s2) (bindR (update_map (it\<lparr>old_fd := fd\<rparr>) (\<lambda>fm. fm\<lparr>my_fd := myfd, fm_type := S_IFIFO\<rparr>) s2) (\<lambda>s.
      bindR (with_store (insert_parent_fd (it\<lparr>old_fd := fd\<rparr>) fd) s) (\<lambda>s.
      bindR (ht_insert ht fd (it\<lparr>old_fd := fd\<rparr>) s) (\<lambda>s. use_fd fd s))))"
      using post_good [OF p] good(2) post_tables [OF p ht]
      by (rule enter_new_safe) (use a m n fd pending_same in auto)
    then show ?thesis using p by (rule post_safe_trans)
  qed
  done

lemma replicate_pipe_safe:
  assumes good: "good k s" "1 \<le> k"
  shows "safeR (post k (next_addr (store s)) F s) (replicate_pipe o_pipe s)"
  unfolding replicate_pipe_def
  apply (rule safe_if, rule safe_Inr, rule post_refl, rule good(1))
  apply (rule post_bind2 [OF find_ht_safe [OF good(1)]])
  apply (unfold prod.case)
  apply (rule safe_opt)
  subgoal by (auto intro: safe_Inr post_refl post_good)
  subgoal premises prems for x s1 ht
  proof -
    have s1: "post k (next_addr (store s)) F s s1" "good k s1" "tables (store s1) ht \<noteq> None"
      using prems post_good by auto
    show ?thesis
      apply (rule safe_bind [OF ht_find_safe [OF s1(2,3)]])
      apply (rule safe_if, rule safe_Inr, rule post_refl, rule s1(2))
      apply (rule safe_bind [OF ht_find_safe [OF s1(2,3)]])
      apply (rule safe_if, rule safe_Inr, rule post_refl, rule s1(2))
      apply (rule post_bind [where Q = "\<lambda>_. True"])
       apply (rule safe_weaken [OF enter_pipe_safe [OF s1(2) good(2) s1(3)]])
         apply (simp_all add: post_next [OF s1(1)])
      apply (rule enter_pipe_safe [OF post_good good(2) post_tables [OF _ s1(3)]])
         apply assumption+
       apply simp
      using post_next [OF s1(1)] post_next by fastforce
  qed
  done

lemma replicate_socket_safe:
  assumes good: "good k s" "1 \<le> k"
  shows "safeR (post k (next_addr (store s)) F s) (replicate_socket o_socket s)"
  unfolding replicate_socket_def Let_def
  apply (rule safe_if, rule safe_Inr, rule post_refl, rule good(1))
  apply (rule post_bind2 [OF find_ht_safe [OF good(1)]])
  apply (unfold prod.case)
  apply (rule safe_opt)
  subgoal by (auto intro: safe_Inr post_refl post_good)
  subgoal premises prems for x s0 ht
  proof -
    have s0: "post k (next_addr (store s)) F s s0" "good k s0" "tables (store s0) ht \<noteq> None"
      using prems post_good by auto
    show ?thesis
      apply (rule safe_bind [OF ht_find_safe [OF s0(2,3)]])
      apply (rule safe_if, rule safe_Inr, rule post_refl, rule s0(2))
      apply (rule safe_prod, rule safe_prod)
      subgoal premises prems for found it s1 retval s2
      proof -
        have fd: "nonneg (socket_retval o_socket)" using prems by blast
        have a: "post k (next_addr (store s0)) F s0 s1" "pending (store s1) it {}" "next_addr (store s0) \<le> fi_addr it"
          "next_addr (store s0) \<le> fm_ptr it"
          using alloc_safe [OF s0(2) prems(4)] by blast+
        have m: "same_mem s1 s2" using prems(5) by (rule get_fd_same)
        have p: "post k (next_addr (store s)) F s0 s2"
          using post_trans [OF post_mono [OF a(1) post_next [OF s0(1)] subset_refl] same_mem_post [OF m post_good [OF a(1)]]] .
        show ?thesis
          by (rule post_safe_trans [OF enter_new_safe [OF post_good [OF p] good(2) post_tables [OF p s0(3)]] p])
            (use a m fd post_next [OF s0(1)] pending_same in auto)
      qed
      done
  qed
  done

lemma name_handlers_safe:
  assumes good: "good k s"
  shows "safeR (post k n F s) (replicate_unlink e o_unlink m s)"
    "safeR (post k n F s) (replicate_mkdir e o_mkdir m s)" "safeR (post k n F s) (replicate_rmdir e o_rmdir m s)"
    "safeR (post k n F s) (replicate_access e o_access m s)" "safeR (post k n F s) (replicate_stat e o_stat m s)"
proof -
  have step: "safeR (post k n F s) (replicate_name e nm m c sm s)" if "\<And>dk n x. no_dangling (sm dk n x)" for nm c sm
    unfolding replicate_name_def
    by (rule safe_bind0 [OF map_name_no_dangling], intro safe_opt safe_if safe_Inr same_mem_safe [OF with_sim_safe]
        same_mem_post call32_snd_same post_refl good that)
  show "safeR (post k n F s) (replicate_unlink e o_unlink m s)"
    "safeR (post k n F s) (replicate_mkdir e o_mkdir m s)" "safeR (post k n F s) (replicate_rmdir e o_rmdir m s)"
    "safeR (post k n F s) (replicate_access e o_access m s)" "safeR (post k n F s) (replicate_stat e o_stat m s)"
    unfolding replicate_unlink_def replicate_mkdir_def replicate_rmdir_def replicate_access_def replicate_stat_def
    by (rule step; rule no_dangling_intro)+
qed

section \<open>sendfile\<close>

lemma do_sendfile_safe: "safeR (\<lambda>(r, off, s'). same_mem s s') (do_sendfile e m fi fo o_p s)"
proof -
  have "safeR (same_mem s) (if b then with_sim (simulate_sendfile dk i o' o_p) s else Inr s)" for b dk i o'
    by (intro safe_if with_sim_safe safe_Inr same_mem_refl no_dangling_intro)
  then have sim: "safeR (\<lambda>(r, off, s'). same_mem s s')
      (bindR (if b then with_sim (simulate_sendfile dk i o' o_p) s else Inr s) (\<lambda>s. Inr (r, off, s)))" for b dk i o' r off
    by (rule safe_bind) (simp add: safe_Inr)
  show ?thesis
    unfolding do_sendfile_def Let_def
    by (intro safe_if safe_prod safe_Inr sim) (auto intro: same_mem_update same_mem_refl dest: call64_same)
qed

lemma sendfile_positions_safe:
  assumes "good k s" "(ht, it_in) \<in> heap_entries (store s)" "(ht, it_out) \<in> heap_entries (store s)"
  shows "safeR (post k n {} s) (sendfile_positions it_in it_out o_p r off s)"
  unfolding sendfile_positions_def
proof (rule safe_if, rule safe_Inr, rule post_refl, rule assms(1), rule post_bind [where Q = "\<lambda>_. True" and k = k])
  have "safeR (post k n {} s) (if off = OFFSET_INVAL then
           update_map it_in (\<lambda>fm. fm\<lparr>cur_pos := cur_pos fm +
             (if r \<noteq> sendfile_retval o_p then r else sendfile_size o_p)\<rparr>) s
         else Inr s)"
    using assms(1,2) by (intro safe_if safe_Inr post_refl update_entry_safe) simp_all
  then show "safeR (\<lambda>s'. post k n {} s s' \<and> True) (if off = OFFSET_INVAL then
           update_map it_in (\<lambda>fm. fm\<lparr>cur_pos := cur_pos fm +
             (if r \<noteq> sendfile_retval o_p then r else sendfile_size o_p)\<rparr>) s
         else Inr s)" by simp
  fix s'
  assume p: "post k n {} s s'"
  have "(ht, it_out) \<in> heap_entries (store s')" using entry_keeps [OF p assms(3)] by simp
  then show "safeR (post k n {} s') (update_map it_out (\<lambda>fm. fm\<lparr>cur_pos := cur_pos fm + r\<rparr>) s')"
    using post_good [OF p] by (intro update_entry_safe) simp_all
qed

lemma replicate_sendfile_safe:
  assumes good: "good k s" "1 \<le> k"
  shows "safeR (post k (next_addr (store s)) {} s) (replicate_sendfile e o_send m s)"
  unfolding replicate_sendfile_def
  apply (rule located [OF good]; simp only: prod.case option.case)
   defer
   apply (rule safe_Inr, rule post_refl, assumption)
  subgoal premises prems for ht it_out s1
  proof -
    have out: "(ht, it_out) \<in> heap_entries (store s1)" "tables (store s1) ht \<noteq> None"
      using found_entry [OF prems(1,2)] by auto
    have n: "next_addr (store s) \<le> next_addr (store s1)" using prems(3) by (rule post_next)
    have get: "safeR (\<lambda>(x, s'). post k (next_addr (store s)) {} s1 s' \<and> (\<forall>it. x = Some it \<longrightarrow> found s' ht (sendfile_in_fd o_send) it))
        (replicate_get_fd_map e ht (sendfile_in_fd o_send) (sendfile_info o_send) m s1)"
      using get_fd_map_safe [OF prems(1) good(2) out(2), of "{}"]
      by (rule safe_weaken) (use n post_mono in blast)
    show ?thesis
      apply (rule post_bind2 [OF get])
      apply (simp only: prod.case)
      apply (rule safe_opt)
      subgoal by (auto intro: safe_Inr post_refl post_good)
      subgoal premises p2 for x s2 it_in
      proof -
        have g2: "good k s2" using p2(1) by (rule post_good)
        have E: "(ht, it_in) \<in> heap_entries (store s2)" "(ht, it_out) \<in> heap_entries (store s2)"
          using found_entry [OF g2] p2 entry_keeps [OF p2(1) out(1)] by auto
        show ?thesis
          apply (rule safe_bind0 [OF deref_no_dangling [OF g2 E(2)]])
          apply (rule safe_bind0 [OF deref_no_dangling [OF g2 E(1)]])
          apply (rule safe_if, rule safe_Inr, rule post_refl, rule g2)
          apply (rule safe_bind [OF do_sendfile_safe])
          apply (rule safe_prod, rule safe_prod)
          subgoal premises p3 for fmo fmi r a b off s3
          proof -
            have m: "same_mem s2 s3" using p3 by auto
            have "good k s3" "(ht, it_in) \<in> heap_entries (store s3)" "(ht, it_out) \<in> heap_entries (store s3)"
              using same_mem_good [OF m] g2 E m by (blast, simp_all add: same_mem_def)
            then show ?thesis
              unfolding same_mem_post_eq [OF m, symmetric] by (rule sendfile_positions_safe)
          qed
          done
      qed
      done
  qed
  done

section \<open>Closing and duplicating\<close>

lemma close_tail:
  "bindR (delete_parent_fd it fd (store s)) (\<lambda>(last_parent, st).
     bindR (ht_remove ht fd (s\<lparr>store := st\<rparr>)) (\<lambda>s.
     if last_parent then with_store (free_map (fm_ptr it)) s else Inr s)) =
   bindR (close_item ht fd it (store s)) (\<lambda>st. Inr (s\<lparr>store := st\<rparr>))"
proof (cases "delete_parent_fd it fd (store s)")
  case (Inr r)
  obtain last st where r: "r = (last, st)" by (rule prod.exhaust)
  show ?thesis
  proof (cases "bindR (get_table st ht) (hash_table_remove ht_ops_fditem fd)")
    case (Inl err)
    then show ?thesis
      using \<open>delete_parent_fd it fd (store s) = Inr r\<close> r
      by (cases "get_table st ht") (auto simp: ht_remove_def with_store_def close_item_def)
  next
    case (Inr x)
    then show ?thesis
      using \<open>delete_parent_fd it fd (store s) = Inr r\<close> r
      by (cases "get_table st ht"; cases x)
        (auto simp: ht_remove_def with_store_def close_item_def bindR_assoc split: option.splits)
  qed
qed (simp add: close_item_def)

lemma drop_user_safe: "safeR (\<lambda>(r, s'). same_mem s s') (drop_user e fm m s)"
  unfolding drop_user_def Let_def
proof (intro safe_if safe_Inr safe_bind0 [OF decrease_no_dangling] safe_prod)
  fix last u
  obtain r s' where c: "call32 e (Sys_close (my_fd fm)) (s\<lparr>usage_map := u\<rparr>) = (r, s')" by (rule prod.exhaust)
  have "same_mem (s\<lparr>usage_map := u\<rparr>) s'" using c by (rule call32_same)
  then show "case call32 e (Sys_close (my_fd fm)) (s\<lparr>usage_map := u\<rparr>) of (r, s') \<Rightarrow> same_mem s s'"
    unfolding c by (simp add: same_mem_def)
qed (auto simp: same_mem_def)

lemma replicate_close_safe:
  assumes good: "good k s" "1 \<le> k"
  shows "safeR (post k (next_addr (store s)) {close_fd o_p} s) (replicate_close e o_p m s)"
  unfolding replicate_close_def
  apply (rule located [OF good]; simp only: prod.case option.case)
   defer
   apply (rule safe_Inr, rule post_refl, assumption)
  subgoal premises prems for ht it s1
  proof -
    have E: "(ht, it) \<in> heap_entries (store s1)" using found_entry [OF prems(1,2)] by blast
    show ?thesis
      apply (rule safe_bind0 [OF deref_no_dangling [OF prems(1) E]])
      apply (rule safe_bind [OF drop_user_safe])
      apply (rule safe_prod)
      subgoal premises p2 for fm r v s2
      proof -
        have m: "same_mem s1 s2" using p2 by auto
        have g2: "good k s2" and f2: "found s2 ht (close_fd o_p) it"
          using same_mem_good [OF m] found_same [OF m] prems by auto
        obtain t where t: "tables (store s2) ht = Some t" "fdt.table_map t (close_fd o_p) = Some it"
          using f2 by (auto simp: found_def)
        obtain st where st: "close_item ht (close_fd o_p) it (store s2) = Inr st" "heap_ok k st"
          "keeps (next_addr (store s)) {close_fd o_p} (store s2) st"
          using close_item_ok [OF good_heap [OF g2] t] by blast
        have "post k (next_addr (store s)) {close_fd o_p} s2 (s2\<lparr>store := st\<rparr>)"
          using g2 st(2,3) by (rule good_store)
        then show ?thesis
          unfolding close_tail st(1) bindR.simps same_mem_post_eq [OF m, symmetric]
          by (intro safe_if safe_Inr post_refl g2)
      qed
      done
  qed
  done

text \<open>What is known of a state that was reached from another one: only descriptors of \<open>F\<close> were closed.\<close>

definition reached :: "nat \<Rightarrow> i32 set \<Rightarrow> 'w rep \<Rightarrow> 'w rep \<Rightarrow> bool" where
  "reached k F s s' \<longleftrightarrow> good k s' \<and> desc_steps F (dview s) (dview s')"

lemma post_reached: "post k n F s s' \<Longrightarrow> reached k F s s'"
  by (simp add: post_def reached_def)

text \<open>
  \<open>dup\<close> onto another number needs room for one more parent. Closing the new number first cannot
  free the map, which keeps the old number as a parent.
\<close>

lemma replicate_dup_safe:
  assumes good: "good k s" "1 \<le> k" and room: "k < MAX_PARENT_IDS"
    and fds: "dup_retval o_p \<noteq> dup_old_fd o_p \<or> dup_retval o_p = -1"
  shows "safeR (reached (Suc k) {dup_retval o_p} s) (replicate_dup e o_p m s)"
proof (cases "dup_retval o_p = -1")
  case True
  have "good (Suc k) s" using good heap_ok_mono by (auto simp: good_def)
  with True show ?thesis by (simp add: replicate_dup_def safe_Inr reached_def)
next
  case new: False
  let ?new = "dup_retval o_p"
  have up: "good (Suc k) s'" if "good k s'" for s' :: "'a rep" using that heap_ok_mono by (auto simp: good_def)
  have "safeR (post (Suc k) 0 {?new} s) (replicate_dup e o_p m s)"
    unfolding replicate_dup_def Let_def
    apply (simp only: new if_False)
    apply (rule safe_weaken [OF located [OF good, where F = "{?new}" and k' = "Suc k"]]; (simp only: prod.case option.case)?)
      defer
      apply (rule safe_Inr, rule post_refl, rule up, assumption)
     apply (erule post_mono; simp)
    apply (rule safe_prod)
    subgoal premises prems for ht it s1 it_new s2
    proof -
      let ?n = "next_addr (store s)"
      have E1: "(ht, it) \<in> heap_entries (store s1)" "old_fd it = dup_old_fd o_p" "tables (store s1) ht \<noteq> None"
        using found_entry [OF prems(1,2)] by auto
      have a: "post k (next_addr (store s1)) {} s1 s2" "pending (store s2) it_new {}"
        "next_addr (store s1) \<le> fi_addr it_new" "next_addr (store s1) \<le> fm_ptr it_new"
        using alloc_safe [OF prems(1,4)] by blast+
      obtain st3 where st3: "free_map (fm_ptr it_new) (store s2) = Inr st3" "heap_ok k st3"
        "keeps (next_addr (store s1)) {} (store s2) st3" "spare st3 (fi_addr it_new)"
        using free_pending_map [OF good_heap [OF post_good [OF a(1)]] a(2,4)] by blast
      let ?s3 = "s2\<lparr>store := st3\<rparr>"
      have p3: "post k (next_addr (store s1)) {} s1 ?s3"
        using post_trans [OF a(1) good_store [OF post_good [OF a(1)] st3(2,3)]] .
      note g3 = post_good [OF p3]
      have n3: "next_addr (store s1) \<le> next_addr (store ?s3)" using p3 by (rule post_next)
      have new_lt: "fi_addr it_new < next_addr (store ?s3)"
        using st3(2,4) fresh_bounds(1) by (auto simp: heap_ok_def spare_def)
      have ht3: "tables (store ?s3) ht \<noteq> None" using post_tables [OF p3 E1(3)] .
      have E3: "(ht, it) \<in> heap_entries (store ?s3)" using entry_keeps [OF p3 E1(1)] by simp
      have run3: "with_store (free_map (fm_ptr it_new)) s2 = Inr ?s3" using st3(1) by (simp add: with_store_def)
      let ?close = "\<lambda>found. if found \<noteq> None then
                 replicate_close e \<lparr>close_fd = ?new, close_retval = 0,
                   close_info = \<lparr>pid = pid (dup_info o_p), dur = 0, start = junk_start e\<rparr>\<rparr> m ?s3
               else Inr ?s3"
      have close: "safeR (post k (next_addr (store ?s3)) {?new} ?s3) (?close found)" for found :: "fd_item option"
        using replicate_close_safe [OF g3 good(2), of "\<lparr>close_fd = ?new, close_retval = 0,
            close_info = \<lparr>pid = pid (dup_info o_p), dur = 0, start = junk_start e\<rparr>\<rparr>"]
        by (auto intro!: safe_Inr post_refl g3)
      let ?it = "it_new\<lparr>old_fd := ?new, fm_ptr := fm_ptr it\<rparr>"
      have fin: "safeR (post (Suc k) ?n {?new} s4) (bindR (with_store (insert_parent_fd it ?new) s4) (\<lambda>s.
             bindR (ht_insert ht ?new ?it s) (\<lambda>s.
             bindR (deref_item (store s) ?it) (\<lambda>fm. use_fd (my_fd fm) s))))"
        if s4: "post k (next_addr (store ?s3)) {?new} ?s3 s4" for s4
      proof (rule post_bind [OF with_store_safe [OF post_good [OF s4]]])
        have E4: "(ht, it) \<in> heap_entries (store s4)" using entry_keeps [OF s4 E3] E1(2) fds new by auto
        have sp4: "spare (store s4) (fi_addr it_new)" using s4 new_lt st3(4) by (simp add: post_def keeps_def)
        have ht4: "tables (store s4) ht \<noteq> None" using post_tables [OF s4 ht3] .
        let ?Q = "\<lambda>st'. tables st' = tables (store s4) \<and> fd_live st' = fd_live (store s4) \<and>
          (\<exists>m. fd_maps st' (fm_ptr it) = Some m \<and> good_map (Suc k) m ?new) \<and>
          (\<forall>p\<in>heap_entries (store s4). fm_ptr (snd p) = fm_ptr it \<longrightarrow> old_fd (snd p) \<noteq> ?new)"
        show "safeR (\<lambda>st'. heap_ok (Suc k) st' \<and> keeps ?n {?new} (store s4) st' \<and> ?Q st')
            (insert_parent_fd it ?new (store s4))"
          using insert_parent_entry [OF good_heap [OF post_good [OF s4]] E4 new room, of ?n "{?new}"] by simp
        fix s5
        assume p5: "post (Suc k) ?n {?new} s4 s5" and q5: "?Q (store s5)"
        have E5: "heap_entries (store s5) = heap_entries (store s4)" using q5 by (intro heap_entries_same) blast
        have sp5: "spare (store s5) (fi_addr it_new)" using sp4 q5 E5 by (simp add: spare_def)
        have it5: "good_item (Suc k) (store s5) ?it" using sp5 q5 by (simp add: good_item_def spare_def)
        have n5: "?n \<le> fi_addr ?it" using post_next [OF prems(3)] a(3) by simp
        have "\<forall>p\<in>heap_entries (store s5). fi_addr (snd p) \<noteq> fi_addr ?it \<and> (fm_ptr (snd p) = fm_ptr ?it \<longrightarrow> old_fd (snd p) \<noteq> old_fd ?it)"
          using sp5 q5 E5 by (simp add: spare_def)
        moreover have "\<forall>P. \<not> own_map (store s5) (fm_ptr ?it) P"
          using entry_not_own [of "(ht, it)"] E4 E5 by simp
        moreover have "tables (store s5) ht \<noteq> None" using ht4 q5 by simp
        ultimately have ins: "safeR (\<lambda>s'. post (Suc k) ?n {?new} s5 s' \<and> (ht, ?it) \<in> heap_entries (store s')) (ht_insert ht ?new ?it s5)"
          using post_good [OF p5] it5 n5 E4 E5 by (intro ht_insert_safe) auto
        show "safeR (post (Suc k) ?n {?new} s5) (bindR (ht_insert ht ?new ?it s5) (\<lambda>s.
             bindR (deref_item (store s) ?it) (\<lambda>fm. use_fd (my_fd fm) s)))"
          by (rule post_bind [OF ins], rule safe_bind0 [OF deref_no_dangling [OF post_good]])
            (auto intro!: same_mem_safe [OF use_fd_safe] post_good)
      qed
      show ?thesis
        unfolding run3 bindR.simps
      proof (rule safe_bind [OF ht_find_safe [OF g3 ht3]], rule safe_bind [OF close])
        fix found s4
        assume s4: "post k (next_addr (store ?s3)) {?new} ?s3 s4"
        have "post k ?n {?new} s1 s4"
          using post_trans [OF post_mono [OF p3 post_next [OF prems(3)] empty_subsetI] post_mono [OF s4 _ subset_refl]]
            n3 post_next [OF prems(3)] by simp
        with fin [OF s4] show "safeR (post (Suc k) ?n {?new} s1) (bindR (with_store (insert_parent_fd it ?new) s4) (\<lambda>s.
             bindR (ht_insert ht ?new ?it s) (\<lambda>s.
             bindR (deref_item (store s) ?it) (\<lambda>fm. use_fd (my_fd fm) s))))"
          by (rule post_safe_trans)
      qed
    qed
    done
  then show ?thesis by (rule safe_weaken) (rule post_reached)
qed

section \<open>The initialization\<close>

lemma load_mappings_no_dangling [no_dangling_intro]: "no_dangling (load_mappings f nm)"
proof (induction f nm rule: load_mappings.induct)
  case (1 fl nm)
  show ?case
  proof (cases "fl = []")
    case True
    then show ?thesis by (subst load_mappings.simps) simp
  next
    case False
    obtain line rest where l: "fgets (2 * MAX_STRING + 2) fl = (line, rest)" by (rule prod.exhaust)
    note IH = 1(1) [OF False l [symmetric] refl] 1(2) [OF False l [symmetric] refl]
    have "no_dangling (if take 1 line = ''#'' then load_mappings rest nm
        else (case cut_newline line of
            None \<Rightarrow> Inr (False, nm)
          | Some line \<Rightarrow>
              (case namemap_load_items line MAX_STRING of
                 None \<Rightarrow> Inr (False, nm)
               | Some (o_name, n_name) \<Rightarrow>
                   bindR (hash_table_insert ht_ops_namemap o_name
                            \<lparr>old_name = o_name, new_name = n_name\<rparr> (ht_map nm)) (\<lambda>t.
                   load_mappings rest (nm\<lparr>ht_map := t\<rparr>)))))"
      using IH by (auto intro!: no_dangling_bind [OF str_hash_no_dangling(5)] split: option.split)
    then show ?thesis by (subst load_mappings.simps) (use False l in simp)
  qed
qed

lemma namemap_init_no_dangling [no_dangling_intro]: "no_dangling (namemap_init f i m)"
  unfolding namemap_init_def Let_def
  by (rule no_dangling_intro no_dangling_steps no_dangling_bind)+

lemma heap_ok_new_process:
  assumes ok: "heap_ok k st" and new: "new_process_ht p st = (h_it, st')"
  shows "heap_ok k st' \<and> p_pid h_it = p \<and> p_ht h_it = Some (next_addr st) \<and>
    tables st' = (tables st)(next_addr st \<mapsto> hash_table_init HASH_TABLE_SIZE) \<and> heap_entries st' = heap_entries st"
proof -
  let ?s = "st\<lparr>next_addr := Suc (next_addr st)\<rparr>"
  let ?t = "hash_table_init HASH_TABLE_SIZE :: fd_item hash_table"
  have h: "h_it = \<lparr>p_pid = p, p_ht = Some (next_addr st)\<rparr>" "st' = set_table (next_addr st) ?t ?s"
    using new by (auto simp: new_process_ht_def Let_def set_table_def)
  have fresh: "store_fresh st" using ok by (simp add: heap_ok_def)
  have "old_same st ?s" "store_fresh ?s" using fresh by (auto simp: old_same_def store_fresh_def)
  then have ok': "heap_ok k ?s" using old_same_heap_ok [OF ok] by blast
  have items: "ht_items ?t = []" by (simp add: ht_items_def hash_table_init_def)
  have E: "heap_entries (set_table (next_addr st) ?t ?s) = heap_entries ?s"
    using fresh items by (auto simp: heap_entries_def set_table_def store_fresh_def split: if_splits)
  have "heap_ok k (set_table (next_addr st) ?t ?s)"
    using ok' by (rule new_table [THEN conjunct1])
      (use fresh ok' items in \<open>auto simp: fdt.init_inv HASH_TABLE_SIZE_def store_fresh_def heap_ok_def binds_of_entries [OF E, unfolded HASH_TABLE_SIZE_def]\<close>)
  moreover have "heap_entries ?s = heap_entries st" by (simp add: heap_entries_def)
  ultimately show ?thesis using h E by (simp add: set_table_def)
qed

lemma enter_std_safe:
  assumes good: "good k s" "1 \<le> k" and ht: "tables (store s) ht \<noteq> None" and fd: "nonneg fd"
  shows "safeR (post k 0 {} s) (enter_std ht fd nm key s)"
  unfolding enter_std_def Let_def
  apply (rule safe_prod)
  subgoal premises alloc for it s1
  proof -
    have a: "post k (next_addr (store s)) {} s s1" "pending (store s1) it {}"
      using alloc_safe [OF good(1) alloc] by blast+
    have p: "post k 0 {} s s1" using a(1) by (rule post_mono) simp_all
    show ?thesis
      by (rule post_safe_trans [OF enter_new_safe [OF post_good [OF p] good(2) post_tables [OF p ht]] p])
        (use a fd in \<open>auto intro: same_parentsI\<close>)
  qed
  done

text \<open>The machine starts with one process, that of the first item, and its table.\<close>

definition starts :: "'w rep \<Rightarrow> i32 \<Rightarrow> dstate \<Rightarrow> bool" where
  "starts s p d \<longleftrightarrow> (\<exists>t. d = \<lparr>procs = [p \<mapsto> t], lost = {}, binds = binds_of (store s)\<rparr>)"

definition initialized :: "'w rep \<Rightarrow> i32 \<Rightarrow> 'w rep \<Rightarrow> bool" where
  "initialized s p s' \<longleftrightarrow> good 1 s' \<and> (\<exists>d. starts s p d \<and> desc_steps {} d (dview s'))"

lemma initialized_good: "initialized s p s' \<Longrightarrow> good 1 s'"
  by (simp add: initialized_def)

lemma initialized_post: "initialized s p s1 \<Longrightarrow> post 1 n {} s1 s2 \<Longrightarrow> initialized s p s2"
  unfolding initialized_def post_def by (meson rtranclp_trans)

lemma replicate_init_safe:
  assumes ok: "heap_ok 1 (store s)"
  shows "safeR (\<lambda>(rv, s'). rv = 0 \<longrightarrow> initialized s p s') (replicate_init e p ifile mfile s)"
  unfolding replicate_init_def Let_def
  apply (rule safe_bind0 [OF namemap_init_no_dangling], rule safe_prod, rule safe_if, rule safe_Inr, simp)
  apply (rule safe_prod)
  apply (rule safe_bind0 [OF prc_insert_no_dangling])
  subgoal premises prems for x rv nm h_it st t
  proof -
    let ?s = "s\<lparr>names := nm, fd_mappings := t, usage_map := hash_table_init HASH_TABLE_SIZE, store := st, global_parent_pid := p\<rparr>"
    have "new_process_ht p (store s) = (h_it, st)" using prems by simp
    from heap_ok_new_process [OF ok this]
    have h: "heap_ok 1 st" "p_pid h_it = p" "p_ht h_it = Some (next_addr (store s))" "tables st (next_addr (store s)) \<noteq> None"
      "heap_entries st = heap_entries (store s)"
      by simp_all
    have t: "prc.table_inv t" "set (ht_items t) = {h_it}" "prc.table_map t = [p \<mapsto> h_it]"
      using prc_insert [OF _ h(2), of "hash_table_init HASH_TABLE_SIZE" t] prems(5)
      by (auto simp: prc.init_inv prc.init_map HASH_TABLE_SIZE_def) (auto simp: ht_items_def hash_table_init_def)
    then have "good 1 ?s" using h by (simp add: good_def)
    moreover have "dview ?s = \<lparr>procs = [p \<mapsto> next_addr (store s)], lost = {}, binds = binds_of (store s)\<rparr>"
      using t(3) h(3) binds_of_entries [OF h(5)] by (auto simp: dview_def fun_eq_iff)
    ultimately have g: "initialized s p ?s" by (auto simp: initialized_def starts_def)
    have ht: "tables (store ?s) (the (p_ht h_it)) \<noteq> None" using h by simp
    have dev: "safeR (\<lambda>(rv, s'). rv = 0 \<longrightarrow> initialized s p s')
      (case call32 e (Sys_open ''/dev/null'' O_WRONLY None) s0 of (fd, s) \<Rightarrow>
        if fd = -1 then Inr (-1, s\<lparr>global_devnull_fd := fd\<rparr>)
        else (case call32 e (Sys_open ''/dev/zero'' 0 None) (s\<lparr>global_devnull_fd := fd\<rparr>) of (fd, s) \<Rightarrow>
          Inr (0 :: i32, s\<lparr>global_devzero_fd := fd\<rparr>)))" if "initialized s p s0" for s0
      using that by (auto intro!: safe_prod safe_if safe_Inr dest!: call32_same simp: same_mem_def good_def initialized_def dview_def)
    have step: "safeR (\<lambda>(rv, s'). rv = 0 \<longrightarrow> initialized s p s') (bindR (enter_std (the (p_ht h_it)) fd nm key s0) f)"
      if "initialized s p s0" "tables (store s0) (the (p_ht h_it)) \<noteq> None" "nonneg fd"
        "\<And>s1. initialized s p s1 \<Longrightarrow> tables (store s1) (the (p_ht h_it)) \<noteq> None \<Longrightarrow> safeR (\<lambda>(rv, s'). rv = 0 \<longrightarrow> initialized s p s') (f s1)"
      for s0 fd nm key f
      by (rule safe_bind [OF enter_std_safe [OF initialized_good [OF that(1)] _ that(2,3)]])
        (simp, rule that(4) [OF initialized_post [OF that(1)] post_tables [OF _ that(2)]])
    show ?thesis using g ht by (intro step dev) simp_all
  qed
  done

section \<open>The whole replay\<close>

definition is_dup :: "op_item \<Rightarrow> bool" where
  "is_dup it \<longleftrightarrow> type it = OP_DUP \<or> type it = OP_DUP2 \<or> type it = OP_DUP3"

text \<open>A duplication onto another number, or one that failed.\<close>

definition dup_moves :: "op_item \<Rightarrow> bool" where
  "dup_moves it \<longleftrightarrow> (case body it of S_dup d \<Rightarrow> dup_retval d \<noteq> dup_old_fd d \<or> dup_retval d = -1 | _ \<Rightarrow> True)"

lemma as_no_dangling:
  "no_dangling (as_read it)" "no_dangling (as_write it)" "no_dangling (as_pread it)" "no_dangling (as_pwrite it)"
  "no_dangling (as_pipe it)" "no_dangling (as_mkdir it)" "no_dangling (as_rmdir it)" "no_dangling (as_clone it)"
  "no_dangling (as_dup it)" "no_dangling (as_open it)" "no_dangling (as_close it)" "no_dangling (as_unlink it)"
  "no_dangling (as_llseek it)" "no_dangling (as_lseek it)" "no_dangling (as_access it)" "no_dangling (as_stat it)"
  "no_dangling (as_socket it)" "no_dangling (as_sendfile it)"
  by (cases "body it"; simp add: as_defs)+

lemma minus_one: "(-1 :: i32) \<noteq> 0"
  by simp

lemma good_mono: "good k s \<Longrightarrow> k \<le> k' \<Longrightarrow> good k' s"
  using heap_ok_mono by (auto simp: good_def)

text \<open>The descriptors that an item may close: \<open>dup2\<close> closes its target.\<close>

definition closes :: "op_item \<Rightarrow> i32 set" where
  "closes it = (case body it of S_close c \<Rightarrow> {close_fd c} | S_dup d \<Rightarrow> {dup_retval d} | _ \<Rightarrow> {})"

definition item_pid :: "op_item \<Rightarrow> i32" where
  "item_pid it = pid (op_info_of (body it))"

lemma item_info:
  "as_read it = Inr x1 \<Longrightarrow> pid (read_info x1) = item_pid it" "as_write it = Inr x2 \<Longrightarrow> pid (write_info x2) = item_pid it"
  "as_pread it = Inr x3 \<Longrightarrow> pid (pread_info x3) = item_pid it" "as_pwrite it = Inr x4 \<Longrightarrow> pid (pwrite_info x4) = item_pid it"
  "as_pipe it = Inr x5 \<Longrightarrow> pid (pipe_info x5) = item_pid it" "as_mkdir it = Inr x6 \<Longrightarrow> pid (mkdir_info x6) = item_pid it"
  "as_rmdir it = Inr x7 \<Longrightarrow> pid (rmdir_info x7) = item_pid it" "as_clone it = Inr x8 \<Longrightarrow> pid (clone_info x8) = item_pid it"
  "as_dup it = Inr x9 \<Longrightarrow> pid (dup_info x9) = item_pid it" "as_open it = Inr x10 \<Longrightarrow> pid (open_info x10) = item_pid it"
  "as_close it = Inr x11 \<Longrightarrow> pid (close_info x11) = item_pid it" "as_unlink it = Inr x12 \<Longrightarrow> pid (unlink_info x12) = item_pid it"
  "as_llseek it = Inr x13 \<Longrightarrow> pid (llseek_info x13) = item_pid it" "as_lseek it = Inr x14 \<Longrightarrow> pid (lseek_info x14) = item_pid it"
  "as_access it = Inr x15 \<Longrightarrow> pid (access_info x15) = item_pid it" "as_stat it = Inr x16 \<Longrightarrow> pid (stat_info x16) = item_pid it"
  "as_socket it = Inr x17 \<Longrightarrow> pid (socket_info x17) = item_pid it" "as_sendfile it = Inr x18 \<Longrightarrow> pid (sendfile_info x18) = item_pid it"
  by (cases "body it"; simp add: as_defs item_pid_def)+

text \<open>The machine's state after an item or a list of items: the first item also starts it.\<close>

definition moved :: "bool \<Rightarrow> i32 set \<Rightarrow> i32 \<Rightarrow> 'w rep \<Rightarrow> 'w rep \<Rightarrow> bool" where
  "moved first F p s s' \<longleftrightarrow> (\<exists>d. (if first then starts s p d else d = dview s) \<and> desc_steps F d (dview s'))"

lemma moved_trans:
  assumes "moved first F p s s1" "desc_steps F' (dview s1) (dview s2)" "F \<subseteq> G" "F' \<subseteq> G"
  shows "moved first G p s s2"
proof -
  obtain d where d: "if first then starts s p d else d = dview s" "desc_steps F d (dview s1)"
    using assms(1) by (auto simp: moved_def)
  have "desc_steps G d (dview s2)"
    using desc_steps_mono [OF d(2) assms(3)] desc_steps_mono [OF assms(2,4)] by (rule rtranclp_trans)
  with d(1) show ?thesis unfolding moved_def by blast
qed

lemma REPLICATE_safe:
  assumes start: "if first then heap_ok 1 (store s) \<and> k = 1 else good k s" and p: "pid info = p"
    and h: "\<And>s. good k s \<Longrightarrow> safeR (reached k' F s) (h s)"
  shows "safeR (\<lambda>(rv, s'). rv = 0 \<longrightarrow> good k' s' \<and> moved first F p s s') (REPLICATE e first i f info h s)"
  unfolding REPLICATE_def
proof (rule safe_bind [where Q = "\<lambda>(rv, s'). rv = 0 \<longrightarrow> good k s' \<and> moved first {} p s s'"])
  show "safeR (\<lambda>(rv, s'). rv = 0 \<longrightarrow> good k s' \<and> moved first {} p s s')
      (if first then replicate_init e (pid info) i f s else Inr (0, s))"
  proof (cases first)
    case True
    then have "safeR (\<lambda>(rv, s'). rv = 0 \<longrightarrow> initialized s p s') (replicate_init e p i f s)"
      using start replicate_init_safe by auto
    then have "safeR (\<lambda>(rv, s'). rv = 0 \<longrightarrow> good k s' \<and> moved first {} p s s') (replicate_init e p i f s)"
      by (rule safe_weaken) (use True start in \<open>auto simp: initialized_def moved_def\<close>)
    with True p show ?thesis by simp
  qed (use start in \<open>simp add: safe_Inr moved_def\<close>)
  fix x :: "i32 \<times> 'a rep"
  assume x: "case x of (rv, s') \<Rightarrow> rv = 0 \<longrightarrow> good k s' \<and> moved first {} p s s'"
  have step: "good k' s2 \<and> moved first F p s s2" if "moved first {} p s s1" "reached k' F s1 s2" for s1 s2
    using that(2) moved_trans [OF that(1), of F s2 F] by (simp add: reached_def)
  show "safeR (\<lambda>(rv, s'). rv = 0 \<longrightarrow> good k' s' \<and> moved first F p s s')
      (case x of (rv, s) \<Rightarrow> if rv \<noteq> 0 then Inr (-1, s) else bindR (h s) (\<lambda>s. Inr (0 :: i32, s)))"
    using x minus_one step by (auto intro!: safe_Inr safe_bind [OF h])
qed

lemma replicate_item_safe:
  assumes start: "if first then heap_ok 1 (store s) \<and> k = 1 else good k s"
    and k: "1 \<le> k" "is_dup it \<Longrightarrow> k < MAX_PARENT_IDS" and moves: "dup_moves it"
  shows "safeR (\<lambda>(rv, s'). rv = 0 \<longrightarrow> good (if is_dup it then Suc k else k) s' \<and> moved first (closes it) (item_pid it) s s')
    (replicate_item e m i f first it s)"
proof -
  let ?k = "if is_dup it then Suc k else k"
  let ?Q = "\<lambda>(rv, s'). rv = 0 \<longrightarrow> good ?k s' \<and> moved first (closes it) (item_pid it) s s'"
  note R = REPLICATE_safe [OF start]
  have up: "safeR (reached ?k (closes it) s) r" if "safeR (post k n F s) r" "F \<subseteq> closes it" for n F and s :: "'a rep" and r
    using that(1) by (rule safe_weaken)
      (use that(2) good_mono [of k _ ?k] desc_steps_mono in \<open>auto simp: post_def reached_def\<close>)
  have up0: "safeR (reached ?k (closes it) s) r" if "safeR (post k n {} s) r" for n and s :: "'a rep" and r
    using that by (rule up) simp
  have unknown: "safeR ?Q (Inr (-1 :: i32, s))" by (simp add: safe_Inr)
  have dup: "safeR ?Q (bindR (as_dup it) (\<lambda>x. REPLICATE e first i f (dup_info x) (replicate_dup e x m) s))"
    if t: "type it = OP_DUP \<or> type it = OP_DUP2 \<or> type it = OP_DUP3"
  proof (rule safe_bind0 [OF as_no_dangling(9)], rule R, erule item_info)
    fix x and s :: "'a rep"
    assume "as_dup it = Inr x" "good k s"
    moreover have d: "is_dup it" using t by (simp add: is_dup_def)
    moreover have "dup_retval x \<noteq> dup_old_fd x \<or> dup_retval x = -1" "closes it = {dup_retval x}"
      using moves \<open>as_dup it = Inr x\<close> by (simp_all add: closes_def dup_moves_def as_dup_def split: op_struct.splits)
    ultimately show "safeR (reached ?k (closes it) s) (replicate_dup e x m s)"
      using replicate_dup_safe [of k s x e m] k by simp
  qed
  have close: "safeR ?Q (bindR (as_close it) (\<lambda>x. REPLICATE e first i f (close_info x) (replicate_close e x m) s))"
  proof (rule safe_bind0 [OF as_no_dangling(11)], rule R, erule item_info)
    fix x and s :: "'a rep"
    assume "as_close it = Inr x" "good k s"
    moreover have "closes it = {close_fd x}"
      using \<open>as_close it = Inr x\<close> by (simp add: closes_def as_close_def split: op_struct.splits)
    ultimately show "safeR (reached ?k (closes it) s) (replicate_close e x m s)"
      using up [OF replicate_close_safe] k(1) by simp
  qed
  show ?thesis
    unfolding replicate_item_def Let_def
    by (rule safe_if unknown dup close R [OF _ up0] safe_bind0 [OF as_no_dangling(1)] safe_bind0 [OF as_no_dangling(2)]
        safe_bind0 [OF as_no_dangling(3)] safe_bind0 [OF as_no_dangling(4)] safe_bind0 [OF as_no_dangling(5)]
        safe_bind0 [OF as_no_dangling(6)] safe_bind0 [OF as_no_dangling(7)] safe_bind0 [OF as_no_dangling(8)]
        safe_bind0 [OF as_no_dangling(10)] safe_bind0 [OF as_no_dangling(12)]
        safe_bind0 [OF as_no_dangling(13)] safe_bind0 [OF as_no_dangling(14)] safe_bind0 [OF as_no_dangling(15)]
        safe_bind0 [OF as_no_dangling(16)] safe_bind0 [OF as_no_dangling(17)] safe_bind0 [OF as_no_dangling(18)]
        replicate_open_safe transfer_handlers_safe seek_handlers_safe replicate_clone_safe
        replicate_pipe_safe replicate_socket_safe replicate_sendfile_safe
        name_handlers_safe [where n = 0] k(1) | (erule item_info) | assumption)+
qed

text \<open>The descriptors that the items may close.\<close>

definition closed :: "op_item list \<Rightarrow> i32 set" where
  "closed its = (\<Union>it\<in>set its. closes it)"

lemma replicate_finish_view [simp]: "dview (replicate_finish s) = dview s" "good k (replicate_finish s) = good k s"
  by (simp_all add: replicate_finish_def dview_def good_def)

lemma replicate_loop_safe:
  assumes "if first then heap_ok 1 (store s) \<and> k = 1 else good k s" "1 \<le> k"
    and "k + length (filter is_dup its) \<le> MAX_PARENT_IDS" "\<forall>it\<in>set its. dup_moves it"
  shows "safeR (\<lambda>(rv, s'). rv = 0 \<longrightarrow> (first \<longrightarrow> its \<noteq> []) \<longrightarrow> good (k + length (filter is_dup its)) s' \<and>
      moved first (closed its) (item_pid (hd its)) s s') (replicate_loop e m i f first its s)"
  using assms
proof (induction its arbitrary: s k first)
  case Nil
  then show ?case by (simp add: safe_Inr moved_def)
next
  case (Cons it its)
  let ?k = "if is_dup it then Suc k else k"
  have k: "?k + length (filter is_dup its) = k + length (filter is_dup (it # its))" by simp
  have item: "safeR (\<lambda>(rv, s'). rv = 0 \<longrightarrow> good ?k s' \<and> moved first (closes it) (item_pid it) s s')
      (replicate_item e m i f first it s)"
    using Cons.prems by (intro replicate_item_safe) (auto split: if_splits)
  have rest: "safeR (\<lambda>(rv, s'). rv = 0 \<longrightarrow> good (k + length (filter is_dup (it # its))) s' \<and>
      moved first (closed (it # its)) (item_pid it) s s') (replicate_loop e m i f False its s1)"
    if s1: "good ?k s1" "moved first (closes it) (item_pid it) s s1" for s1
  proof -
    have "safeR (\<lambda>(rv, s'). rv = 0 \<longrightarrow> (False \<longrightarrow> its \<noteq> []) \<longrightarrow> good (?k + length (filter is_dup its)) s' \<and>
        moved False (closed its) (item_pid (hd its)) s1 s') (replicate_loop e m i f False its s1)"
      using Cons.prems k s1(1) by (intro Cons.IH) (auto split: if_splits)
    then show ?thesis
    proof (rule safe_weaken, unfold k)
      fix x :: "i32 \<times> 'a rep"
      assume x: "case x of (rv, s') \<Rightarrow> rv = 0 \<longrightarrow> (False \<longrightarrow> its \<noteq> []) \<longrightarrow> good (k + length (filter is_dup (it # its))) s' \<and>
        moved False (closed its) (item_pid (hd its)) s1 s'"
      have "moved first (closed (it # its)) (item_pid it) s s'" if "moved False (closed its) (item_pid (hd its)) s1 s'" for s'
      proof (rule moved_trans [OF s1(2)])
        show "desc_steps (closed its) (dview s1) (dview s')" using that by (simp add: moved_def)
      qed (auto simp: closed_def)
      with x show "case x of (rv, s') \<Rightarrow> rv = 0 \<longrightarrow> good (k + length (filter is_dup (it # its))) s' \<and>
          moved first (closed (it # its)) (item_pid it) s s'" by auto
    qed
  qed
  show ?case
    unfolding replicate_loop.simps
    by (rule safe_bind [OF item]) (use rest in \<open>auto intro!: safe_Inr safe_weaken [OF rest]\<close>)
qed

lemma rep_start_ok: "heap_ok k (store (rep_start w jk x))"
  by (simp add: rep_start_def heap_ok_def store_fresh_def tables_ok_def entries_apart_def heap_entries_def)

lemma rep_start_binds: "binds_of (store (rep_start w jk x)) = {}"
  by (simp add: rep_start_def binds_of_def heap_entries_def)

lemma replicate_all_safe:
  assumes "length (filter is_dup its) < MAX_PARENT_IDS" "\<forall>it\<in>set its. dup_moves it"
  shows "safeR (\<lambda>(rv, s'). rv = 0 \<longrightarrow> its \<noteq> [] \<longrightarrow> good MAX_PARENT_IDS s' \<and>
      (\<exists>t. desc_steps (closed its) \<lparr>procs = [item_pid (hd its) \<mapsto> t], lost = {}, binds = {}\<rparr> (dview s')))
    (replicate_all e its m ifile mfile (rep_start w jk x))"
proof -
  let ?s = "if has_flag m FIX_MISSING then rep_start w jk x else (rep_start w jk x)\<lparr>global_fix_missing := False\<rparr>"
  have ok: "heap_ok 1 (store ?s)" "binds_of (store ?s) = {}" by (simp_all add: rep_start_ok rep_start_binds)
  have "safeR (\<lambda>(rv, s'). rv = 0 \<longrightarrow> (True \<longrightarrow> its \<noteq> []) \<longrightarrow> good (1 + length (filter is_dup its)) s' \<and>
      moved True (closed its) (item_pid (hd its)) ?s s') (replicate_loop e m ifile mfile True its ?s)"
    using ok(1) assms by (intro replicate_loop_safe) auto
  then show ?thesis
    unfolding replicate_all_def
    by (rule safe_weaken) (use assms(1) ok(2) good_mono in \<open>fastforce simp: moved_def starts_def\<close>)
qed

end
