(* ===== verification/Replicate_Init.thy ===== *)
theory Replicate_Init
  imports Replicate_Heap
begin

text \<open>
  The state after \<open>replicate_init\<close>, exactly, and \<open>descriptor\<close>, the view of the descriptor tables that
  the properties of the replay are stated in: the map that a descriptor of a process refers to.
\<close>

definition descriptor :: "'w rep \<Rightarrow> i32 \<Rightarrow> i32 \<Rightarrow> fd_map option" where
  "descriptor s p fd =
     (case get_process_ht (fd_mappings s) p of
        Inr (Some ht) \<Rightarrow> (case tables (store s) ht of None \<Rightarrow> None | Some t \<Rightarrow> view (store s) t fd)
      | _ \<Rightarrow> None)"

lemma descriptor_found:
  assumes "get_process_ht (fd_mappings s) p = Inr (Some ht)" "found s ht fd it"
  shows "descriptor s p fd = fd_maps (store s) (fm_ptr it)"
  using assms by (auto simp: descriptor_def found_def view_def)

section \<open>The three standard descriptors\<close>

definition std_map :: "fd_map \<Rightarrow> i32 \<Rightarrow> string \<Rightarrow> fd_map" where
  "std_map jk fd nm = jk\<lparr>my_fd := fd, fm_name := nm, fm_type := FT_SPEC,
     parent_fds := fd # replicate (MAX_PARENT_IDS - 1) (-1), last_par_index := 0\<rparr>"

definition std_item :: "addr \<Rightarrow> i32 \<Rightarrow> fd_item" where
  "std_item a fd = \<lparr>fi_addr = a, old_fd = fd, fm_ptr = Suc a\<rparr>"

definition std_store :: "addr \<Rightarrow> fd_item hash_table \<Rightarrow> i32 \<Rightarrow> string \<Rightarrow> fd_store \<Rightarrow> fd_store" where
  "std_store ht t fd nm st =
     st\<lparr>fd_live := (fd_live st)(next_addr st := True),
       fd_maps := (fd_maps st)(Suc (next_addr st) \<mapsto> std_map (junk st) fd nm),
       tables := (tables st)(ht \<mapsto> t), next_addr := Suc (Suc (next_addr st))\<rparr>"

lemma enter_std_run:
  assumes t: "tables (store s) ht = Some t" and fd: "fd \<noteq> -1"
    and ins: "hash_table_insert ht_ops_fditem key (std_item (next_addr (store s)) fd) t = Inr t'"
    and u: "increase_fd_usage key (usage_map s) = Inr u'"
  shows "enter_std ht fd nm key s = Inr (s\<lparr>store := std_store ht t' fd nm (store s), usage_map := u'\<rparr>)"
proof -
  let ?r = "replicate (MAX_PARENT_IDS - 1) (-1 :: i32)"
  have r: "replicate MAX_PARENT_IDS (-1 :: i32) = -1 # ?r"
    using replicate_more [of 0 MAX_PARENT_IDS "-1 :: i32"] by (simp add: MAX_PARENT_IDS_def)
  have slot: "parent_slot fd (-1 # r) 0 = Inr (Some 0)" for r
    using fd by simp
  have "\<exists>r. replicate MAX_PARENT_IDS (-1 :: i32) = -1 # r \<and> r = ?r" using r by blast
  then obtain r where R: "replicate MAX_PARENT_IDS (-1 :: i32) = -1 # r" "?r = r" by blast
  show ?thesis
    using t ins u fd unfolding enter_std_def alloc_item_def new_fd_item_def Let_def update_map_def with_store_def
      insert_parent_fd_def insert_parent_def ht_insert_def use_fd_def std_item_def std_store_def std_map_def R
    by (simp add: deref_item_def get_map_def put_item_def set_map_def get_table_def set_table_def slot)
qed

lemma insert_entries: "hash_table_insert op k x t = Inr t' \<Longrightarrow> entries t' = entries t"
  by (auto simp: hash_table_insert_def res_iff)

lemma std_slots: "entries t = HASH_TABLE_SIZE \<Longrightarrow> fdt.slot t 0 \<noteq> fdt.slot t 1"
proof -
  have h: "hash ht_ops_fditem = ht_hash_int" by (simp add: ht_ops_fditem_def)
  show "entries t = HASH_TABLE_SIZE \<Longrightarrow> fdt.slot t 0 \<noteq> fdt.slot t 1"
    by (simp add: fdt.slot_def h ht_hash_int_def HASH_TABLE_SIZE_def)
qed

text \<open>The three insertions: the item of \<open>stdin\<close> is entered under 1, where a search for 0 does not look.\<close>

lemma std_table:
  fixes a b c :: addr
  shows "\<exists>t1 t2 t3. hash_table_insert ht_ops_fditem 1 (std_item a 0) (hash_table_init HASH_TABLE_SIZE) = Inr t1 \<and>
     hash_table_insert ht_ops_fditem 1 (std_item b 1) t1 = Inr t2 \<and>
     hash_table_insert ht_ops_fditem 2 (std_item c 2) t2 = Inr t3 \<and>
     fdt.table_inv t3 \<and> fdt.table_distinct t3 \<and> fdt.table_map t3 = [1 \<mapsto> std_item b 1, 2 \<mapsto> std_item c 2]"
proof -
  let ?t = "hash_table_init HASH_TABLE_SIZE :: fd_item hash_table"
  have pos: "0 < HASH_TABLE_SIZE" by (simp add: HASH_TABLE_SIZE_def)
  have o: "old_fd (std_item x fd) = fd" for x fd by (simp add: std_item_def)
  have e: "entries ?t = HASH_TABLE_SIZE" by (simp add: hash_table_init_def)
  have "entry ?t ! fdt.slot ?t 1 = []"
    using fdt.slot_range [of 1 ?t] pos by (simp add: hash_table_init_def)
  then obtain t1 where t1: "hash_table_insert ht_ops_fditem 1 (std_item a 0) ?t = Inr t1" "fdt.table_inv t1"
    "fdt.table_map t1 = (\<lambda>_. None)" "fdt.table_distinct t1"
    using fdt.insert_elsewhere [of ?t 1 "std_item a 0"] std_slots [OF e] fdt.init_inv [OF pos] fdt.init_map [OF pos] fdt.init_distinct
    by (auto simp: o)
  obtain t2 where t2: "hash_table_insert ht_ops_fditem 1 (std_item b 1) t1 = Inr t2" "fdt.table_inv t2"
    "fdt.table_map t2 = [1 \<mapsto> std_item b 1]" "fdt.table_distinct t2"
    using fdt.insert_map [OF t1(2), of "std_item b 1"] t1(3,4) by (auto simp: o)
  obtain t3 where t3: "hash_table_insert ht_ops_fditem 2 (std_item c 2) t2 = Inr t3" "fdt.table_inv t3"
    "fdt.table_map t3 = [1 \<mapsto> std_item b 1, 2 \<mapsto> std_item c 2]" "fdt.table_distinct t3"
    using fdt.insert_map [OF t2(2), of "std_item c 2"] t2(3,4) by (auto simp: o)
  show ?thesis using t1(1) t2(1) t3 by blast
qed

lemma std_uses:
  "\<exists>u1 u2 u3. increase_fd_usage 1 (hash_table_init HASH_TABLE_SIZE) = Inr u1 \<and> increase_fd_usage 1 u1 = Inr u2 \<and>
     increase_fd_usage 2 u2 = Inr u3 \<and> use_ok u3 \<and> uses u3 = (\<lambda>_. 0)(1 := 2, 2 := 1)"
proof -
  let ?u = "hash_table_init HASH_TABLE_SIZE :: fd_usage hash_table"
  have pos: "0 < HASH_TABLE_SIZE" by (simp add: HASH_TABLE_SIZE_def)
  obtain u1 where u1: "increase_fd_usage 1 ?u = Inr u1" "use_ok u1" "uses u1 = (\<lambda>_. 0)(1 := 1)"
    using increase_uses [OF use_ok_init [OF pos], of 1] uses_init [OF pos] by (auto simp: fun_eq_iff)
  obtain u2 where u2: "increase_fd_usage 1 u1 = Inr u2" "use_ok u2" "uses u2 = (\<lambda>_. 0)(1 := 2)"
    using increase_uses [OF u1(2), of 1] u1(3) by (auto simp: fun_eq_iff)
  obtain u3 where u3: "increase_fd_usage 2 u2 = Inr u3" "use_ok u3" "uses u3 = (\<lambda>_. 0)(1 := 2, 2 := 1)"
    using increase_uses [OF u2(2), of 2] u2(3) by (auto simp: fun_eq_iff)
  show ?thesis using u1(1) u2(1) u3 by blast
qed

lemma first_process:
  assumes "nonneg p" "p_pid h = p"
  shows "\<exists>t. hash_table_insert ht_ops_fdmapping p h (hash_table_init HASH_TABLE_SIZE) = Inr t \<and> prc.table_inv t \<and>
     (\<forall>q. nonneg q \<longrightarrow> get_process_ht t q = Inr (if q = p then p_ht h else None))"
proof -
  have pos: "0 < HASH_TABLE_SIZE" by (simp add: HASH_TABLE_SIZE_def)
  obtain t where t: "hash_table_insert ht_ops_fdmapping p h (hash_table_init HASH_TABLE_SIZE) = Inr t" "prc.table_inv t"
    "prc.table_map t = [p \<mapsto> h]"
    using prc.insert_map [OF prc.init_inv [OF pos], of h] assms prc.init_map [OF pos] by auto
  then show ?thesis using assms by (auto simp: get_process_ht_def prc.find_map)
qed

text \<open>A process whose table has no chain with two items for the same number.\<close>

definition distinct_table :: "'w rep \<Rightarrow> i32 \<Rightarrow> bool" where
  "distinct_table s p \<longleftrightarrow>
     (\<exists>ht t. get_process_ht (fd_mappings s) p = Inr (Some ht) \<and> tables (store s) ht = Some t \<and> fdt.table_distinct t)"

definition after_init :: "'w rep \<Rightarrow> i32 \<Rightarrow> 'w rep \<Rightarrow> bool" where
  "after_init s p s' \<longleftrightarrow> good 1 s' \<and> use_ok (usage_map s') \<and> uses (usage_map s') = (\<lambda>_. 0)(1 := 2, 2 := 1) \<and>
     descriptor s' p = [1 \<mapsto> std_map (junk (store s)) 1 ''stdout'', 2 \<mapsto> std_map (junk (store s)) 2 ''stderr''] \<and>
     (\<forall>q. nonneg q \<longrightarrow> q \<noteq> p \<longrightarrow> get_process_ht (fd_mappings s') q = Inr None) \<and>
     distinct_table s' p \<and> sim s' = sim s \<and> global_fix_missing s' = global_fix_missing s \<and> global_parent_pid s' = p"

lemma replicate_init_run:
  assumes p: "nonneg p" and ok: "heap_ok 1 (store s)"
    and nm: "namemap_init (files_of e (world s)) ifile mfile = Inr (0, nm)"
    and null: "sys e (Sys_open ''/dev/null'' O_WRONLY None) (world s) = (fd, w)" "(ucast fd :: i32) \<noteq> -1"
    and zero: "sys e (Sys_open ''/dev/zero'' 0 None) w = (fd', w')"
  shows "\<exists>s'. replicate_init e p ifile mfile s = Inr (0, s') \<and> after_init s p s' \<and> world s' = w' \<and> names s' = nm"
proof -
  let ?n = "next_addr (store s)"
  obtain h st where h: "new_process_ht p (store s) = (h, st)" by (rule prod.exhaust)
  have st: "h = \<lparr>p_pid = p, p_ht = Some ?n\<rparr>"
    "st = (store s)\<lparr>tables := (tables (store s))(?n \<mapsto> hash_table_init HASH_TABLE_SIZE), next_addr := Suc ?n\<rparr>"
    using h by (auto simp: new_process_ht_def Let_def)
  obtain t where t: "hash_table_insert ht_ops_fdmapping p h (hash_table_init HASH_TABLE_SIZE) = Inr t"
    "\<And>q. nonneg q \<Longrightarrow> get_process_ht t q = Inr (if q = p then Some ?n else None)"
    using first_process [of p h] p st(1) by auto
  let ?s0 = "s\<lparr>names := nm, fd_mappings := t, usage_map := hash_table_init HASH_TABLE_SIZE, store := st, global_parent_pid := p\<rparr>"
  let ?a = "next_addr st"
  obtain t1 t2 t3 where T: "hash_table_insert ht_ops_fditem 1 (std_item ?a 0) (hash_table_init HASH_TABLE_SIZE) = Inr t1"
     "hash_table_insert ht_ops_fditem 1 (std_item (Suc (Suc ?a)) 1) t1 = Inr t2"
     "hash_table_insert ht_ops_fditem 2 (std_item (Suc (Suc (Suc (Suc ?a)))) 2) t2 = Inr t3"
     "fdt.table_distinct t3" "fdt.table_map t3 = [1 \<mapsto> std_item (Suc (Suc ?a)) 1, 2 \<mapsto> std_item (Suc (Suc (Suc (Suc ?a)))) 2]"
    using std_table [of ?a "Suc (Suc ?a)" "Suc (Suc (Suc (Suc ?a)))"] by blast
  obtain u1 u2 u3 where U: "increase_fd_usage 1 (hash_table_init HASH_TABLE_SIZE) = Inr u1" "increase_fd_usage 1 u1 = Inr u2"
     "increase_fd_usage 2 u2 = Inr u3" "use_ok u3" "uses u3 = (\<lambda>_. 0)(1 := 2, 2 := 1)"
    using std_uses by blast
  let ?st1 = "std_store ?n t1 0 ''stdin'' st"
  let ?st2 = "std_store ?n t2 1 ''stdout'' ?st1"
  let ?st3 = "std_store ?n t3 2 ''stderr'' ?st2"
  have na: "next_addr ?st1 = Suc (Suc ?a)" "next_addr ?st2 = Suc (Suc (Suc (Suc ?a)))" by (simp_all add: std_store_def)
  have r1: "enter_std ?n 0 ''stdin'' 1 ?s0 = Inr (?s0\<lparr>store := ?st1, usage_map := u1\<rparr>)"
    by (rule enter_std_run [THEN trans]) (use T(1) U(1) st(2) in simp_all)
  have r2: "enter_std ?n 1 ''stdout'' 1 (?s0\<lparr>store := ?st1, usage_map := u1\<rparr>) = Inr (?s0\<lparr>store := ?st2, usage_map := u2\<rparr>)"
    by (rule enter_std_run [THEN trans]) (use T(2) U(2) na in \<open>simp_all add: std_store_def\<close>)
  have r3: "enter_std ?n 2 ''stderr'' 2 (?s0\<lparr>store := ?st2, usage_map := u2\<rparr>) = Inr (?s0\<lparr>store := ?st3, usage_map := u3\<rparr>)"
    by (rule enter_std_run [THEN trans]) (use T(3) U(3) in \<open>simp_all add: std_store_def\<close>)
  let ?s = "?s0\<lparr>store := ?st3, usage_map := u3, world := w', global_devnull_fd := ucast fd, global_devzero_fd := ucast fd'\<rparr>"
  have run: "replicate_init e p ifile mfile s = Inr (0, ?s)"
    using nm h t(1) st(1) r1 r2 r3 null zero by (simp add: replicate_init_def call32_def call64_def Let_def)
  have "good 1 ?s" using replicate_init_safe [OF ok, of p e ifile mfile] run initialized_good by (simp add: safeR_def ensuresR_def)
  moreover have "descriptor ?s p = [1 \<mapsto> std_map (junk (store s)) 1 ''stdout'', 2 \<mapsto> std_map (junk (store s)) 2 ''stderr'']"
    using t(2) [OF p] T(5) st(2) by (auto simp: descriptor_def view_def fun_eq_iff std_store_def std_item_def)
  moreover have "distinct_table ?s p" using t(2) [OF p] T(4) by (simp add: distinct_table_def std_store_def)
  ultimately show ?thesis using run t(2) U(4,5) by (auto simp: after_init_def)
qed

end
