(* ===== verification/Replay_Safety.thy ===== *)
theory Replay_Safety
  imports Replicate_Init Replicate_Frame
begin

text \<open>
  What holds of every replay: the state after the initialization, and which replays touch memory
  that was freed. The witnesses run on a small environment whose world is the list of the calls
  that were made.
\<close>

section \<open>A small environment\<close>

definition sample_env :: "syscall list env" where
  "sample_env = \<lparr>sys = (\<lambda>c w. (case c of Sys_open _ _ _ \<Rightarrow> of_nat (length w + 10) | Sys_read _ n \<Rightarrow> n
       | Sys_write _ n \<Rightarrow> n | _ \<Rightarrow> 0, w @ [c])),
     sys_sendfile = (\<lambda>o_fd i_fd off n w. (n, off, w)),
     disk_of = (\<lambda>_. \<lparr>on_disk = (\<lambda>_. False), st_size = (\<lambda>_. 0), cwd = Some ''/''\<rparr>),
     files_of = (\<lambda>_ _. None), fnmatch = (\<lambda>_ _. 1), junk_mode = 0, junk_start = \<lparr>tv_sec = 0, tv_usec = 0\<rparr>\<rparr>"

definition sample_rep :: "syscall list rep" where
  "sample_rep = rep_start [] sample_map sim_start"

definition at_pid :: "i32 \<Rightarrow> op_info" where
  "at_pid p = \<lparr>pid = p, dur = 0, start = \<lparr>tv_sec = 0, tv_usec = 0\<rparr>\<rparr>"

definition devices :: "syscall list" where
  "devices = [Sys_open ''/dev/null'' O_WRONLY None, Sys_open ''/dev/zero'' 0 None]"

text \<open>Opening a file, duplicating its descriptor, reading and closing.\<close>

definition sample_ops :: "op_item list" where
  "sample_ops =
     [\<lparr>type = OP_OPEN, body = S_open \<lparr>open_name = ''/a'', open_flags = 0, open_mode = MODE_UNDEF, open_retval = 3, open_info = at_pid 100\<rparr>\<rparr>,
      \<lparr>type = OP_DUP, body = S_dup \<lparr>dup_new_fd = 0, dup_old_fd = 3, dup_flags = 0, dup_retval = 4, dup_info = at_pid 100\<rparr>\<rparr>,
      \<lparr>type = OP_READ, body = S_read \<lparr>read_fd = 4, read_size = 10, read_retval = 10, read_info = at_pid 100\<rparr>\<rparr>,
      \<lparr>type = OP_CLOSE, body = S_close \<lparr>close_fd = 3, close_retval = 0, close_info = at_pid 100\<rparr>\<rparr>]"

section \<open>Initialization\<close>

text \<open>
  C31: The state after a successful initialization. Its process has the descriptors 1 and 2 for
  \<open>stdout\<close> and \<open>stderr\<close>, and not 0: the item of \<open>stdin\<close> is entered under the number 1, where
  no search for 0 finds it, and 1 is counted twice. No other process has a table, the memory is in
  order, and the only calls made are the two opens of the devices.
\<close>

theorem replicate_init_descriptors:
  assumes "nonneg p" "heap_ok 1 (store s)"
    and "namemap_init (files_of e (world s)) ifile mfile = Inr (0, nm)"
    and "sys e (Sys_open ''/dev/null'' O_WRONLY None) (world s) = (fd, w)" "(ucast fd :: i32) \<noteq> -1"
    and "sys e (Sys_open ''/dev/zero'' 0 None) w = (fd', w')"
  shows "\<exists>s'. replicate_init e p ifile mfile s = Inr (0, s') \<and> good 1 s' \<and> world s' = w' \<and> names s' = nm \<and>
    descriptor s' p = [1 \<mapsto> std_map (junk (store s)) 1 ''stdout'', 2 \<mapsto> std_map (junk (store s)) 2 ''stderr''] \<and>
    (\<forall>q. nonneg q \<longrightarrow> q \<noteq> p \<longrightarrow> descriptor s' q = Map.empty) \<and>
    use_ok (usage_map s') \<and> uses (usage_map s') = (\<lambda>_. 0)(1 := 2, 2 := 1)"
  using replicate_init_run [OF assms] by (fastforce simp: after_init_def descriptor_def)

lemma sample_start: "heap_ok 1 (store sample_rep)"
  "namemap_init (files_of sample_env (world sample_rep)) None None = Inr (0, \<lparr>ht_map = hash_table_init HASH_TABLE_SIZE, l_igns = []\<rparr>)"
  "sys sample_env (Sys_open ''/dev/null'' O_WRONLY None) (world sample_rep) = (10, [Sys_open ''/dev/null'' O_WRONLY None])"
  "sys sample_env (Sys_open ''/dev/zero'' 0 None) [Sys_open ''/dev/null'' O_WRONLY None] = (11, devices)"
proof -
  show "heap_ok 1 (store sample_rep)" by (simp only: sample_rep_def rep_start_ok)
qed (simp_all add: sample_rep_def sample_env_def devices_def namemap_init_def rep_start_def open_list_def Let_def)

theorem replicate_init_descriptors_witness:
  "\<exists>s'. replicate_init sample_env 100 None None sample_rep = Inr (0, s') \<and> world s' = devices \<and>
     descriptor s' 100 0 = None \<and> descriptor s' 100 1 \<noteq> None \<and> descriptor s' 7 1 = None"
  using replicate_init_descriptors [OF _ sample_start(1,2,3) _ sample_start(4), of 100]
  by auto

section \<open>Freed memory\<close>

text \<open>
  C1: Memory safety of the replay. From the initial state, and whatever the operating system and
  the files answer, a replay in any mode of items with fewer than \<open>MAX_PARENT_IDS\<close> duplications,
  none of them onto itself, never reads or writes freed or foreign memory: it returns, or it stops
  with an assertion, a \<open>NULL\<close> dereference or a buffer that is too small.
\<close>

theorem replay_memory_safe:
  assumes "length (filter is_dup its) < MAX_PARENT_IDS" "\<forall>it\<in>set its. dup_moves it"
  shows "replicate_all e its m ifile mfile (rep_start w jk x) \<noteq> Inl Dangling"
  using replicate_all_safe [OF assms, of e m ifile mfile w jk x] by (auto simp: safeR_def)

theorem replay_memory_safe_witness:
  "replicate_all sample_env sample_ops (ACT_REPLICATE + FIX_MISSING) None None (rep_start [] sample_map sim_start) \<noteq> Inl Dangling"
  by (rule replay_memory_safe)
    (simp_all add: sample_ops_def is_dup_def dup_moves_def MAX_PARENT_IDS_def op_codes)

section \<open>Looking up\<close>

text \<open>A process with its table, and the lookups of the handlers when nothing is missing.\<close>

lemma find_ht_present: "get_process_ht (fd_mappings s) p = Inr (Some ht) \<Longrightarrow> find_ht p s = Inr (Some ht, s)"
  by (simp add: find_ht_def)

lemma found_run:
  assumes "good k s" "found s ht fd it"
  shows "ht_find ht fd s = Inr (Some it)" "\<exists>fm. deref_item (store s) it = Inr fm \<and> fd_maps (store s) (fm_ptr it) = Some fm"
proof -
  obtain t where t: "tables (store s) ht = Some t" "fdt.table_map t fd = Some it" using assms(2) by (auto simp: found_def)
  moreover have "fdt.table_inv t" using assms(1) t(1) by (auto simp: good_def heap_ok_def tables_ok_def)
  moreover have "nonneg fd" using t(2) fdt.table_map_invalid by fastforce
  ultimately show "ht_find ht fd s = Inr (Some it)"
    by (simp add: ht_find_def get_table_def fdt.find_map)
  have "good_item k (store s) it" using assms found_entry [OF assms] by (force simp: good_def heap_ok_def)
  then show "\<exists>fm. deref_item (store s) it = Inr fm \<and> fd_maps (store s) (fm_ptr it) = Some fm" using good_deref by blast
qed

lemma locate_present:
  assumes "good k s" "get_process_ht (fd_mappings s) (pid info) = Inr (Some ht)" "found s ht fd it"
  shows "locate e info fd m s = Inr (Some (ht, it), s)"
  using assms found_run(1) [OF assms(1,3)] by (simp add: locate_def find_ht_present replicate_get_fd_map_def)

lemma descriptor_Some:
  assumes "good k s" "descriptor s p fd = Some fm"
  obtains ht it where "get_process_ht (fd_mappings s) p = Inr (Some ht)" "found s ht fd it"
    "deref_item (store s) it = Inr fm" "fd_maps (store s) (fm_ptr it) = Some fm"
proof -
  from assms(2) obtain ht t it where h: "get_process_ht (fd_mappings s) p = Inr (Some ht)" "tables (store s) ht = Some t"
    "fdt.table_map t fd = Some it" "fd_maps (store s) (fm_ptr it) = Some fm"
    by (auto simp: descriptor_def view_def bind_eq_Some_conv split: sum.splits option.splits)
  moreover have "found s ht fd it" using h by (simp add: found_def)
  ultimately show ?thesis using that found_run(2) [OF assms(1)] by fastforce
qed

text \<open>The call of \<open>close\<close> on the descriptor of the replay, when it is made.\<close>

definition can_drop :: "fd_map \<Rightarrow> i32 \<Rightarrow> 'w rep \<Rightarrow> bool" where
  "can_drop fm m s \<longleftrightarrow> (supported_type (fm_type fm) \<longrightarrow>
     use_ok (usage_map s) \<and> nonneg (my_fd fm) \<and> 0 < uses (usage_map s) (my_fd fm) \<and> \<not> replicates m)"

lemma drop_user_run:
  assumes "can_drop fm m s"
  shows "\<exists>u. drop_user e fm m s = Inr (0, s\<lparr>usage_map := u\<rparr>)"
proof (cases "supported_type (fm_type fm)")
  case False
  then have "drop_user e fm m s = Inr (0, s\<lparr>usage_map := usage_map s\<rparr>)" by (simp add: drop_user_def)
  then show ?thesis by blast
next
  case True
  then have "use_ok (usage_map s)" "nonneg (my_fd fm)" "0 < uses (usage_map s) (my_fd fm)" "\<not> replicates m"
    using assms by (simp_all only: can_drop_def simp_thms)
  then obtain last u where "decrease_fd_usage (my_fd fm) (usage_map s) = Inr (last, u)"
    using decrease_uses by blast
  then have "drop_user e fm m s = Inr (0, s\<lparr>usage_map := u\<rparr>)"
    using True \<open>\<not> replicates m\<close> by (simp add: drop_user_def)
  then show ?thesis by blast
qed

lemma alloc_free_same:
  assumes "alloc_item s = (it, s')"
  shows "fd_mappings s' = fd_mappings s \<and> usage_map s' = usage_map s"
    "free_map (fm_ptr it) (store s') = Inr st \<Longrightarrow> tables st = tables (store s)"
    "free_map (fm_ptr it) (store s') = Inr st \<Longrightarrow> a < next_addr (store s) \<Longrightarrow> fd_maps st a = fd_maps (store s) a"
proof -
  have "s' = s\<lparr>store := snd (new_fd_item (store s))\<rparr>" "it = fst (new_fd_item (store s))"
    using assms by (cases "new_fd_item (store s)"; simp add: alloc_item_def)+
  note s' = this
  then show "fd_mappings s' = fd_mappings s \<and> usage_map s' = usage_map s" by simp
  assume "free_map (fm_ptr it) (store s') = Inr st"
  then have st: "st = (store s')\<lparr>fd_maps := (fd_maps (store s'))(fm_ptr it := None)\<rparr>"
    by (auto simp: free_map_def res_iff)
  show "tables st = tables (store s)" unfolding st s' by (simp add: new_fd_item_def Let_def)
  show "a < next_addr (store s) \<Longrightarrow> fd_maps st a = fd_maps (store s) a"
    unfolding st s' by (simp add: new_fd_item_def Let_def)
qed

text \<open>
  C36: A duplication of a descriptor onto itself, which the system allows and ignores, makes the
  replay use freed memory: it closes the descriptor, which frees its item, and then registers the
  new parent through that item. This is so for every descriptor that the replay can close: one of an
  unsupported type, or in simulation one that is in use.
\<close>

theorem dup_onto_itself_dangling:
  assumes "good k s" "1 \<le> k" "dup_old_fd o_p = fd" "dup_retval o_p = fd"
    and "descriptor s (pid (dup_info o_p)) fd = Some fm" "can_drop fm m s"
  shows "replicate_dup e o_p m s = Inl Dangling"
proof -
  obtain ht it where h: "get_process_ht (fd_mappings s) (pid (dup_info o_p)) = Inr (Some ht)" "found s ht fd it"
    "deref_item (store s) it = Inr fm" using descriptor_Some [OF assms(1,5)] by metis
  have fd: "fd \<noteq> -1" using found_entry [OF assms(1) h(2)] by auto
  obtain it_new s2 where alloc: "alloc_item s = (it_new, s2)" by (rule prod.exhaust)
  have a: "post k (next_addr (store s)) {} s s2" "pending (store s2) it_new {}" "next_addr (store s) \<le> fm_ptr it_new"
    using alloc_safe [OF assms(1) alloc] by blast+
  obtain st3 where st3: "free_map (fm_ptr it_new) (store s2) = Inr st3" "heap_ok k st3"
    "keeps (next_addr (store s)) {} (store s2) st3"
    using free_pending_map [OF good_heap [OF post_good [OF a(1)]] a(2,3)] by blast
  let ?s3 = "s2\<lparr>store := st3\<rparr>"
  have p3: "post k (next_addr (store s)) {} s ?s3"
    using post_trans [OF a(1) good_store [OF post_good [OF a(1)] st3(2,3)]] .
  note g3 = post_good [OF p3]
  have same: "fd_mappings ?s3 = fd_mappings s" "usage_map ?s3 = usage_map s"
    using alloc_free_same(1) [OF alloc] by simp_all
  have E: "(ht, it) \<in> heap_entries (store s)" "tables (store s) ht \<noteq> None"
    using found_entry [OF assms(1) h(2)] by blast+
  have keep: "tables (store ?s3) = tables (store s)" "fd_maps (store ?s3) (fm_ptr it) = fd_maps (store s) (fm_ptr it)"
    using alloc_free_same(2,3) [OF alloc st3(1)] entry_bounds [OF good_heap [OF assms(1)] E(1)] by auto
  have f3: "found ?s3 ht fd it" using h(2) keep(1) by (simp add: found_def)
  have d3: "deref_item (store ?s3) it = Inr fm"
    using found_run(2) [OF g3 f3] found_run(2) [OF assms(1) h(2)] h(3) keep(2) by auto
  obtain u where u: "drop_user e fm m ?s3 = Inr (0, ?s3\<lparr>usage_map := u\<rparr>)"
    using drop_user_run [of fm m ?s3 e] assms(6) same(2) by (auto simp: can_drop_def)
  obtain t where t: "tables (store ?s3) ht = Some t" "fdt.table_map t fd = Some it" using f3 by (auto simp: found_def)
  obtain st4 where st4: "close_item ht fd it (store ?s3) = Inr st4" "\<not> fd_live st4 (fi_addr it)"
    using close_item_ok [OF good_heap [OF g3] t] by blast
  have close: "replicate_close e \<lparr>close_fd = fd, close_retval = 0,
      close_info = \<lparr>pid = pid (dup_info o_p), dur = 0, start = junk_start e\<rparr>\<rparr> m ?s3 =
    Inr (?s3\<lparr>usage_map := u, store := st4\<rparr>)"
    using locate_present [OF g3, of "\<lparr>pid = pid (dup_info o_p), dur = 0, start = junk_start e\<rparr>" ht fd it e m]
      h(1) f3 same(1) d3 u st4(1) minus_one close_tail [of it fd "?s3\<lparr>usage_map := u\<rparr>" ht]
    by (simp add: replicate_close_def)
  have "insert_parent_fd it fd st4 = Inl Dangling"
    using st4(2) by (simp add: insert_parent_fd_def deref_item_def)
  then show ?thesis
    using assms(3,4) fd locate_present [OF assms(1) h(1,2)] alloc st3(1) found_run(1) [OF g3 f3] close
    by (simp add: replicate_dup_def with_store_def)
qed

lemma std_map_unsupported: "\<not> supported_type (fm_type (std_map jk fd nm))"
proof -
  have "fm_type (std_map jk fd nm) = FT_SPEC" by (cases jk) (simp add: std_map_def)
  then show ?thesis by (simp add: supported_type_def type_defs)
qed

lemma std_map_can_drop: "can_drop (std_map jk fd nm) m s"
  unfolding can_drop_def using std_map_unsupported by blast

theorem dup_onto_itself_dangling_witness:
  "\<exists>s. replicate_init sample_env 100 None None sample_rep = Inr (0, s) \<and>
     replicate_dup sample_env \<lparr>dup_new_fd = 1, dup_old_fd = 1, dup_flags = 0, dup_retval = 1, dup_info = at_pid 100\<rparr>
       ACT_REPLICATE s = Inl Dangling"
proof -
  obtain s where run: "replicate_init sample_env 100 None None sample_rep = Inr (0, s)" "after_init sample_rep 100 s"
    using replicate_init_run [OF _ sample_start(1,2,3) _ sample_start(4), of 100] by auto
  then have "good 1 s" "descriptor s 100 1 = Some (std_map (junk (store sample_rep)) 1 ''stdout'')"
    by (simp_all add: after_init_def)
  then have "replicate_dup sample_env \<lparr>dup_new_fd = 1, dup_old_fd = 1, dup_flags = 0, dup_retval = 1, dup_info = at_pid 100\<rparr>
       ACT_REPLICATE s = Inl Dangling"
    by (intro dup_onto_itself_dangling [of 1 s _ 1, OF _ _ _ _ _ std_map_can_drop]) (simp_all add: at_pid_def)
  with run(1) show ?thesis by blast
qed

text \<open>With no name mapping, the names stay.\<close>

lemma map_name_plain:
  assumes "names s = \<lparr>ht_map = hash_table_init HASH_TABLE_SIZE, l_igns = []\<rparr>" "name_fits n"
  shows "map_name e n s = Inr (Some n)"
  using assms by (simp add: map_name_def namemap_get_name_def nmap.find_map nmap.init_inv nmap.init_map HASH_TABLE_SIZE_def)

text \<open>A simulated removal of a file.\<close>

definition sample_unlink :: unlink_op where
  "sample_unlink = \<lparr>unlink_name = ''/a'', unlink_retval = 0, unlink_info = at_pid 100\<rparr>"

lemma sample_unlink_simulated:
  "\<exists>x. simulate_unlink (disk_of sample_env w) sample_unlink (simulate_init ACT_SIMULATE sim_start) = Inr x"
proof -
  have "case simulate_unlink (disk_of sample_env w) sample_unlink (simulate_init ACT_SIMULATE sim_start) of Inr _ \<Rightarrow> True | _ \<Rightarrow> False"
    by code_simp
  then show ?thesis by (auto split: sum.splits)
qed

text \<open>A simulation of that call, whatever files of the program there are.\<close>

definition sample_unlink_item :: op_item where
  "sample_unlink_item = \<lparr>type = OP_UNLINK, body = S_unlink sample_unlink\<rparr>"

lemma sample_simulation:
  "\<exists>s'. replicate_all (sample_env\<lparr>files_of := g\<rparr>) [sample_unlink_item] (ACT_SIMULATE + FIX_MISSING) None None
     (sample_rep\<lparr>sim := simulate_init ACT_SIMULATE sim_start\<rparr>) = Inr (0, s')"
proof -
  let ?s = "sample_rep\<lparr>sim := simulate_init ACT_SIMULATE sim_start\<rparr>"
  let ?e = "sample_env\<lparr>files_of := g\<rparr>"
  let ?m = "ACT_SIMULATE + FIX_MISSING :: i32"
  have m: "\<not> replicates ?m" "simulates ?m" "has_flag ?m FIX_MISSING"
    by (simp_all add: replicates_def simulates_def has_flag_def mask_defs)
  have "heap_ok 1 (store ?s)" "namemap_init (files_of ?e (world ?s)) None None =
      Inr (0, \<lparr>ht_map = hash_table_init HASH_TABLE_SIZE, l_igns = []\<rparr>)"
    using sample_start(1) by (simp_all add: namemap_init_def open_list_def Let_def)
  then obtain s1 where s1: "replicate_init ?e 100 None None ?s = Inr (0, s1)" "after_init ?s 100 s1"
      "names s1 = \<lparr>ht_map = hash_table_init HASH_TABLE_SIZE, l_igns = []\<rparr>"
    using replicate_init_run [of 100 ?s ?e None None _ 10 "[Sys_open ''/dev/null'' O_WRONLY None]" 11 devices] sample_start(3,4)
    by auto
  then have sim1: "sim s1 = simulate_init ACT_SIMULATE sim_start" by (simp add: after_init_def)
  obtain x where x: "simulate_unlink (disk_of ?e (world s1)) sample_unlink (sim s1) = Inr x"
    unfolding sim1 using sample_unlink_simulated by auto
  have "replicate_unlink ?e sample_unlink ?m s1 = Inr (s1\<lparr>sim := x\<rparr>)"
    using m x map_name_plain [OF s1(3), of "''/a''"]
    by (simp add: replicate_unlink_def replicate_name_def with_sim_def sample_unlink_def MAX_STRING_def)
  moreover have "pid (unlink_info sample_unlink) = 100" by (simp add: sample_unlink_def at_pid_def)
  ultimately have "replicate_item ?e ?m None None True sample_unlink_item ?s = Inr (0, s1\<lparr>sim := x\<rparr>)"
    using s1(1) by (simp add: replicate_item_def REPLICATE_def as_defs op_codes sample_unlink_item_def)
  then show ?thesis using m(3) by (simp add: replicate_all_def)
qed


end
