(* ===== verification/Replay_Ops.thy ===== *)
theory Replay_Ops
  imports Replay_Safety
begin

text \<open>
  What the handlers do to the descriptors, to the use counts and to the world: opening, closing,
  duplicating, reading and writing, and the creation of processes, each stated over the view
  \<open>descriptor\<close> of the tables.
\<close>

section \<open>Entering a descriptor\<close>

definition fresh_item :: "fd_store \<Rightarrow> i32 \<Rightarrow> fd_item" where
  "fresh_item st fd = \<lparr>fi_addr = next_addr st, old_fd = fd, fm_ptr = Suc (next_addr st)\<rparr>"

definition entered :: "addr \<Rightarrow> fd_item hash_table \<Rightarrow> fd_map \<Rightarrow> fd_store \<Rightarrow> fd_store" where
  "entered ht t m st =
     st\<lparr>fd_live := (fd_live st)(next_addr st := True), fd_maps := (fd_maps st)(Suc (next_addr st) \<mapsto> m),
       tables := (tables st)(ht \<mapsto> t), next_addr := Suc (Suc (next_addr st))\<rparr>"

definition one_parent :: "i32 \<Rightarrow> i32 list" where
  "one_parent fd = fd # replicate (MAX_PARENT_IDS - 1) (-1)"

lemma one_parent_slots: "\<exists>r. replicate MAX_PARENT_IDS (-1 :: i32) = -1 # r \<and> (\<forall>fd. one_parent fd = fd # r)"
proof -
  have "replicate MAX_PARENT_IDS (-1 :: i32) = -1 # replicate (MAX_PARENT_IDS - 1) (-1)"
    using replicate_more [of 0 MAX_PARENT_IDS "-1 :: i32"] by (simp add: MAX_PARENT_IDS_def)
  then show ?thesis by (simp add: one_parent_def)
qed

text \<open>The map of a file that was opened as \<open>name\<close> and is \<open>r\<close> in the replay.\<close>

definition open_map :: "fd_map \<Rightarrow> open_op \<Rightarrow> string \<Rightarrow> i32 \<Rightarrow> i32 \<Rightarrow> fd_map" where
  "open_map jk o_p name flags r =
     jk\<lparr>my_fd := r, cur_pos := 0, fm_time_open := start (open_info o_p), fm_name := take (MAX_STRING - 1) name,
       fm_created := and flags O_CREAT, parent_fds := one_parent (open_retval o_p), last_par_index := 0,
       fm_type := (if has_flag flags O_IGNORE then S_IFIGNORE
           else if has_flag flags O_DIRECTORY then S_IFDIR else S_IFREG)\<rparr>"

lemma alloc_run: "alloc_item s = (fresh_item (store s) 0, s\<lparr>store := snd (new_fd_item (store s))\<rparr>)"
  by (simp add: alloc_item_def new_fd_item_def fresh_item_def Let_def)

lemma enter_open_run:
  assumes t: "tables (store s) ht = Some t" and fd: "open_retval o_p \<noteq> -1"
    and ins: "hash_table_insert ht_ops_fditem (open_retval o_p) (fresh_item (store s) (open_retval o_p)) t = Inr t'"
    and u: "increase_fd_usage r (usage_map s) = Inr u'"
  shows "enter_open ht o_p name flags r (fresh_item (store s) 0) (s\<lparr>store := snd (new_fd_item (store s)), world := w, sim := x\<rparr>) =
    Inr (s\<lparr>store := entered ht t' (open_map (junk (store s)) o_p name flags r) (store s), usage_map := u', world := w, sim := x\<rparr>)"
proof -
  obtain q where R: "replicate MAX_PARENT_IDS (-1 :: i32) = -1 # q" "one_parent (open_retval o_p) = open_retval o_p # q"
    using one_parent_slots by blast
  show ?thesis
    using t ins u fd unfolding enter_open_def fresh_item_def new_fd_item_def Let_def update_map_def with_store_def
      insert_parent_fd_def insert_parent_def ht_insert_def use_fd_def entered_def open_map_def R
    by (simp add: deref_item_def get_map_def put_item_def set_map_def get_table_def set_table_def)
qed

section \<open>Open\<close>

text \<open>The flags that count: a file whose name is ignored gets \<open>O_IGNORE\<close>.\<close>

lemma replicate_open_run:
  assumes find: "get_process_ht (fd_mappings s) (pid (open_info o_p)) = Inr (Some ht)"
    and t: "tables (store s) ht = Some t" "hash_table_find ht_ops_fditem (open_retval o_p) t = Inr None"
    and fd: "open_retval o_p \<noteq> -1"
    and name: "map_name e (open_name o_p) s = Inr (Some name)"
    and call: "\<And>st. open_call e o_p name (open_flags o_p) m (s\<lparr>store := st\<rparr>) = Inr (r, s\<lparr>store := st, world := w, sim := x\<rparr>)" "r \<noteq> -1"
    and ins: "hash_table_insert ht_ops_fditem (open_retval o_p) (fresh_item (store s) (open_retval o_p)) t = Inr t'"
    and u: "increase_fd_usage r (usage_map s) = Inr u'"
  shows "replicate_open e o_p m s =
    Inr (s\<lparr>store := entered ht t' (open_map (junk (store s)) o_p name (open_flags o_p) r) (store s),
      usage_map := u', world := w, sim := x\<rparr>)"
proof -
  let ?s1 = "s\<lparr>store := snd (new_fd_item (store s))\<rparr>"
  have s1: "get_process_ht (fd_mappings ?s1) (pid (open_info o_p)) = Inr (Some ht)"
    "ht_find ht (open_retval o_p) ?s1 = Inr None" "map_name e (open_name o_p) ?s1 = Inr (Some name)"
    using find t name by (simp_all add: ht_find_def get_table_def new_fd_item_def Let_def map_name_def)
  show ?thesis
    using fd call(2) alloc_run [of s] find_ht_present [OF s1(1)] s1(2,3) call(1) [of "snd (new_fd_item (store s))"]
      enter_open_run [OF t(1) fd ins u, where name = name and flags = "open_flags o_p" and w = w and x = x]
    by (simp add: replicate_open_def)
qed

lemma no_descriptor:
  assumes "good k s" "get_process_ht (fd_mappings s) p = Inr (Some ht)" "nonneg fd" "descriptor s p fd = None"
    "tables (store s) ht = Some t"
  shows "fdt.table_inv t" "fdt.table_map t fd = None"
proof -
  show inv: "fdt.table_inv t" using assms(1,5) by (auto simp: good_def heap_ok_def tables_ok_def)
  show "fdt.table_map t fd = None"
  proof (rule ccontr)
    assume "fdt.table_map t fd \<noteq> None"
    then obtain it where "fdt.table_map t fd = Some it" by blast
    then have "found s ht fd it" using assms(5) by (simp add: found_def)
    then show False using descriptor_found [OF assms(2)] found_run(2) [OF assms(1)] assms(4) by fastforce
  qed
qed

text \<open>The open of a descriptor that is not in use.\<close>

lemma free_open_run:
  assumes g: "good k s" and use: "use_ok (usage_map s)"
    and p: "get_process_ht (fd_mappings s) (pid (open_info o_p)) = Inr (Some ht)"
    and fd: "nonneg (open_retval o_p)" "descriptor s (pid (open_info o_p)) (open_retval o_p) = None"
    and name: "map_name e (open_name o_p) s = Inr (Some name)"
    and call: "\<And>st. open_call e o_p name (open_flags o_p) m (s\<lparr>store := st\<rparr>) = Inr (r, s\<lparr>store := st, world := w, sim := x\<rparr>)"
    and r: "nonneg r" "uses (usage_map s) r < 2 ^ 31 - 1"
  obtains t t' u' where "tables (store s) ht = Some t" "fdt.table_inv t" "fdt.table_map t (open_retval o_p) = None"
    "hash_table_insert ht_ops_fditem (open_retval o_p) (fresh_item (store s) (open_retval o_p)) t = Inr t'"
    "fdt.table_map t' = (fdt.table_map t)(open_retval o_p \<mapsto> fresh_item (store s) (open_retval o_p))"
    "use_ok u'" "uses u' = (uses (usage_map s))(r := Suc (uses (usage_map s) r))"
    "replicate_open e o_p m s =
      Inr (s\<lparr>store := entered ht t' (open_map (junk (store s)) o_p name (open_flags o_p) r) (store s),
        usage_map := u', world := w, sim := x\<rparr>)"
proof -
  let ?fd = "open_retval o_p"
  have no: "?fd \<noteq> -1" "r \<noteq> -1" using fd(1) r(1) by auto
  obtain t where t: "tables (store s) ht = Some t"
    using g p get_process_ht_safe [of k s "pid (open_info o_p)"] by (auto simp: safeR_def ensuresR_def)
  have inv: "fdt.table_inv t" "fdt.table_map t ?fd = None"
    using no_descriptor [OF g p fd t] by auto
  have "old_fd (fresh_item (store s) ?fd) = ?fd" by (simp add: fresh_item_def)
  then obtain t' where t': "hash_table_insert ht_ops_fditem ?fd (fresh_item (store s) ?fd) t = Inr t'"
    "fdt.table_map t' = (fdt.table_map t)(?fd \<mapsto> fresh_item (store s) ?fd)"
    using fdt.insert_map [OF inv(1), of "fresh_item (store s) ?fd"] fd(1) inv(2) by auto
  obtain u' where u': "increase_fd_usage r (usage_map s) = Inr u'" "use_ok u'"
    "uses u' = (uses (usage_map s))(r := Suc (uses (usage_map s) r))"
    using increase_uses [OF use r] by auto
  have "hash_table_find ht_ops_fditem ?fd t = Inr None" using inv fd(1) by (simp add: fdt.find_map)
  from that [OF t inv t' u'(2,3) replicate_open_run [OF p t this no(1) name call no(2) t'(1) u'(1)]] show ?thesis .
qed

text \<open>How entering an item changes the view of the tables.\<close>

lemma entered_descriptor:
  assumes ok: "heap_ok k (store s)" and t: "tables (store s) ht = Some t"
    and t': "fdt.table_map t' = (fdt.table_map t)(fd \<mapsto> fresh_item (store s) fd)"
    and s': "store s' = entered ht t' m (store s)" "fd_mappings s' = fd_mappings s"
  shows "descriptor s' p = (if get_process_ht (fd_mappings s) p = Inr (Some ht)
    then (descriptor s p)(fd \<mapsto> m) else descriptor s p)"
proof -
  have old: "fd_maps (store s') (fm_ptr x) = fd_maps (store s) (fm_ptr x)"
    if "tables (store s) a = Some u" "fdt.table_map u q = Some x" for a u q x
  proof -
    have "fdt.table_inv u" using ok that(1) by (auto simp: heap_ok_def tables_ok_def)
    then have "(a, x) \<in> heap_entries (store s)" using table_item that by (auto simp: heap_entries_def)
    then show ?thesis using entry_bounds [OF ok] s'(1) by (force simp: entered_def)
  qed
  have other: "view (store s') u = view (store s) u" if "tables (store s) a = Some u" for a u
    using old [OF that] by (auto simp: view_def fun_eq_iff bind_eq_None_conv split: Option.bind_split)
  have here: "view (store s') t' = (view (store s) t)(fd \<mapsto> m)"
  proof
    fix q
    show "view (store s') t' q = ((view (store s) t)(fd \<mapsto> m)) q"
      using other [OF t] by (cases "q = fd") (simp_all add: view_def t' s'(1) entered_def fresh_item_def fun_eq_iff)
  qed
  have tab: "tables (store s') = (tables (store s))(ht \<mapsto> t')" using s'(1) by (simp add: entered_def)
  show ?thesis
  proof (cases "get_process_ht (fd_mappings s) p")
    case (Inr h)
    then show ?thesis
      using here tab t other
      by (cases h) (auto simp: descriptor_def s'(2) fun_eq_iff split: option.split)
  qed (simp add: descriptor_def s'(2) fun_eq_iff)
qed

lemma process_table:
  assumes "good k s" "nonneg p" "get_process_ht (fd_mappings s) p = Inr (Some ht)"
  shows "\<exists>t. tables (store s) ht = Some t"
  using get_process_ht_safe [OF assms(1), of p] assms(3) by (auto simp: safeR_def ensuresR_def)

text \<open>The premises of a successful open of a descriptor that is not in use.\<close>

definition opens :: "nat \<Rightarrow> 'w env \<Rightarrow> open_op \<Rightarrow> i32 \<Rightarrow> 'w rep \<Rightarrow> addr \<Rightarrow> string \<Rightarrow> i64 \<Rightarrow> 'w \<Rightarrow> bool" where
  "opens k e o_p m s ht name r w \<longleftrightarrow>
     good k s \<and> 1 \<le> k \<and> use_ok (usage_map s) \<and> replicates m \<and> \<not> has_flag (open_flags o_p) O_IGNORE \<and>
     get_process_ht (fd_mappings s) (pid (open_info o_p)) = Inr (Some ht) \<and>
     nonneg (open_retval o_p) \<and> descriptor s (pid (open_info o_p)) (open_retval o_p) = None \<and>
     map_name e (open_name o_p) s = Inr (Some name) \<and>
     sys e (Sys_open name (open_flags o_p) (if open_mode o_p = MODE_UNDEF then None else Some (open_mode o_p))) (world s) = (r, w) \<and>
     nonneg (ucast r) \<and> uses (usage_map s) (ucast r) < 2 ^ 31 - 1"

lemma opens_run:
  assumes "opens k e o_p m s ht name r w"
  obtains t t' u' where "tables (store s) ht = Some t" "fdt.table_inv t" "fdt.table_map t (open_retval o_p) = None"
    "hash_table_insert ht_ops_fditem (open_retval o_p) (fresh_item (store s) (open_retval o_p)) t = Inr t'"
    "fdt.table_map t' = (fdt.table_map t)(open_retval o_p \<mapsto> fresh_item (store s) (open_retval o_p))"
    "use_ok u'" "uses u' = (uses (usage_map s))(ucast r := Suc (uses (usage_map s) (ucast r)))"
    "replicate_open e o_p m s =
      Inr (s\<lparr>store := entered ht t' (open_map (junk (store s)) o_p name (open_flags o_p) (ucast r)) (store s),
        usage_map := u', world := w\<rparr>)"
proof -
  have call: "open_call e o_p name (open_flags o_p) m (s\<lparr>store := st\<rparr>) = Inr (ucast r, s\<lparr>store := st, world := w, sim := sim s\<rparr>)" for st
    using assms by (simp add: opens_def open_call_def call32_def call64_def)
  have h: "good k s" "use_ok (usage_map s)" "get_process_ht (fd_mappings s) (pid (open_info o_p)) = Inr (Some ht)"
    "nonneg (open_retval o_p)" "descriptor s (pid (open_info o_p)) (open_retval o_p) = None"
    "map_name e (open_name o_p) s = Inr (Some name)" "nonneg (ucast r)" "uses (usage_map s) (ucast r) < 2 ^ 31 - 1"
    using assms by (simp_all add: opens_def)
  show ?thesis
    by (rule free_open_run [OF h(1-6) call h(7,8)], rule that) (assumption | simp)+
qed

text \<open>
  C13: A recorded open of a file that was free in its process is replayed with one call of the system
  on the mapped name, with the recorded flags and mode. Then the descriptor is in the table of the
  process, and of all processes that share it, with the number that the system returned, position 0
  and the type that follows from the flags; the other descriptors stay, and the number has one more user.
\<close>

theorem replicate_open_enters:
  assumes "opens k e o_p m s ht name r w"
  shows "\<exists>s'. replicate_open e o_p m s = Inr s' \<and> good k s' \<and> world s' = w \<and>
    (\<forall>q. descriptor s' q = (if get_process_ht (fd_mappings s) q = Inr (Some ht)
       then (descriptor s q)(open_retval o_p \<mapsto> open_map (junk (store s)) o_p name (open_flags o_p) (ucast r))
       else descriptor s q)) \<and>
    use_ok (usage_map s') \<and> uses (usage_map s') = (uses (usage_map s))(ucast r := Suc (uses (usage_map s) (ucast r)))"
proof -
  obtain t t' u' where run: "tables (store s) ht = Some t"
    "fdt.table_map t' = (fdt.table_map t)(open_retval o_p \<mapsto> fresh_item (store s) (open_retval o_p))"
    "use_ok u'" "uses u' = (uses (usage_map s))(ucast r := Suc (uses (usage_map s) (ucast r)))"
    "replicate_open e o_p m s =
      Inr (s\<lparr>store := entered ht t' (open_map (junk (store s)) o_p name (open_flags o_p) (ucast r)) (store s),
        usage_map := u', world := w\<rparr>)"
    using opens_run [OF assms] by metis
  let ?s = "s\<lparr>store := entered ht t' (open_map (junk (store s)) o_p name (open_flags o_p) (ucast r)) (store s),
        usage_map := u', world := w\<rparr>"
  have g: "good k s" "1 \<le> k" using assms by (simp_all add: opens_def)
  have "good k ?s"
    using replicate_open_safe [OF g, of "{}" e o_p m] run(5) by (auto simp: safeR_def ensuresR_def post_def)
  moreover have "descriptor ?s q = (if get_process_ht (fd_mappings s) q = Inr (Some ht)
       then (descriptor s q)(open_retval o_p \<mapsto> open_map (junk (store s)) o_p name (open_flags o_p) (ucast r))
       else descriptor s q)" for q
    by (rule entered_descriptor [OF good_heap [OF g(1)] run(1,2)]) simp_all
  ultimately show ?thesis using run(3-5) by simp
qed

section \<open>Close\<close>

lemma one_parent_are: "fd \<noteq> -1 \<Longrightarrow> parent_fds m = one_parent fd \<Longrightarrow> last_par_index m = 0 \<Longrightarrow> parents_are [fd] m"
  by (simp add: parents_are_def one_parent_def MAX_PARENT_IDS_def)

text \<open>Closing an item that was just entered gives back the tables; its memory stays freed.\<close>

lemma entered_closed:
  assumes inv: "fdt.table_inv t" and new: "fdt.table_map t fd = None" and fd: "nonneg fd" "fd \<noteq> -1"
    and ins: "hash_table_insert ht_ops_fditem fd (fresh_item st fd) t = Inr t'"
    and m: "parent_fds m = one_parent fd" "last_par_index m = 0" and t: "tables st ht = Some t"
  shows "\<exists>st'. close_item ht fd (fresh_item st fd) (entered ht t' m st) = Inr st' \<and> tables st' = tables st \<and>
    (\<forall>a<next_addr st. fd_maps st' a = fd_maps st a)"
proof -
  let ?x = "fresh_item st fd" and ?st = "entered ht t' m st"
  obtain m' where del: "delete_parent fd m = Inr (True, m')"
    using delete_parent_present [OF one_parent_are [OF fd(2) m]] by fastforce
  have d: "deref_item ?st ?x = Inr m" by (simp add: deref_item_def get_map_def entered_def fresh_item_def)
  have rem: "hash_table_remove ht_ops_fditem fd t' = Inr (Some ?x, t)"
    using fdt.insert_remove [of t ?x t'] inv new fd(1) ins by (simp add: fresh_item_def)
  let ?st' = "?st\<lparr>fd_maps := (fd_maps ?st)(Suc (next_addr st) := None), tables := (tables ?st)(ht \<mapsto> t),
     fd_live := (fd_live ?st)(next_addr st := False)\<rparr>"
  have "close_item ht fd ?x ?st = Inr ?st'"
    using d del rem
    by (simp add: close_item_def delete_parent_fd_def put_item_def set_map_def get_table_def set_table_def free_item_def
        free_map_def get_map_def entered_def fresh_item_def)
  moreover have "tables ?st' = tables st" using t by (simp add: entered_def fun_upd_idem)
  moreover have "\<forall>a<next_addr st. fd_maps ?st' a = fd_maps st a" by (simp add: entered_def)
  ultimately show ?thesis by blast
qed

lemma descriptor_same:
  assumes ok: "heap_ok k (store s)" and tab: "tables (store s') = tables (store s)"
    and maps: "\<And>a. a < next_addr (store s) \<Longrightarrow> fd_maps (store s') a = fd_maps (store s) a"
    and p: "fd_mappings s' = fd_mappings s"
  shows "descriptor s' = descriptor s"
proof -
  have "view (store s') u = view (store s) u" if u: "tables (store s) a = Some u" for a u
  proof -
    have "fd_maps (store s') (fm_ptr x) = fd_maps (store s) (fm_ptr x)" if "fdt.table_map u q = Some x" for q x
    proof -
      have "fdt.table_inv u" using ok u by (auto simp: heap_ok_def tables_ok_def)
      then have "(a, x) \<in> heap_entries (store s)" using table_item that u by (auto simp: heap_entries_def)
      then show ?thesis using entry_bounds [OF ok] maps by force
    qed
    then show ?thesis by (auto simp: view_def fun_eq_iff bind_eq_None_conv split: Option.bind_split)
  qed
  then show ?thesis by (auto simp: descriptor_def fun_eq_iff tab p split: option.split sum.split)
qed

lemma open_map_fields:
  "my_fd (open_map jk o_p n fl r) = r" "parent_fds (open_map jk o_p n fl r) = one_parent (open_retval o_p)"
  "last_par_index (open_map jk o_p n fl r) = 0"
  "fm_type (open_map jk o_p n fl r) = (if has_flag fl O_IGNORE then S_IFIGNORE else if has_flag fl O_DIRECTORY then S_IFDIR else S_IFREG)"
  by (cases jk; simp add: open_map_def)+

text \<open>
  C16: Closing a descriptor right after it was opened undoes the open: the descriptors of all
  processes and all use counts are as before. The system closes the number that it opened when
  nothing else in the replay uses it, and otherwise no call is made.
\<close>

theorem open_close_roundtrip:
  assumes "opens k e o_p m s ht name r w" "replicate_open e o_p m s = Inr s1"
    and "close_fd c = open_retval o_p" "pid (close_info c) = pid (open_info o_p)"
    and "sys e (Sys_close (ucast r)) w = (r', w')" "(ucast r' :: i32) \<noteq> -1"
  shows "\<exists>s2. replicate_close e c m s1 = Inr s2 \<and> descriptor s2 = descriptor s \<and>
    use_ok (usage_map s2) \<and> uses (usage_map s2) = uses (usage_map s) \<and>
    world s2 = (if uses (usage_map s) (ucast r) = 0 then w' else w)"
proof -
  let ?fd = "open_retval o_p" and ?st = "store s"
  let ?m = "open_map (junk ?st) o_p name (open_flags o_p) (ucast r)"
  obtain t t' u' where run: "tables ?st ht = Some t" "fdt.table_inv t" "fdt.table_map t ?fd = None"
    "hash_table_insert ht_ops_fditem ?fd (fresh_item ?st ?fd) t = Inr t'"
    "fdt.table_map t' = (fdt.table_map t)(?fd \<mapsto> fresh_item ?st ?fd)"
    "use_ok u'" "uses u' = (uses (usage_map s))(ucast r := Suc (uses (usage_map s) (ucast r)))"
    "replicate_open e o_p m s = Inr (s\<lparr>store := entered ht t' ?m ?st, usage_map := u', world := w\<rparr>)"
    using opens_run [OF assms(1)] by metis
  have s1: "s1 = s\<lparr>store := entered ht t' ?m ?st, usage_map := u', world := w\<rparr>" using run(8) assms(2) by simp
  have g: "good k s" "1 \<le> k" and p: "get_process_ht (fd_mappings s) (pid (open_info o_p)) = Inr (Some ht)"
    and o: "replicates m" "\<not> has_flag (open_flags o_p) O_IGNORE" and fd: "nonneg ?fd" "nonneg (ucast r)"
    using assms(1) by (simp_all add: opens_def)
  have fd1: "?fd \<noteq> -1" using fd(1) by auto
  have g1: "good k s1"
    using replicate_open_safe [OF g, of "{}" e o_p m] assms(2) by (auto simp: safeR_def ensuresR_def post_def)
  have f1: "found s1 ht ?fd (fresh_item ?st ?fd)" using run(5) by (simp add: s1 found_def entered_def)
  have d1: "deref_item (store s1) (fresh_item ?st ?fd) = Inr ?m"
    by (simp add: s1 deref_item_def get_map_def entered_def fresh_item_def)
  have loc: "locate e (close_info c) (close_fd c) m s1 = Inr (Some (ht, fresh_item ?st ?fd), s1)"
    using locate_present [OF g1 _ f1, of "close_info c" e m] p assms(3,4) by (simp add: s1)
  have sup: "supported_type (fm_type ?m)" using o(2) by (simp add: open_map_fields supported_type_def)
  obtain u2 where u2: "decrease_fd_usage (ucast r) u' = Inr (uses (usage_map s) (ucast r) = 0, u2)" "use_ok u2"
    "uses u2 = uses (usage_map s)"
    using decrease_uses [OF run(6) fd(2)] run(7) by auto
  let ?w = "if uses (usage_map s) (ucast r) = 0 then w' else w"
  have drop: "\<exists>x. drop_user e ?m m s1 = Inr (x, s1\<lparr>usage_map := u2, world := ?w\<rparr>) \<and> x \<noteq> -1"
    using sup u2(1) o(1) assms(5,6) by (auto simp: drop_user_def open_map_fields s1 call32_def call64_def)
  obtain st' where st': "close_item ht ?fd (fresh_item ?st ?fd) (entered ht t' ?m ?st) = Inr st'" "tables st' = tables ?st"
    "\<forall>a<next_addr ?st. fd_maps st' a = fd_maps ?st a"
    using entered_closed [OF run(2,3) fd(1) fd1 run(4) open_map_fields(2,3) run(1)] by blast
  let ?s2 = "s1\<lparr>usage_map := u2, world := ?w, store := st'\<rparr>"
  have "replicate_close e c m s1 = Inr ?s2"
    using loc d1 drop st'(1) close_tail [of "fresh_item ?st ?fd" ?fd "s1\<lparr>usage_map := u2, world := ?w\<rparr>" ht] assms(3)
    by (auto simp: replicate_close_def s1)
  moreover have "descriptor ?s2 = descriptor s"
    by (rule descriptor_same [OF good_heap [OF g(1)]]) (use st' in \<open>simp_all add: s1\<close>)
  ultimately show ?thesis using u2 by (intro exI [of _ ?s2]) simp
qed

section \<open>Shared maps\<close>

text \<open>The address of the map that a descriptor refers to: duplicates and threads share one.\<close>

definition descriptor_addr :: "'w rep \<Rightarrow> i32 \<Rightarrow> i32 \<Rightarrow> addr option" where
  "descriptor_addr s p fd =
     (case get_process_ht (fd_mappings s) p of
        Inr (Some ht) \<Rightarrow>
          (case tables (store s) ht of None \<Rightarrow> None | Some t \<Rightarrow> map_option fm_ptr (fdt.table_map t fd))
      | _ \<Rightarrow> None)"

lemma descriptor_by_addr: "descriptor s p fd = Option.bind (descriptor_addr s p fd) (fd_maps (store s))"
  by (auto simp: descriptor_def descriptor_addr_def view_def bind_map_option comp_def split: sum.split option.split)

lemma descriptor_addr_same:
  assumes tab: "tables (store s') = tables (store s)" and p: "fd_mappings s' = fd_mappings s"
  shows "descriptor_addr s' = descriptor_addr s"
  by (intro ext) (unfold descriptor_addr_def tab p, rule refl)

lemma descriptor_same_store:
  assumes st: "store s' = store s" and p: "fd_mappings s' = fd_mappings s"
  shows "descriptor_addr s' = descriptor_addr s" "descriptor s' = descriptor s"
proof -
  show a: "descriptor_addr s' = descriptor_addr s" by (rule descriptor_addr_same) (simp_all add: st p)
  show "descriptor s' = descriptor s" by (intro ext) (simp add: descriptor_by_addr a st)
qed

lemma descriptor_addr_found:
  assumes "get_process_ht (fd_mappings s) p = Inr (Some ht)" "found s ht fd it"
  shows "descriptor_addr s p fd = Some (fm_ptr it)"
  using assms by (auto simp: descriptor_addr_def found_def)

lemma update_descriptor:
  assumes "good k s" "found s ht fd it" "deref_item (store s) it = Inr fm"
  shows "\<exists>s'. update_map it f s = Inr s' \<and> world s' = world s \<and> usage_map s' = usage_map s \<and> sim s' = sim s \<and>
    names s' = names s \<and> fd_mappings s' = fd_mappings s \<and> tables (store s') = tables (store s) \<and>
    (\<forall>q. descriptor s' q = (\<lambda>fd'. if descriptor_addr s q fd' = Some (fm_ptr it) then Some (f fm) else descriptor s q fd'))"
proof -
  let ?s = "s\<lparr>store := set_map (fm_ptr it) (f fm) (store s)\<rparr>"
  have run: "update_map it f s = Inr ?s"
    using assms(3) by (simp add: update_map_def with_store_def put_item_def)
  have "descriptor_addr ?s = descriptor_addr s" by (rule descriptor_addr_same) (simp_all add: set_map_def)
  then have "descriptor ?s q fd' = (if descriptor_addr s q fd' = Some (fm_ptr it) then Some (f fm) else descriptor s q fd')" for q fd'
    unfolding descriptor_by_addr by (cases "descriptor_addr s q fd'") (simp_all add: set_map_def)
  with run show ?thesis by (intro exI [of _ ?s]) (simp add: fun_eq_iff set_map_def)
qed

section \<open>Reading and writing\<close>

text \<open>
  C29: A recorded read of a regular file or directory that the replay has open makes one \<open>read\<close> of the
  recorded size on the replay's own descriptor, and moves the position by its result, for this
  descriptor and for every descriptor of any process that shares its map, and for no other. A read
  that returns more than the buffer holds stops the program.
\<close>

theorem replicate_read_performs:
  assumes "good k s" "descriptor s (pid (read_info o_p)) (read_fd o_p) = Some fm" "supported_type (fm_type fm)"
    and "replicates m" "\<not> simulates m"
    and "sys e (Sys_read (my_fd fm) (read_size o_p)) (world s) = (r, w)"
  shows "if sint r \<le> sint MAX_DATA then
      \<exists>s'. replicate_read e o_p m s = Inr s' \<and> world s' = w \<and> usage_map s' = usage_map s \<and>
        (\<forall>q. descriptor s' q = (\<lambda>fd. if descriptor_addr s q fd = descriptor_addr s (pid (read_info o_p)) (read_fd o_p)
           then Some (fm\<lparr>cur_pos := cur_pos fm + r\<rparr>) else descriptor s q fd))
    else replicate_read e o_p m s = Inl Overflow"
proof -
  obtain ht it where h: "get_process_ht (fd_mappings s) (pid (read_info o_p)) = Inr (Some ht)" "found s ht (read_fd o_p) it"
    "deref_item (store s) it = Inr fm" using descriptor_Some [OF assms(1,2)] by metis
  note loc = locate_present [OF assms(1) h(1,2), of e m]
  let ?s1 = "s\<lparr>world := w\<rparr>"
  have tr: "transfer e m r0 sm (Sys_read (my_fd fm) (read_size o_p)) s =
      (if sint r \<le> sint MAX_DATA then Inr (r, ?s1) else Inl Overflow)" for r0 sm
    using assms(4-6) by (auto simp: transfer_def call64_def)
  have run: "replicate_read e o_p m s = (if sint r \<le> sint MAX_DATA
      then update_map it (\<lambda>fm. fm\<lparr>cur_pos := cur_pos fm + r\<rparr>) ?s1 else Inl Overflow)"
    using loc h(3) assms(3) by (simp add: replicate_read_def tr)
  have g1: "good k ?s1" "found ?s1 ht (read_fd o_p) it" "deref_item (store ?s1) it = Inr fm"
    using assms(1) h by (simp_all add: good_def found_def)
  have a: "descriptor_addr ?s1 = descriptor_addr s" "descriptor ?s1 = descriptor s"
    by (rule descriptor_same_store; simp)+
  show ?thesis
    using run update_descriptor [OF g1, of "\<lambda>fm. fm\<lparr>cur_pos := cur_pos fm + r\<rparr>", unfolded a]
      descriptor_addr_found [OF h(1,2)] by auto
qed

text \<open>
  Descriptors that the replay does not support (pipes, sockets, the standard descriptors, ignored
  files) are passed over: reading, writing and seeking change neither the world nor the tables, in
  every mode.
\<close>

theorem unsupported_passed_over:
  assumes "good k s" "descriptor s p fd = Some fm" "\<not> supported_type (fm_type fm)"
  shows "(pid (read_info o_read) = p \<and> read_fd o_read = fd \<longrightarrow> replicate_read e o_read m s = Inr s) \<and>
    (pid (write_info o_write) = p \<and> write_fd o_write = fd \<longrightarrow> replicate_write e o_write m s = Inr s) \<and>
    (pid (pread_info o_pread) = p \<and> pread_fd o_pread = fd \<longrightarrow> replicate_pread e o_pread m s = Inr s) \<and>
    (pid (pwrite_info o_pwrite) = p \<and> pwrite_fd o_pwrite = fd \<longrightarrow> replicate_pwrite e o_pwrite m s = Inr s) \<and>
    (pid (lseek_info o_lseek) = p \<and> lseek_fd o_lseek = fd \<longrightarrow> replicate_lseek e o_lseek m s = Inr s) \<and>
    (pid (llseek_info o_llseek) = p \<and> llseek_fd o_llseek = fd \<longrightarrow> replicate_llseek e o_llseek m s = Inr s)"
proof -
  obtain ht it where h: "get_process_ht (fd_mappings s) p = Inr (Some ht)" "found s ht fd it"
    "deref_item (store s) it = Inr fm" using descriptor_Some [OF assms(1,2)] by metis
  note loc = locate_present [OF assms(1) _ h(2)]
  note defs = replicate_read_def replicate_write_def replicate_pread_def replicate_pwrite_def replicate_lseek_def replicate_llseek_def
  show ?thesis
    using h assms(3) loc [of "read_info o_read" e m] loc [of "write_info o_write" e m] loc [of "pread_info o_pread" e m]
      loc [of "pwrite_info o_pwrite" e m] loc [of "lseek_info o_lseek" e m] loc [of "llseek_info o_llseek" e m]
    by (auto simp: defs)
qed

section \<open>Duplicating\<close>

text \<open>The premises of a duplication to a number that is free.\<close>

lemma descriptor_free:
  assumes "good k s" "get_process_ht (fd_mappings s) p = Inr (Some ht)" "nonneg fd" "descriptor s p fd = None"
    "tables (store s) ht = Some t" "\<not> global_fix_missing s" "pid info = p"
  shows "locate e info fd m s = Inr (None, s)"
proof -
  have "fdt.table_inv t" "fdt.table_map t fd = None" using no_descriptor [OF assms(1-5)] by blast+
  then have "ht_find ht fd s = Inr None" using assms(3,5) by (simp add: ht_find_def get_table_def fdt.find_map)
  then show ?thesis
    using assms(2,6,7) by (simp add: locate_def find_ht_present replicate_get_fd_map_def)
qed

text \<open>The state in which \<open>replicate_dup\<close> closes the new number: an item is allocated, its map freed again.\<close>

lemma dup_alloc:
  assumes good: "good k s"
  shows "\<exists>st. free_map (Suc (next_addr (store s))) (snd (new_fd_item (store s))) = Inr st \<and>
    st = (store s)\<lparr>fd_live := (fd_live (store s))(next_addr (store s) := True), next_addr := Suc (Suc (next_addr (store s)))\<rparr> \<and>
    good k (s\<lparr>store := st\<rparr>)"
proof -
  let ?n = "next_addr (store s)"
  let ?st = "(store s)\<lparr>fd_live := (fd_live (store s))(?n := True), next_addr := Suc (Suc ?n)\<rparr>"
  let ?s2 = "s\<lparr>store := snd (new_fd_item (store s))\<rparr>"
  have fresh: "fd_maps (store s) (Suc ?n) = None" using good by (simp add: good_def heap_ok_def store_fresh_def)
  have run: "free_map (Suc ?n) (snd (new_fd_item (store s))) = Inr ?st"
    using fresh by (simp add: free_map_def get_map_def new_fd_item_def Let_def fun_upd_idem)
  have a: "post k ?n {} s ?s2" "pending (store ?s2) (fresh_item (store s) 0) {}" "?n \<le> fm_ptr (fresh_item (store s) 0)"
    using alloc_safe [OF good alloc_run] by blast+
  have "free_map (fm_ptr (fresh_item (store s) 0)) (store ?s2) = Inr ?st" using run by (simp add: fresh_item_def)
  then obtain st where "st = ?st" "heap_ok k st" "keeps ?n {} (store ?s2) st"
    using free_pending_map [OF good_heap [OF post_good [OF a(1)]] a(2,3), of "{}"] by auto
  then have "post k ?n {} ?s2 (?s2\<lparr>store := ?st\<rparr>)" using good_store [OF post_good [OF a(1)]] by blast
  then have "good k (s\<lparr>store := ?st\<rparr>)" using post_good by force
  with run show ?thesis by blast
qed

lemma descriptor_addr_insert:
  assumes "tables (store s') = (tables (store s))(ht \<mapsto> t')" "fd_mappings s' = fd_mappings s"
    and "tables (store s) ht = Some t" "fdt.table_map t' = (fdt.table_map t)(fd \<mapsto> x)"
  shows "descriptor_addr s' q = (if get_process_ht (fd_mappings s) q = Inr (Some ht)
    then (descriptor_addr s q)(fd := Some (fm_ptr x)) else descriptor_addr s q)"
proof (cases "get_process_ht (fd_mappings s) q")
  case (Inr h)
  then show ?thesis by (cases h) (auto simp: descriptor_addr_def assms fun_eq_iff)
qed (simp add: descriptor_addr_def assms fun_eq_iff)

lemma insert_parent_cases:
  assumes "parents_ok m" "fd \<noteq> -1" "card (parent_set m) < MAX_PARENT_IDS"
  shows "if fd \<in> parent_set m then insert_parent fd m = Inl Assertion
    else \<exists>m'. insert_parent fd m = Inr m' \<and> parent_set m' = insert fd (parent_set m) \<and>
      m' = m\<lparr>parent_fds := parent_fds m', last_par_index := last_par_index m'\<rparr>"
proof -
  obtain ps where ps: "parents_are ps m" "set ps = parent_set m" "length ps = card (parent_set m)"
    using assms(1) by (rule parents_okE)
  show ?thesis
  proof (cases "fd \<in> parent_set m")
    case True
    then show ?thesis using insert_parent_taken [OF ps(1)] ps(2) by simp
  next
    case False
    obtain fds where f: "insert_parent fd m = Inr (m\<lparr>parent_fds := fds, last_par_index := last_par_index m + 1\<rparr>)"
      "parents_are (ps @ [fd]) (m\<lparr>parent_fds := fds, last_par_index := last_par_index m + 1\<rparr>)"
      using insert_parent_free [OF ps(1) assms(2)] False ps assms(3) by auto
    have "parent_set (m\<lparr>parent_fds := fds, last_par_index := last_par_index m + 1\<rparr>) = insert fd (parent_set m)"
      using parents_are_ok [OF f(2)] ps(2) by simp
    with f(1) False show ?thesis by simp
  qed
qed

text \<open>
  C30: A duplication to a number that is free, with \<open>FIX_MISSING\<close> off: the new descriptor of the process
  (and of those that share its table) refers to the very map of the old one, which has one more
  parent and otherwise stays; no other descriptor changes, no call is made, and the number in the
  replay has one more user.
\<close>

theorem replicate_dup_shares:
  assumes "good k s" "1 \<le> k" "k < MAX_PARENT_IDS" "\<not> global_fix_missing s" "use_ok (usage_map s)"
    and "p = pid (dup_info o_p)" "get_process_ht (fd_mappings s) p = Inr (Some ht)" "nonneg p"
    and "descriptor s p (dup_old_fd o_p) = Some fm" "nonneg (my_fd fm)" "uses (usage_map s) (my_fd fm) < 2 ^ 31 - 1"
    and "nonneg (dup_retval o_p)" "descriptor s p (dup_retval o_p) = None"
  shows "if dup_retval o_p \<in> parent_set fm then replicate_dup e o_p m s = Inl Assertion
    else \<exists>s' fm'. replicate_dup e o_p m s = Inr s' \<and> world s' = world s \<and>
      (\<forall>q. descriptor_addr s' q = (if get_process_ht (fd_mappings s) q = Inr (Some ht)
         then (descriptor_addr s q)(dup_retval o_p := descriptor_addr s p (dup_old_fd o_p)) else descriptor_addr s q)) \<and>
      (\<forall>q fd. descriptor s' q fd = (if descriptor_addr s' q fd = descriptor_addr s p (dup_old_fd o_p) then Some fm'
         else descriptor s q fd)) \<and>
      fm' = fm\<lparr>parent_fds := parent_fds fm', last_par_index := last_par_index fm'\<rparr> \<and>
      parent_set fm' = insert (dup_retval o_p) (parent_set fm) \<and>
      uses (usage_map s') = (uses (usage_map s))(my_fd fm := Suc (uses (usage_map s) (my_fd fm)))"
proof -
  let ?new = "dup_retval o_p" and ?old = "dup_old_fd o_p"
  obtain it where h: "found s ht ?old it" "deref_item (store s) it = Inr fm" "fd_maps (store s) (fm_ptr it) = Some fm"
    using descriptor_Some [OF assms(1,9)] assms(7) by (metis sum.inject(2) option.inject)
  have E: "(ht, it) \<in> heap_entries (store s)" using found_entry [OF assms(1) h(1)] by blast
  have b: "fi_addr it < next_addr (store s)" "fm_ptr it < next_addr (store s)"
    using entry_bounds [OF good_heap [OF assms(1)] E] by auto
  have new: "?new \<noteq> -1" "?new \<noteq> ?old" using assms(9,12,13) by auto
  obtain t where t: "tables (store s) ht = Some t" using h(1) by (auto simp: found_def)
  let ?n = "next_addr (store s)"
  obtain st where st: "free_map (Suc ?n) (snd (new_fd_item (store s))) = Inr st"
    "st = (store s)\<lparr>fd_live := (fd_live (store s))(?n := True), next_addr := Suc (Suc ?n)\<rparr>" "good k (s\<lparr>store := st\<rparr>)"
    using dup_alloc [OF assms(1)] by blast
  let ?s3 = "s\<lparr>store := st\<rparr>"
  have a3: "descriptor_addr ?s3 = descriptor_addr s" by (rule descriptor_addr_same) (simp_all add: st(2))
  have d3: "descriptor ?s3 p ?new = None" using assms(13) unfolding descriptor_by_addr a3 by (simp add: st(2))
  have f3: "found ?s3 ht ?old it" using h(1) by (simp add: found_def st(2))
  have close: "replicate_close e \<lparr>close_fd = ?new, close_retval = 0,
      close_info = \<lparr>pid = p, dur = 0, start = junk_start e\<rparr>\<rparr> m ?s3 = Inr ?s3"
    using descriptor_free [OF st(3) _ assms(12) d3, of ht t "\<lparr>pid = p, dur = 0, start = junk_start e\<rparr>" e m] assms(4,7) t
    by (simp add: replicate_close_def st(2))
  have d: "deref_item st it = Inr fm" using h(2,3) b by (auto simp: deref_item_def get_map_def st(2) split: if_splits)
  have "good_item k (store s) it" using assms(1) E by (force simp: good_def heap_ok_def)
  then have par: "parents_ok fm" "card (parent_set fm) < MAX_PARENT_IDS"
    using h(3) assms(3) by (auto simp: good_item_def good_map_def)
  have run: "replicate_dup e o_p m s = bindR (with_store (insert_parent_fd it ?new) ?s3) (\<lambda>s.
      bindR (ht_insert ht ?new (\<lparr>fi_addr = ?n, old_fd = ?new, fm_ptr = fm_ptr it\<rparr>) s) (\<lambda>s.
      bindR (deref_item (store s) (\<lparr>fi_addr = ?n, old_fd = ?new, fm_ptr = fm_ptr it\<rparr>)) (\<lambda>fm. use_fd (my_fd fm) s)))"
    using new(1) locate_present [OF assms(1) _ h(1), of "dup_info o_p" e m] assms(6,7) alloc_run [of s] st(1)
      found_run(1) [OF st(3) f3] close
    by (simp add: replicate_dup_def with_store_def fresh_item_def Let_def)
  show ?thesis
  proof (cases "?new \<in> parent_set fm")
    case True
    then have "insert_parent ?new fm = Inl Assertion" using insert_parent_cases [OF par(1) new(1) par(2)] by simp
    with True show ?thesis unfolding run by (simp add: with_store_def insert_parent_fd_def d)
  next
    case False
    then obtain fm' where fm': "insert_parent ?new fm = Inr fm'" "parent_set fm' = insert ?new (parent_set fm)"
      "fm' = fm\<lparr>parent_fds := parent_fds fm', last_par_index := last_par_index fm'\<rparr>"
      using insert_parent_cases [OF par(1) new(1) par(2)] by auto
    have my: "my_fd fm' = my_fd fm" by (subst fm'(3)) simp
    let ?x = "\<lparr>fi_addr = ?n, old_fd = ?new, fm_ptr = fm_ptr it\<rparr>"
    obtain t' where t': "hash_table_insert ht_ops_fditem ?new ?x t = Inr t'"
      "fdt.table_map t' = (fdt.table_map t)(?new \<mapsto> ?x)"
      using fdt.insert_map [of t ?x] no_descriptor [OF assms(1,7,12,13) t] assms(12) by auto
    obtain u' where u': "increase_fd_usage (my_fd fm) (usage_map s) = Inr u'"
      "uses u' = (uses (usage_map s))(my_fd fm := Suc (uses (usage_map s) (my_fd fm)))"
      using increase_uses [OF assms(5,10,11)] by blast
    let ?s' = "s\<lparr>store := set_table ht t' (set_map (fm_ptr it) fm' st), usage_map := u'\<rparr>"
    have "replicate_dup e o_p m s = Inr ?s'"
      unfolding run using d fm'(1) t t'(1) u'(1) my
      by (simp add: with_store_def insert_parent_fd_def put_item_def ht_insert_def get_table_def use_fd_def st(2)
          set_map_def set_table_def deref_item_def get_map_def)
    moreover have addr: "descriptor_addr ?s' q = (if get_process_ht (fd_mappings s) q = Inr (Some ht)
       then (descriptor_addr s q)(?new := descriptor_addr s p ?old) else descriptor_addr s q)" for q
    proof -
      have o: "descriptor_addr s p ?old = Some (fm_ptr it)" using descriptor_addr_found [OF assms(7) h(1)] .
      show ?thesis
        using descriptor_addr_insert [of ?s' s ht t' t ?new ?x q] t t'(2) o by (simp add: set_table_def set_map_def st(2))
    qed
    moreover have "descriptor ?s' q fd = (if descriptor_addr ?s' q fd = descriptor_addr s p ?old then Some fm'
         else descriptor s q fd)" for q fd
    proof -
      have o: "descriptor_addr s p ?old = Some (fm_ptr it)" using descriptor_addr_found [OF assms(7) h(1)] .
      have m: "fd_maps (store ?s') = (fd_maps (store s))(fm_ptr it \<mapsto> fm')" by (simp add: set_table_def set_map_def st(2))
      show ?thesis
        unfolding descriptor_by_addr [of ?s'] o m
        by (cases "descriptor_addr ?s' q fd") (use addr [of q] o in \<open>auto simp: descriptor_by_addr split: if_splits\<close>)
    qed
    ultimately show ?thesis using False fm'(2,3) u'(2) by (intro if_not_P [THEN iffD2]) auto
  qed
qed

section \<open>New processes\<close>

lemma descriptor_addr_as:
  assumes tab: "tables (store s') = tables (store s)" and p: "get_process_ht (fd_mappings s') q = get_process_ht (fd_mappings s) p"
  shows "descriptor_addr s' q = descriptor_addr s p"
  by (intro ext) (unfold descriptor_addr_def tab p, rule refl)

lemma get_process_map:
  assumes "prc.table_inv t" "nonneg q"
  shows "get_process_ht t q = Inr (case prc.table_map t q of None \<Rightarrow> None | Some h \<Rightarrow> if q = p_pid h then p_ht h else None)"
  using assms by (simp add: get_process_ht_def prc.find_map split: option.split)

lemma register_process:
  assumes "prc.table_inv t" "nonneg p" "prc.table_map t p = None" "p_pid h = p"
  shows "\<exists>t'. hash_table_insert ht_ops_fdmapping p h t = Inr t' \<and>
    get_process_ht t' p = Inr (p_ht h) \<and> (\<forall>q. q \<noteq> p \<longrightarrow> nonneg q \<longrightarrow> get_process_ht t' q = get_process_ht t q)"
proof -
  obtain t' where t': "hash_table_insert ht_ops_fdmapping p h t = Inr t'" "prc.table_inv t'" "prc.table_map t' = (prc.table_map t)(p \<mapsto> h)"
    using prc.insert_map [OF assms(1), of h] assms(2-4) by auto
  then show ?thesis using assms by (auto simp: get_process_map)
qed

text \<open>The part of \<open>replicate_clone\<close> before the table of the new process is made leaves the store as it is, up to one address.\<close>

lemma clone_start:
  assumes good: "good k s" and new: "get_process_ht (fd_mappings s) (clone_retval o_p) = Inr None"
    and old: "get_process_ht (fd_mappings s) (pid (clone_info o_p)) = Inr parent"
  shows "replicate_clone o_p s =
    (let st = (store s)\<lparr>next_addr := Suc (next_addr (store s))\<rparr> in
     bindR (if has_flag (clone_mode o_p) CLONE_FILES then Inr (parent, usage_map s, st)
            else bindR (duplicate_process_ht parent (usage_map s) st) (\<lambda>(h, u, st). Inr (Some h, u, st))) (\<lambda>(h, u, st).
     bindR (hash_table_insert ht_ops_fdmapping (clone_retval o_p) (\<lparr>p_pid = clone_retval o_p, p_ht = h\<rparr>) (fd_mappings s)) (\<lambda>t.
     Inr (s\<lparr>fd_mappings := t, usage_map := u, store := st\<rparr>))))"
proof -
  have "tables (store s) (next_addr (store s)) = None" using good by (simp add: good_def heap_ok_def store_fresh_def)
  then have "(tables (store s))(next_addr (store s) := None) = tables (store s)" by (simp add: fun_upd_idem)
  then show ?thesis using new old by (simp add: replicate_clone_def new_process_ht_def Let_def)
qed

text \<open>
  A new process that shares the descriptors of its parent (\<open>CLONE_FILES\<close>) gets the very table of
  the parent: every descriptor refers to the same map, and nothing else changes. So later opens,
  closes and position changes of either are seen by both.
\<close>

theorem clone_shares_table:
  assumes "good k s" "has_flag (clone_mode o_p) CLONE_FILES"
    and "nonneg (clone_retval o_p)" "prc.table_map (fd_mappings s) (clone_retval o_p) = None"
    and "get_process_ht (fd_mappings s) (pid (clone_info o_p)) = Inr (Some ht)"
  shows "\<exists>s'. replicate_clone o_p s = Inr s' \<and> world s' = world s \<and> usage_map s' = usage_map s \<and>
    get_process_ht (fd_mappings s') (clone_retval o_p) = Inr (Some ht) \<and>
    descriptor_addr s' (clone_retval o_p) = descriptor_addr s (pid (clone_info o_p)) \<and>
    descriptor s' (clone_retval o_p) = descriptor s (pid (clone_info o_p)) \<and>
    (\<forall>q. q \<noteq> clone_retval o_p \<longrightarrow> nonneg q \<longrightarrow>
       descriptor_addr s' q = descriptor_addr s q \<and> descriptor s' q = descriptor s q)"
proof -
  let ?c = "clone_retval o_p"
  have inv: "prc.table_inv (fd_mappings s)" using assms(1) by (simp add: good_def)
  have none: "get_process_ht (fd_mappings s) ?c = Inr None" using get_process_map [OF inv assms(3)] assms(4) by simp
  obtain t' where t': "hash_table_insert ht_ops_fdmapping ?c (\<lparr>p_pid = ?c, p_ht = Some ht\<rparr>) (fd_mappings s) = Inr t'"
    "get_process_ht t' ?c = Inr (Some ht)" "\<And>q. q \<noteq> ?c \<Longrightarrow> nonneg q \<Longrightarrow> get_process_ht t' q = get_process_ht (fd_mappings s) q"
    using register_process [OF inv assms(3,4), of "\<lparr>p_pid = ?c, p_ht = Some ht\<rparr>"] by auto
  let ?s' = "s\<lparr>fd_mappings := t', usage_map := usage_map s, store := (store s)\<lparr>next_addr := Suc (next_addr (store s))\<rparr>\<rparr>"
  have run: "replicate_clone o_p s = Inr ?s'"
    using clone_start [OF assms(1) none assms(5)] assms(2) t'(1) by (simp add: Let_def)
  have addr: "descriptor_addr ?s' q = descriptor_addr s p" if "get_process_ht t' q = get_process_ht (fd_mappings s) p" for q p
    by (rule descriptor_addr_as) (use that in simp_all)
  have "descriptor ?s' q = descriptor s p" if "get_process_ht t' q = get_process_ht (fd_mappings s) p" for q p
    by (intro ext) (unfold descriptor_by_addr addr [OF that], simp)
  with addr t'(2,3) assms(5) show ?thesis by (intro exI [of _ ?s'] conjI run) auto
qed

text \<open>
  A new process without \<open>CLONE_FILES\<close> gets copies: its descriptors show the contents of the parent's
  maps, item by item, in maps of their own, so that later changes of either are not seen by the
  other. No other process changes, and each descriptor of the replay gains as many users as the
  parent has items for it.
\<close>

theorem clone_copies_table:
  assumes "good k s" "\<not> has_flag (clone_mode o_p) CLONE_FILES" "use_ok (usage_map s)"
    and "nonneg (clone_retval o_p)" "prc.table_map (fd_mappings s) (clone_retval o_p) = None"
    and "get_process_ht (fd_mappings s) (pid (clone_info o_p)) = Inr (Some ht)"
    and "tables (store s) ht = Some t" "table_ok (store s) t"
    and "\<forall>fd. uses (usage_map s) fd + length (ht_items t) < 2 ^ 31"
  shows "\<exists>s'. replicate_clone o_p s = Inr s' \<and> world s' = world s \<and>
    (\<forall>fd. descriptor s' (clone_retval o_p) fd =
       Option.bind (List.find (\<lambda>x. old_fd x = fd) (ht_items t)) (\<lambda>x. fd_maps (store s) (fm_ptr x))) \<and>
    (\<forall>q fd fd'. q \<noteq> clone_retval o_p \<longrightarrow> nonneg q \<longrightarrow> descriptor s' q fd = descriptor s q fd \<and>
       (descriptor_addr s' q fd = descriptor_addr s' (clone_retval o_p) fd' \<longrightarrow> descriptor_addr s' q fd = None)) \<and>
    (\<forall>fd. uses (usage_map s') fd = uses (usage_map s) fd +
       length (filter (\<lambda>x. my_fd (the (fd_maps (store s) (fm_ptr x))) = fd) (ht_items t)))"
proof -
  let ?c = "clone_retval o_p" and ?n = "next_addr (store s)"
  let ?st = "(store s)\<lparr>next_addr := Suc ?n\<rparr>"
  have inv: "prc.table_inv (fd_mappings s)" using assms(1) by (simp add: good_def)
  have none: "get_process_ht (fd_mappings s) ?c = Inr None" using get_process_map [OF inv assms(4)] assms(5) by simp
  have fresh: "store_fresh (store s)" using assms(1) by (simp add: good_def heap_ok_def)
  then have fresh': "store_fresh ?st" by (auto simp: store_fresh_def)
  have tab: "tables ?st ht = Some t" "table_ok ?st t" using assms(7,8) by (simp_all add: table_ok_def live_item_def)
  obtain a u' st' t' where d: "duplicate_process_ht (Some ht) (usage_map s) ?st = Inr (a, u', st')"
    "tables st' = (tables ?st)(a \<mapsto> t')" "a = Suc ?n" "table_ok st' t'"
    "\<forall>b<Suc ?n. fd_maps st' b = fd_maps ?st b" "\<forall>x\<in>set (ht_items t'). Suc ?n \<le> fm_ptr x"
    "\<And>fd. view st' t' fd = Option.bind (List.find (\<lambda>x. old_fd x = fd) (ht_items t)) (\<lambda>x. fd_maps ?st (fm_ptr x))"
    "\<And>fd. uses u' fd = uses (usage_map s) fd + length (filter (\<lambda>x. my_fd (the (fd_maps ?st (fm_ptr x))) = fd) (ht_items t))"
    using duplicate_process_ht_spec [OF fresh' tab assms(3,9)] by auto
  obtain ps where ps: "hash_table_insert ht_ops_fdmapping ?c (\<lparr>p_pid = ?c, p_ht = Some a\<rparr>) (fd_mappings s) = Inr ps"
    "get_process_ht ps ?c = Inr (Some a)" "\<And>q. q \<noteq> ?c \<Longrightarrow> nonneg q \<Longrightarrow> get_process_ht ps q = get_process_ht (fd_mappings s) q"
    using register_process [OF inv assms(4,5), of "\<lparr>p_pid = ?c, p_ht = Some a\<rparr>"] by auto
  let ?s' = "s\<lparr>fd_mappings := ps, usage_map := u', store := st'\<rparr>"
  have run: "replicate_clone o_p s = Inr ?s'"
    using clone_start [OF assms(1) none assms(6)] assms(2) d(1) ps(1) by (simp add: Let_def)
  have child: "descriptor ?s' ?c fd = Option.bind (List.find (\<lambda>x. old_fd x = fd) (ht_items t)) (\<lambda>x. fd_maps (store s) (fm_ptr x))" for fd
    using ps(2) d(2) d(7) [of fd] by (simp add: descriptor_def)
  have low: "\<exists>x. x < ?n \<and> descriptor_addr s q fd = Some x" if "descriptor_addr s q fd \<noteq> None" for q fd
  proof -
    from that obtain h u it where "tables (store s) h = Some u" "fdt.table_map u fd = Some it" "descriptor_addr s q fd = Some (fm_ptr it)"
      by (auto simp: descriptor_addr_def split: sum.splits option.splits)
    moreover from this have "(h, it) \<in> heap_entries (store s)"
      using table_item good_heap [OF assms(1)] by (force simp: heap_entries_def heap_ok_def tables_ok_def)
    ultimately show ?thesis using entry_bounds [OF good_heap [OF assms(1)]] by force
  qed
  have high: "?n \<le> x" if x: "descriptor_addr ?s' ?c fd = Some x" for x fd
  proof -
    have "fdt.table_inv t'" using d(4) by (simp add: table_ok_def)
    moreover obtain it where "fdt.table_map t' fd = Some it" "x = fm_ptr it"
      using x ps(2) d(2) by (auto simp: descriptor_addr_def)
    ultimately show ?thesis using table_item d(6) by fastforce
  qed
  have addr: "descriptor_addr ?s' q = descriptor_addr s q" if "q \<noteq> ?c" "nonneg q" for q
  proof -
    have "h \<noteq> a" if "get_process_ht (fd_mappings s) q = Inr (Some h)" for h
      using process_table [OF assms(1) \<open>nonneg q\<close> that] fresh d(3) by (auto simp: store_fresh_def)
    then show ?thesis
      using ps(3) [OF that] d(2)
      by (auto simp: descriptor_addr_def fun_eq_iff split: sum.split option.split)
  qed
  have other: "descriptor ?s' q fd = descriptor s q fd \<and>
       (descriptor_addr ?s' q fd = descriptor_addr ?s' ?c fd' \<longrightarrow> descriptor_addr ?s' q fd = None)" if q: "q \<noteq> ?c" "nonneg q" for q fd fd'
  proof -
    show ?thesis
    proof (cases "descriptor_addr s q fd")
      case None
      then show ?thesis using addr [OF q] by (simp add: descriptor_by_addr)
    next
      case (Some x)
      then have "x < ?n" using low [of q fd] by simp
      then show ?thesis using Some addr [OF q] d(5) high [of fd' x] by (auto simp: descriptor_by_addr)
    qed
  qed
  show ?thesis using run child other d(8) by (intro exI [of _ ?s']) simp
qed

section \<open>What stops the replay, and what passes\<close>

text \<open>
  With \<open>FIX_MISSING\<close> off, calls on a descriptor that the process does not have are passed over:
  they change nothing, in every mode.
\<close>

theorem missing_descriptor_ignored:
  assumes "good k s" "\<not> global_fix_missing s" "nonneg p" "get_process_ht (fd_mappings s) p = Inr (Some ht)"
    and "nonneg fd" "descriptor s p fd = None"
  shows "(pid (read_info o_read) = p \<and> read_fd o_read = fd \<longrightarrow> replicate_read e o_read m s = Inr s) \<and>
    (pid (write_info o_write) = p \<and> write_fd o_write = fd \<longrightarrow> replicate_write e o_write m s = Inr s) \<and>
    (pid (lseek_info o_lseek) = p \<and> lseek_fd o_lseek = fd \<longrightarrow> replicate_lseek e o_lseek m s = Inr s) \<and>
    (pid (close_info o_close) = p \<and> close_fd o_close = fd \<longrightarrow> replicate_close e o_close m s = Inr s) \<and>
    (pid (dup_info o_dup) = p \<and> dup_old_fd o_dup = fd \<longrightarrow> replicate_dup e o_dup m s = Inr s)"
proof -
  obtain t where "tables (store s) ht = Some t" using process_table [OF assms(1,3,4)] by blast
  note loc = descriptor_free [OF assms(1,4-6) this assms(2), of _ e m]
  show ?thesis
    using loc [of "read_info o_read"] loc [of "write_info o_write"] loc [of "lseek_info o_lseek"]
      loc [of "close_info o_close"] loc [of "dup_info o_dup"]
    by (auto simp: replicate_read_def replicate_write_def replicate_lseek_def replicate_close_def replicate_dup_def Let_def)
qed

text \<open>
  Without \<open>ACT_REPLICATE\<close> and \<open>ACT_SIMULATE\<close>, which is how \<open>ioreplay -p\<close> calls the replay, the first
  read or write of a file that is open stops the program with a failed assertion.
\<close>

theorem transfer_needs_mode:
  assumes "good k s" "descriptor s p fd = Some fm" "supported_type (fm_type fm)" "\<not> replicates m" "\<not> simulates m"
  shows "(pid (read_info o_read) = p \<and> read_fd o_read = fd \<longrightarrow> replicate_read e o_read m s = Inl Assertion) \<and>
    (pid (write_info o_write) = p \<and> write_fd o_write = fd \<longrightarrow> replicate_write e o_write m s = Inl Assertion) \<and>
    (pid (pread_info o_pread) = p \<and> pread_fd o_pread = fd \<longrightarrow> replicate_pread e o_pread m s = Inl Assertion) \<and>
    (pid (pwrite_info o_pwrite) = p \<and> pwrite_fd o_pwrite = fd \<longrightarrow> replicate_pwrite e o_pwrite m s = Inl Assertion)"
proof -
  obtain ht it where h: "get_process_ht (fd_mappings s) p = Inr (Some ht)" "found s ht fd it"
    "deref_item (store s) it = Inr fm" using descriptor_Some [OF assms(1,2)] by metis
  note loc = locate_present [OF assms(1) _ h(2)]
  have tr: "transfer e m r sm c s = Inl Assertion" for r sm c using assms(4,5) by (simp add: transfer_def)
  show ?thesis
    using h assms(3) tr loc [of "read_info o_read" e m] loc [of "write_info o_write" e m] loc [of "pread_info o_pread" e m]
      loc [of "pwrite_info o_pwrite" e m]
    by (auto simp: replicate_read_def replicate_write_def replicate_pread_def replicate_pwrite_def)
qed

text \<open>
  In simulation a recorded \<open>sendfile\<close> to a descriptor of an unsupported type, such as a socket,
  dereferences a \<open>NULL\<close> pointer: \<open>simulate_sendfile\<close> reads the name of the output file before it tests
  whether there is one.
\<close>

theorem sendfile_to_socket_null:
  assumes "good k s" "\<not> replicates m" "simulates m" "sendfile_retval o_p \<noteq> -1"
    and "descriptor s (pid (sendfile_info o_p)) (sendfile_in_fd o_p) = Some fm_in" "supported_type (fm_type fm_in)"
    and "descriptor s (pid (sendfile_info o_p)) (sendfile_out_fd o_p) = Some fm_out" "\<not> supported_type (fm_type fm_out)"
  shows "replicate_sendfile e o_p m s = Inl Null_Deref"
proof -
  obtain ht it_in where i: "get_process_ht (fd_mappings s) (pid (sendfile_info o_p)) = Inr (Some ht)"
    "found s ht (sendfile_in_fd o_p) it_in" "deref_item (store s) it_in = Inr fm_in"
    using descriptor_Some [OF assms(1,5)] by metis
  obtain it_out where o: "found s ht (sendfile_out_fd o_p) it_out" "deref_item (store s) it_out = Inr fm_out"
    using descriptor_Some [OF assms(1,7)] i(1) by (metis sum.inject(2) option.inject)
  have "replicate_get_fd_map e ht (sendfile_in_fd o_p) (sendfile_info o_p) m s = Inr (Some it_in, s)"
    using found_run(1) [OF assms(1) i(2)] by (simp add: replicate_get_fd_map_def)
  then show ?thesis
    using locate_present [OF assms(1) i(1) o(1), of e m] i(3) o(2) assms(2-4,6,8)
    by (simp add: replicate_sendfile_def do_sendfile_def with_sim_def simulate_sendfile_def)
qed

section \<open>Witnesses\<close>

text \<open>The state after the initialization of process 100, and the open of \<open>/a\<close> in it.\<close>

definition sample_open :: open_op where
  "sample_open = \<lparr>open_name = ''/a'', open_flags = 0, open_mode = MODE_UNDEF, open_retval = 3, open_info = at_pid 100\<rparr>"

definition opened :: "syscall list" where
  "opened = devices @ [Sys_open ''/a'' 0 None]"

lemma sample_initialized:
  "\<exists>s ht. replicate_init sample_env 100 None None (sample_rep\<lparr>global_fix_missing := b\<rparr>) = Inr (0, s) \<and>
     good 1 s \<and> use_ok (usage_map s) \<and> uses (usage_map s) = (\<lambda>_. 0)(1 := 2, 2 := 1) \<and> global_fix_missing s = b \<and>
     descriptor s 100 = [1 \<mapsto> std_map sample_map 1 ''stdout'', 2 \<mapsto> std_map sample_map 2 ''stderr''] \<and>
     get_process_ht (fd_mappings s) 100 = Inr (Some ht) \<and> get_process_ht (fd_mappings s) 7 = Inr None \<and>
     opens 1 sample_env sample_open ACT_REPLICATE s ht ''/a'' 12 opened"
proof -
  let ?s = "sample_rep\<lparr>global_fix_missing := b\<rparr>"
  obtain s where s: "replicate_init sample_env 100 None None ?s = Inr (0, s)" "after_init ?s 100 s"
      "world s = devices" "names s = \<lparr>ht_map = hash_table_init HASH_TABLE_SIZE, l_igns = []\<rparr>"
    using replicate_init_run [of 100 ?s sample_env None None _ 10 "[Sys_open ''/dev/null'' O_WRONLY None]" 11 devices]
      sample_start by auto
  have g: "good 1 s" "use_ok (usage_map s)" "uses (usage_map s) = (\<lambda>_. 0)(1 := 2, 2 := 1)" "global_fix_missing s = b"
      "get_process_ht (fd_mappings s) 7 = Inr None"
    and d: "descriptor s 100 = [1 \<mapsto> std_map sample_map 1 ''stdout'', 2 \<mapsto> std_map sample_map 2 ''stderr'']"
    using s(2) by (simp_all add: after_init_def sample_rep_def rep_start_def)
  obtain ht where ht: "get_process_ht (fd_mappings s) 100 = Inr (Some ht)"
    using descriptor_Some [OF g(1), of 100 1] d by fastforce
  have "map_name sample_env ''/a'' s = Inr (Some ''/a'')"
    by (rule map_name_plain [OF s(4)]) (simp add: MAX_STRING_def)
  then have "opens 1 sample_env sample_open ACT_REPLICATE s ht ''/a'' 12 opened"
    using g ht d s(3)
    by (simp add: opens_def sample_open_def at_pid_def replicates_def has_flag_def ACT_REPLICATE_def O_IGNORE_def
        sample_env_def devices_def opened_def MODE_UNDEF_def)
  with s(1) ht g d show ?thesis by blast
qed

lemma sample_opened:
  "\<exists>s ht s' fm. opens 1 sample_env sample_open ACT_REPLICATE s ht ''/a'' 12 opened \<and> uses (usage_map s) 12 = 0 \<and>
     replicate_open sample_env sample_open ACT_REPLICATE s = Inr s' \<and> good 1 s' \<and> world s' = opened \<and>
     descriptor s' 100 3 = Some fm \<and> my_fd fm = 12 \<and> supported_type (fm_type fm) \<and>
     (\<exists>fm1. descriptor s' 100 1 = Some fm1 \<and> \<not> supported_type (fm_type fm1))"
proof -
  obtain s ht where s: "uses (usage_map s) = (\<lambda>_. 0)(1 := 2, 2 := 1)"
    "descriptor s 100 = [1 \<mapsto> std_map sample_map 1 ''stdout'', 2 \<mapsto> std_map sample_map 2 ''stderr'']"
    "get_process_ht (fd_mappings s) 100 = Inr (Some ht)" "opens 1 sample_env sample_open ACT_REPLICATE s ht ''/a'' 12 opened"
    using sample_initialized [of True] by blast
  obtain t t' u' where run: "tables (store s) ht = Some t"
    "fdt.table_map t' = (fdt.table_map t)(open_retval sample_open \<mapsto> fresh_item (store s) (open_retval sample_open))"
    "replicate_open sample_env sample_open ACT_REPLICATE s =
      Inr (s\<lparr>store := entered ht t' (open_map (junk (store s)) sample_open ''/a'' (open_flags sample_open) (ucast (12 :: i64))) (store s),
        usage_map := u', world := opened\<rparr>)"
    using opens_run [OF s(4)] by metis
  let ?fm = "open_map (junk (store s)) sample_open ''/a'' (open_flags sample_open) (ucast (12 :: i64))"
  let ?s = "s\<lparr>store := entered ht t' ?fm (store s), usage_map := u', world := opened\<rparr>"
  have g: "good 1 s" using s(4) by (simp add: opens_def)
  have "descriptor ?s 100 = (descriptor s 100)(open_retval sample_open \<mapsto> ?fm)"
    using entered_descriptor [OF good_heap [OF g] run(1,2), of ?s ?fm 100] s(3) by simp
  then have d: "descriptor ?s 100 3 = Some ?fm" "descriptor ?s 100 1 = Some (std_map sample_map 1 ''stdout'')"
    using s(2) by (simp_all add: sample_open_def)
  have "good 1 ?s"
    using replicate_open_safe [OF g, of "{}" sample_env sample_open ACT_REPLICATE] run(3) by (auto simp: safeR_def ensuresR_def post_def)
  moreover have "supported_type (fm_type ?fm)"
    by (simp add: open_map_fields sample_open_def has_flag_def supported_type_def)
  ultimately show ?thesis
    using s(1,4) run(3) d std_map_unsupported open_map_fields(1)
    by (intro exI [of _ s] exI [of _ ht] exI [of _ ?s] exI [of _ ?fm]) simp
qed

theorem replicate_open_enters_witness:
  "\<exists>s s'. replicate_open sample_env sample_open ACT_REPLICATE s = Inr s' \<and> world s' = opened \<and>
     map_option my_fd (descriptor s' 100 3) = Some 12 \<and> uses (usage_map s') 12 = 1"
proof -
  obtain s ht where s: "uses (usage_map s) = (\<lambda>_. 0)(1 := 2, 2 := 1)"
    "get_process_ht (fd_mappings s) 100 = Inr (Some ht)" "opens 1 sample_env sample_open ACT_REPLICATE s ht ''/a'' 12 opened"
    using sample_initialized [of True] by blast
  from replicate_open_enters [OF s(3)] obtain s' where s': "replicate_open sample_env sample_open ACT_REPLICATE s = Inr s'"
    "world s' = opened" "descriptor s' 100 3 = Some (open_map (junk (store s)) sample_open ''/a'' 0 12)"
    "uses (usage_map s') = (uses (usage_map s))(12 := Suc (uses (usage_map s) 12))"
    using s(2) by (force simp: sample_open_def)
  then show ?thesis using s(1) by (intro exI [of _ s] exI [of _ s']) (simp add: open_map_fields)
qed

theorem open_close_roundtrip_witness:
  "\<exists>s s1 s2. replicate_open sample_env sample_open ACT_REPLICATE s = Inr s1 \<and>
     replicate_close sample_env (\<lparr>close_fd = 3, close_retval = 0, close_info = at_pid 100\<rparr>) ACT_REPLICATE s1 = Inr s2 \<and>
     descriptor s2 = descriptor s \<and> world s2 = opened @ [Sys_close 12]"
proof -
  obtain s ht s1 where s: "opens 1 sample_env sample_open ACT_REPLICATE s ht ''/a'' 12 opened" "uses (usage_map s) 12 = 0"
    "replicate_open sample_env sample_open ACT_REPLICATE s = Inr s1"
    using sample_opened by blast
  let ?c = "\<lparr>close_fd = 3, close_retval = 0, close_info = at_pid 100\<rparr>"
  have "sys sample_env (Sys_close (ucast (12 :: i64))) opened = (0, opened @ [Sys_close 12])" by (simp add: sample_env_def)
  from open_close_roundtrip [OF s(1,3) _ _ this, of ?c] s show ?thesis
    by (auto simp: sample_open_def)
qed

theorem replicate_read_performs_witness:
  "\<exists>s s'. replicate_read sample_env (\<lparr>read_fd = 3, read_size = 10, read_retval = 10, read_info = at_pid 100\<rparr>) ACT_REPLICATE s = Inr s' \<and>
     world s' = opened @ [Sys_read 12 10] \<and>
     map_option cur_pos (descriptor s' 100 3) = map_option (\<lambda>fm. cur_pos fm + 10) (descriptor s 100 3)"
proof -
  obtain s :: "syscall list rep" and fm where s: "good 1 s" "world s = opened" "descriptor s 100 3 = Some fm" "my_fd fm = 12" "supported_type (fm_type fm)"
    using sample_opened by blast
  let ?r = "\<lparr>read_fd = 3, read_size = 10, read_retval = 10, read_info = at_pid 100\<rparr>"
  have c: "sys sample_env (Sys_read (my_fd fm) (read_size ?r)) (world s) = (10, opened @ [Sys_read 12 10])"
    using s(2,4) by (simp add: sample_env_def)
  have d: "descriptor s (pid (read_info ?r)) (read_fd ?r) = Some fm" using s(3) by (simp add: at_pid_def)
  have m: "replicates ACT_REPLICATE" "\<not> simulates ACT_REPLICATE"
    by (simp_all add: replicates_def simulates_def has_flag_def mask_defs)
  from replicate_read_performs [OF s(1) d s(5) m c] obtain s' where
    "replicate_read sample_env ?r ACT_REPLICATE s = Inr s'" "world s' = opened @ [Sys_read 12 10]"
    "descriptor s' 100 = (\<lambda>fd. if descriptor_addr s 100 fd = descriptor_addr s 100 3 then Some (fm\<lparr>cur_pos := cur_pos fm + 10\<rparr>) else descriptor s 100 fd)"
    by (auto simp: at_pid_def MAX_DATA_def)
  then show ?thesis using s(3) by (intro exI [of _ s] exI [of _ s']) simp
qed

theorem unsupported_passed_over_witness:
  "\<exists>s. good 1 s \<and> replicate_read sample_env (\<lparr>read_fd = 1, read_size = 10, read_retval = 10, read_info = at_pid 100\<rparr>) ACT_REPLICATE s = Inr s"
proof -
  obtain s :: "syscall list rep" and fm where s: "good 1 s" "descriptor s 100 1 = Some fm" "\<not> supported_type (fm_type fm)"
    using sample_opened by blast
  show ?thesis
    using unsupported_passed_over [OF s, of "\<lparr>read_fd = 1, read_size = 10, read_retval = 10, read_info = at_pid 100\<rparr>"] s(1)
    by (auto simp: at_pid_def)
qed

theorem missing_descriptor_ignored_witness:
  "\<exists>s. good 1 s \<and> replicate_read sample_env (\<lparr>read_fd = 0, read_size = 10, read_retval = 10, read_info = at_pid 100\<rparr>) ACT_REPLICATE s = Inr s"
proof -
  obtain s :: "syscall list rep" and ht where s: "good 1 s" "global_fix_missing s = False" "get_process_ht (fd_mappings s) 100 = Inr (Some ht)"
    "descriptor s 100 = [1 \<mapsto> std_map sample_map 1 ''stdout'', 2 \<mapsto> std_map sample_map 2 ''stderr'']"
    using sample_initialized [of False] by blast
  show ?thesis
    using missing_descriptor_ignored [OF s(1) _ _ s(3), of 0 "\<lparr>read_fd = 0, read_size = 10, read_retval = 10, read_info = at_pid 100\<rparr>"] s(1,2,4)
    by (auto simp: at_pid_def)
qed

theorem transfer_needs_mode_witness:
  "\<exists>s. good 1 s \<and> replicate_read sample_env (\<lparr>read_fd = 3, read_size = 10, read_retval = 10, read_info = at_pid 100\<rparr>) ACT_PREPARE s = Inl Assertion"
proof -
  obtain s :: "syscall list rep" and fm where s: "good 1 s" "descriptor s 100 3 = Some fm" "supported_type (fm_type fm)"
    using sample_opened by blast
  have m: "\<not> replicates ACT_PREPARE" "\<not> simulates ACT_PREPARE"
    by (simp_all add: replicates_def simulates_def has_flag_def mask_defs)
  show ?thesis
    using transfer_needs_mode [OF s m, of "\<lparr>read_fd = 3, read_size = 10, read_retval = 10, read_info = at_pid 100\<rparr>"] s(1)
    by (auto simp: at_pid_def)
qed

theorem sendfile_to_socket_null_witness:
  "\<exists>s. good 1 s \<and> replicate_sendfile sample_env
     (\<lparr>sendfile_out_fd = 1, sendfile_in_fd = 3, sendfile_offset = OFFSET_INVAL, sendfile_size = 5, sendfile_retval = 5, sendfile_info = at_pid 100\<rparr>)
     ACT_SIMULATE s = Inl Null_Deref"
proof -
  let ?o = "\<lparr>sendfile_out_fd = 1, sendfile_in_fd = 3, sendfile_offset = OFFSET_INVAL, sendfile_size = 5, sendfile_retval = 5, sendfile_info = at_pid 100\<rparr>"
  obtain s :: "syscall list rep" and fm fm1 where s: "good 1 s" "descriptor s 100 3 = Some fm" "supported_type (fm_type fm)"
    "descriptor s 100 1 = Some fm1" "\<not> supported_type (fm_type fm1)"
    using sample_opened by blast
  have m: "\<not> replicates ACT_SIMULATE" "simulates ACT_SIMULATE"
    by (simp_all add: replicates_def simulates_def has_flag_def mask_defs)
  have "replicate_sendfile sample_env ?o ACT_SIMULATE s = Inl Null_Deref"
    by (rule sendfile_to_socket_null [OF s(1) m]) (use s in \<open>simp_all add: at_pid_def\<close>)
  with s(1) show ?thesis by blast
qed

theorem replicate_dup_shares_witness:
  "\<exists>s s'. replicate_dup sample_env (\<lparr>dup_new_fd = 0, dup_old_fd = 1, dup_flags = 0, dup_retval = 5, dup_info = at_pid 100\<rparr>) ACT_REPLICATE s = Inr s' \<and>
     descriptor_addr s' 100 5 = descriptor_addr s 100 1 \<and> uses (usage_map s') 1 = 3"
proof -
  let ?o = "\<lparr>dup_new_fd = 0, dup_old_fd = 1, dup_flags = 0, dup_retval = 5, dup_info = at_pid 100\<rparr>"
  let ?fm = "std_map sample_map 1 ''stdout''"
  obtain s :: "syscall list rep" and ht where s: "good 1 s" "global_fix_missing s = False" "use_ok (usage_map s)" "get_process_ht (fd_mappings s) 100 = Inr (Some ht)"
    "uses (usage_map s) = (\<lambda>_. 0)(1 := 2, 2 := 1)"
    "descriptor s 100 = [1 \<mapsto> std_map sample_map 1 ''stdout'', 2 \<mapsto> std_map sample_map 2 ''stderr'']"
    using sample_initialized [of False] by blast
  have fm: "my_fd ?fm = 1" "parent_set ?fm = {1}"
    by (auto simp: std_map_def sample_map_def parent_set_def MAX_PARENT_IDS_def)
  have "if dup_retval ?o \<in> parent_set ?fm then replicate_dup sample_env ?o ACT_REPLICATE s = Inl Assertion
    else \<exists>s' fm'. replicate_dup sample_env ?o ACT_REPLICATE s = Inr s' \<and> world s' = world s \<and>
      (\<forall>q. descriptor_addr s' q = (if get_process_ht (fd_mappings s) q = Inr (Some ht)
         then (descriptor_addr s q)(dup_retval ?o := descriptor_addr s 100 (dup_old_fd ?o)) else descriptor_addr s q)) \<and>
      (\<forall>q fd. descriptor s' q fd = (if descriptor_addr s' q fd = descriptor_addr s 100 (dup_old_fd ?o) then Some fm'
         else descriptor s q fd)) \<and>
      fm' = ?fm\<lparr>parent_fds := parent_fds fm', last_par_index := last_par_index fm'\<rparr> \<and>
      parent_set fm' = insert (dup_retval ?o) (parent_set ?fm) \<and>
      uses (usage_map s') = (uses (usage_map s))(my_fd ?fm := Suc (uses (usage_map s) (my_fd ?fm)))"
    by (rule replicate_dup_shares [where k = 1 and p = 100]) (use s fm in \<open>simp_all add: at_pid_def MAX_PARENT_IDS_def\<close>)
  then obtain s' where "replicate_dup sample_env ?o ACT_REPLICATE s = Inr s'"
     "descriptor_addr s' 100 = (if get_process_ht (fd_mappings s) 100 = Inr (Some ht)
         then (descriptor_addr s 100)(dup_retval ?o := descriptor_addr s 100 (dup_old_fd ?o)) else descriptor_addr s 100)"
     "uses (usage_map s') = (uses (usage_map s))(my_fd ?fm := Suc (uses (usage_map s) (my_fd ?fm)))"
    using fm by auto
  then show ?thesis using s(4,5) fm by (intro exI [of _ s] exI [of _ s']) simp
qed

text \<open>A process 100 with the descriptor 5, in the small store of the descriptor tables.\<close>

definition sample_process :: "syscall list rep" where
  "sample_process = sample_rep\<lparr>store := sample_store, usage_map := hash_table_init 3,
     fd_mappings := \<lparr>entry = [[\<lparr>p_pid = 100, p_ht = Some 2\<rparr>]], entries = 1\<rparr>\<rparr>"

lemma sample_process_good: "good 1 sample_process"
proof -
  have items: "ht_items sample_table = [sample_item]" by (simp add: ht_items_def sample_table_def)
  have E: "heap_entries sample_store = {(2, sample_item)}"
    by (auto simp: heap_entries_def sample_store_def items split: if_splits)
  have "good_map 1 sample_map 5" using sample_parents by (simp add: good_map_def)
  then have "good_item 1 sample_store sample_item" by (simp add: good_item_def sample_store_def sample_item_def)
  moreover have "tables_ok sample_store"
    using sample_ok(2) items by (auto simp: tables_ok_def table_ok_def sample_store_def split: if_splits)
  ultimately have "heap_ok 1 sample_store" using sample_ok(1) E by (simp add: heap_ok_def entries_apart_def)
  moreover have "prc.table_inv (fd_mappings sample_process)"
    by (simp add: prc.table_inv_def sample_process_def)
  ultimately show ?thesis by (simp add: good_def sample_process_def ht_items_def sample_store_def)
qed

lemma sample_process_tables:
  "get_process_ht (fd_mappings sample_process) 100 = Inr (Some 2)" "tables (store sample_process) 2 = Some sample_table"
  "prc.table_map (fd_mappings sample_process) 7 = None"
proof -
  have inv: "prc.table_inv (fd_mappings sample_process)" using sample_process_good by (simp add: good_def)
  have slot: "prc.slot (fd_mappings sample_process) q = 0" if "nonneg q" for q
    using prc.slot_range [OF that, of "fd_mappings sample_process"] by (simp add: sample_process_def)
  have "prc.table_map (fd_mappings sample_process) q = (if q = 100 then Some \<lparr>p_pid = 100, p_ht = Some 2\<rparr> else None)" if "nonneg q" for q
    using that slot [OF that] by (simp add: prc.table_map_slot sample_process_def)
  then show "get_process_ht (fd_mappings sample_process) 100 = Inr (Some 2)" "prc.table_map (fd_mappings sample_process) 7 = None"
    using get_process_map [OF inv, of 100] by simp_all
  show "tables (store sample_process) 2 = Some sample_table" by (simp add: sample_process_def sample_store_def)
qed

lemma sample_descriptor: "descriptor sample_process 100 5 = Some sample_map"
proof -
  have "fdt.table_inv sample_table" using sample_ok(2) by (simp add: table_ok_def)
  moreover have "fdt.slot sample_table 5 = 2" 
  proof -
    have h: "hash ht_ops_fditem = ht_hash_int" by (simp add: ht_ops_fditem_def)
    show ?thesis by (simp add: fdt.slot_def h ht_hash_int_def sample_table_def)
  qed
  ultimately have "fdt.table_map sample_table 5 = Some sample_item"
    by (simp add: fdt.table_map_slot sample_table_def sample_item_def)
  then show ?thesis
    by (simp add: descriptor_def sample_process_tables view_def) (simp add: sample_process_def sample_store_def sample_item_def)
qed

theorem clone_shares_table_witness:
  "\<exists>s'. replicate_clone \<lparr>clone_mode = CLONE_FILES, clone_retval = 7, clone_info = at_pid 100\<rparr> sample_process = Inr s' \<and>
     descriptor_addr s' 7 = descriptor_addr sample_process 100 \<and> descriptor s' 7 5 = Some sample_map"
proof -
  let ?o = "\<lparr>clone_mode = CLONE_FILES, clone_retval = 7, clone_info = at_pid 100\<rparr>"
  have "has_flag (clone_mode ?o) CLONE_FILES" by (simp add: has_flag_def CLONE_FILES_def)
  from clone_shares_table [OF sample_process_good this] show ?thesis
    using sample_process_tables sample_descriptor by (auto simp: at_pid_def)
qed

theorem clone_copies_table_witness:
  "\<exists>s'. replicate_clone \<lparr>clone_mode = 0, clone_retval = 7, clone_info = at_pid 100\<rparr> sample_process = Inr s' \<and>
     descriptor s' 7 5 = Some sample_map \<and> descriptor s' 100 5 = Some sample_map \<and>
     descriptor_addr s' 100 5 \<noteq> descriptor_addr s' 7 5 \<and> uses (usage_map s') 7 = 1"
proof -
  let ?o = "\<lparr>clone_mode = 0, clone_retval = 7, clone_info = at_pid 100\<rparr>"
  have items: "ht_items sample_table = [sample_item]" by (simp add: ht_items_def sample_table_def)
  have m: "\<not> has_flag (clone_mode ?o) CLONE_FILES" by (simp add: has_flag_def)
  have u: "use_ok (usage_map sample_process)" "uses (usage_map sample_process) fd = 0" for fd
    by (simp_all add: sample_process_def use_ok_init uses_init)
  have st: "table_ok (store sample_process) sample_table" using sample_ok(2) by (simp add: sample_process_def)
  obtain s' where s': "replicate_clone ?o sample_process = Inr s'"
    "\<And>fd. descriptor s' 7 fd = Option.bind (List.find (\<lambda>x. old_fd x = fd) [sample_item]) (\<lambda>x. fd_maps sample_store (fm_ptr x))"
    "\<And>q fd fd'. q \<noteq> 7 \<Longrightarrow> nonneg q \<Longrightarrow> descriptor s' q fd = descriptor sample_process q fd \<and>
       (descriptor_addr s' q fd = descriptor_addr s' 7 fd' \<longrightarrow> descriptor_addr s' q fd = None)"
    "\<And>fd. uses (usage_map s') fd = length (filter (\<lambda>x. my_fd (the (fd_maps sample_store (fm_ptr x))) = fd) [sample_item])"
    using clone_copies_table [OF sample_process_good m u(1) _ _ _ sample_process_tables(2) st] sample_process_tables u(2)
    by (force simp: at_pid_def items sample_process_def)
  have p: "descriptor s' 100 5 = Some sample_map" using s'(3) [of 100 5] sample_descriptor by simp
  moreover have "descriptor s' 7 5 = Some sample_map" "uses (usage_map s') 7 = 1"
    using s'(2) [of 5] s'(4) [of 7] by (simp_all add: sample_item_def sample_store_def) (simp add: sample_map_def)
  moreover have "descriptor_addr s' 100 5 \<noteq> None"
    using p by (cases "descriptor_addr s' 100 5") (simp_all add: descriptor_by_addr)
  ultimately show ?thesis using s'(1) s'(3) [of 100 5 5] by auto
qed

end
