(* ===== verification/Replay_Machine.thy ===== *)
theory Replay_Machine
  imports Replay_Ops
begin

text \<open>
  The replay as a descriptor machine: every handler, and every replay, does to the descriptor
  tables what the machine of \<open>Desc_Machine\<close> can do in some steps, and what holds of every state that
  the machine reaches holds of the tables.
\<close>

section \<open>Handlers\<close>

lemma item_steps:
  assumes "good k s" "1 \<le> k" "is_dup it \<Longrightarrow> k < MAX_PARENT_IDS" "dup_moves it"
    and "replicate_item e m ifile mfile False it s = Inr (0, s')"
  shows "good (if is_dup it then Suc k else k) s' \<and> desc_steps (closes it) (dview s) (dview s')"
  using replicate_item_safe [of False s k it e m ifile mfile] assms by (simp add: safeR_def ensuresR_def moved_def)


section \<open>Replays\<close>



section \<open>Witnesses\<close>

text \<open>The replay of one open, on the small environment.\<close>

definition sample_open_item :: op_item where
  "sample_open_item = \<lparr>type = OP_OPEN, body = S_open sample_open\<rparr>"

lemma sample_open_item_run:
  "replicate_item e m i f first sample_open_item s =
     REPLICATE e first i f (at_pid 100) (replicate_open e sample_open m) s"
  by (simp add: replicate_item_def sample_open_item_def op_codes as_open_def sample_open_def)

lemma sample_open_item_facts:
  "closes sample_open_item = {}" "\<not> is_dup sample_open_item" "dup_moves sample_open_item" "item_pid sample_open_item = 100"
  by (simp_all add: sample_open_item_def closes_def is_dup_def dup_moves_def item_pid_def op_codes sample_open_def at_pid_def)

lemma sample_bound:
  assumes "good k s" "descriptor s p fd = Some fm"
  shows "\<exists>t f. procs (dview s) p = Some t \<and> (t, fd, f) \<in> binds (dview s)"
proof -
  obtain ht it where h: "get_process_ht (fd_mappings s) p = Inr (Some ht)" "found s ht fd it"
    using descriptor_Some [OF assms] by metis
  have "procs (dview s) p = Some ht"
    using get_process_ht_safe [OF assms(1), of p] h(1) by (simp add: safeR_def ensuresR_def)
  moreover have "(ht, fd, fm_ptr it) \<in> binds_of (store s)"
    using found_entry [OF assms(1) h(2)] by (auto simp: binds_of_iff)
  ultimately show ?thesis by (intro exI [of _ ht] exI [of _ "fm_ptr it"]) simp
qed

lemma sample_replay:
  "\<exists>s. replicate_all sample_env [sample_open_item] ACT_REPLICATE None None (rep_start [] sample_map sim_start) = Inr (0, s) \<and>
     (\<exists>t f. procs (dview s) 100 = Some t \<and> (t, 3, f) \<in> binds (dview s))"
proof -
  let ?start = "sample_rep\<lparr>global_fix_missing := False\<rparr>"
  have m: "\<not> has_flag ACT_REPLICATE FIX_MISSING" by (simp add: has_flag_def ACT_REPLICATE_def FIX_MISSING_def)
  obtain s ht where s: "replicate_init sample_env 100 None None ?start = Inr (0, s)"
    "get_process_ht (fd_mappings s) 100 = Inr (Some ht)" "opens 1 sample_env sample_open ACT_REPLICATE s ht ''/a'' 12 opened"
    using sample_initialized [of False] by blast
  obtain t t' u' where run: "tables (store s) ht = Some t"
    "fdt.table_map t' = (fdt.table_map t)(open_retval sample_open \<mapsto> fresh_item (store s) (open_retval sample_open))"
    "replicate_open sample_env sample_open ACT_REPLICATE s =
      Inr (s\<lparr>store := entered ht t' (open_map (junk (store s)) sample_open ''/a'' (open_flags sample_open) (ucast (12 :: i64))) (store s),
        usage_map := u', world := opened\<rparr>)"
    using opens_run [OF s(3)] by metis
  let ?fm = "open_map (junk (store s)) sample_open ''/a'' (open_flags sample_open) (ucast (12 :: i64))"
  let ?s = "s\<lparr>store := entered ht t' ?fm (store s), usage_map := u', world := opened\<rparr>"
  have g: "good 1 s" using s(3) by (simp add: opens_def)
  have d: "descriptor ?s 100 3 = Some ?fm"
    using entered_descriptor [OF good_heap [OF g] run(1,2), of ?s ?fm 100] s(2) by (simp add: sample_open_def)
  have "good 1 ?s"
    using replicate_open_safe [OF g, of "{}" sample_env sample_open ACT_REPLICATE] run(3) by (auto simp: safeR_def ensuresR_def post_def)
  from sample_bound [OF this d] have b: "\<exists>t f. procs (dview (replicate_finish ?s)) 100 = Some t \<and> (t, 3, f) \<in> binds (dview (replicate_finish ?s))"
    unfolding replicate_finish_view .
  have "replicate_item sample_env ACT_REPLICATE None None True sample_open_item ?start = Inr (0, ?s)"
    unfolding sample_open_item_run REPLICATE_def using s(1) run(3) by (simp add: at_pid_def)
  then have "replicate_all sample_env [sample_open_item] ACT_REPLICATE None None (rep_start [] sample_map sim_start) = Inr (0, replicate_finish ?s)"
    by (simp add: replicate_all_def m sample_rep_def)
  with b show ?thesis by blast
qed




end
