(* ===== verification/Timing.thy ===== *)
theory Timing
  imports Op_Types
begin

text \<open>
  The delays of the replay (\<open>replicate.c\<close>): the clock rate, and the busy loop before every call, which
  keeps the gaps of the recorded run (\<open>TIME_DIFF\<close>) or its times from the start (\<open>TIME_EXACT\<close>). The
  processor's counter is a parameter, \<open>rdtsc k\<close> being its \<open>k\<close>-th reading; so is the scaling of a gap,
  which the code does in \<open>double\<close>. All other arithmetic is that of \<open>uint64_t\<close> and \<open>int64_t\<close>.
\<close>

section \<open>Times\<close>

text \<open>\<open>struct timeval\<close>: seconds and microseconds.\<close>

definition TIMEVAL_DIFF :: "i64 \<times> i64 \<Rightarrow> i64 \<times> i64 \<Rightarrow> i64" where
  "TIMEVAL_DIFF t1 t2 = (fst t1 * 1000000 + snd t1) - (fst t2 * 1000000 + snd t2)"

definition CALL_TIME :: "op_info \<Rightarrow> i64" where
  "CALL_TIME i = scast (tv_sec (start i)) * 1000000 + scast (tv_usec (start i))"

definition DUR_TIME :: "op_info \<Rightarrow> i64" where
  "DUR_TIME i = ucast (dur i)"

text \<open>\<open>get_clock_rate\<close>: the counter and the time before and after one second of sleep.\<close>

definition get_clock_rate :: "i64 \<Rightarrow> i64 \<Rightarrow> i64 \<times> i64 \<Rightarrow> i64 \<times> i64 \<Rightarrow> i64 res" where
  "get_clock_rate x1 x2 tv1 tv2 =
     (if TIMEVAL_DIFF tv2 tv1 = 0 then Inl Div_Zero else Inr ((x2 - x1) * 1000000 div TIMEVAL_DIFF tv2 tv1))"

text \<open>\<open>diff_real\<close>: the microseconds since an earlier reading.\<close>

definition elapsed :: "i64 \<Rightarrow> i64 \<Rightarrow> i64 \<Rightarrow> i64" where
  "elapsed rate now since = (now - since) * 1000000 div rate"

record timer =
  last_call_orig :: i64
  first_call_orig :: i64
  counter_first :: i64
  counter_last :: i64

section \<open>Waiting\<close>

text \<open>
  The loop: it ends when the call is due within 60 microseconds. The result is the number of the
  next reading, or \<open>None\<close> when the loop does not end.
\<close>

partial_function (option) wait_loop :: "(nat \<Rightarrow> i64) \<Rightarrow> i64 \<Rightarrow> i64 \<Rightarrow> i64 \<Rightarrow> i64 \<Rightarrow> nat \<Rightarrow> nat option" where
  "wait_loop rdtsc rate since diff_orig diff k =
     (if 60 < sint diff
      then wait_loop rdtsc rate since diff_orig (diff_orig - elapsed rate (rdtsc k) since) (Suc k)
      else Some k)"

definition wait_until :: "(nat \<Rightarrow> i64) \<Rightarrow> i64 \<Rightarrow> i64 \<Rightarrow> i64 \<Rightarrow> nat \<Rightarrow> nat option res" where
  "wait_until rdtsc rate since diff_orig k =
     (if rate = 0 then Inl Div_Zero
      else Inr (wait_loop rdtsc rate since diff_orig (diff_orig - elapsed rate (rdtsc k) since) (Suc k)))"

text \<open>The part of \<open>REPLICATE\<close> before the call, and the part after it.\<close>

definition timer_start :: "(nat \<Rightarrow> i64) \<Rightarrow> op_info \<Rightarrow> nat \<Rightarrow> timer \<times> nat" where
  "timer_start rdtsc i k =
     (\<lparr>last_call_orig = CALL_TIME i, first_call_orig = CALL_TIME i, counter_first = rdtsc k, counter_last = rdtsc (Suc k)\<rparr>,
      Suc (Suc k))"

definition wait_before :: "i32 \<Rightarrow> (i64 \<Rightarrow> i64) \<Rightarrow> (nat \<Rightarrow> i64) \<Rightarrow> i64 \<Rightarrow> op_info \<Rightarrow> timer \<Rightarrow> nat \<Rightarrow> nat option res" where
  "wait_before m scale rdtsc rate i t k =
     (if has_flag m TIME_DIFF then
        wait_until rdtsc rate (counter_last t) (scale (CALL_TIME i - last_call_orig t)) k
      else if has_flag m TIME_EXACT then
        wait_until rdtsc rate (counter_first t) (CALL_TIME i - first_call_orig t) k
      else Inr (Some k))"

definition timer_after :: "i32 \<Rightarrow> (nat \<Rightarrow> i64) \<Rightarrow> op_info \<Rightarrow> timer \<Rightarrow> nat \<Rightarrow> timer \<times> nat" where
  "timer_after m rdtsc i t k =
     (if has_flag m TIME_DIFF
      then (t\<lparr>last_call_orig := CALL_TIME i + DUR_TIME i, counter_last := rdtsc k\<rparr>, Suc k) else (t, k))"

text \<open>
  The delays of a whole replay of calls with the given headers: the readings at which the calls are
  made. The clock rate is 0 unless it was determined, which only \<open>ACT_REPLICATE\<close> without \<open>TIME_ASAP\<close>
  does.
\<close>

definition replay_rate :: "i32 \<Rightarrow> i64 \<Rightarrow> i64" where
  "replay_rate m rate = (if has_flag m ACT_REPLICATE \<and> \<not> has_flag m TIME_ASAP then rate else 0)"

fun call_times :: "i32 \<Rightarrow> (i64 \<Rightarrow> i64) \<Rightarrow> (nat \<Rightarrow> i64) \<Rightarrow> i64 \<Rightarrow> op_info list \<Rightarrow> timer \<Rightarrow> nat \<Rightarrow> nat list option res" where
  "call_times m scale rdtsc rate [] t k = Inr (Some [])"
| "call_times m scale rdtsc rate (i # is) t k =
     bindR (wait_before m scale rdtsc rate i t k) (\<lambda>r.
     case r of
       None \<Rightarrow> Inr None
     | Some k1 \<Rightarrow>
         (let (t, k2) = timer_after m rdtsc i t k1 in
          bindR (call_times m scale rdtsc rate is t k2) (\<lambda>ks. Inr (map_option ((#) k1) ks))))"

definition replay_times :: "i32 \<Rightarrow> (i64 \<Rightarrow> i64) \<Rightarrow> (nat \<Rightarrow> i64) \<Rightarrow> i64 \<Rightarrow> op_info list \<Rightarrow> nat list option res" where
  "replay_times m scale rdtsc rate is =
     (case is of
        [] \<Rightarrow> Inr (Some [])
      | i # _ \<Rightarrow> (let (t, k) = timer_start rdtsc i 0 in call_times m scale rdtsc (replay_rate m rate) is t k))"

section \<open>The wait ends\<close>

lemma wait_loop_reaches:
  "sint (diff_orig - elapsed rate (rdtsc (k + n)) since) \<le> 60 \<Longrightarrow>
   \<exists>j\<le>n. wait_loop rdtsc rate since diff_orig (diff_orig - elapsed rate (rdtsc k) since) (Suc k) = Some (Suc (k + j)) \<and>
     sint (diff_orig - elapsed rate (rdtsc (k + j)) since) \<le> 60 \<and>
     (\<forall>i<j. 60 < sint (diff_orig - elapsed rate (rdtsc (k + i)) since))"
proof (induction n arbitrary: k)
  case 0
  then show ?case by (subst wait_loop.simps) simp
next
  case (Suc n)
  show ?case
  proof (cases "60 < sint (diff_orig - elapsed rate (rdtsc k) since)")
    case False
    then show ?thesis by (subst wait_loop.simps) (auto intro!: exI [of _ 0])
  next
    case True
    obtain j where j: "j \<le> n"
      "wait_loop rdtsc rate since diff_orig (diff_orig - elapsed rate (rdtsc (Suc k)) since) (Suc (Suc k)) = Some (Suc (Suc k + j))"
      "sint (diff_orig - elapsed rate (rdtsc (Suc k + j)) since) \<le> 60"
      "\<forall>i<j. 60 < sint (diff_orig - elapsed rate (rdtsc (Suc k + i)) since)"
      using Suc.IH [of "Suc k"] Suc.prems by auto
    have "60 < sint (diff_orig - elapsed rate (rdtsc (k + i)) since)" if "i < Suc j" for i
      using that True j(4) by (cases i) auto
    moreover have "wait_loop rdtsc rate since diff_orig (diff_orig - elapsed rate (rdtsc k) since) (Suc k) = Some (Suc (k + Suc j))"
      using True j(2) by (subst wait_loop.simps) simp
    ultimately show ?thesis using j(1,3) by (intro exI [of _ "Suc j"]) auto
  qed
qed

text \<open>Without overflow, \<open>elapsed\<close> is the time in microseconds, rounded down.\<close>

lemma elapsed_exact:
  assumes "unat (now - since) * 1000000 < 2 ^ 64"
  shows "unat (elapsed rate now since) = unat (now - since) * 1000000 div unat rate"
proof -
  have "unat ((now - since) * 1000000) = unat (now - since) * 1000000"
    using assms unat_mult_lem [of "now - since" "1000000 :: i64", THEN iffD1] by simp
  then show ?thesis by (simp add: elapsed_def unat_div)
qed

text \<open>
  \<open>int64_t\<close> holds the recorded gap; with a rate of at least 2 ticks in a second the measured time fits too.
\<close>

lemma due:
  assumes "2 \<le> unat rate" "0 \<le> sint d" "unat (now - since) * 1000000 < 2 ^ 64"
    and "(sint d - 60) * int (unat rate) \<le> int (unat (now - since)) * 1000000"
  shows "sint (d - elapsed rate now since) \<le> 60"
proof -
  obtain q where q: "q = unat (now - since) * 1000000 div unat rate" by blast
  have x: "unat (elapsed rate now since) = q" unfolding q by (rule elapsed_exact [OF assms(3)])
  have "q \<le> unat (now - since) * 1000000 div 2" unfolding q using assms(1) by (rule div_le_mono2 [OF zero_less_numeral])
  then have "q < 2 ^ 63" using assms(3) by simp
  then have small: "int q < 2 ^ 63" by simp
  have u: "uint (elapsed rate now since) = int q" using x by (simp add: uint_nat)
  have sx: "sint (elapsed rate now since) = int q"
    unfolding sint_uint u using small by (intro signed_take_bit_int_eq_self) simp_all
  have d: "sint d < 2 ^ 63" using sint_lt [of d] by simp
  have "sint (d - elapsed rate now since) = sint d - int q"
    unfolding sint_word_diff sx using d assms(2) small by (intro signed_take_bit_int_eq_self) simp_all
  moreover have "sint d - 60 \<le> int q"
  proof -
    have "(sint d - 60) * int (unat rate) div int (unat rate) \<le> int (unat (now - since)) * 1000000 div int (unat rate)"
      using assms(1,4) by (intro zdiv_mono1) linarith+
    moreover have "int (unat rate) \<noteq> 0" using assms(1) by linarith
    ultimately show ?thesis unfolding q zdiv_int of_nat_mult by (metis nonzero_mult_div_cancel_right of_nat_numeral)
  qed
  ultimately show ?thesis by simp
qed

text \<open>The reading that the loop measures from, and the gap it waits for.\<close>

definition measured_from :: "i32 \<Rightarrow> timer \<Rightarrow> i64" where
  "measured_from m t = (if has_flag m TIME_DIFF then counter_last t else counter_first t)"

definition recorded_gap :: "i32 \<Rightarrow> (i64 \<Rightarrow> i64) \<Rightarrow> op_info \<Rightarrow> timer \<Rightarrow> i64" where
  "recorded_gap m scale i t =
     (if has_flag m TIME_DIFF then scale (CALL_TIME i - last_call_orig t) else CALL_TIME i - first_call_orig t)"

lemma wait_before_gap:
  "has_flag m TIME_DIFF \<or> has_flag m TIME_EXACT \<Longrightarrow>
   wait_before m scale rdtsc rate i t k = wait_until rdtsc rate (measured_from m t) (recorded_gap m scale i t) k"
  by (auto simp: wait_before_def measured_from_def recorded_gap_def)

text \<open>
  C19: The wait before a call ends. When the counter of the processor gets so far that the recorded gap
  has passed, up to 60 microseconds, at a reading at which the multiplication does not overflow, the
  busy loop ends: at that reading or before, at the first one at which the call is due.
\<close>

theorem wait_before_ends:
  assumes "has_flag m TIME_DIFF \<or> has_flag m TIME_EXACT"
    and "2 \<le> unat rate" and "0 \<le> sint (recorded_gap m scale i t)" and "k \<le> j"
    and "unat (rdtsc j - measured_from m t) * 1000000 < 2 ^ 64"
    and "(sint (recorded_gap m scale i t) - 60) * int (unat rate) \<le> int (unat (rdtsc j - measured_from m t)) * 1000000"
  shows "\<exists>n. k \<le> n \<and> n \<le> j \<and> wait_before m scale rdtsc rate i t k = Inr (Some (Suc n)) \<and>
    sint (recorded_gap m scale i t - elapsed rate (rdtsc n) (measured_from m t)) \<le> 60 \<and>
    (\<forall>l. k \<le> l \<and> l < n \<longrightarrow> 60 < sint (recorded_gap m scale i t - elapsed rate (rdtsc l) (measured_from m t)))"
proof -
  let ?d = "recorded_gap m scale i t" and ?since = "measured_from m t"
  have "sint (?d - elapsed rate (rdtsc (k + (j - k))) ?since) \<le> 60"
    using due [OF assms(2,3,5,6)] assms(4) by simp
  then obtain n where n: "n \<le> j - k"
    "wait_loop rdtsc rate ?since ?d (?d - elapsed rate (rdtsc k) ?since) (Suc k) = Some (Suc (k + n))"
    "sint (?d - elapsed rate (rdtsc (k + n)) ?since) \<le> 60"
    "\<forall>l<n. 60 < sint (?d - elapsed rate (rdtsc (k + l)) ?since)"
    using wait_loop_reaches by blast
  have "60 < sint (?d - elapsed rate (rdtsc l) ?since)" if "k \<le> l" "l < k + n" for l
    using n(4) [rule_format, of "l - k"] that by simp
  moreover have "rate \<noteq> 0" using assms(2) by auto
  ultimately show ?thesis
    using n assms(4) by (intro exI [of _ "k + n"]) (simp add: wait_before_gap [OF assms(1)] wait_until_def)
qed

definition sample_call :: op_info where
  "sample_call = \<lparr>pid = 7, dur = 0, start = \<lparr>tv_sec = 1, tv_usec = 500\<rparr>\<rparr>"

definition sample_timer :: timer where
  "sample_timer = \<lparr>last_call_orig = 1000000, first_call_orig = 1000000, counter_first = 0, counter_last = 0\<rparr>"

lemma elapsed_wraps:
  assumes "2 ^ 64 \<le> unat (now - since) * 1000000" "unat (now - since) * 1000000 < 2 * 2 ^ 64"
  shows "unat (elapsed rate now since) = (unat (now - since) * 1000000 - 2 ^ 64) div unat rate"
proof -
  have "unat ((now - since) * 1000000) = (unat (now - since) * 1000000) mod 2 ^ 64"
    using unat_word_ariths(2) [of "now - since" 1000000] by simp
  also have "\<dots> = unat (now - since) * 1000000 - 2 ^ 64"
    using assms by (simp add: mod_if)
  finally show ?thesis by (simp add: elapsed_def unat_div)
qed

text \<open>
  Timing without replication. \<open>ioreplay\<close> accepts a timing mode with the modes that only simulate,
  but the clock rate is determined only for a replication: the first call divides by zero.
\<close>

theorem simulated_timing_divides_by_zero:
  assumes "has_flag m TIME_DIFF \<or> has_flag m TIME_EXACT" and "\<not> has_flag m ACT_REPLICATE" and "calls \<noteq> []"
  shows "replay_times m scale rdtsc rate calls = Inl Div_Zero"
proof -
  obtain i rest where calls: "calls = i # rest" using assms(3) by (cases calls) auto
  have "wait_before m scale rdtsc 0 i t k = Inl Div_Zero" for t k
    by (simp add: wait_before_gap [OF assms(1)] wait_until_def)
  then show ?thesis using assms(2) by (simp add: replay_times_def calls replay_rate_def timer_start_def)
qed

theorem simulated_timing_divides_by_zero_witness:
  "replay_times (ACT_SIMULATE + FIX_MISSING + TIME_DIFF) id (\<lambda>k. of_nat k) 1000 [sample_call] = Inl Div_Zero"
  by (rule simulated_timing_divides_by_zero) (simp_all add: has_flag_def mask_defs)

theorem wait_before_ends_witness:
  "\<exists>n. 2 \<le> n \<and> n \<le> 442 \<and> wait_before TIME_DIFF id (\<lambda>k. of_nat k) 1000000 sample_call sample_timer 2 = Inr (Some (Suc n))"
proof -
  have gap: "recorded_gap TIME_DIFF id sample_call sample_timer = 500" and from0: "measured_from TIME_DIFF sample_timer = 0"
    by (simp_all add: recorded_gap_def measured_from_def has_flag_def mask_defs CALL_TIME_def sample_call_def sample_timer_def)
  have flag: "has_flag TIME_DIFF TIME_DIFF" by (simp add: has_flag_def mask_defs)
  show ?thesis
    using wait_before_ends [of TIME_DIFF 1000000 id sample_call sample_timer 2 442 "\<lambda>k. of_nat k"]
    by (auto simp: gap from0 flag)
qed

end
