(* ===== verification/Print.thy ===== *)
theory Print
  imports Op_Types C_Strings
begin

text \<open>
  Printing a trace in the normalized format (\<open>print.c\<close>): one line for every item, with its time and
  process first and its duration last. The model gives the text that is written to \<open>stdout\<close>.
\<close>

section \<open>Formats\<close>

definition hex_digit :: "nat \<Rightarrow> char" where
  "hex_digit n = (if n mod 16 < 10 then char_of (48 + n mod 16) else char_of (87 + n mod 16))"

fun hexadecimal :: "nat \<Rightarrow> string" where
  "hexadecimal n = (if n < 16 then [hex_digit n] else hexadecimal (n div 16) @ [hex_digit n])"

declare hexadecimal.simps [simp del]

text \<open>\<open>PRIi32\<close>, \<open>PRIi64\<close> and \<open>PRIx32\<close>\<close>

definition dec32 :: "i32 \<Rightarrow> string" where "dec32 x = decimal_int (sint x)"
definition dec64 :: "i64 \<Rightarrow> string" where "dec64 x = decimal_int (sint x)"
definition hex32 :: "i32 \<Rightarrow> string" where "hex32 x = hexadecimal (unat x)"

definition TAB :: char where "TAB = CHR 0x09"
definition LF :: char where "LF = CHR 0x0A"

text \<open>The parts that every format has: the time, the process, and the duration at the end.\<close>

definition print_start :: "op_info \<Rightarrow> string" where
  "print_start i = dec32 (tv_sec (start i)) @ ''.'' @ dec32 (tv_usec (start i)) @ [TAB] @ dec32 (pid i) @ [TAB]"

definition print_dur :: "op_info \<Rightarrow> string" where
  "print_dur i = '' <'' @ dec32 (dur i) @ ''>'' @ [LF]"

definition print_call :: "op_info \<Rightarrow> string \<Rightarrow> string" where
  "print_call i text = print_start i @ text @ print_dur i"

section \<open>Calls\<close>

text \<open>The flag of a seek is printed by \<open>%0x\<close> and a literal \<open>x\<close>: the format reads \<open>%0x"PRIx32"\<close>.\<close>

definition print_read :: "read_op \<Rightarrow> string" where
  "print_read x = print_call (read_info x)
     (''read('' @ dec32 (read_fd x) @ '', addr, '' @ dec64 (read_size x) @ '') = '' @ dec64 (read_retval x))"

definition print_write :: "write_op \<Rightarrow> string" where
  "print_write x = print_call (write_info x)
     (''write('' @ dec32 (write_fd x) @ '', addr, '' @ dec64 (write_size x) @ '') = '' @ dec64 (write_retval x))"

definition print_pread :: "pread_op \<Rightarrow> string" where
  "print_pread x = print_call (pread_info x)
     (''pread('' @ dec32 (pread_fd x) @ '', addr, '' @ dec64 (pread_size x) @ '', '' @ dec64 (pread_offset x) @ '') = '' @ dec64 (pread_retval x))"

definition print_pwrite :: "pwrite_op \<Rightarrow> string" where
  "print_pwrite x = print_call (pwrite_info x)
     (''pwrite('' @ dec32 (pwrite_fd x) @ '', addr, '' @ dec64 (pwrite_size x) @ '', '' @ dec64 (pwrite_offset x) @ '') = '' @ dec64 (pwrite_retval x))"

definition print_pipe :: "pipe_op \<Rightarrow> string" where
  "print_pipe x = print_call (pipe_info x)
     (''pipe('' @ dec32 (pipe_fd1 x) @ '', '' @ dec32 (pipe_fd2 x) @ '', 0x'' @ hex32 (pipe_mode x) @ '') = '' @ dec32 (pipe_retval x))"

definition print_open :: "open_op \<Rightarrow> string" where
  "print_open x = print_call (open_info x)
     (''open('' @ open_name x @ '', 0x'' @ hex32 (open_flags x) @ '', 0x'' @ hex32 (open_mode x) @ '') = '' @ dec32 (open_retval x))"

definition print_clone :: "clone_op \<Rightarrow> string" where
  "print_clone x = print_call (clone_info x)
     (''clone(addr, addr, 0x'' @ hex32 (clone_mode x) @ '', args..) = '' @ dec32 (clone_retval x))"

definition print_close :: "close_op \<Rightarrow> string" where
  "print_close x = print_call (close_info x)
     (''close('' @ dec32 (close_fd x) @ '') = '' @ dec32 (close_retval x))"

definition print_unlink :: "unlink_op \<Rightarrow> string" where
  "print_unlink x = print_call (unlink_info x)
     (''unlink('' @ unlink_name x @ '') = '' @ dec32 (unlink_retval x))"

definition print_llseek :: "llseek_op \<Rightarrow> string" where
  "print_llseek x = print_call (llseek_info x)
     (''llseek('' @ dec32 (llseek_fd x) @ '', offset='' @ dec64 (llseek_offset x) @ '', result='' @ dec64 (llseek_f_offset x) @ '', '' @ hex32 (llseek_flag x) @ ''x'' @ '') = '' @ dec64 (llseek_retval x))"

definition print_lseek :: "lseek_op \<Rightarrow> string" where
  "print_lseek x = print_call (lseek_info x)
     (''lseek('' @ dec32 (lseek_fd x) @ '', '' @ dec64 (lseek_offset x) @ '', '' @ hex32 (lseek_flag x) @ ''x'' @ '') = '' @ dec64 (lseek_retval x))"

definition print_sendfile :: "sendfile_op \<Rightarrow> string" where
  "print_sendfile x = print_call (sendfile_info x)
     (''sendfile('' @ dec32 (sendfile_out_fd x) @ '', '' @ dec32 (sendfile_in_fd x) @ '', '' @ dec64 (sendfile_offset x) @ '', '' @ dec64 (sendfile_size x) @ '') = '' @ dec64 (sendfile_retval x))"

definition print_mkdir :: "mkdir_op \<Rightarrow> string" where
  "print_mkdir x = print_call (mkdir_info x)
     (''mkdir('' @ mkdir_name x @ '', 0x'' @ hex32 (mkdir_mode x) @ '') = '' @ dec32 (mkdir_retval x))"

definition print_rmdir :: "rmdir_op \<Rightarrow> string" where
  "print_rmdir x = print_call (rmdir_info x)
     (''rmdir('' @ rmdir_name x @ '') = '' @ dec32 (rmdir_retval x))"

definition print_dup :: "dup_op \<Rightarrow> string" where
  "print_dup x = print_call (dup_info x)
     (''dup2('' @ dec32 (dup_old_fd x) @ '', '' @ dec32 (dup_new_fd x) @ '', 0x'' @ hex32 (dup_flags x) @ '') = '' @ dec32 (dup_retval x))"

definition print_access :: "access_op \<Rightarrow> string" where
  "print_access x = print_call (access_info x)
     (''access('' @ access_name x @ '', 0x'' @ hex32 (access_mode x) @ '') = '' @ dec32 (access_retval x))"

definition print_stat :: "stat_op \<Rightarrow> string" where
  "print_stat x = print_call (stat_info x)
     (''stat('' @ stat_name x @ '', addr) = '' @ dec32 (stat_retval x))"

definition print_socket :: "socket_op \<Rightarrow> string" where
  "print_socket x = print_call (socket_info x)
     (''socket(domain, type, protocol) = '' @ dec32 (socket_retval x))"

lemmas print_call_defs = print_read_def print_write_def print_pread_def print_pwrite_def print_pipe_def print_open_def print_clone_def print_close_def print_unlink_def print_llseek_def print_lseek_def print_sendfile_def print_mkdir_def print_rmdir_def print_dup_def print_access_def print_stat_def print_socket_def

section \<open>The list\<close>

text \<open>The text of one item, or nothing when its type is unknown.\<close>

definition print_op :: "op_item \<Rightarrow> string option res" where
  "print_op it =
     (let c = type it; show_op = (\<lambda>text. Inr (Some text)) in
      if c = OP_WRITE then bindR (as_write it) (\<lambda>x. show_op (print_write x))
      else if c = OP_READ then bindR (as_read it) (\<lambda>x. show_op (print_read x))
      else if c = OP_PWRITE then bindR (as_pwrite it) (\<lambda>x. show_op (print_pwrite x))
      else if c = OP_PREAD then bindR (as_pread it) (\<lambda>x. show_op (print_pread x))
      else if c = OP_OPEN then bindR (as_open it) (\<lambda>x. show_op (print_open x))
      else if c = OP_CLOSE then bindR (as_close it) (\<lambda>x. show_op (print_close x))
      else if c = OP_UNLINK then bindR (as_unlink it) (\<lambda>x. show_op (print_unlink x))
      else if c = OP_LSEEK then bindR (as_lseek it) (\<lambda>x. show_op (print_lseek x))
      else if c = OP_LLSEEK then bindR (as_llseek it) (\<lambda>x. show_op (print_llseek x))
      else if c = OP_CLONE then bindR (as_clone it) (\<lambda>x. show_op (print_clone x))
      else if c = OP_MKDIR then bindR (as_mkdir it) (\<lambda>x. show_op (print_mkdir x))
      else if c = OP_RMDIR then bindR (as_rmdir it) (\<lambda>x. show_op (print_rmdir x))
      else if c = OP_DUP \<or> c = OP_DUP2 \<or> c = OP_DUP3 then bindR (as_dup it) (\<lambda>x. show_op (print_dup x))
      else if c = OP_PIPE then bindR (as_pipe it) (\<lambda>x. show_op (print_pipe x))
      else if c = OP_ACCESS then bindR (as_access it) (\<lambda>x. show_op (print_access x))
      else if c = OP_STAT then bindR (as_stat it) (\<lambda>x. show_op (print_stat x))
      else if c = OP_SOCKET then bindR (as_socket it) (\<lambda>x. show_op (print_socket x))
      else if c = OP_SENDFILE then bindR (as_sendfile it) (\<lambda>x. show_op (print_sendfile x))
      else Inr None)"

text \<open>\<open>print_items\<close>: the return value and what was written; an unknown type ends the printing.\<close>

fun print_items :: "op_item list \<Rightarrow> (i32 \<times> string) res" where
  "print_items [] = Inr (0, [])"
| "print_items (it # its) =
     bindR (print_op it) (\<lambda>r.
     case r of
       None \<Rightarrow> Inr (-1, [])
     | Some text \<Rightarrow> bindR (print_items its) (\<lambda>(rv, out). Inr (rv, text @ out)))"

section \<open>One line for every item\<close>

text \<open>The name that a structure holds, if any.\<close>

fun op_name :: "op_struct \<Rightarrow> string" where
  "op_name (S_open x) = open_name x"
| "op_name (S_unlink x) = unlink_name x"
| "op_name (S_mkdir x) = mkdir_name x"
| "op_name (S_rmdir x) = rmdir_name x"
| "op_name (S_access x) = access_name x"
| "op_name (S_stat x) = stat_name x"
| "op_name _ = []"

definition no_newline :: "string \<Rightarrow> bool" where
  "no_newline s \<longleftrightarrow> LF \<notin> set s"

lemma no_newline_simps [simp]:
  "no_newline []" "no_newline (c # s) \<longleftrightarrow> c \<noteq> LF \<and> no_newline s" "no_newline (s @ t) \<longleftrightarrow> no_newline s \<and> no_newline t"
  by (auto simp: no_newline_def)

lemma hex_digit_LF: "hex_digit n \<noteq> LF"
proof
  assume "hex_digit n = LF"
  then have "(of_char (hex_digit n) :: nat) = 10" by (simp add: LF_def)
  moreover have "n mod 16 < 16" by simp
  ultimately show False by (simp add: hex_digit_def split: if_splits)
qed

lemma no_newline_hex [simp]: "no_newline (hex32 x)"
proof -
  have "no_newline (hexadecimal n)" for n
  proof (induction n rule: hexadecimal.induct)
    case (1 n)
    then show ?case using hex_digit_LF by (subst hexadecimal.simps) auto
  qed
  then show ?thesis by (simp add: hex32_def)
qed

lemma no_newline_dec [simp]: "no_newline (dec32 x)" "no_newline (dec64 y)"
proof -
  have "\<not> is_digit LF" by (simp add: is_digit_def LF_def)
  then have "no_newline (decimal n)" for n using decimal_props [of n] by (auto simp: no_newline_def)
  then have "no_newline (decimal_int i)" for i by (simp add: decimal_int_def) (simp add: LF_def)
  then show "no_newline (dec32 x)" "no_newline (dec64 y)" by (simp_all add: dec32_def dec64_def)
qed

text \<open>The line of an item: it starts with the time and the process, and its only newline is its last character.\<close>

definition line_of :: "op_item \<Rightarrow> string \<Rightarrow> bool" where
  "line_of it l \<longleftrightarrow> (\<exists>call. l = print_start (op_info_of (body it)) @ call @ print_dur (op_info_of (body it)) \<and>
     no_newline (butlast l))"

lemma print_call_line:
  assumes "no_newline text" "i = op_info_of (body it)"
  shows "line_of it (print_call i text)"
proof -
  have "TAB \<noteq> LF" by (simp add: TAB_def LF_def)
  then have "no_newline (butlast (print_call i text))"
    using assms(1) by (simp add: print_call_def print_start_def print_dur_def butlast_append) (simp add: LF_def)
  then show ?thesis unfolding line_of_def assms(2) print_call_def by blast
qed

text \<open>The text of a structure.\<close>

fun print_body :: "op_struct \<Rightarrow> string" where
  "print_body (S_read x) = print_read x"
| "print_body (S_write x) = print_write x"
| "print_body (S_pread x) = print_pread x"
| "print_body (S_pwrite x) = print_pwrite x"
| "print_body (S_pipe x) = print_pipe x"
| "print_body (S_mkdir x) = print_mkdir x"
| "print_body (S_rmdir x) = print_rmdir x"
| "print_body (S_clone x) = print_clone x"
| "print_body (S_dup x) = print_dup x"
| "print_body (S_open x) = print_open x"
| "print_body (S_close x) = print_close x"
| "print_body (S_unlink x) = print_unlink x"
| "print_body (S_llseek x) = print_llseek x"
| "print_body (S_lseek x) = print_lseek x"
| "print_body (S_access x) = print_access x"
| "print_body (S_stat x) = print_stat x"
| "print_body (S_socket x) = print_socket x"
| "print_body (S_sendfile x) = print_sendfile x"

lemma print_op_body: "item_ok it \<Longrightarrow> print_op it = Inr (Some (print_body (body it)))"
  by (cases "body it") (elim disjE | simp add: item_ok_def print_op_def op_codes as_defs)+

lemma print_body_line:
  assumes "no_newline (op_name (body it))"
  shows "line_of it (print_body (body it))"
proof -
  have "no_newline (op_name b) \<Longrightarrow> \<exists>text. print_body b = print_call (op_info_of b) text \<and> no_newline text" for b
    by (cases b; simp only: print_body.simps print_call_defs op_info_of.simps; rule exI; rule conjI [OF refl]; simp add: LF_def)
  then show ?thesis using assms print_call_line by metis
qed

lemma print_op_line:
  assumes "item_ok it" "no_newline (op_name (body it))"
  shows "\<exists>l. print_op it = Inr (Some l) \<and> line_of it l"
  using print_op_body [OF assms(1)] print_body_line [OF assms(2)] by blast

text \<open>
  Printing a trace. For items of known types whose names hold no newline, \<open>print_items\<close> returns 0
  and writes exactly one line for each item, in their order, with the item's time and process first
  and its duration last.
\<close>

theorem print_items_lines:
  assumes "\<forall>it\<in>set items. item_ok it \<and> no_newline (op_name (body it))"
  shows "\<exists>lines. print_items items = Inr (0, concat lines) \<and> list_all2 line_of items lines"
  using assms
proof (induction items)
  case (Cons it items)
  obtain lines where lines: "print_items items = Inr (0, concat lines)" "list_all2 line_of items lines" using Cons by auto
  obtain l where l: "print_op it = Inr (Some l)" "line_of it l" using print_op_line Cons.prems by auto
  show ?case using lines l by (intro exI [of _ "l # lines"]) simp
qed (auto intro: exI [of _ "[]"])

definition printed_sample :: op_item where
  "printed_sample = \<lparr>type = OP_LSEEK, body = S_lseek \<lparr>lseek_fd = 3, lseek_flag = 1, lseek_offset = 10, lseek_retval = 20,
     lseek_info = \<lparr>pid = 7, dur = 4, start = \<lparr>tv_sec = 1, tv_usec = 5\<rparr>\<rparr>\<rparr>\<rparr>"

theorem print_items_lines_witness:
  "\<exists>lines. print_items [printed_sample, printed_sample] = Inr (0, concat lines) \<and> length lines = 2"
  using print_items_lines [of "[printed_sample, printed_sample]"]
  by (force simp: printed_sample_def item_ok_def dest: list_all2_lengthD)

text \<open>The flag of a seek comes out with the \<open>x\<close> behind it.\<close>

lemma print_seek_flag:
  "print_op printed_sample = Inr (Some (''1.5'' @ [TAB] @ ''7'' @ [TAB] @ ''lseek(3, 10, 1x) = 20 <4>'' @ [LF]))"
  by code_simp

end
