(* ===== verification/C_Scanf.thy ===== *)
theory C_Scanf
  imports C_Strings
begin

text \<open>
  \<open>sscanf\<close> as the C library has it, for the conversions that the trace reader uses. A format is a
  list of directives; white space and literal characters come from \<open>lits\<close>. A conversion that
  stores text knows the size of the buffer it stores to, and one that does not fit is an error.
\<close>

section \<open>Formats\<close>

datatype directive =
    Space                          \<comment> \<open>white space in the format: skips any white space\<close>
  | Lit char                       \<comment> \<open>an ordinary character\<close>
  | Dec                            \<comment> \<open>\<open>%d\<close>, to an \<open>int\<close>\<close>
  | Unsigned nat                   \<comment> \<open>\<open>%u\<close> and \<open>%o\<close>, to an \<open>int\<close>; the base\<close>
  | Int64                          \<comment> \<open>\<open>%li\<close>, to an \<open>int64_t\<close>; the base follows from the prefix\<close>
  | Word nat                       \<comment> \<open>\<open>%s\<close>, to a buffer of this size\<close>
  | Until char "nat option" nat    \<comment> \<open>\<open>%[^c]\<close>, at most the width, to a buffer of this size\<close>
  | Skip char                      \<comment> \<open>\<open>%*[^c]\<close>\<close>

text \<open>What a successful conversion stores.\<close>

datatype arg = I32 i32 | I64 i64 | Str string

definition lits :: "string \<Rightarrow> directive list" where
  "lits s = map (\<lambda>c. if is_space c then Space else Lit c) s"

section \<open>Numbers\<close>

definition base_digit :: "nat \<Rightarrow> char \<Rightarrow> bool" where
  "base_digit b c \<longleftrightarrow>
     (is_digit c \<and> digit_val c < b) \<or>
     (b = 16 \<and> (97 \<le> (of_char c :: nat) \<and> (of_char c :: nat) \<le> 102 \<or> 65 \<le> (of_char c :: nat) \<and> (of_char c :: nat) \<le> 70))"

definition base_val :: "char \<Rightarrow> nat" where
  "base_val c = (if is_digit c then digit_val c
     else if 97 \<le> (of_char c :: nat) then of_char c - 87 else of_char c - 55)"

fun base_digits_val :: "nat \<Rightarrow> nat \<Rightarrow> string \<Rightarrow> nat" where
  "base_digits_val b n [] = n"
| "base_digits_val b n (c # s) = base_digits_val b (b * n + base_val c) s"

text \<open>The sign in front of a number.\<close>

fun scan_sign :: "string \<Rightarrow> bool \<times> string" where
  "scan_sign [] = (False, [])"
| "scan_sign (c # s) = (if c = CHR ''-'' then (True, s) else if c = CHR ''+'' then (False, s) else (False, c # s))"

definition apply_sign :: "bool \<Rightarrow> nat \<Rightarrow> int" where
  "apply_sign neg n = (if neg then - int n else int n)"

text \<open>A number in base \<open>b\<close>: its value and the rest, or nothing when there is no digit.\<close>

definition scan_base :: "nat \<Rightarrow> bool \<Rightarrow> string \<Rightarrow> (int \<times> string) option" where
  "scan_base b neg s =
     (let ds = takeWhile (base_digit b) s in
      if ds = [] then None else Some (apply_sign neg (base_digits_val b 0 ds), dropWhile (base_digit b) s))"

definition scan_number :: "nat \<Rightarrow> string \<Rightarrow> (int \<times> string) option" where
  "scan_number b s = (let (neg, s) = scan_sign s in scan_base b neg s)"

text \<open>\<open>%i\<close>: a number that starts with 0 is octal, or hexadecimal after \<open>0x\<close>.\<close>

definition scan_auto :: "string \<Rightarrow> (int \<times> string) option" where
  "scan_auto s =
     (let (neg, s) = scan_sign s in
      case s of
        z # x # r \<Rightarrow>
          if z = CHR ''0'' \<and> (x = CHR ''x'' \<or> x = CHR ''X'') then
            Some (apply_sign neg (base_digits_val 16 0 (takeWhile (base_digit 16) r)), dropWhile (base_digit 16) r)
          else scan_base (if z = CHR ''0'' then 8 else 10) neg s
      | _ \<Rightarrow> scan_base 10 neg s)"

text \<open>The C library reads a \<open>long\<close> (or \<open>unsigned long\<close>), which stops at its bounds, and stores its low bits.\<close>

definition clamp_ulong :: "int \<Rightarrow> int" where
  "clamp_ulong i = (if 2 ^ 64 \<le> \<bar>i\<bar> then 2 ^ 64 - 1 else i)"

section \<open>Scanning\<close>

definition skip_space :: "string \<Rightarrow> string" where
  "skip_space s = dropWhile is_space s"

text \<open>
  One step: the arguments stored, and the rest of the input, or the end of the scan. \<open>Some True\<close> says
  that the input was at its end.
\<close>

datatype step = Go "arg list" string | Stop bool

definition scan_num :: "(string \<Rightarrow> (int \<times> string) option) \<Rightarrow> (int \<Rightarrow> arg) \<Rightarrow> string \<Rightarrow> step" where
  "scan_num scan store s =
     (let s = skip_space s in
      if s = [] then Stop True
      else (case scan s of None \<Rightarrow> Stop False | Some (v, r) \<Rightarrow> Go [store v] r))"

fun scan_step :: "directive \<Rightarrow> string \<Rightarrow> step res" where
  "scan_step Space s = Inr (Go [] (skip_space s))"
| "scan_step (Lit c) [] = Inr (Stop True)"
| "scan_step (Lit c) (x # s) = Inr (if x = c then Go [] s else Stop False)"
| "scan_step Dec s = Inr (scan_num (scan_number 10) (\<lambda>v. I32 (word_of_int (clamp_long v))) s)"
| "scan_step (Unsigned b) s = Inr (scan_num (scan_number b) (\<lambda>v. I32 (word_of_int (clamp_ulong v))) s)"
| "scan_step Int64 s = Inr (scan_num scan_auto (\<lambda>v. I64 (word_of_int (clamp_long v))) s)"
| "scan_step (Word n) s =
     (let s = skip_space s; w = takeWhile (\<lambda>c. \<not> is_space c) s in
      if s = [] then Inr (Stop True)
      else if n \<le> length w then Inl Overflow
      else Inr (Go [Str w] (drop (length w) s)))"
| "scan_step (Until c width n) s =
     (let w = takeWhile (\<lambda>x. x \<noteq> c) s; w = (case width of None \<Rightarrow> w | Some k \<Rightarrow> take k w) in
      if s = [] then Inr (Stop True)
      else if w = [] then Inr (Stop False)
      else if n \<le> length w then Inl Overflow
      else Inr (Go [Str w] (drop (length w) s)))"
| "scan_step (Skip c) s =
     (let w = takeWhile (\<lambda>x. x \<noteq> c) s in
      Inr (if s = [] then Stop True else if w = [] then Stop False else Go [] (drop (length w) s)))"

text \<open>
  \<open>sscanf\<close>: the arguments it stored, whose number it returns, or \<open>None\<close> for \<open>EOF\<close>, when the input
  ended before anything was stored.
\<close>

fun scan_loop :: "directive list \<Rightarrow> string \<Rightarrow> arg list \<Rightarrow> arg list option res" where
  "scan_loop [] s args = Inr (Some args)"
| "scan_loop (d # ds) s args =
     bindR (scan_step d s) (\<lambda>r.
     case r of
       Go new s \<Rightarrow> scan_loop ds s (args @ new)
     | Stop at_end \<Rightarrow> Inr (if at_end \<and> args = [] then None else Some args))"

definition sscanf :: "string \<Rightarrow> directive list \<Rightarrow> arg list option res" where
  "sscanf s fmt = scan_loop fmt s []"

section \<open>Scanning what was printed\<close>

named_theorems scan_intro \<open>steps of a scan over printed text\<close>

lemma base_digit_10 [simp]: "base_digit 10 c \<longleftrightarrow> is_digit c"
  by (auto simp: base_digit_def is_digit_def digit_val_def)

lemma base_digits_val_10: "\<forall>c\<in>set s. is_digit c \<Longrightarrow> base_digits_val 10 n s = digits_val n s"
  by (induction s arbitrary: n) (auto simp: base_val_def)

text \<open>The text after a printed number does not go on with a digit.\<close>

definition ends_number :: "string \<Rightarrow> bool" where
  "ends_number r \<longleftrightarrow> (case r of [] \<Rightarrow> True | c # _ \<Rightarrow> \<not> is_digit c \<and> c \<noteq> CHR ''x'' \<and> c \<noteq> CHR ''X'')"

lemma take_drop_digits:
  assumes "\<forall>c\<in>set ds. is_digit c" "ends_number r"
  shows "takeWhile is_digit (ds @ r) = ds" "dropWhile is_digit (ds @ r) = r"
proof -
  have "takeWhile is_digit r = []" "dropWhile is_digit r = r"
    using assms(2) by (cases r; simp add: ends_number_def)+
  then show "takeWhile is_digit (ds @ r) = ds" "dropWhile is_digit (ds @ r) = r"
    using assms(1) by (simp_all add: takeWhile_append2 dropWhile_append2)
qed

lemma scan_sign_int:
  "scan_sign (decimal_int i @ r) = (i < 0, decimal (nat \<bar>i\<bar>) @ r)"
proof -
  obtain c s where c: "decimal (nat \<bar>i\<bar>) = c # s" "is_digit c"
    using decimal_props [of "nat \<bar>i\<bar>"] by (cases "decimal (nat \<bar>i\<bar>)") auto
  show ?thesis
  proof (cases "i < 0")
    case True
    then show ?thesis by (simp add: decimal_int_def)
  next
    case False
    then have "decimal_int i = c # s" using c(1) by (simp add: decimal_int_def)
    then show ?thesis using False c is_digit_not [OF c(2)] by simp
  qed
qed

lemma apply_sign_int: "apply_sign (i < 0) (nat \<bar>i\<bar>) = i"
  by (simp add: apply_sign_def)

lemma scan_base_decimal:
  assumes "ends_number r"
  shows "scan_base 10 neg (decimal n @ r) = Some (apply_sign neg n, r)"
proof -
  have p: "digits_val 0 (decimal n) = n" "\<forall>c\<in>set (decimal n). is_digit c" "decimal n \<noteq> []"
    using decimal_props [of n] by auto
  have "base_digit 10 = is_digit" by (simp add: fun_eq_iff)
  then show ?thesis
    using take_drop_digits [OF p(2) assms] p(1,3) base_digits_val_10 [OF p(2)] by (simp add: scan_base_def)
qed

lemma scan_number_int [simp]:
  "ends_number r \<Longrightarrow> scan_number 10 (decimal_int i @ r) = Some (i, r)"
  by (simp add: scan_number_def scan_sign_int scan_base_decimal apply_sign_int)

lemma decimal_head: "\<exists>c s. decimal n = c # s \<and> is_digit c \<and> (c = CHR ''0'' \<longrightarrow> n = 0 \<and> s = [])"
proof (induction n rule: decimal.induct)
  case (1 n)
  show ?case
  proof (cases "n < 10")
    case True
    have "digit n \<noteq> CHR ''0''" if "n \<noteq> 0"
      using True that digit_val_digit [of n] by (auto simp: digit_val_def)
    then show ?thesis using True by (auto simp: decimal.simps [of n])
  next
    case False
    then obtain c s where "decimal (n div 10) = c # s" "is_digit c" "c = CHR ''0'' \<longrightarrow> n div 10 = 0 \<and> s = []"
      using 1 by blast
    moreover have "n div 10 \<noteq> 0" using False by simp
    ultimately show ?thesis using False by (simp add: decimal.simps [of n])
  qed
qed

lemma scan_auto_int [simp]:
  assumes r: "ends_number r"
  shows "scan_auto (decimal_int i @ r) = Some (i, r)"
proof -
  obtain c s where c: "decimal (nat \<bar>i\<bar>) = c # s" "is_digit c" "c = CHR ''0'' \<Longrightarrow> nat \<bar>i\<bar> = 0 \<and> s = []"
    using decimal_head [of "nat \<bar>i\<bar>"] by blast
  show ?thesis
  proof (cases "c = CHR ''0''")
    case True
    then have i: "i = 0" "s = []" using c(3) by auto
    have b: "is_digit (CHR ''0'')" "digit_val (CHR ''0'') = 0" by (simp_all add: is_digit_def digit_val_def)
    have "takeWhile (base_digit 8) r = []" "dropWhile (base_digit 8) r = r" "takeWhile is_digit r = []" "dropWhile is_digit r = r"
      using r by (cases r; simp add: ends_number_def base_digit_def)+
    moreover have "base_digit 8 (CHR ''0'')" using b by (simp add: base_digit_def)
    moreover have "base_digit 10 = is_digit" by (simp add: fun_eq_iff)
    ultimately show ?thesis
      using r i b c(1) True scan_sign_int [of i "[]"]
      by (cases r) (simp_all add: scan_auto_def scan_sign_int scan_base_def ends_number_def base_val_def apply_sign_def)
  next
    case False
    have "scan_base 10 (i < 0) (c # s @ r) = Some (i, r)"
      using scan_base_decimal [OF r, of "i < 0" "nat \<bar>i\<bar>"] c(1) by (simp add: apply_sign_int)
    then show ?thesis
      using False c(1) scan_sign_int [of i "[]"] by (cases "s @ r") (simp_all add: scan_auto_def scan_sign_int)
  qed
qed

lemma lits_simps [simp]:
  "lits [] = []" "lits (c # s) = (if is_space c then Space else Lit c) # lits s"
  by (simp_all add: lits_def)

lemma is_space_simps [simp]:
  "is_space (CHR 0x20)" "is_space (CHR 0x0A)" "\<not> is_space (CHR ''('')" "\<not> is_space (CHR '')'')" "\<not> is_space (CHR '','')"
  "\<not> is_space (CHR ''='')" "\<not> is_space (CHR ''<'')" "\<not> is_space (CHR ''>'')" "\<not> is_space (CHR ''['')" "\<not> is_space (CHR '']'')"
  "\<not> is_space (CHR 0x22)" "\<not> is_space (CHR ''.'')"
  by (simp_all add: is_space_def)

lemma skip_space_number: "skip_space (decimal_int i @ r) = decimal_int i @ r \<and> decimal_int i \<noteq> []"
proof -
  obtain c s where c: "decimal (nat \<bar>i\<bar>) = c # s" "is_digit c"
    using decimal_props [of "nat \<bar>i\<bar>"] by (cases "decimal (nat \<bar>i\<bar>)") auto
  have "\<not> is_space (CHR ''-'')" by (simp add: is_space_def)
  then show ?thesis
    using c is_digit_not [OF c(2)] by (cases "i < 0") (simp_all add: decimal_int_def skip_space_def)
qed

lemma clamp_sint [simp]: "word_of_int (clamp_long (sint (x :: i32))) = x" "word_of_int (clamp_long (sint (y :: i64))) = y"
  using sint_lt [of x] sint_ge [of x] sint_lt [of y] sint_ge [of y] by (simp_all add: clamp_long_def)

lemma take_until: "c \<notin> set w \<Longrightarrow> takeWhile (\<lambda>x. x \<noteq> c) (w @ c # r) = w"
  by (induction w) auto

text \<open>The steps over printed text.\<close>

lemma scan_Dec [scan_intro]:
  "ends_number r \<Longrightarrow> scan_loop (Dec # ds) (decimal_int (sint (x :: i32)) @ r) args = scan_loop ds r (args @ [I32 x])"
  using skip_space_number [of "sint x" r] by (simp add: scan_num_def)

lemma scan_Int64 [scan_intro]:
  "ends_number r \<Longrightarrow> scan_loop (Int64 # ds) (decimal_int (sint (y :: i64)) @ r) args = scan_loop ds r (args @ [I64 y])"
  using skip_space_number [of "sint y" r] by (simp add: scan_num_def)

lemma scan_Word [scan_intro]:
  assumes "w \<noteq> []" "\<forall>c\<in>set w. \<not> is_space c" "length w < n" "is_space c"
  shows "scan_loop (Word n # ds) (w @ c # r) args = scan_loop ds (c # r) (args @ [Str w])"
proof -
  have "skip_space (w @ c # r) = w @ c # r" using assms(1,2) by (cases w) (simp_all add: skip_space_def)
  moreover have "takeWhile (\<lambda>c. \<not> is_space c) (w @ c # r) = w" using assms(2,4) by (simp add: takeWhile_append2)
  ultimately show ?thesis using assms(1,3) by (simp add: Let_def)
qed

lemma scan_Until [scan_intro]:
  assumes "w \<noteq> []" "c \<notin> set w" "length w < n"
  shows "scan_loop (Until c None n # ds) (w @ c # r) args = scan_loop ds (c # r) (args @ [Str w])"
proof -
  have "takeWhile (\<lambda>x. x \<noteq> c) (w @ c # r) = w" using assms(2) by (rule take_until)
  then show ?thesis using assms(1,3) by (simp add: Let_def)
qed

lemma scan_Until_width [scan_intro]:
  assumes "w \<noteq> []" "c \<notin> set w" "length w < n" "length w \<le> k"
  shows "scan_loop (Until c (Some k) n # ds) (w @ c # r) args = scan_loop ds (c # r) (args @ [Str w])"
proof -
  have "takeWhile (\<lambda>x. x \<noteq> c) (w @ c # r) = w" using assms(2) by (rule take_until)
  moreover have "0 < k" using assms(1,4) by (cases w) auto
  ultimately show ?thesis using assms(1,3,4) by (simp add: Let_def)
qed

lemma scan_Skip [scan_intro]:
  assumes "w \<noteq> []" "c \<notin> set w"
  shows "scan_loop (Skip c # ds) (w @ c # r) args = scan_loop ds (c # r) args"
proof -
  have "takeWhile (\<lambda>x. x \<noteq> c) (w @ c # r) = w" using assms(2) by (rule take_until)
  then show ?thesis using assms(1) by (simp add: Let_def)
qed

lemma scan_lits [scan_intro]:
  "scan_loop (Lit c # ds) (c # r) args = scan_loop ds r args"
  "scan_loop (Space # ds) s args = scan_loop ds (skip_space s) args"
  "skip_space (decimal_int i @ r) = decimal_int i @ r"
  "scan_loop [] s args = Inr (Some args)"
  using skip_space_number [of i r] by simp_all

lemma skip_space_Cons [scan_intro]:
  "skip_space (c # s) = (if is_space c then skip_space s else c # s)"
  by (simp add: skip_space_def)

end
