(* ===== verification/Stats.thy ===== *)
theory Stats
  imports Op_Types Adt_Hash_Table C_Strings
begin

text \<open>
  The statistics of \<open>stats.c\<close>: for every name of a system call how often it occurred and how long it
  took in total. The code adds milliseconds in a \<open>double\<close>; the model adds the microseconds it is
  given, without rounding.
\<close>

definition MAX_OPERATION :: nat where "MAX_OPERATION = 30"

record statistic_item =
  st_operation :: string
  st_count :: i64
  st_sumdur :: int

definition ht_ops_stat :: "(string, statistic_item) hash_table_operations" where
  "ht_ops_stat = \<lparr>hash = ht_hash_str, compare = (\<lambda>k x. st_operation x = k)\<rparr>"

interpretation stt: table_ops ht_ops_stat "\<lambda>s. length s < MAX_OPERATION" st_operation
  by unfold_locales (auto simp: ht_ops_stat_def ht_hash_str_range)

definition stats_init :: "statistic_item hash_table" where
  "stats_init = hash_table_init HASH_TABLE_SIZE"

text \<open>
  \<open>strncpy\<close> copies at most \<open>MAX_OPERATION\<close> characters, so a longer name is not terminated, and
  hashing it for the insertion reads past its array.
\<close>

definition stats_add_op :: "string \<Rightarrow> i32 \<Rightarrow> statistic_item hash_table \<Rightarrow> statistic_item hash_table res" where
  "stats_add_op operation duration t =
     bindR (hash_table_find ht_ops_stat operation t) (\<lambda>item.
     case item of
       None \<Rightarrow>
         if MAX_OPERATION \<le> length operation then Inl Overflow
         else hash_table_insert ht_ops_stat operation
           \<lparr>st_operation = operation, st_count = 1, st_sumdur = sint duration\<rparr> t
     | Some _ \<Rightarrow>
         hash_table_modify ht_ops_stat operation
           (\<lambda>x. x\<lparr>st_count := st_count x + 1, st_sumdur := st_sumdur x + sint duration\<rparr>) t)"

text \<open>\<open>stats_print\<close> prints the items in this order.\<close>

definition stats_print :: "statistic_item hash_table \<Rightarrow> statistic_item list" where
  "stats_print t = hash_table_apply (\<lambda>it out. out @ [it]) t []"

section \<open>What is counted\<close>

fun stats_add_all :: "(string \<times> i32) list \<Rightarrow> statistic_item hash_table \<Rightarrow> statistic_item hash_table res" where
  "stats_add_all [] t = Inr t"
| "stats_add_all ((op, d) # ops) t = bindR (stats_add_op op d t) (stats_add_all ops)"

lemma stats_add_one:
  assumes inv: "stt.table_inv t" and op: "length op < MAX_OPERATION"
  shows "\<exists>t'. stats_add_op op d t = Inr t' \<and> stt.table_inv t' \<and>
    stt.table_map t' = (stt.table_map t)(op \<mapsto>
      (case stt.table_map t op of None \<Rightarrow> \<lparr>st_operation = op, st_count = 1, st_sumdur = sint d\<rparr>
       | Some x \<Rightarrow> x\<lparr>st_count := st_count x + 1, st_sumdur := st_sumdur x + sint d\<rparr>))"
proof (cases "stt.table_map t op")
  case None
  then show ?thesis
    using stt.insert_map [OF inv, of "\<lparr>st_operation = op, st_count = 1, st_sumdur = sint d\<rparr>"] op stt.find_map [OF inv op]
    by (auto simp: stats_add_op_def)
next
  case (Some x)
  let ?f = "\<lambda>x. x\<lparr>st_count := st_count x + 1, st_sumdur := st_sumdur x + sint d\<rparr>"
  show ?thesis
    using stt.modify_map [OF inv op, of ?f] stt.find_map [OF inv op] Some by (auto simp: stats_add_op_def)
qed

lemma stats_add_all_spec:
  assumes "stt.table_inv t" "\<forall>p\<in>set ops. length (fst p) < MAX_OPERATION"
  shows "\<exists>t'. stats_add_all ops t = Inr t' \<and> stt.table_inv t' \<and>
    (\<forall>op. let ds = map snd (filter (\<lambda>p. fst p = op) ops) in
      stt.table_map t' op = (case stt.table_map t op of
         None \<Rightarrow> if ds = [] then None
           else Some \<lparr>st_operation = op, st_count = of_nat (length ds), st_sumdur = sum_list (map sint ds)\<rparr>
       | Some x \<Rightarrow> Some (x\<lparr>st_count := st_count x + of_nat (length ds), st_sumdur := st_sumdur x + sum_list (map sint ds)\<rparr>)))"
  using assms
proof (induction ops arbitrary: t)
  case Nil
  then show ?case by (auto split: option.split)
next
  case (Cons p ops)
  obtain op d where p: "p = (op, d)" by (rule prod.exhaust)
  have op: "length op < MAX_OPERATION" using Cons.prems(2) p by simp
  obtain t1 where t1: "stats_add_op op d t = Inr t1" "stt.table_inv t1"
    "stt.table_map t1 = (stt.table_map t)(op \<mapsto>
      (case stt.table_map t op of None \<Rightarrow> \<lparr>st_operation = op, st_count = 1, st_sumdur = sint d\<rparr>
       | Some x \<Rightarrow> x\<lparr>st_count := st_count x + 1, st_sumdur := st_sumdur x + sint d\<rparr>))"
    using stats_add_one [OF Cons.prems(1) op] by blast
  have "\<forall>p\<in>set ops. length (fst p) < MAX_OPERATION" using Cons.prems(2) by simp
  from Cons.IH [OF t1(2) this] show ?case
    using t1(1,3) p by (fastforce simp: Let_def algebra_simps split: option.splits)
qed



end
