(* ===== verification/In_Strace.thy ===== *)
theory In_Strace
  imports In_Common C_Scanf Stats Namemap
begin

unbundle bit_operations_syntax

text \<open>
  Reading the output of \<open>strace\<close> (\<open>in_strace.c\<close>): one parser per recorded call, the recognition of the
  call on a line, the joining of calls that \<open>strace\<close> printed in two parts, and the loop over the
  lines of the file. A parser gives \<open>None\<close> for its return value -1, and the item it appends otherwise.
\<close>

section \<open>Parts of the formats\<close>

definition QUOTE :: char where "QUOTE = CHR 0x22"

text \<open>\<open>"%d %s "\<close>: the process and the time; \<open>" = %d%*[^<]<%[^>]"\<close>: the result and the duration.\<close>

definition fmt_start :: "directive list" where
  "fmt_start = [Dec, Space, Word MAX_TIME_STRING, Space]"

definition fmt_dur :: "directive list" where
  "fmt_dur = [Skip (CHR ''<''), Lit (CHR ''<''), Until (CHR ''>'') None MAX_TIME_STRING]"

definition fmt_result :: "directive list" where
  "fmt_result = lits '') = '' @ [Dec] @ fmt_dur"

text \<open>\<open>"%*[^(]("\<close>, and a name in quotes: \<open>%*[^"]"%512[^"]"\<close>.\<close>

definition fmt_open :: "directive list" where
  "fmt_open = [Skip (CHR ''(''), Lit (CHR ''('')]"

definition fmt_name :: "directive list" where
  "fmt_name = [Skip QUOTE, Lit QUOTE, Until QUOTE (Some MAX_STRING) MAX_STRING, Lit QUOTE]"

lemmas fmt_defs = fmt_start_def fmt_dur_def fmt_result_def fmt_open_def fmt_name_def QUOTE_def

definition strace_info :: "i32 \<Rightarrow> string \<Rightarrow> string \<Rightarrow> op_info" where
  "strace_info p start_time d = \<lparr>pid = p, dur = read_duration d, start = read_time start_time\<rparr>"

section \<open>Data that the call transferred\<close>

text \<open>
  \<open>strace_pos_comma\<close>: the rest of the line from the comma after the quoted data. The loop over the
  data gives the rest after the second quote; without one the pointer leaves the string.
\<close>

fun closing_quote :: "bool \<Rightarrow> string \<Rightarrow> string option" where
  "closing_quote backslash [] = None"
| "closing_quote backslash (c # s) =
     (if c = QUOTE then if backslash then closing_quote False s else Some s
      else if c = CHR 0x5C then closing_quote (\<not> backslash) s
      else closing_quote False s)"

definition strace_pos_comma :: "string \<Rightarrow> string option res" where
  "strace_pos_comma line =
     (case strchr line QUOTE of
        None \<Rightarrow> Inr (case strstr line ''NULL,'' of None \<Rightarrow> None | Some i \<Rightarrow> Some (drop (i + 4) line))
      | Some i \<Rightarrow>
          if i = 0 then Inr None
          else (case closing_quote False (drop (Suc i) line) of
              None \<Rightarrow> Inl Overflow
            | Some r \<Rightarrow>
                Inr (case r of
                    [] \<Rightarrow> None
                  | c # _ \<Rightarrow>
                      if c = CHR ''.'' then Some (dropWhile (\<lambda>x. x \<noteq> CHR '','') r)
                      else if c = CHR '','' then Some r else None)))"

text \<open>The first portion of the four calls that transfer data: process, time and descriptor.\<close>

definition strace_first :: "string \<Rightarrow> (i32 \<times> string \<times> i32) option res" where
  "strace_first line =
     bindR (sscanf line (Space # fmt_start @ fmt_open @ [Dec] @ lits '', '')) (\<lambda>args.
     Inr (case args of Some [I32 p, Str t, I32 fd] \<Rightarrow> Some (p, t, fd) | _ \<Rightarrow> None))"

definition strace_second :: "directive list \<Rightarrow> string \<Rightarrow> arg list option res" where
  "strace_second fmt line =
     bindR (strace_pos_comma line) (\<lambda>line2.
     case line2 of None \<Rightarrow> Inr None | Some line2 \<Rightarrow> sscanf line2 fmt)"

definition fmt_size :: "directive list" where
  "fmt_size = lits '', '' @ [Int64] @ lits '') = '' @ [Int64] @ fmt_dur"

definition fmt_size_offset :: "directive list" where
  "fmt_size_offset = lits '', '' @ [Int64] @ lits '', '' @ [Int64] @ lits '') = '' @ [Int64] @ fmt_dur"

definition strace_read_write :: "string \<Rightarrow> op_item option res" where
  "strace_read_write line =
     bindR (strace_first line) (\<lambda>first.
     case first of
       None \<Rightarrow> Inr None
     | Some (p, t, fd) \<Rightarrow>
         bindR (strace_second fmt_size line) (\<lambda>args.
         Inr (case args of
             Some [I64 sz, I64 retval, Str d] \<Rightarrow>
               Some \<lparr>type = OP_WRITE, body = S_write
                 \<lparr>write_fd = fd, write_size = sz, write_retval = retval, write_info = strace_info p t d\<rparr>\<rparr>
           | _ \<Rightarrow> None)))"

definition strace_read_pwrite :: "string \<Rightarrow> op_item option res" where
  "strace_read_pwrite line =
     bindR (strace_first line) (\<lambda>first.
     case first of
       None \<Rightarrow> Inr None
     | Some (p, t, fd) \<Rightarrow>
         bindR (strace_second fmt_size_offset line) (\<lambda>args.
         Inr (case args of
             Some [I64 sz, I64 off, I64 retval, Str d] \<Rightarrow>
               Some \<lparr>type = OP_PWRITE, body = S_pwrite
                 \<lparr>pwrite_fd = fd, pwrite_size = sz, pwrite_offset = off, pwrite_retval = retval,
                  pwrite_info = strace_info p t d\<rparr>\<rparr>
           | _ \<Rightarrow> None)))"

definition strace_read_pread :: "string \<Rightarrow> op_item option res" where
  "strace_read_pread line =
     bindR (strace_first line) (\<lambda>first.
     case first of
       None \<Rightarrow> Inr None
     | Some (p, t, fd) \<Rightarrow>
         bindR (strace_second fmt_size_offset line) (\<lambda>args.
         Inr (case args of
             Some [I64 sz, I64 off, I64 retval, Str d] \<Rightarrow>
               Some \<lparr>type = OP_PREAD, body = S_pread
                 \<lparr>pread_fd = fd, pread_size = sz, pread_offset = off, pread_retval = retval,
                  pread_info = strace_info p t d\<rparr>\<rparr>
           | _ \<Rightarrow> None)))"

definition strace_read_read :: "string \<Rightarrow> op_item option res" where
  "strace_read_read line =
     bindR (strace_first line) (\<lambda>first.
     case first of
       None \<Rightarrow> Inr None
     | Some (p, t, fd) \<Rightarrow>
         bindR (strace_second fmt_size line) (\<lambda>args.
         Inr (case args of
             Some [I64 sz, I64 retval, Str d] \<Rightarrow>
               Some \<lparr>type = OP_READ, body = S_read
                 \<lparr>read_fd = fd, read_size = sz, read_retval = retval, read_info = strace_info p t d\<rparr>\<rparr>
           | _ \<Rightarrow> None)))"

section \<open>Calls on one descriptor, or none\<close>

definition strace_read_close :: "string \<Rightarrow> op_item option res" where
  "strace_read_close line =
     bindR (sscanf line (Space # fmt_start @ fmt_open @ [Dec] @ fmt_result)) (\<lambda>args.
     Inr (case args of
         Some [I32 p, Str t, I32 fd, I32 retval, Str d] \<Rightarrow>
           Some \<lparr>type = OP_CLOSE, body = S_close \<lparr>close_fd = fd, close_retval = retval, close_info = strace_info p t d\<rparr>\<rparr>
       | _ \<Rightarrow> None))"

definition strace_read_pipe :: "string \<Rightarrow> op_item option res" where
  "strace_read_pipe line =
     bindR (sscanf line (Space # fmt_start @ [Skip (CHR ''[''), Lit (CHR ''[''), Dec] @ lits '', '' @ [Dec, Lit (CHR '']'')] @ fmt_result)) (\<lambda>args.
     Inr (case args of
         Some [I32 p, Str t, I32 fd1, I32 fd2, I32 retval, Str d] \<Rightarrow>
           Some \<lparr>type = OP_PIPE, body = S_pipe
             \<lparr>pipe_fd1 = fd1, pipe_fd2 = fd2, pipe_mode = 0, pipe_retval = retval, pipe_info = strace_info p t d\<rparr>\<rparr>
       | _ \<Rightarrow> None))"

definition strace_read_clone :: "string \<Rightarrow> op_item option res" where
  "strace_read_clone line =
     bindR (sscanf line (fmt_start @ fmt_open @ [Skip (CHR '','')] @ lits '', flags='' @
         [Until (CHR '','') None MAX_STRING] @ lits '', '' @ [Skip (CHR '')'')] @ fmt_result)) (\<lambda>args.
     Inr (case args of
         Some [I32 p, Str t, Str mode, I32 retval, Str d] \<Rightarrow>
           Some \<lparr>type = OP_CLONE, body = S_clone
             \<lparr>clone_mode = read_clone_flags mode, clone_retval = retval, clone_info = strace_info p t d\<rparr>\<rparr>
       | _ \<Rightarrow> None))"

definition strace_read_dup :: "string \<Rightarrow> op_item option res" where
  "strace_read_dup line =
     bindR (sscanf line (fmt_start @ fmt_open @ [Dec] @ fmt_result)) (\<lambda>args.
     Inr (case args of
         Some [I32 p, Str t, I32 old_fd, I32 retval, Str d] \<Rightarrow>
           Some \<lparr>type = OP_DUP, body = S_dup
             \<lparr>dup_new_fd = retval, dup_old_fd = old_fd, dup_flags = 0, dup_retval = retval, dup_info = strace_info p t d\<rparr>\<rparr>
       | _ \<Rightarrow> None))"

definition strace_read_dup2 :: "string \<Rightarrow> op_item option res" where
  "strace_read_dup2 line =
     bindR (sscanf line (fmt_start @ fmt_open @ [Dec] @ lits '', '' @ [Dec] @ fmt_result)) (\<lambda>args.
     Inr (case args of
         Some [I32 p, Str t, I32 old_fd, I32 new_fd, I32 retval, Str d] \<Rightarrow>
           Some \<lparr>type = OP_DUP2, body = S_dup
             \<lparr>dup_new_fd = new_fd, dup_old_fd = old_fd, dup_flags = 0, dup_retval = retval, dup_info = strace_info p t d\<rparr>\<rparr>
       | _ \<Rightarrow> None))"

definition strace_read_dup3 :: "string \<Rightarrow> op_item option res" where
  "strace_read_dup3 line =
     bindR (sscanf line (fmt_start @ fmt_open @ [Dec] @ lits '', '' @ [Dec] @ lits '', '' @
         [Until (CHR '')'') None MAX_STRING] @ fmt_result)) (\<lambda>args.
     Inr (case args of
         Some [I32 p, Str t, I32 old_fd, I32 new_fd, Str flags, I32 retval, Str d] \<Rightarrow>
           Some \<lparr>type = OP_DUP3, body = S_dup
             \<lparr>dup_new_fd = new_fd, dup_old_fd = old_fd, dup_flags = read_dup3_flags flags, dup_retval = retval,
              dup_info = strace_info p t d\<rparr>\<rparr>
       | _ \<Rightarrow> None))"

definition strace_read_llseek :: "string \<Rightarrow> op_item option res" where
  "strace_read_llseek line =
     bindR (sscanf line (Space # fmt_start @ fmt_open @ [Dec] @ lits '', '' @ [Int64] @ lits '', ['' @ [Int64] @
         lits ''], '' @ [Until (CHR '')'') None MAX_STRING] @ lits '') = '' @ [Int64] @ fmt_dur)) (\<lambda>args.
     Inr (case args of
         Some [I32 p, Str t, I32 fd, I64 off, I64 f_off, Str flags, I64 retval, Str d] \<Rightarrow>
           Some \<lparr>type = OP_LLSEEK, body = S_llseek
             \<lparr>llseek_fd = fd, llseek_offset = off, llseek_f_offset = f_off, llseek_flag = read_seek_flag flags,
              llseek_retval = retval, llseek_info = strace_info p t d\<rparr>\<rparr>
       | _ \<Rightarrow> None))"

definition strace_read_lseek :: "string \<Rightarrow> op_item option res" where
  "strace_read_lseek line =
     bindR (sscanf line (fmt_start @ fmt_open @ [Dec] @ lits '', '' @ [Int64] @ lits '', '' @
         [Until (CHR '')'') None MAX_STRING] @ lits '') = '' @ [Int64] @ fmt_dur)) (\<lambda>args.
     Inr (case args of
         Some [I32 p, Str t, I32 fd, I64 off, Str flags, I64 retval, Str d] \<Rightarrow>
           Some \<lparr>type = OP_LSEEK, body = S_lseek
             \<lparr>lseek_fd = fd, lseek_flag = read_seek_flag flags, lseek_offset = off, lseek_retval = retval,
              lseek_info = strace_info p t d\<rparr>\<rparr>
       | _ \<Rightarrow> None))"

text \<open>\<open>sendfile\<close>: with four fields matched, the offset may be \<open>NULL\<close>.\<close>

definition strace_read_sendfile :: "string \<Rightarrow> op_item option res" where
  "strace_read_sendfile line =
     (let item = (\<lambda>p t out_fd in_fd off sz retval d.
          \<lparr>type = OP_SENDFILE, body = S_sendfile
             \<lparr>sendfile_out_fd = out_fd, sendfile_in_fd = in_fd, sendfile_offset = off, sendfile_size = sz,
              sendfile_retval = retval, sendfile_info = strace_info p t d\<rparr>\<rparr>) in
      bindR (sscanf line (fmt_start @ fmt_open @ [Dec] @ lits '', '' @ [Dec] @ lits '', ['' @ [Int64] @ lits ''], '' @
          [Int64] @ lits '') = '' @ [Int64] @ fmt_dur)) (\<lambda>args.
      case args of
        None \<Rightarrow> Inr None
      | Some args \<Rightarrow>
          (case args of
             [I32 p, Str t, I32 out_fd, I32 in_fd, I64 off, I64 sz, I64 retval, Str d] \<Rightarrow>
               Inr (Some (item p t out_fd in_fd off sz retval d))
           | _ \<Rightarrow>
               if length args = 4 then
                 bindR (sscanf line (fmt_start @ fmt_open @ [Dec] @ lits '', '' @ [Dec] @ lits '', NULL, '' @ [Int64] @
                     lits '') = '' @ [Int64] @ fmt_dur)) (\<lambda>args.
                 Inr (case args of
                     Some [I32 p, Str t, I32 out_fd, I32 in_fd, I64 sz, I64 retval, Str d] \<Rightarrow>
                       Some (item p t out_fd in_fd OFFSET_INVAL sz retval d)
                   | _ \<Rightarrow> None))
               else Inr None)))"

definition read_socket_strace :: "string \<Rightarrow> op_item option res" where
  "read_socket_strace line =
     bindR (sscanf line (fmt_start @ [Skip (CHR '')'')] @ fmt_result)) (\<lambda>args.
     Inr (case args of
         Some [I32 p, Str t, I32 retval, Str d] \<Rightarrow>
           Some \<lparr>type = OP_SOCKET, body = S_socket \<lparr>socket_retval = retval, socket_info = strace_info p t d\<rparr>\<rparr>
       | _ \<Rightarrow> None))"

section \<open>Calls on names\<close>

definition strace_read_mkdir :: "string \<Rightarrow> op_item option res" where
  "strace_read_mkdir line =
     bindR (sscanf line (fmt_start @ fmt_name @ lits '', '' @ [Unsigned 8] @ fmt_result)) (\<lambda>args.
     Inr (case args of
         Some [I32 p, Str t, Str name, I32 mode, I32 retval, Str d] \<Rightarrow>
           Some \<lparr>type = OP_MKDIR, body = S_mkdir
             \<lparr>mkdir_name = name, mkdir_mode = mode, mkdir_retval = retval, mkdir_info = strace_info p t d\<rparr>\<rparr>
       | _ \<Rightarrow> None))"

definition strace_read_rmdir :: "string \<Rightarrow> op_item option res" where
  "strace_read_rmdir line =
     bindR (sscanf line (fmt_start @ fmt_name @ fmt_result)) (\<lambda>args.
     Inr (case args of
         Some [I32 p, Str t, Str name, I32 retval, Str d] \<Rightarrow>
           Some \<lparr>type = OP_RMDIR, body = S_rmdir
             \<lparr>rmdir_name = name, rmdir_retval = retval, rmdir_info = strace_info p t d\<rparr>\<rparr>
       | _ \<Rightarrow> None))"

definition strace_read_unlink :: "string \<Rightarrow> op_item option res" where
  "strace_read_unlink line =
     bindR (sscanf line (fmt_start @ fmt_name @ fmt_result)) (\<lambda>args.
     Inr (case args of
         Some [I32 p, Str t, Str name, I32 retval, Str d] \<Rightarrow>
           Some \<lparr>type = OP_UNLINK, body = S_unlink
             \<lparr>unlink_name = name, unlink_retval = retval, unlink_info = strace_info p t d\<rparr>\<rparr>
       | _ \<Rightarrow> None))"

text \<open>\<open>open\<close> with a mode, which is read as a decimal number, and otherwise without one.\<close>

definition strace_read_open :: "string \<Rightarrow> op_item option res" where
  "strace_read_open line =
     (let item = (\<lambda>p t name flags mode retval d.
          \<lparr>type = OP_OPEN, body = S_open
             \<lparr>open_name = name, open_flags = read_open_flags flags, open_mode = mode, open_retval = retval,
              open_info = strace_info p t d\<rparr>\<rparr>) in
      bindR (sscanf line (fmt_start @ fmt_name @ lits '', '' @ [Until (CHR '','') None MAX_STRING] @ lits '', '' @
          [Unsigned 10] @ fmt_result)) (\<lambda>args.
      case args of
        None \<Rightarrow> Inr None
      | Some args \<Rightarrow>
          (case args of
             [I32 p, Str t, Str name, Str flags, I32 mode, I32 retval, Str d] \<Rightarrow>
               Inr (Some (item p t name flags mode retval d))
           | _ \<Rightarrow>
               bindR (sscanf line (fmt_start @ fmt_name @ lits '', '' @ [Until (CHR '')'') None MAX_STRING] @ fmt_result)) (\<lambda>args.
               Inr (case args of
                   Some [I32 p, Str t, Str name, Str flags, I32 retval, Str d] \<Rightarrow>
                     Some (item p t name flags MODE_UNDEF retval d)
                 | _ \<Rightarrow> None)))))"

definition strace_read_creat :: "string \<Rightarrow> op_item option res" where
  "strace_read_creat line =
     bindR (sscanf line (fmt_start @ fmt_name @ lits '', '' @ [Unsigned 10] @ fmt_result)) (\<lambda>args.
     Inr (case args of
         Some [I32 p, Str t, Str name, I32 mode, I32 retval, Str d] \<Rightarrow>
           Some \<lparr>type = OP_OPEN, body = S_open
             \<lparr>open_name = name, open_flags = or (or O_CREAT O_WRONLY) O_TRUNC, open_mode = mode, open_retval = retval,
              open_info = strace_info p t d\<rparr>\<rparr>
       | _ \<Rightarrow> None))"

definition strace_read_access :: "string \<Rightarrow> op_item option res" where
  "strace_read_access line =
     bindR (sscanf line (fmt_start @ fmt_name @ lits '', '' @ [Until (CHR '')'') None MAX_STRING] @ fmt_result)) (\<lambda>args.
     Inr (case args of
         Some [I32 p, Str t, Str name, Str mode, I32 retval, Str d] \<Rightarrow>
           Some \<lparr>type = OP_ACCESS, body = S_access
             \<lparr>access_name = name, access_mode = read_access_flags mode, access_retval = retval,
              access_info = strace_info p t d\<rparr>\<rparr>
       | _ \<Rightarrow> None))"

definition strace_read_stat :: "string \<Rightarrow> op_item option res" where
  "strace_read_stat line =
     bindR (sscanf line (fmt_start @ fmt_name @ lits '', '' @ [Skip (CHR '')''), Lit (CHR '')''), Skip (CHR ''='')] @
         lits '' = '' @ [Dec] @ fmt_dur)) (\<lambda>args.
     Inr (case args of
         Some [I32 p, Str t, Str name, I32 retval, Str d] \<Rightarrow>
           Some \<lparr>type = OP_STAT, body = S_stat
             \<lparr>stat_name = name, stat_retval = retval, stat_info = strace_info p t d\<rparr>\<rparr>
       | _ \<Rightarrow> None))"

end
