(* ===== verification/Strace_Lines.thy ===== *)
theory Strace_Lines
  imports In_Strace
begin

text \<open>
  From the lines of a \<open>strace\<close> file to items (\<open>in_strace.c\<close>): the call that a line names, the calls
  that were printed in two parts, the dispatch to the parsers and the loop over the file.
\<close>

section \<open>State\<close>

record isyscall =
  is_pid :: i32
  is_line :: string

definition ht_ops_isyscall :: "(i32, isyscall) hash_table_operations" where
  "ht_ops_isyscall = \<lparr>hash = ht_hash_int, compare = (\<lambda>k x. is_pid x = k)\<rparr>"

interpretation isy: table_ops ht_ops_isyscall "\<lambda>k. 0 \<le> sint k" is_pid
  by unfold_locales (auto simp: ht_ops_isyscall_def ht_hash_int_range)

text \<open>The list of items, the hash table of unfinished calls, and the statistics.\<close>

record strace_state =
  loaded :: "op_item list"
  unfinished :: "isyscall hash_table"
  counted :: "statistic_item hash_table"

section \<open>The call on a line\<close>

text \<open>The durations are read for the statistics only; \<open>stats_add_op\<close> gets the operation's name.\<close>

definition fmt_stats :: "directive list" where
  "fmt_stats = Skip (CHR ''='') # lits ''= '' @ [Skip (CHR ''<''), Lit (CHR ''<''), Dec, Lit (CHR ''.''), Dec]"

definition skip_prefix :: "string \<Rightarrow> string" where
  "skip_prefix line = dropWhile (\<lambda>c. is_space c \<or> is_digit c \<or> c = CHR ''.'' \<or> c = CHR ''<'') line"

definition strace_get_operation :: "bool \<Rightarrow> string \<Rightarrow> strace_state \<Rightarrow> (string \<times> strace_state) res" where
  "strace_get_operation stats line st =
     (let operation = takeWhile (\<lambda>c. c \<noteq> CHR ''('' \<and> c \<noteq> CHR '' '') (skip_prefix line) in
      if MAX_STRING \<le> length operation then Inl Overflow
      else if \<not> stats then Inr (operation, st)
      else bindR (sscanf line fmt_stats) (\<lambda>args.
        case args of
          Some [I32 sec, I32 usec] \<Rightarrow>
            bindR (stats_add_op operation (sec * 1000000 + usec) (counted st)) (\<lambda>t.
            Inr (operation, st\<lparr>counted := t\<rparr>))
        | _ \<Rightarrow> Inr (operation, st)))"

definition operation_code :: "string \<Rightarrow> char" where
  "operation_code operation =
     (if operation = ''write'' then OP_WRITE
      else if operation = ''read'' then OP_READ
      else if operation = ''pwrite'' then OP_PWRITE
      else if operation = ''pwrite64'' then OP_PWRITE
      else if operation = ''pread'' then OP_PREAD
      else if operation = ''pread64'' then OP_PREAD
      else if operation = ''close'' then OP_CLOSE
      else if operation = ''open'' then OP_OPEN
      else if operation = ''creat'' then OP_CREAT
      else if operation = ''unlink'' then OP_UNLINK
      else if operation = ''lseek'' then OP_LSEEK
      else if operation = ''_llseek'' then OP_LLSEEK
      else if operation = ''pipe2'' then OP_UNKNOWN
      else if operation = ''pipe'' then OP_PIPE
      else if operation = ''dup3'' then OP_DUP3
      else if operation = ''dup2'' then OP_DUP2
      else if operation = ''dup'' then OP_DUP
      else if operation = ''mkdir'' then OP_MKDIR
      else if operation = ''clone'' then OP_CLONE
      else if operation = ''access'' then OP_ACCESS
      else if operation = ''stat64'' then OP_STAT
      else if operation = ''stat'' then OP_STAT
      else if operation = ''socket'' then OP_SOCKET
      else if operation = ''sendfile'' then OP_SENDFILE
      else if operation = ''fcntl'' then OP_FCNTL
      else OP_UNKNOWN)"

definition strace_get_operation_code :: "bool \<Rightarrow> string \<Rightarrow> strace_state \<Rightarrow> (char \<times> strace_state) res" where
  "strace_get_operation_code stats line st =
     bindR (strace_get_operation stats line st) (\<lambda>(operation, st). Inr (operation_code operation, st))"

section \<open>Calls in two parts\<close>

text \<open>
  \<open>sscanf(line, "%d", &pid)\<close> leaves \<open>pid\<close> as it was, uninitialized, when the line does not start
  with a number: \<open>junk\<close> is its value then.
\<close>

definition line_pid :: "i32 \<Rightarrow> string \<Rightarrow> i32 res" where
  "line_pid junk line =
     bindR (sscanf line [Dec]) (\<lambda>args. Inr (case args of Some [I32 p] \<Rightarrow> p | _ \<Rightarrow> junk))"

text \<open>
  \<open>strncpy\<close> does not terminate a line of \<open>MAX_STRING\<close> characters or more; printing it, or searching
  it for a text that it does not hold, leaves the array.
\<close>

definition unterminated :: "isyscall \<Rightarrow> bool" where
  "unterminated i \<longleftrightarrow> length (is_line i) = MAX_STRING"

definition strace_read_unfinished :: "i32 \<Rightarrow> string \<Rightarrow> strace_state \<Rightarrow> strace_state res" where
  "strace_read_unfinished junk line st =
     bindR (line_pid junk line) (\<lambda>p.
     bindR (hash_table_find ht_ops_isyscall p (unfinished st)) (\<lambda>item.
     case item of
       None \<Rightarrow>
         bindR (hash_table_insert ht_ops_isyscall p \<lparr>is_pid = p, is_line = take MAX_STRING line\<rparr> (unfinished st)) (\<lambda>t.
         Inr (st\<lparr>unfinished := t\<rparr>))
     | Some isyscall \<Rightarrow> if unterminated isyscall then Inl Overflow else Inr st))"

text \<open>
  \<open>strace_read_resumed\<close> up to its last call, to \<open>strace_process_line\<close>: the joined line that it
  passes on, if any. The line that was stored is cut in place before the second search.
\<close>

definition strace_read_resumed :: "i32 \<Rightarrow> string \<Rightarrow> strace_state \<Rightarrow> (string option \<times> strace_state) res" where
  "strace_read_resumed junk line st =
     bindR (line_pid junk line) (\<lambda>p.
     bindR (hash_table_find ht_ops_isyscall p (unfinished st)) (\<lambda>item.
     case item of
       None \<Rightarrow> Inr (None, st)
     | Some isyscall \<Rightarrow>
         (case strstr (is_line isyscall) '' <unfinished ...>'' of
            None \<Rightarrow> if unterminated isyscall then Inl Overflow else Inr (None, st)
          | Some i \<Rightarrow>
              (let first = take i (is_line isyscall) in
               case strstr line ''resumed> '' of
                 None \<Rightarrow>
                   bindR (hash_table_modify ht_ops_isyscall p (\<lambda>x. x\<lparr>is_line := first\<rparr>) (unfinished st)) (\<lambda>t.
                   Inr (None, st\<lparr>unfinished := t\<rparr>))
               | Some j \<Rightarrow>
                   (let rest = take (2 * MAX_STRING) (drop (j + 9) line) in
                    if 2 * MAX_STRING < length first + length rest then Inl Overflow
                    else bindR (hash_table_remove ht_ops_isyscall p (unfinished st)) (\<lambda>(_, t).
                      Inr (Some (first @ rest), st\<lparr>unfinished := t\<rparr>)))))))"

section \<open>One line\<close>

text \<open>A parser's item is appended to the list; a parser that fails returns -1.\<close>

definition keep_item :: "op_item option res \<Rightarrow> strace_state \<Rightarrow> (i32 \<times> strace_state) res" where
  "keep_item parsed st =
     bindR parsed (\<lambda>item.
     Inr (case item of None \<Rightarrow> (-1, st) | Some it \<Rightarrow> (0, st\<lparr>loaded := loaded st @ [it]\<rparr>)))"

text \<open>
  The duplication that \<open>fcntl\<close> can do: the line is printed again as a call of \<open>dup\<close>.
\<close>

definition strace_read_fcntl :: "string \<Rightarrow> strace_state \<Rightarrow> (i32 \<times> strace_state) res" where
  "strace_read_fcntl line st =
     (if strstr line ''F_DUPFD'' = None then Inr (0, st)
      else bindR (sscanf line (fmt_start @ fmt_open @ [Dec] @ lits '', F_DUPFD, '' @ [Dec] @ fmt_result)) (\<lambda>args.
        case args of
          Some [I32 p, Str start_time, I32 old_fd, I32 tmp, I32 new_fd, Str d] \<Rightarrow>
            keep_item (strace_read_dup
              (decimal_int (sint p) @ '' '' @ start_time @ '' dup('' @ decimal_int (sint old_fd) @ '') = '' @
               decimal_int (sint new_fd) @ '' <'' @ d @ ''>'')) st
        | _ \<Rightarrow> Inr (-1, st)))"

definition strace_dispatch :: "char \<Rightarrow> string \<Rightarrow> strace_state \<Rightarrow> (i32 \<times> strace_state) res" where
  "strace_dispatch c line st =
     (if c = OP_WRITE then keep_item (strace_read_write line) st
      else if c = OP_READ then keep_item (strace_read_read line) st
      else if c = OP_PWRITE then keep_item (strace_read_pwrite line) st
      else if c = OP_PREAD then keep_item (strace_read_pread line) st
      else if c = OP_LSEEK then keep_item (strace_read_lseek line) st
      else if c = OP_LLSEEK then keep_item (strace_read_llseek line) st
      else if c = OP_OPEN then keep_item (strace_read_open line) st
      else if c = OP_CREAT then keep_item (strace_read_creat line) st
      else if c = OP_CLOSE then keep_item (strace_read_close line) st
      else if c = OP_UNLINK then keep_item (strace_read_unlink line) st
      else if c = OP_CLONE then keep_item (strace_read_clone line) st
      else if c = OP_DUP3 then keep_item (strace_read_dup3 line) st
      else if c = OP_DUP2 then keep_item (strace_read_dup2 line) st
      else if c = OP_DUP then keep_item (strace_read_dup line) st
      else if c = OP_PIPE then keep_item (strace_read_pipe line) st
      else if c = OP_MKDIR then keep_item (strace_read_mkdir line) st
      else if c = OP_RMDIR then keep_item (strace_read_rmdir line) st
      else if c = OP_ACCESS then keep_item (strace_read_access line) st
      else if c = OP_STAT then keep_item (strace_read_stat line) st
      else if c = OP_SOCKET then keep_item (read_socket_strace line) st
      else if c = OP_SENDFILE then keep_item (strace_read_sendfile line) st
      else if c = OP_FCNTL then strace_read_fcntl line st
      else if c = OP_UNKNOWN then Inr (0, st)
      else Inr (-1, st))"

text \<open>
  \<open>strace_process_line\<close> up to its recursive call: the value it returns, or the joined line that it
  processes next.
\<close>

datatype line_outcome = Done i32 | Again string

definition finish_line :: "char \<Rightarrow> string \<Rightarrow> strace_state \<Rightarrow> (line_outcome \<times> strace_state) res" where
  "finish_line c line st = bindR (strace_dispatch c line st) (\<lambda>(rv, st). Inr (Done rv, st))"

definition strace_step :: "i32 \<Rightarrow> bool \<Rightarrow> string \<Rightarrow> strace_state \<Rightarrow> (line_outcome \<times> strace_state) res" where
  "strace_step junk stats line st =
     bindR (strace_get_operation_code stats line st) (\<lambda>(c, st).
     if strstr line ''unfinished'' \<noteq> None \<and> c \<noteq> OP_UNKNOWN then
       bindR (strace_read_unfinished junk line st) (\<lambda>st. Inr (Done 0, st))
     else (case strstr line ''resumed'' of
         Some (Suc i) \<Rightarrow>
           (let line = line[i := CHR ''(''] in
            bindR (strace_get_operation_code False line st) (\<lambda>(c, st).
            if c = OP_UNKNOWN then Inr (Done 0, st)
            else bindR (strace_read_resumed junk line st) (\<lambda>(joined, st).
              Inr (case joined of None \<Rightarrow> Done 0 | Some buff \<Rightarrow> Again buff, st))))
       | _ \<Rightarrow> finish_line c line st))"

text \<open>
  The recursion of \<open>strace_process_line\<close> through \<open>strace_read_resumed\<close>, with fuel. Every joined line
  takes one call out of the table, so the items of the table and one more are enough.
\<close>

fun strace_run :: "nat \<Rightarrow> i32 \<Rightarrow> bool \<Rightarrow> string \<Rightarrow> strace_state \<Rightarrow> (i32 \<times> strace_state) res" where
  "strace_run 0 junk stats line st = Inl Fuel"
| "strace_run (Suc n) junk stats line st =
     bindR (strace_step junk stats line st) (\<lambda>(r, st).
     case r of
       Done rv \<Rightarrow> Inr (rv, st)
     | Again buff \<Rightarrow> bindR (strace_run n junk False buff st) (\<lambda>(_, st). Inr (0, st)))"

definition strace_process_line :: "i32 \<Rightarrow> bool \<Rightarrow> string \<Rightarrow> strace_state \<Rightarrow> (i32 \<times> strace_state) res" where
  "strace_process_line junk stats line st = strace_run (Suc (length (ht_items (unfinished st)))) junk stats line st"

section \<open>The file\<close>

text \<open>
  The loop of \<open>strace_get_items\<close>; a line that cannot be parsed is reported and skipped. \<open>fgets\<close>
  gives at most \<open>MAX_LINE - 1\<close> characters, and a string ends at its first zero.
\<close>

function strace_lines :: "i32 \<Rightarrow> bool \<Rightarrow> string \<Rightarrow> strace_state \<Rightarrow> strace_state res" where
  "strace_lines junk stats file st =
     (if file = [] then Inr st
      else (let (line, rest) = fgets MAX_LINE file in
        bindR (strace_process_line junk stats (cstr line) st) (\<lambda>(_, st).
        strace_lines junk stats rest st)))"
  by pat_completeness auto

termination strace_lines
  by (relation "measure (\<lambda>(_, _, file, _). length file)")
    (auto intro: fgets_rest_shorter simp: MAX_LINE_def)

declare strace_lines.simps [simp del]

text \<open>
  \<open>strace_get_items\<close>: \<open>file\<close> is the content of the file, or \<open>errno\<close> when it cannot be opened. The
  result is the return value, the list, and what \<open>stats_print\<close> prints.
\<close>

definition strace_get_items ::
  "i32 \<Rightarrow> bool \<Rightarrow> i32 + string \<Rightarrow> op_item list \<Rightarrow> (i32 \<times> op_item list \<times> statistic_item list) res" where
  "strace_get_items junk stats file items =
     (case file of
        Inl errno \<Rightarrow> Inr (errno, items, [])
      | Inr content \<Rightarrow>
          bindR (strace_lines junk stats content
            \<lparr>loaded = items, unfinished = hash_table_init HASH_TABLE_SIZE, counted = stats_init\<rparr>) (\<lambda>st.
          Inr (0, loaded st, if stats then stats_print (counted st) else [])))"

end
