(* ===== verification/Strace_Print.thy ===== *)
theory Strace_Print
  imports Strace_Lines
begin

text \<open>
  The lines that \<open>strace -f -ttt -T\<close> prints (README, "strace file data structure"), as a specification,
  and the proof that \<open>in_strace.c\<close> reads every one of them as the call it shows.
\<close>

section \<open>Printed lines\<close>

text \<open>
  A call with the texts of its arguments as they are printed. \<open>data\<close> is the text between the quotes
  of a transfer, with its escapes, and the flag says that the printed text was cut (\<open>"abc"...\<close>).
\<close>

datatype traced =
    Read i32 string bool i64 i64
  | Write i32 string bool i64 i64
  | Pread i32 string bool i64 i64 i64
  | Pwrite i32 string bool i64 i64 i64
  | Open string string i32
  | Close i32 i32
  | Unlink string i32
  | Mkdir string string i32
  | Lseek i32 i64 string i64
  | Llseek i32 i64 i64 string i64
  | Dup i32 i32
  | Dup2 i32 i32 i32
  | Dup3 i32 i32 string i32
  | Pipe i32 i32 i32
  | Access string string i32
  | Stat string string i32
  | Clone string string i32
  | Socket string i32
  | Sendfile i32 i32 "i64 option" i64 i64

text \<open>
  What every line has: the process, the time, the spaces that align the result, the text between
  the result and the duration (such as an error message), and the duration.
\<close>

record frame =
  fr_pid :: i32
  fr_start :: string
  fr_gap :: nat
  fr_note :: string
  fr_dur :: string

definition num :: "i32 \<Rightarrow> string" where "num i = decimal_int (sint i)"

definition num64 :: "i64 \<Rightarrow> string" where "num64 i = decimal_int (sint i)"

definition quoted :: "string \<Rightarrow> string" where "quoted s = QUOTE # s @ [QUOTE]"

definition shown :: "string \<Rightarrow> bool \<Rightarrow> string" where
  "shown data dots = quoted data @ (if dots then ''...'' else [])"

fun call_name :: "traced \<Rightarrow> string" where
  "call_name (Read fd data dots sz rv) = ''read''"
| "call_name (Write fd data dots sz rv) = ''write''"
| "call_name (Pread fd data dots sz off rv) = ''pread''"
| "call_name (Pwrite fd data dots sz off rv) = ''pwrite''"
| "call_name (Open name flags rv) = ''open''"
| "call_name (Close fd rv) = ''close''"
| "call_name (Unlink name rv) = ''unlink''"
| "call_name (Mkdir name mode rv) = ''mkdir''"
| "call_name (Lseek fd off whence rv) = ''lseek''"
| "call_name (Llseek fd off result whence rv) = ''_llseek''"
| "call_name (Dup fd rv) = ''dup''"
| "call_name (Dup2 fd fd2 rv) = ''dup2''"
| "call_name (Dup3 fd fd2 flags rv) = ''dup3''"
| "call_name (Pipe fd1 fd2 rv) = ''pipe''"
| "call_name (Access name mode rv) = ''access''"
| "call_name (Stat name buf rv) = ''stat''"
| "call_name (Clone stack flags rv) = ''clone''"
| "call_name (Socket args rv) = ''socket''"
| "call_name (Sendfile out_fd in_fd off sz rv) = ''sendfile''"

fun call_args :: "traced \<Rightarrow> string" where
  "call_args (Read fd data dots sz rv) = num fd @ '', '' @ shown data dots @ '', '' @ num64 sz"
| "call_args (Write fd data dots sz rv) = num fd @ '', '' @ shown data dots @ '', '' @ num64 sz"
| "call_args (Pread fd data dots sz off rv) = num fd @ '', '' @ shown data dots @ '', '' @ num64 sz @ '', '' @ num64 off"
| "call_args (Pwrite fd data dots sz off rv) = num fd @ '', '' @ shown data dots @ '', '' @ num64 sz @ '', '' @ num64 off"
| "call_args (Open name flags rv) = quoted name @ '', '' @ flags"
| "call_args (Close fd rv) = num fd"
| "call_args (Unlink name rv) = quoted name"
| "call_args (Mkdir name mode rv) = quoted name @ '', '' @ mode"
| "call_args (Lseek fd off whence rv) = num fd @ '', '' @ num64 off @ '', '' @ whence"
| "call_args (Llseek fd off result whence rv) = num fd @ '', '' @ num64 off @ '', ['' @ num64 result @ ''], '' @ whence"
| "call_args (Dup fd rv) = num fd"
| "call_args (Dup2 fd fd2 rv) = num fd @ '', '' @ num fd2"
| "call_args (Dup3 fd fd2 flags rv) = num fd @ '', '' @ num fd2 @ '', '' @ flags"
| "call_args (Pipe fd1 fd2 rv) = ''['' @ num fd1 @ '', '' @ num fd2 @ '']''"
| "call_args (Access name mode rv) = quoted name @ '', '' @ mode"
| "call_args (Stat name buf rv) = quoted name @ '', '' @ buf"
| "call_args (Clone stack flags rv) = ''child_stack='' @ stack @ '', flags='' @ flags @ '', child_tidptr=0''"
| "call_args (Socket args rv) = args"
| "call_args (Sendfile out_fd in_fd off sz rv) = num out_fd @ '', '' @ num in_fd @ '', '' @
     (case off of None \<Rightarrow> ''NULL'' | Some off \<Rightarrow> ''['' @ num64 off @ '']'') @ '', '' @ num64 sz"

fun call_result :: "traced \<Rightarrow> string" where
  "call_result (Read fd data dots sz rv) = num64 rv"
| "call_result (Write fd data dots sz rv) = num64 rv"
| "call_result (Pread fd data dots sz off rv) = num64 rv"
| "call_result (Pwrite fd data dots sz off rv) = num64 rv"
| "call_result (Open name flags rv) = num rv"
| "call_result (Close fd rv) = num rv"
| "call_result (Unlink name rv) = num rv"
| "call_result (Mkdir name mode rv) = num rv"
| "call_result (Lseek fd off whence rv) = num64 rv"
| "call_result (Llseek fd off result whence rv) = num64 rv"
| "call_result (Dup fd rv) = num rv"
| "call_result (Dup2 fd fd2 rv) = num rv"
| "call_result (Dup3 fd fd2 flags rv) = num rv"
| "call_result (Pipe fd1 fd2 rv) = num rv"
| "call_result (Access name mode rv) = num rv"
| "call_result (Stat name buf rv) = num rv"
| "call_result (Clone stack flags rv) = num rv"
| "call_result (Socket args rv) = num rv"
| "call_result (Sendfile out_fd in_fd off sz rv) = num64 rv"

definition NEWLINE :: char where "NEWLINE = CHR 0x0A"

definition result_text :: "frame \<Rightarrow> string \<Rightarrow> string" where
  "result_text fr rv = '')'' @ replicate (Suc (fr_gap fr)) (CHR '' '') @ ''= '' @ rv @ '' '' @ fr_note fr @
     ''<'' @ fr_dur fr @ ''>'' @ [NEWLINE]"

definition line_text :: "frame \<Rightarrow> string \<Rightarrow> string \<Rightarrow> string \<Rightarrow> string" where
  "line_text fr name args rv = num (fr_pid fr) @ '' '' @ fr_start fr @ '' '' @ name @ ''('' @ args @ result_text fr rv"

definition strace_line :: "frame \<Rightarrow> traced \<Rightarrow> string" where
  "strace_line fr c = line_text fr (call_name c) (call_args c) (call_result c)"

section \<open>The item a line stands for\<close>

definition frame_info :: "frame \<Rightarrow> op_info" where
  "frame_info fr = \<lparr>pid = fr_pid fr, dur = read_duration (fr_dur fr), start = read_time (fr_start fr)\<rparr>"

definition octal :: "string \<Rightarrow> i32" where
  "octal s = of_nat (base_digits_val 8 0 s)"

fun call_item :: "op_info \<Rightarrow> traced \<Rightarrow> op_item" where
  "call_item i (Read fd data dots sz rv) = \<lparr>type = OP_READ, body = S_read
     \<lparr>read_fd = fd, read_size = sz, read_retval = rv, read_info = i\<rparr>\<rparr>"
| "call_item i (Write fd data dots sz rv) = \<lparr>type = OP_WRITE, body = S_write
     \<lparr>write_fd = fd, write_size = sz, write_retval = rv, write_info = i\<rparr>\<rparr>"
| "call_item i (Pread fd data dots sz off rv) = \<lparr>type = OP_PREAD, body = S_pread
     \<lparr>pread_fd = fd, pread_size = sz, pread_offset = off, pread_retval = rv, pread_info = i\<rparr>\<rparr>"
| "call_item i (Pwrite fd data dots sz off rv) = \<lparr>type = OP_PWRITE, body = S_pwrite
     \<lparr>pwrite_fd = fd, pwrite_size = sz, pwrite_offset = off, pwrite_retval = rv, pwrite_info = i\<rparr>\<rparr>"
| "call_item i (Open name flags rv) = \<lparr>type = OP_OPEN, body = S_open
     \<lparr>open_name = name, open_flags = read_open_flags flags, open_mode = MODE_UNDEF, open_retval = rv, open_info = i\<rparr>\<rparr>"
| "call_item i (Close fd rv) = \<lparr>type = OP_CLOSE, body = S_close \<lparr>close_fd = fd, close_retval = rv, close_info = i\<rparr>\<rparr>"
| "call_item i (Unlink name rv) = \<lparr>type = OP_UNLINK, body = S_unlink
     \<lparr>unlink_name = name, unlink_retval = rv, unlink_info = i\<rparr>\<rparr>"
| "call_item i (Mkdir name mode rv) = \<lparr>type = OP_MKDIR, body = S_mkdir
     \<lparr>mkdir_name = name, mkdir_mode = octal mode, mkdir_retval = rv, mkdir_info = i\<rparr>\<rparr>"
| "call_item i (Lseek fd off whence rv) = \<lparr>type = OP_LSEEK, body = S_lseek
     \<lparr>lseek_fd = fd, lseek_flag = read_seek_flag whence, lseek_offset = off, lseek_retval = rv, lseek_info = i\<rparr>\<rparr>"
| "call_item i (Llseek fd off result whence rv) = \<lparr>type = OP_LLSEEK, body = S_llseek
     \<lparr>llseek_fd = fd, llseek_offset = off, llseek_f_offset = result, llseek_flag = read_seek_flag whence,
      llseek_retval = rv, llseek_info = i\<rparr>\<rparr>"
| "call_item i (Dup fd rv) = \<lparr>type = OP_DUP, body = S_dup
     \<lparr>dup_new_fd = rv, dup_old_fd = fd, dup_flags = 0, dup_retval = rv, dup_info = i\<rparr>\<rparr>"
| "call_item i (Dup2 fd fd2 rv) = \<lparr>type = OP_DUP2, body = S_dup
     \<lparr>dup_new_fd = fd2, dup_old_fd = fd, dup_flags = 0, dup_retval = rv, dup_info = i\<rparr>\<rparr>"
| "call_item i (Dup3 fd fd2 flags rv) = \<lparr>type = OP_DUP3, body = S_dup
     \<lparr>dup_new_fd = fd2, dup_old_fd = fd, dup_flags = read_dup3_flags flags, dup_retval = rv, dup_info = i\<rparr>\<rparr>"
| "call_item i (Pipe fd1 fd2 rv) = \<lparr>type = OP_PIPE, body = S_pipe
     \<lparr>pipe_fd1 = fd1, pipe_fd2 = fd2, pipe_mode = 0, pipe_retval = rv, pipe_info = i\<rparr>\<rparr>"
| "call_item i (Access name mode rv) = \<lparr>type = OP_ACCESS, body = S_access
     \<lparr>access_name = name, access_mode = read_access_flags mode, access_retval = rv, access_info = i\<rparr>\<rparr>"
| "call_item i (Stat name buf rv) = \<lparr>type = OP_STAT, body = S_stat
     \<lparr>stat_name = name, stat_retval = rv, stat_info = i\<rparr>\<rparr>"
| "call_item i (Clone stack flags rv) = \<lparr>type = OP_CLONE, body = S_clone
     \<lparr>clone_mode = read_clone_flags flags, clone_retval = rv, clone_info = i\<rparr>\<rparr>"
| "call_item i (Socket args rv) = \<lparr>type = OP_SOCKET, body = S_socket \<lparr>socket_retval = rv, socket_info = i\<rparr>\<rparr>"
| "call_item i (Sendfile out_fd in_fd off sz rv) = \<lparr>type = OP_SENDFILE, body = S_sendfile
     \<lparr>sendfile_out_fd = out_fd, sendfile_in_fd = in_fd,
      sendfile_offset = (case off of None \<Rightarrow> OFFSET_INVAL | Some off \<Rightarrow> off), sendfile_size = sz,
      sendfile_retval = rv, sendfile_info = i\<rparr>\<rparr>"

section \<open>Lines that fit the reader\<close>

definition frame_ok :: "frame \<Rightarrow> bool" where
  "frame_ok fr \<longleftrightarrow> 0 \<le> sint (fr_pid fr) \<and>
     fr_start fr \<noteq> [] \<and> (\<forall>c\<in>set (fr_start fr). is_digit c \<or> c = CHR ''.'') \<and> length (fr_start fr) < MAX_TIME_STRING \<and>
     set (fr_note fr) \<inter> {CHR ''<'', CHR '','', NEWLINE, NUL} = {} \<and>
     fr_dur fr \<noteq> [] \<and> set (fr_dur fr) \<inter> {CHR ''>'', CHR '','', NEWLINE, NUL} = {} \<and> length (fr_dur fr) < MAX_TIME_STRING"

definition file_name :: "string \<Rightarrow> bool" where
  "file_name s \<longleftrightarrow> s \<noteq> [] \<and> QUOTE \<notin> set s \<and> length s < MAX_STRING"

text \<open>A text up to a character that ends it, which is skipped or stored.\<close>

definition region :: "char \<Rightarrow> string \<Rightarrow> bool" where
  "region c s \<longleftrightarrow> s \<noteq> [] \<and> \<not> is_space (hd s) \<and> c \<notin> set s"

definition field :: "char \<Rightarrow> string \<Rightarrow> bool" where
  "field c s \<longleftrightarrow> region c s \<and> length s < MAX_STRING"

text \<open>Text without a quote that is not escaped.\<close>

fun escaped :: "string \<Rightarrow> bool" where
  "escaped [] \<longleftrightarrow> True"
| "escaped (c # s) \<longleftrightarrow> c \<noteq> QUOTE \<and> (if c = CHR 0x5C then (case s of [] \<Rightarrow> False | _ # t \<Rightarrow> escaped t) else escaped s)"

fun call_ok :: "traced \<Rightarrow> bool" where
  "call_ok (Read fd data dots sz rv) \<longleftrightarrow> escaped data"
| "call_ok (Write fd data dots sz rv) \<longleftrightarrow> escaped data"
| "call_ok (Pread fd data dots sz off rv) \<longleftrightarrow> escaped data"
| "call_ok (Pwrite fd data dots sz off rv) \<longleftrightarrow> escaped data"
| "call_ok (Open name flags rv) \<longleftrightarrow> file_name name \<and> field (CHR '')'') flags \<and> CHR '','' \<notin> set flags"
| "call_ok (Unlink name rv) \<longleftrightarrow> file_name name"
| "call_ok (Mkdir name mode rv) \<longleftrightarrow> file_name name \<and> mode \<noteq> [] \<and> (\<forall>c\<in>set mode. base_digit 8 c) \<and> base_digits_val 8 0 mode < 2 ^ 32"
| "call_ok (Lseek fd off whence rv) \<longleftrightarrow> field (CHR '')'') whence"
| "call_ok (Llseek fd off result whence rv) \<longleftrightarrow> field (CHR '')'') whence"
| "call_ok (Dup3 fd fd2 flags rv) \<longleftrightarrow> field (CHR '')'') flags"
| "call_ok (Access name mode rv) \<longleftrightarrow> file_name name \<and> field (CHR '')'') mode"
| "call_ok (Stat name buf rv) \<longleftrightarrow> file_name name \<and> region (CHR '')'') buf"
| "call_ok (Clone stack flags rv) \<longleftrightarrow> CHR '','' \<notin> set stack \<and> field (CHR '','') flags"
| "call_ok (Socket args rv) \<longleftrightarrow> CHR '')'' \<notin> set args"
| "call_ok _ \<longleftrightarrow> True"

section \<open>Scanning the parts\<close>

declare scan_loop.simps [simp del]

lemma ends_number_simps [simp]:
  "ends_number []" "ends_number (CHR '' '' # r)" "ends_number (CHR '','' # r)" "ends_number (CHR '')'' # r)" "ends_number (CHR '']'' # r)"
  by (simp_all add: ends_number_def is_digit_def)

lemma skip_spaces: "skip_space (replicate n (CHR '' '') @ s) = skip_space s"
  by (induction n) (simp_all add: skip_space_def)

lemma skip_space_time: "frame_ok fr \<Longrightarrow> skip_space (fr_start fr @ r) = fr_start fr @ r"
  by (cases "fr_start fr") (auto simp: frame_ok_def skip_space_def is_space_def is_digit_def)

lemma time_no_space: "frame_ok fr \<Longrightarrow> \<forall>c\<in>set (fr_start fr). \<not> is_space c"
  by (auto simp: frame_ok_def is_space_def is_digit_def)

lemma scan_start:
  assumes "frame_ok fr"
  shows "scan_loop (fmt_start @ ds) (num (fr_pid fr) @ CHR '' '' # fr_start fr @ CHR '' '' # r) [] =
    scan_loop ds (skip_space r) [I32 (fr_pid fr), Str (fr_start fr)]"
proof -
  have e: "ends_number (CHR '' '' # x)" for x by simp
  have w: "fr_start fr \<noteq> []" "length (fr_start fr) < MAX_TIME_STRING" using assms by (auto simp: frame_ok_def)
  show ?thesis
    by (simp only: fmt_start_def append_Cons append_Nil num_def scan_Dec [OF e] scan_lits(2) skip_space_Cons
        is_space_simps if_True skip_space_time [OF assms]
        scan_Word [OF w(1) time_no_space [OF assms] w(2) is_space_simps(1)])
qed

lemma scan_space_start:
  "frame_ok fr \<Longrightarrow> scan_loop (Space # fmt_start @ ds) (num (fr_pid fr) @ CHR '' '' # fr_start fr @ CHR '' '' # r) [] =
    scan_loop ds (skip_space r) [I32 (fr_pid fr), Str (fr_start fr)]"
  by (simp only: scan_lits(2,3) num_def) (simp only: scan_start [unfolded num_def])

lemma scan_dur:
  assumes "frame_ok fr"
  shows "scan_loop fmt_dur (CHR '' '' # fr_note fr @ CHR ''<'' # fr_dur fr @ CHR ''>'' # r) args = Inr (Some (args @ [Str (fr_dur fr)]))"
proof -
  have w: "CHR '' '' # fr_note fr \<noteq> []" "CHR ''<'' \<notin> set (CHR '' '' # fr_note fr)"
    "fr_dur fr \<noteq> []" "CHR ''>'' \<notin> set (fr_dur fr)" "length (fr_dur fr) < MAX_TIME_STRING"
    using assms by (auto simp: frame_ok_def)
  show ?thesis
    using scan_Skip [OF w(1,2), of "[Lit (CHR ''<''), Until (CHR ''>'') None MAX_TIME_STRING]" "fr_dur fr @ CHR ''>'' # r" args]
    by (simp only: fmt_dur_def append_Cons scan_lits(1) scan_Until [OF w(3-5)] scan_lits(4))
qed

lemma scan_result:
  assumes "frame_ok fr"
  shows "scan_loop fmt_result (result_text fr (num rv)) args = Inr (Some (args @ [I32 rv, Str (fr_dur fr)]))"
    and "scan_loop (Lit (CHR '')'') # Space # Lit (CHR ''='') # Space # Int64 # fmt_dur) (result_text fr (num64 rv')) args = Inr (Some (args @ [I64 rv', Str (fr_dur fr)]))"
proof -
  have e: "ends_number (CHR '' '' # x)" for x by simp
  have s: "skip_space (replicate n (CHR '' '') @ CHR ''='' # x) = CHR ''='' # x" for n x
    by (simp add: skip_spaces skip_space_Cons)
  show "scan_loop fmt_result (result_text fr (num rv)) args = Inr (Some (args @ [I32 rv, Str (fr_dur fr)]))"
    by (simp add: fmt_result_def result_text_def num_def scan_intro s e scan_dur [OF assms] del: replicate_Suc)
  show "scan_loop (Lit (CHR '')'') # Space # Lit (CHR ''='') # Space # Int64 # fmt_dur) (result_text fr (num64 rv')) args = Inr (Some (args @ [I64 rv', Str (fr_dur fr)]))"
    by (simp add: result_text_def num64_def scan_intro s e scan_dur [OF assms] del: replicate_Suc)
qed

lemma scan_open_paren:
  assumes "name \<noteq> []" "CHR ''('' \<notin> set name"
  shows "scan_loop (fmt_open @ ds) (name @ CHR ''('' # r) args = scan_loop ds r args"
  by (simp only: fmt_open_def append_Cons append_Nil scan_Skip [OF assms] scan_lits(1))

lemma scan_file_name:
  assumes "file_name name" "call \<noteq> []" "QUOTE \<notin> set call"
  shows "scan_loop (fmt_name @ ds) (call @ quoted name @ r) args = scan_loop ds r (args @ [Str name])"
proof -
  have w: "name \<noteq> []" "QUOTE \<notin> set name" "length name < MAX_STRING" "length name \<le> MAX_STRING"
    using assms by (auto simp: file_name_def)
  show ?thesis
    by (simp only: fmt_name_def quoted_def append_Cons append_Nil append_assoc scan_Skip [OF assms(2,3)]
        scan_Until_width [OF w] scan_lits(1))
qed

text \<open>The scan up to the arguments of a call.\<close>

definition call_word :: "string \<Rightarrow> bool" where
  "call_word name \<longleftrightarrow> name \<noteq> [] \<and> (\<forall>c\<in>set name. \<not> is_space c \<and> c \<notin> {CHR ''('', QUOTE, CHR ''['', CHR '')''}) \<and>
     \<not> is_digit (hd name) \<and> hd name \<notin> {CHR ''.'', CHR ''<''}"

lemma call_word_start: "call_word name \<Longrightarrow> skip_space (name @ r) = name @ r"
  by (cases name) (auto simp: call_word_def skip_space_def is_space_def)

lemma scan_call:
  assumes "frame_ok fr" "call_word name"
  shows "scan_loop (fmt_start @ fmt_open @ ds) (line_text fr name args rv) [] =
      scan_loop ds (args @ result_text fr rv) [I32 (fr_pid fr), Str (fr_start fr)]"
    and "skip_space (line_text fr name args rv) = line_text fr name args rv"
proof -
  have n: "name \<noteq> []" "CHR ''('' \<notin> set name" using assms(2) by (auto simp: call_word_def)
  show "scan_loop (fmt_start @ fmt_open @ ds) (line_text fr name args rv) [] =
      scan_loop ds (args @ result_text fr rv) [I32 (fr_pid fr), Str (fr_start fr)]"
    by (simp only: line_text_def append_Cons append_Nil scan_start [OF assms(1)] call_word_start [OF assms(2)] scan_open_paren [OF n])
  show "skip_space (line_text fr name args rv) = line_text fr name args rv"
    by (simp only: line_text_def num_def append_assoc scan_lits(3))
qed

lemma scan_call_name:
  assumes "frame_ok fr" "call_word name" "file_name file"
  shows "scan_loop (fmt_start @ fmt_name @ ds) (line_text fr name (quoted file @ args) rv) [] =
      scan_loop ds (args @ result_text fr rv) [I32 (fr_pid fr), Str (fr_start fr), Str file]"
proof -
  have n: "name @ ''('' \<noteq> []" "QUOTE \<notin> set (name @ ''('')" using assms(2) by (auto simp: call_word_def QUOTE_def)
  have "line_text fr name (quoted file @ args) rv = num (fr_pid fr) @ CHR '' '' # fr_start fr @ CHR '' '' # (name @ ''('') @ quoted file @ args @ result_text fr rv"
    by (simp add: line_text_def)
  moreover have "skip_space ((name @ ''('') @ r) = (name @ ''('') @ r" for r
    using call_word_start [OF assms(2), of "CHR ''('' # r"] by simp
  ultimately show ?thesis
    by (simp only: scan_start [OF assms(1)] scan_file_name [OF assms(3) n] append_Cons append_Nil)
qed

text \<open>The parts of the arguments.\<close>

lemma ends_result [simp]: "ends_number (result_text fr rv)"
  by (simp add: result_text_def)

lemma scan_until_result:
  "field (CHR '')'') w \<Longrightarrow> scan_loop (Until (CHR '')'') None MAX_STRING # ds) (w @ result_text fr rv) args =
    scan_loop ds (result_text fr rv) (args @ [Str w])"
  unfolding result_text_def field_def region_def append_Cons append_Nil by (rule scan_Until) auto

lemma scan_skip_result:
  assumes "w \<noteq> []" "CHR '')'' \<notin> set w"
  shows "scan_loop (Skip (CHR '')'') # ds) (w @ result_text fr rv) args = scan_loop ds (result_text fr rv) args"
  unfolding result_text_def append_Cons append_Nil using assms by (rule scan_Skip)

lemma scan_num:
  "ends_number r \<Longrightarrow> scan_loop (Dec # ds) (num x @ r) args = scan_loop ds r (args @ [I32 x])"
  "ends_number r \<Longrightarrow> scan_loop (Int64 # ds) (num64 y @ r) args = scan_loop ds r (args @ [I64 y])"
  "skip_space (num x @ r) = num x @ r" "skip_space (num64 y @ r) = num64 y @ r"
  by (simp_all only: num_def num64_def scan_Dec scan_Int64 scan_lits(3))

lemma skip_space_region: "region c w \<Longrightarrow> skip_space (w @ r) = w @ r"
  by (cases w) (auto simp: region_def skip_space_def)

lemma skip_space_field: "field c w \<Longrightarrow> skip_space (w @ r) = w @ r"
  unfolding field_def by (blast intro: skip_space_region)

lemmas scan_parts = scan_call scan_call_name scan_num scan_result scan_until_result scan_skip_result
  skip_space_field [of "CHR '')''"] skip_space_field [of "CHR '',''"] scan_lits(1,2) skip_space_Cons lits_simps append_Cons append_Nil append_assoc sscanf_def

text \<open>Reading what was printed: the parsers.\<close>

lemma call_words [simp]:
  "call_word ''read''" "call_word ''write''" "call_word ''pread''" "call_word ''pwrite''" "call_word ''open''" "call_word ''close''"
  "call_word ''unlink''" "call_word ''mkdir''" "call_word ''lseek''" "call_word ''_llseek''" "call_word ''dup''" "call_word ''dup2''"
  "call_word ''dup3''" "call_word ''pipe''" "call_word ''access''" "call_word ''stat''" "call_word ''clone''" "call_word ''socket''"
  "call_word ''sendfile''"
  by (simp_all add: call_word_def QUOTE_def is_space_def is_digit_def)

lemma info: "strace_info (fr_pid fr) (fr_start fr) (fr_dur fr) = frame_info fr"
  by (simp add: strace_info_def frame_info_def)

lemma reads_close:
  assumes "frame_ok fr"
  shows "strace_read_close (strace_line fr (Close fd rv)) = Inr (Some (call_item (frame_info fr) (Close fd rv)))"
  by (simp add: strace_line_def strace_read_close_def scan_parts assms info)

lemma reads_dup:
  assumes "frame_ok fr"
  shows "strace_read_dup (strace_line fr (Dup fd rv)) = Inr (Some (call_item (frame_info fr) (Dup fd rv)))"
    "strace_read_dup2 (strace_line fr (Dup2 fd fd2 rv)) = Inr (Some (call_item (frame_info fr) (Dup2 fd fd2 rv)))"
  by (simp_all add: strace_line_def strace_read_dup_def strace_read_dup2_def scan_parts assms info)

lemma reads_dup3:
  assumes "frame_ok fr" "call_ok (Dup3 fd fd2 flags rv)"
  shows "strace_read_dup3 (strace_line fr (Dup3 fd fd2 flags rv)) = Inr (Some (call_item (frame_info fr) (Dup3 fd fd2 flags rv)))"
  using assms by (simp add: strace_line_def strace_read_dup3_def scan_parts info)

lemma reads_lseek:
  assumes "frame_ok fr" "call_ok (Lseek fd off whence rv)"
  shows "strace_read_lseek (strace_line fr (Lseek fd off whence rv)) = Inr (Some (call_item (frame_info fr) (Lseek fd off whence rv)))"
  using assms by (simp add: strace_line_def strace_read_lseek_def scan_parts info)

lemma reads_llseek:
  assumes "frame_ok fr" "call_ok (Llseek fd off result whence rv)"
  shows "strace_read_llseek (strace_line fr (Llseek fd off result whence rv)) =
    Inr (Some (call_item (frame_info fr) (Llseek fd off result whence rv)))"
  using assms by (simp add: strace_line_def strace_read_llseek_def scan_parts info)

lemma reads_pipe:
  assumes "frame_ok fr"
  shows "strace_read_pipe (strace_line fr (Pipe fd1 fd2 rv)) = Inr (Some (call_item (frame_info fr) (Pipe fd1 fd2 rv)))"
proof -
  have "scan_loop (fmt_start @ Skip (CHR ''['') # Lit (CHR ''['') # ds) (line_text fr ''pipe'' (CHR ''['' # r) rv) [] =
      scan_loop ds (r @ result_text fr rv) [I32 (fr_pid fr), Str (fr_start fr)]" for ds r rv
    using scan_start [OF assms] scan_Skip [of "''pipe(''" "CHR ''[''"]
    by (simp add: line_text_def skip_space_Cons is_space_def scan_lits(1))
  then show ?thesis
    using assms by (simp add: strace_line_def strace_read_pipe_def scan_parts info)
qed

lemma reads_sendfile:
  assumes "frame_ok fr"
  shows "strace_read_sendfile (strace_line fr (Sendfile out_fd in_fd off sz rv)) =
    Inr (Some (call_item (frame_info fr) (Sendfile out_fd in_fd off sz rv)))"
proof (cases off)
  case None
  have stop: "scan_loop (Lit (CHR ''['') # ds) (CHR ''N'' # r) args = Inr (Some args)" if "args \<noteq> []" for ds r args
    using that by (simp add: scan_loop.simps)
  show ?thesis
    using assms by (simp add: None strace_line_def strace_read_sendfile_def scan_parts info stop is_space_def)
next
  case (Some o)
  then show ?thesis
    using assms by (simp add: strace_line_def strace_read_sendfile_def scan_parts info)
qed

lemma reads_names:
  assumes "frame_ok fr"
  shows "file_name name \<Longrightarrow> strace_read_unlink (strace_line fr (Unlink name rv)) = Inr (Some (call_item (frame_info fr) (Unlink name rv)))"
    "call_ok (Access name mode rv) \<Longrightarrow> strace_read_access (strace_line fr (Access name mode rv)) =
      Inr (Some (call_item (frame_info fr) (Access name mode rv)))"
  using assms scan_call_name [OF assms, of _ _ _ "[]", simplified]
  by (simp_all add: strace_line_def strace_read_unlink_def strace_read_access_def scan_parts info)

text \<open>A number without a sign: what follows it on the line is no digit.\<close>

lemma scan_unsigned:
  assumes m: "m \<noteq> []" "\<forall>c\<in>set m. base_digit b c" and b: "b \<noteq> 16" and val: "base_digits_val b 0 m < 2 ^ 32"
  shows "skip_space (m @ r) = m @ r"
    "scan_loop (Unsigned b # ds) (m @ result_text fr x) args = scan_loop ds (result_text fr x) (args @ [I32 (of_nat (base_digits_val b 0 m))])"
proof -
  show space: "skip_space (m @ r) = m @ r" for r
    using m b by (cases m) (auto simp: skip_space_def base_digit_def is_digit_def is_space_def)
  have sign: "scan_sign (m @ r) = (False, m @ r)" for r
    using m b by (cases m) (auto simp: base_digit_def is_digit_def)
  have stop: "takeWhile (base_digit b) (result_text fr x) = []" "dropWhile (base_digit b) (result_text fr x) = result_text fr x"
    using b by (simp_all add: result_text_def base_digit_def is_digit_def)
  show "scan_loop (Unsigned b # ds) (m @ result_text fr x) args = scan_loop ds (result_text fr x) (args @ [I32 (of_nat (base_digits_val b 0 m))])"
    using m val by (simp add: scan_loop.simps scan_num_def space scan_number_def sign scan_base_def takeWhile_append2
        dropWhile_append2 stop apply_sign_def clamp_ulong_def)
qed

lemma reads_mkdir:
  assumes "frame_ok fr" "call_ok (Mkdir name mode rv)"
  shows "strace_read_mkdir (strace_line fr (Mkdir name mode rv)) = Inr (Some (call_item (frame_info fr) (Mkdir name mode rv)))"
proof -
  have mode: "mode \<noteq> []" "\<forall>c\<in>set mode. base_digit 8 c" "base_digits_val 8 0 mode < 2 ^ 32" and name: "file_name name"
    using assms(2) by auto
  show ?thesis
    using assms(1) name scan_unsigned [OF mode(1,2) _ mode(3)]
    by (simp add: strace_line_def strace_read_mkdir_def scan_parts info octal_def)
qed

lemma reads_stat:
  assumes "frame_ok fr" "call_ok (Stat name buf rv)"
  shows "strace_read_stat (strace_line fr (Stat name buf rv)) = Inr (Some (call_item (frame_info fr) (Stat name buf rv)))"
proof -
  have buf: "buf \<noteq> []" "CHR '')'' \<notin> set buf" and name: "file_name name" and space: "skip_space (buf @ r) = buf @ r" for r
    using assms(2) by (auto simp: region_def intro: skip_space_region)
  have gap: "replicate (Suc (fr_gap fr)) (CHR '' '') \<noteq> []" "CHR ''='' \<notin> set (replicate (Suc (fr_gap fr)) (CHR '' ''))" by auto
  have "scan_loop (Lit (CHR '')'') # Skip (CHR ''='') # Space # Lit (CHR ''='') # Space # Dec # fmt_dur)
      (result_text fr (num rv)) args = Inr (Some (args @ [I32 rv, Str (fr_dur fr)]))" for args
    by (simp add: result_text_def scan_lits(1,2) scan_Skip [OF gap] skip_space_Cons scan_num scan_dur [OF assms(1)] del: replicate_Suc)
  then show ?thesis
    using assms(1) name buf by (simp add: strace_line_def strace_read_stat_def scan_parts space info)
qed

lemma reads_clone:
  assumes "frame_ok fr" "call_ok (Clone stack flags rv)"
  shows "strace_read_clone (strace_line fr (Clone stack flags rv)) = Inr (Some (call_item (frame_info fr) (Clone stack flags rv)))"
proof -
  have f: "flags \<noteq> []" "CHR '','' \<notin> set flags" "length flags < MAX_STRING" and stack: "CHR '','' \<notin> set stack"
    using assms(2) by (auto simp: field_def region_def)
  have c: "''child_stack='' @ stack \<noteq> []" "CHR '','' \<notin> set (''child_stack='' @ stack)" using stack by auto
  have t: "''child_tidptr=0'' \<noteq> []" "CHR '')'' \<notin> set ''child_tidptr=0''" by simp_all
  show ?thesis
    using assms(1)
    by (simp add: strace_line_def strace_read_clone_def scan_parts info scan_Until [OF f] is_space_def
        scan_Skip [OF c, simplified] scan_skip_result [OF t, simplified])
qed

lemma reads_socket:
  assumes "frame_ok fr" "call_ok (Socket args rv)"
  shows "read_socket_strace (strace_line fr (Socket args rv)) = Inr (Some (call_item (frame_info fr) (Socket args rv)))"
proof -
  have "scan_loop (fmt_start @ Skip (CHR '')'') # ds) (line_text fr ''socket'' args rv) [] =
      scan_loop ds (result_text fr rv) [I32 (fr_pid fr), Str (fr_start fr)]" for ds rv
    using scan_start [OF assms(1), of "Skip (CHR '')'') # ds"] scan_skip_result [of "''socket('' @ args"] assms(2)
    by (simp add: line_text_def skip_space_Cons is_space_def)
  then show ?thesis
    using assms by (simp add: strace_line_def read_socket_strace_def scan_parts info)
qed

lemma num_chars: "c \<in> set (num i) \<Longrightarrow> is_digit c \<or> c = CHR ''-''"
  using decimal_props [of "nat \<bar>sint i\<bar>"] by (auto simp: num_def decimal_int_def split: if_splits)

lemma scan_until_end:
  assumes "s \<noteq> []" "c \<notin> set s" "length s < n"
  shows "scan_loop (Until c None n # Lit c' # ds) s args = Inr (Some (args @ [Str s]))"
proof -
  have w: "takeWhile (\<lambda>x. x \<noteq> c) s = s" unfolding takeWhile_eq_all_conv using assms(2) by blast
  show ?thesis using assms(1,3) by (simp add: scan_loop.simps Let_def w)
qed

text \<open>
  The first format of \<open>open\<close> runs to the end of the line when there is no mode. What it stores on the
  way is less than the line, so it fits.
\<close>

lemma reads_open:
  assumes fr: "frame_ok fr" and ok: "call_ok (Open name flags rv)" and len: "length (strace_line fr (Open name flags rv)) < MAX_STRING"
  shows "strace_read_open (strace_line fr (Open name flags rv)) = Inr (Some (call_item (frame_info fr) (Open name flags rv)))"
proof -
  let ?rest = "flags @ result_text fr (num rv)"
  have "CHR '','' \<notin> set (num rv)" using num_chars [of "CHR '',''" rv] by (auto simp: is_digit_def)
  then have c: "CHR '','' \<notin> set ?rest" using fr ok by (auto simp: result_text_def frame_ok_def field_def region_def NEWLINE_def)
  have len: "length ?rest < MAX_STRING" using len by (simp add: strace_line_def line_text_def)
  have "?rest \<noteq> []" by (simp add: result_text_def)
  note stop = scan_until_end [OF this c len]
  show ?thesis
    using fr ok by (simp add: strace_line_def strace_read_open_def scan_parts stop info)
qed

section \<open>Reading a line back\<close>

text \<open>The calls that transfer data.\<close>

lemma closing_quote_escaped: "escaped data \<Longrightarrow> closing_quote False (data @ QUOTE # r) = Some r"
proof (induction data rule: escaped.induct)
  case (2 c s)
  have c: "c \<noteq> QUOTE" using 2(3) by simp
  show ?case
  proof (cases "c = CHR 0x5C")
    case False
    then show ?thesis using 2(2,3) c by simp
  next
    case True
    then obtain d t where s: "s = d # t" "escaped t" using 2(3) by (auto split: list.splits)
    have "closing_quote True (d # t @ QUOTE # r) = closing_quote False (t @ QUOTE # r)" by simp
    then show ?thesis using True c s 2(1) [OF True s(1)] by simp
  qed
qed simp

lemma strchr_append: "c \<notin> set s \<Longrightarrow> strchr (s @ c # r) c = Some (length s)"
  by (induction s) auto

lemma drop_past: "drop (Suc (length s)) (s @ c # r) = r"
  by simp

lemma quote_found:
  fixes fd :: i32
  assumes fr: "frame_ok fr" and name: "call_word name"
  defines "front \<equiv> num (fr_pid fr) @ '' '' @ fr_start fr @ '' '' @ name @ ''('' @ num fd @ '', ''"
  shows "strchr (front @ QUOTE # r) QUOTE = Some (length front)" "length front \<noteq> 0"
proof -
  have "\<not> is_digit QUOTE" "QUOTE \<noteq> CHR ''.''" "QUOTE \<noteq> CHR ''-''" "QUOTE \<noteq> CHR '' ''" "QUOTE \<noteq> CHR ''(''" "QUOTE \<noteq> CHR '',''"
    by (simp_all add: QUOTE_def is_digit_def)
  moreover from this have "QUOTE \<notin> set (num i)" for i using num_chars [of QUOTE i] by blast
  moreover have "QUOTE \<notin> set (fr_start fr)" using fr calculation(1,2) unfolding frame_ok_def by blast
  moreover have "QUOTE \<notin> set name" using name unfolding call_word_def by blast
  ultimately have "QUOTE \<notin> set front" by (simp add: front_def)
  then show "strchr (front @ QUOTE # r) QUOTE = Some (length front)" by (rule strchr_append)
  show "length front \<noteq> 0" by (simp add: front_def)
qed

lemma transfer_text:
  assumes fr: "frame_ok fr" and name: "call_word name" and data: "escaped data"
  shows "strace_first (line_text fr name (num fd @ '', '' @ shown data dots @ '', '' @ args) rv) = Inr (Some (fr_pid fr, fr_start fr, fd))"
    and "strace_second fmt (line_text fr name (num fd @ '', '' @ shown data dots @ '', '' @ args) rv) =
      scan_loop fmt ('', '' @ args @ result_text fr rv) []"
proof -
  let ?line = "line_text fr name (num fd @ '', '' @ shown data dots @ '', '' @ args) rv"
  show "strace_first ?line = Inr (Some (fr_pid fr, fr_start fr, fd))"
    using fr name by (simp add: strace_first_def scan_parts scan_lits(4))
  let ?front = "num (fr_pid fr) @ '' '' @ fr_start fr @ '' '' @ name @ ''('' @ num fd @ '', ''"
    and ?rest = "'', '' @ args @ result_text fr rv"
  have line: "?line = ?front @ QUOTE # data @ QUOTE # (if dots then ''...'' else []) @ ?rest"
    by (simp add: line_text_def shown_def quoted_def)
  have quote: "strchr ?line QUOTE = Some (length ?front)" and pos: "length ?front \<noteq> 0"
    unfolding line by (rule quote_found [OF fr name])+
  have rest: "drop (Suc (length ?front)) ?line = data @ QUOTE # (if dots then ''...'' else []) @ ?rest" unfolding line by (rule drop_past)
  have "closing_quote False (drop (Suc (length ?front)) ?line) = Some ((if dots then ''...'' else []) @ ?rest)"
    unfolding rest by (rule closing_quote_escaped [OF data])
  then have "strace_pos_comma ?line = Inr (Some ?rest)"
    unfolding strace_pos_comma_def quote option.case if_not_P [OF pos] by simp
  then show "strace_second fmt ?line = scan_loop fmt ?rest []" by (simp add: strace_second_def sscanf_def)
qed

lemma reads_transfer:
  assumes "frame_ok fr" "escaped data"
  shows "strace_read_read (strace_line fr (Read fd data dots sz rv)) = Inr (Some (call_item (frame_info fr) (Read fd data dots sz rv)))"
    "strace_read_write (strace_line fr (Write fd data dots sz rv)) = Inr (Some (call_item (frame_info fr) (Write fd data dots sz rv)))"
    "strace_read_pread (strace_line fr (Pread fd data dots sz off rv)) = Inr (Some (call_item (frame_info fr) (Pread fd data dots sz off rv)))"
    "strace_read_pwrite (strace_line fr (Pwrite fd data dots sz off rv)) = Inr (Some (call_item (frame_info fr) (Pwrite fd data dots sz off rv)))"
  using assms(1)
  by (simp_all add: strace_line_def strace_read_read_def strace_read_write_def strace_read_pread_def strace_read_pwrite_def
      transfer_text [OF assms(1) _ assms(2), simplified] fmt_size_def fmt_size_offset_def scan_parts info)

section \<open>Whole lines\<close>

lemma skip_digits: "\<forall>c\<in>set s. P c \<Longrightarrow> dropWhile P (s @ r) = dropWhile P r"
  by (simp add: dropWhile_append2)

lemma operation_of_line:
  assumes "frame_ok fr" "call_word name"
  shows "skip_prefix (num (fr_pid fr) @ '' '' @ fr_start fr @ '' '' @ name @ r) = name @ r"
    "skip_prefix (num (fr_pid fr) @ '' '' @ fr_start fr @ '' <... '' @ name @ r) = name @ r"
proof -
  let ?P = "\<lambda>c. is_space c \<or> is_digit c \<or> c = CHR ''.'' \<or> c = CHR ''<''"
  have "0 \<le> sint (fr_pid fr)" using assms(1) by (simp add: frame_ok_def)
  then have pid: "\<forall>c\<in>set (num (fr_pid fr)). ?P c" using decimal_props by (simp add: num_def decimal_int_def)
  have start: "\<forall>c\<in>set (fr_start fr). ?P c" using assms(1) by (auto simp: frame_ok_def)
  have name: "dropWhile ?P (name @ r) = name @ r" using assms(2) by (cases name) (auto simp: call_word_def)
  show "skip_prefix (num (fr_pid fr) @ '' '' @ fr_start fr @ '' '' @ name @ r) = name @ r"
    "skip_prefix (num (fr_pid fr) @ '' '' @ fr_start fr @ '' <... '' @ name @ r) = name @ r"
    by (simp_all add: skip_prefix_def skip_digits [OF pid] skip_digits [OF start] name)
qed

lemma call_name_word [simp]: "call_word (call_name c)"
  by (cases c) simp_all

lemma call_name_known: "length (call_name c) < MAX_STRING" "operation_code (call_name c) \<noteq> OP_UNKNOWN"
  by (cases c; simp add: operation_code_def op_codes MAX_STRING_def)+

lemma name_up_to: "call_word name \<Longrightarrow> x = CHR ''('' \<or> x = CHR '' '' \<Longrightarrow>
  takeWhile (\<lambda>c. c \<noteq> CHR ''('' \<and> c \<noteq> CHR '' '') (name @ x # r) = name"
  by (subst takeWhile_append2) (auto simp: call_word_def is_space_def)

lemma line_operation:
  assumes "frame_ok fr" "x = CHR ''('' \<or> x = CHR '' ''"
  shows "strace_get_operation_code False (num (fr_pid fr) @ '' '' @ fr_start fr @ '' '' @ call_name c @ x # r) st =
      Inr (operation_code (call_name c), st)"
    "strace_get_operation_code False (num (fr_pid fr) @ '' '' @ fr_start fr @ '' <... '' @ call_name c @ x # r) st =
      Inr (operation_code (call_name c), st)"
  using call_name_known(1) [of c] operation_of_line [OF assms(1) call_name_word, simplified]
  by (simp_all add: strace_get_operation_code_def strace_get_operation_def Let_def name_up_to [OF call_name_word assms(2)])

lemma dispatch_line:
  assumes "frame_ok fr" "call_ok c" "length (strace_line fr c) < MAX_STRING"
  shows "strace_dispatch (operation_code (call_name c)) (strace_line fr c) st =
    Inr (0, st\<lparr>loaded := loaded st @ [call_item (frame_info fr) c]\<rparr>)"
  using assms
  by (cases c) (simp_all add: strace_dispatch_def operation_code_def op_codes keep_item_def reads_transfer reads_open reads_clone
      reads_socket reads_stat reads_mkdir reads_names reads_sendfile reads_pipe reads_llseek reads_lseek reads_dup reads_dup3
      reads_close)

end
