(* ===== verification/In_Binary.thy ===== *)
theory In_Binary
  imports Op_Types "HOL-Library.Sublist"
begin

text \<open>
  The binary trace format of \<open>in_binary.c\<close>. A file is the list of its bytes. Reading
  peels fields off the front of the file: a reader returns \<open>Inr None\<close> where the C function
  prints a message and returns \<open>-1\<close>, and \<open>Inl Overflow\<close> where it writes past a buffer.
  Writing appends to a file with a limited \<open>room\<close>; \<open>None\<close> is a short \<open>fwrite\<close>, after
  which the C function returns \<open>-1\<close>.
\<close>

section \<open>Little-endian integers\<close>

fun le_bytes :: "nat \<Rightarrow> nat \<Rightarrow> string" where
  "le_bytes 0 n = []"
| "le_bytes (Suc k) n = char_of (n mod 256) # le_bytes k (n div 256)"

fun le_value :: "string \<Rightarrow> nat" where
  "le_value [] = 0"
| "le_value (c # s) = of_char c + 256 * le_value s"

lemma le_value_bytes: "le_value (le_bytes k n) = n mod 256 ^ k"
  by (induction k arbitrary: n) (simp_all add: mod_mult2_eq)

lemma length_le_bytes [simp]: "length (le_bytes k n) = k"
  by (induction k arbitrary: n) auto

section \<open>Readers and writers\<close>

type_synonym 'a reader = "string \<Rightarrow> ('a \<times> string) option res"

definition rd_return :: "'a \<Rightarrow> 'a reader" where
  "rd_return x f = Inr (Some (x, f))"

definition rd_bind :: "'a reader \<Rightarrow> ('a \<Rightarrow> 'b reader) \<Rightarrow> 'b reader" where
  "rd_bind m k f = bindR (m f) (\<lambda>r. case r of None \<Rightarrow> Inr None | Some (x, f') \<Rightarrow> k x f')"

text \<open>\<open>fread\<close> of one integer, then \<open>le32toh\<close> / \<open>le64toh\<close>.\<close>

definition read_int32 :: "i32 reader" where
  "read_int32 f = Inr (if length f < 4 then None else Some (of_nat (le_value (take 4 f)), drop 4 f))"

definition read_int64 :: "i64 reader" where
  "read_int64 f = Inr (if length f < 8 then None else Some (of_nat (le_value (take 8 f)), drop 8 f))"

text \<open>
  A file name: its length, then that many bytes into \<open>char buff[MAX_STRING]\<close>, terminated by
  \<open>buff[len] = 0\<close> and copied as a string. \<open>fread\<close> takes the length as a \<open>size_t\<close>, so a negative
  one asks for almost \<open>2 ^ 64\<close> bytes; no length is checked against the buffer.
\<close>

definition fread_size :: "i32 \<Rightarrow> nat" where
  "fread_size len = (if sint len < 0 then nat (2 ^ 64 + sint len) else nat (sint len))"

definition read_name :: "string reader" where
  "read_name = rd_bind read_int32 (\<lambda>len f.
     let got = min (fread_size len) (length f) in
     if got > MAX_STRING then Inl Overflow
     else if int got \<noteq> sint len then Inr None
     else if got = MAX_STRING then Inl Overflow
     else Inr (Some (takeWhile (\<lambda>c. c \<noteq> CHR 0x00) (take got f), drop got f)))"

definition bin_read_info :: "op_info reader" where
  "bin_read_info =
     rd_bind read_int32 (\<lambda>p. rd_bind read_int32 (\<lambda>d.
     rd_bind read_int32 (\<lambda>s. rd_bind read_int32 (\<lambda>u.
     rd_return \<lparr>pid = p, dur = d, start = \<lparr>tv_sec = s, tv_usec = u\<rparr>\<rparr>))))"

record outfile =
  written :: string
  room :: nat

definition fwrite :: "string \<Rightarrow> outfile \<Rightarrow> outfile option" where
  "fwrite s f = (if length s \<le> room f then Some \<lparr>written = written f @ s, room = room f - length s\<rparr> else None)"

definition write_char :: "char \<Rightarrow> outfile \<Rightarrow> outfile option" where
  "write_char c f = fwrite [c] f"

definition write_int32 :: "i32 \<Rightarrow> outfile \<Rightarrow> outfile option" where
  "write_int32 x f = fwrite (le_bytes 4 (unat x)) f"

definition write_int64 :: "i64 \<Rightarrow> outfile \<Rightarrow> outfile option" where
  "write_int64 x f = fwrite (le_bytes 8 (unat x)) f"

definition write_string :: "string \<Rightarrow> outfile \<Rightarrow> outfile option" where
  "write_string s f = fwrite s f"

text \<open>\<open>len = strlen(name)\<close>, the length, then the bytes.\<close>

definition write_name :: "string \<Rightarrow> outfile \<Rightarrow> outfile option" where
  "write_name s f = do { f \<leftarrow> write_int32 (of_nat (length s)) f; write_string s f }"

definition bin_write_info :: "op_info \<Rightarrow> outfile \<Rightarrow> outfile option" where
  "bin_write_info i f = do {
     f \<leftarrow> write_int32 (pid i) f;
     f \<leftarrow> write_int32 (dur i) f;
     f \<leftarrow> write_int32 (tv_sec (start i)) f;
     write_int32 (tv_usec (start i)) f }"

section \<open>Reading one operation\<close>

definition bin_read_read :: "op_item reader" where
  "bin_read_read =
     rd_bind read_int32 (\<lambda>fd.
     rd_bind read_int64 (\<lambda>size.
     rd_bind read_int64 (\<lambda>retval.
     rd_bind bin_read_info (\<lambda>i.
     rd_return \<lparr>type = OP_READ, body = S_read \<lparr>read_fd = fd, read_size = size, read_retval = retval, read_info = i\<rparr>\<rparr>))))"

definition bin_read_write :: "op_item reader" where
  "bin_read_write =
     rd_bind read_int32 (\<lambda>fd.
     rd_bind read_int64 (\<lambda>size.
     rd_bind read_int64 (\<lambda>retval.
     rd_bind bin_read_info (\<lambda>i.
     rd_return \<lparr>type = OP_WRITE, body = S_write \<lparr>write_fd = fd, write_size = size, write_retval = retval, write_info = i\<rparr>\<rparr>))))"

definition bin_read_pread :: "op_item reader" where
  "bin_read_pread =
     rd_bind read_int32 (\<lambda>fd.
     rd_bind read_int64 (\<lambda>size.
     rd_bind read_int64 (\<lambda>offset.
     rd_bind read_int64 (\<lambda>retval.
     rd_bind bin_read_info (\<lambda>i.
     rd_return \<lparr>type = OP_PREAD, body = S_pread \<lparr>pread_fd = fd, pread_size = size, pread_offset = offset, pread_retval = retval, pread_info = i\<rparr>\<rparr>)))))"

definition bin_read_pwrite :: "op_item reader" where
  "bin_read_pwrite =
     rd_bind read_int32 (\<lambda>fd.
     rd_bind read_int64 (\<lambda>size.
     rd_bind read_int64 (\<lambda>offset.
     rd_bind read_int64 (\<lambda>retval.
     rd_bind bin_read_info (\<lambda>i.
     rd_return \<lparr>type = OP_PWRITE, body = S_pwrite \<lparr>pwrite_fd = fd, pwrite_size = size, pwrite_offset = offset, pwrite_retval = retval, pwrite_info = i\<rparr>\<rparr>)))))"

definition bin_read_open :: "op_item reader" where
  "bin_read_open =
     rd_bind read_name (\<lambda>nm.
     rd_bind read_int32 (\<lambda>flags.
     rd_bind read_int32 (\<lambda>mode.
     rd_bind read_int32 (\<lambda>retval.
     rd_bind bin_read_info (\<lambda>i.
     rd_return \<lparr>type = OP_OPEN, body = S_open \<lparr>open_name = nm, open_flags = flags, open_mode = mode, open_retval = retval, open_info = i\<rparr>\<rparr>)))))"

definition bin_read_close :: "op_item reader" where
  "bin_read_close =
     rd_bind read_int32 (\<lambda>fd.
     rd_bind read_int32 (\<lambda>retval.
     rd_bind bin_read_info (\<lambda>i.
     rd_return \<lparr>type = OP_CLOSE, body = S_close \<lparr>close_fd = fd, close_retval = retval, close_info = i\<rparr>\<rparr>)))"

definition bin_read_unlink :: "op_item reader" where
  "bin_read_unlink =
     rd_bind read_name (\<lambda>nm.
     rd_bind read_int32 (\<lambda>retval.
     rd_bind bin_read_info (\<lambda>i.
     rd_return \<lparr>type = OP_UNLINK, body = S_unlink \<lparr>unlink_name = nm, unlink_retval = retval, unlink_info = i\<rparr>\<rparr>)))"

definition bin_read_lseek :: "op_item reader" where
  "bin_read_lseek =
     rd_bind read_int32 (\<lambda>fd.
     rd_bind read_int32 (\<lambda>flag.
     rd_bind read_int64 (\<lambda>offset.
     rd_bind read_int64 (\<lambda>retval.
     rd_bind bin_read_info (\<lambda>i.
     rd_return \<lparr>type = OP_LSEEK, body = S_lseek \<lparr>lseek_fd = fd, lseek_flag = flag, lseek_offset = offset, lseek_retval = retval, lseek_info = i\<rparr>\<rparr>)))))"

definition bin_read_llseek :: "op_item reader" where
  "bin_read_llseek =
     rd_bind read_int32 (\<lambda>fd.
     rd_bind read_int64 (\<lambda>offset.
     rd_bind read_int64 (\<lambda>f_offset.
     rd_bind read_int32 (\<lambda>flag.
     rd_bind read_int64 (\<lambda>retval.
     rd_bind bin_read_info (\<lambda>i.
     rd_return \<lparr>type = OP_LLSEEK, body = S_llseek \<lparr>llseek_fd = fd, llseek_offset = offset, llseek_f_offset = f_offset, llseek_flag = flag, llseek_retval = retval, llseek_info = i\<rparr>\<rparr>))))))"

definition bin_read_clone :: "op_item reader" where
  "bin_read_clone =
     rd_bind read_int32 (\<lambda>mode.
     rd_bind read_int32 (\<lambda>retval.
     rd_bind bin_read_info (\<lambda>i.
     rd_return \<lparr>type = OP_CLONE, body = S_clone \<lparr>clone_mode = mode, clone_retval = retval, clone_info = i\<rparr>\<rparr>)))"

definition bin_read_mkdir :: "op_item reader" where
  "bin_read_mkdir =
     rd_bind read_name (\<lambda>nm.
     rd_bind read_int32 (\<lambda>mode.
     rd_bind read_int32 (\<lambda>retval.
     rd_bind bin_read_info (\<lambda>i.
     rd_return \<lparr>type = OP_MKDIR, body = S_mkdir \<lparr>mkdir_name = nm, mkdir_mode = mode, mkdir_retval = retval, mkdir_info = i\<rparr>\<rparr>))))"

text \<open>The source stores \<open>OP_MKDIR\<close> here, in the \<open>type\<close> of a structure that is an \<open>rmdir_item_t\<close>.\<close>

definition bin_read_rmdir :: "op_item reader" where
  "bin_read_rmdir =
     rd_bind read_name (\<lambda>nm.
     rd_bind read_int32 (\<lambda>retval.
     rd_bind bin_read_info (\<lambda>i.
     rd_return \<lparr>type = OP_MKDIR, body = S_rmdir \<lparr>rmdir_name = nm, rmdir_retval = retval, rmdir_info = i\<rparr>\<rparr>)))"

definition bin_read_dup :: "char \<Rightarrow> op_item reader" where
  "bin_read_dup c =
     rd_bind read_int32 (\<lambda>new_fd.
     rd_bind read_int32 (\<lambda>old_fd.
     rd_bind read_int32 (\<lambda>flags.
     rd_bind read_int32 (\<lambda>retval.
     rd_bind bin_read_info (\<lambda>i.
     rd_return \<lparr>type = c, body = S_dup \<lparr>dup_new_fd = new_fd, dup_old_fd = old_fd, dup_flags = flags, dup_retval = retval, dup_info = i\<rparr>\<rparr>)))))"

definition bin_read_pipe :: "op_item reader" where
  "bin_read_pipe =
     rd_bind read_int32 (\<lambda>fd1.
     rd_bind read_int32 (\<lambda>fd2.
     rd_bind read_int32 (\<lambda>mode.
     rd_bind read_int32 (\<lambda>retval.
     rd_bind bin_read_info (\<lambda>i.
     rd_return \<lparr>type = OP_PIPE, body = S_pipe \<lparr>pipe_fd1 = fd1, pipe_fd2 = fd2, pipe_mode = mode, pipe_retval = retval, pipe_info = i\<rparr>\<rparr>)))))"

definition bin_read_access :: "op_item reader" where
  "bin_read_access =
     rd_bind read_name (\<lambda>nm.
     rd_bind read_int32 (\<lambda>mode.
     rd_bind read_int32 (\<lambda>retval.
     rd_bind bin_read_info (\<lambda>i.
     rd_return \<lparr>type = OP_ACCESS, body = S_access \<lparr>access_name = nm, access_mode = mode, access_retval = retval, access_info = i\<rparr>\<rparr>))))"

definition bin_read_stat :: "op_item reader" where
  "bin_read_stat =
     rd_bind read_name (\<lambda>nm.
     rd_bind read_int32 (\<lambda>retval.
     rd_bind bin_read_info (\<lambda>i.
     rd_return \<lparr>type = OP_STAT, body = S_stat \<lparr>stat_name = nm, stat_retval = retval, stat_info = i\<rparr>\<rparr>)))"

definition bin_read_socket :: "op_item reader" where
  "bin_read_socket =
     rd_bind read_int32 (\<lambda>retval.
     rd_bind bin_read_info (\<lambda>i.
     rd_return \<lparr>type = OP_SOCKET, body = S_socket \<lparr>socket_retval = retval, socket_info = i\<rparr>\<rparr>))"

definition bin_read_sendfile :: "op_item reader" where
  "bin_read_sendfile =
     rd_bind read_int32 (\<lambda>out_fd.
     rd_bind read_int32 (\<lambda>in_fd.
     rd_bind read_int64 (\<lambda>offset.
     rd_bind read_int64 (\<lambda>size.
     rd_bind read_int64 (\<lambda>retval.
     rd_bind bin_read_info (\<lambda>i.
     rd_return \<lparr>type = OP_SENDFILE, body = S_sendfile \<lparr>sendfile_out_fd = out_fd, sendfile_in_fd = in_fd, sendfile_offset = offset, sendfile_size = size, sendfile_retval = retval, sendfile_info = i\<rparr>\<rparr>))))))"

text \<open>The \<open>switch\<close> of \<open>bin_get_items\<close>.\<close>

definition bin_read_op :: "char \<Rightarrow> op_item reader" where
  "bin_read_op c =
    (if c = OP_WRITE then bin_read_write
     else if c = OP_READ then bin_read_read
     else if c = OP_PWRITE then bin_read_pwrite
     else if c = OP_PREAD then bin_read_pread
     else if c = OP_OPEN then bin_read_open
     else if c = OP_CLOSE then bin_read_close
     else if c = OP_UNLINK then bin_read_unlink
     else if c = OP_LSEEK then bin_read_lseek
     else if c = OP_LLSEEK then bin_read_llseek
     else if c = OP_CLONE then bin_read_clone
     else if c = OP_MKDIR then bin_read_mkdir
     else if c = OP_RMDIR then bin_read_rmdir
     else if c = OP_DUP \<or> c = OP_DUP2 \<or> c = OP_DUP3 then bin_read_dup c
     else if c = OP_PIPE then bin_read_pipe
     else if c = OP_ACCESS then bin_read_access
     else if c = OP_STAT then bin_read_stat
     else if c = OP_SOCKET then bin_read_socket
     else if c = OP_SENDFILE then bin_read_sendfile
     else (\<lambda>f. Inr None))"

lemmas bin_read_defs = bin_read_read_def bin_read_write_def bin_read_pread_def bin_read_pwrite_def bin_read_open_def bin_read_close_def bin_read_unlink_def bin_read_lseek_def bin_read_llseek_def bin_read_clone_def bin_read_mkdir_def bin_read_rmdir_def bin_read_dup_def bin_read_pipe_def bin_read_access_def bin_read_stat_def bin_read_socket_def bin_read_sendfile_def

section \<open>Writing one operation\<close>

definition bin_save_write :: "write_op \<Rightarrow> outfile \<Rightarrow> outfile option" where
  "bin_save_write x f = do {
     f \<leftarrow> write_char OP_WRITE f;
     f \<leftarrow> write_int32 (write_fd x) f;
     f \<leftarrow> write_int64 (write_size x) f;
     f \<leftarrow> write_int64 (write_retval x) f;
     bin_write_info (write_info x) f }"

definition bin_save_read :: "read_op \<Rightarrow> outfile \<Rightarrow> outfile option" where
  "bin_save_read x f = do {
     f \<leftarrow> write_char OP_READ f;
     f \<leftarrow> write_int32 (read_fd x) f;
     f \<leftarrow> write_int64 (read_size x) f;
     f \<leftarrow> write_int64 (read_retval x) f;
     bin_write_info (read_info x) f }"

definition bin_save_pwrite :: "pwrite_op \<Rightarrow> outfile \<Rightarrow> outfile option" where
  "bin_save_pwrite x f = do {
     f \<leftarrow> write_char OP_PWRITE f;
     f \<leftarrow> write_int32 (pwrite_fd x) f;
     f \<leftarrow> write_int64 (pwrite_size x) f;
     f \<leftarrow> write_int64 (pwrite_offset x) f;
     f \<leftarrow> write_int64 (pwrite_retval x) f;
     bin_write_info (pwrite_info x) f }"

definition bin_save_pread :: "pread_op \<Rightarrow> outfile \<Rightarrow> outfile option" where
  "bin_save_pread x f = do {
     f \<leftarrow> write_char OP_PREAD f;
     f \<leftarrow> write_int32 (pread_fd x) f;
     f \<leftarrow> write_int64 (pread_size x) f;
     f \<leftarrow> write_int64 (pread_offset x) f;
     f \<leftarrow> write_int64 (pread_retval x) f;
     bin_write_info (pread_info x) f }"

definition bin_save_open :: "open_op \<Rightarrow> outfile \<Rightarrow> outfile option" where
  "bin_save_open x f = do {
     f \<leftarrow> write_char OP_OPEN f;
     f \<leftarrow> write_name (open_name x) f;
     f \<leftarrow> write_int32 (open_flags x) f;
     f \<leftarrow> write_int32 (open_mode x) f;
     f \<leftarrow> write_int32 (open_retval x) f;
     bin_write_info (open_info x) f }"

definition bin_save_close :: "close_op \<Rightarrow> outfile \<Rightarrow> outfile option" where
  "bin_save_close x f = do {
     f \<leftarrow> write_char OP_CLOSE f;
     f \<leftarrow> write_int32 (close_fd x) f;
     f \<leftarrow> write_int32 (close_retval x) f;
     bin_write_info (close_info x) f }"

definition bin_save_unlink :: "unlink_op \<Rightarrow> outfile \<Rightarrow> outfile option" where
  "bin_save_unlink x f = do {
     f \<leftarrow> write_char OP_UNLINK f;
     f \<leftarrow> write_name (unlink_name x) f;
     f \<leftarrow> write_int32 (unlink_retval x) f;
     bin_write_info (unlink_info x) f }"

definition bin_save_lseek :: "lseek_op \<Rightarrow> outfile \<Rightarrow> outfile option" where
  "bin_save_lseek x f = do {
     f \<leftarrow> write_char OP_LSEEK f;
     f \<leftarrow> write_int32 (lseek_fd x) f;
     f \<leftarrow> write_int32 (lseek_flag x) f;
     f \<leftarrow> write_int64 (lseek_offset x) f;
     f \<leftarrow> write_int64 (lseek_retval x) f;
     bin_write_info (lseek_info x) f }"

definition bin_save_llseek :: "llseek_op \<Rightarrow> outfile \<Rightarrow> outfile option" where
  "bin_save_llseek x f = do {
     f \<leftarrow> write_char OP_LLSEEK f;
     f \<leftarrow> write_int32 (llseek_fd x) f;
     f \<leftarrow> write_int64 (llseek_offset x) f;
     f \<leftarrow> write_int64 (llseek_f_offset x) f;
     f \<leftarrow> write_int32 (llseek_flag x) f;
     f \<leftarrow> write_int64 (llseek_retval x) f;
     bin_write_info (llseek_info x) f }"

definition bin_save_clone :: "clone_op \<Rightarrow> outfile \<Rightarrow> outfile option" where
  "bin_save_clone x f = do {
     f \<leftarrow> write_char OP_CLONE f;
     f \<leftarrow> write_int32 (clone_mode x) f;
     f \<leftarrow> write_int32 (clone_retval x) f;
     bin_write_info (clone_info x) f }"

definition bin_save_dup :: "char \<Rightarrow> dup_op \<Rightarrow> outfile \<Rightarrow> outfile option" where
  "bin_save_dup c x f = do {
     f \<leftarrow> write_char c f;
     f \<leftarrow> write_int32 (dup_new_fd x) f;
     f \<leftarrow> write_int32 (dup_old_fd x) f;
     f \<leftarrow> write_int32 (dup_flags x) f;
     f \<leftarrow> write_int32 (dup_retval x) f;
     bin_write_info (dup_info x) f }"

definition bin_save_mkdir :: "mkdir_op \<Rightarrow> outfile \<Rightarrow> outfile option" where
  "bin_save_mkdir x f = do {
     f \<leftarrow> write_char OP_MKDIR f;
     f \<leftarrow> write_name (mkdir_name x) f;
     f \<leftarrow> write_int32 (mkdir_mode x) f;
     f \<leftarrow> write_int32 (mkdir_retval x) f;
     bin_write_info (mkdir_info x) f }"

text \<open>\<open>bin_save_rmdir\<close> writes the code \<open>OP_MKDIR\<close>, as the source does.\<close>

definition bin_save_rmdir :: "rmdir_op \<Rightarrow> outfile \<Rightarrow> outfile option" where
  "bin_save_rmdir x f = do {
     f \<leftarrow> write_char OP_MKDIR f;
     f \<leftarrow> write_name (rmdir_name x) f;
     f \<leftarrow> write_int32 (rmdir_retval x) f;
     bin_write_info (rmdir_info x) f }"

definition bin_save_pipe :: "pipe_op \<Rightarrow> outfile \<Rightarrow> outfile option" where
  "bin_save_pipe x f = do {
     f \<leftarrow> write_char OP_PIPE f;
     f \<leftarrow> write_int32 (pipe_fd1 x) f;
     f \<leftarrow> write_int32 (pipe_fd2 x) f;
     f \<leftarrow> write_int32 (pipe_mode x) f;
     f \<leftarrow> write_int32 (pipe_retval x) f;
     bin_write_info (pipe_info x) f }"

definition bin_save_access :: "access_op \<Rightarrow> outfile \<Rightarrow> outfile option" where
  "bin_save_access x f = do {
     f \<leftarrow> write_char OP_ACCESS f;
     f \<leftarrow> write_name (access_name x) f;
     f \<leftarrow> write_int32 (access_mode x) f;
     f \<leftarrow> write_int32 (access_retval x) f;
     bin_write_info (access_info x) f }"

definition bin_save_stat :: "stat_op \<Rightarrow> outfile \<Rightarrow> outfile option" where
  "bin_save_stat x f = do {
     f \<leftarrow> write_char OP_STAT f;
     f \<leftarrow> write_name (stat_name x) f;
     f \<leftarrow> write_int32 (stat_retval x) f;
     bin_write_info (stat_info x) f }"

definition bin_save_socket :: "socket_op \<Rightarrow> outfile \<Rightarrow> outfile option" where
  "bin_save_socket x f = do {
     f \<leftarrow> write_char OP_SOCKET f;
     f \<leftarrow> write_int32 (socket_retval x) f;
     bin_write_info (socket_info x) f }"

definition bin_save_sendfile :: "sendfile_op \<Rightarrow> outfile \<Rightarrow> outfile option" where
  "bin_save_sendfile x f = do {
     f \<leftarrow> write_char OP_SENDFILE f;
     f \<leftarrow> write_int32 (sendfile_out_fd x) f;
     f \<leftarrow> write_int32 (sendfile_in_fd x) f;
     f \<leftarrow> write_int64 (sendfile_offset x) f;
     f \<leftarrow> write_int64 (sendfile_size x) f;
     f \<leftarrow> write_int64 (sendfile_retval x) f;
     bin_write_info (sendfile_info x) f }"

lemmas bin_save_defs = bin_save_write_def bin_save_read_def bin_save_pwrite_def bin_save_pread_def bin_save_open_def bin_save_close_def bin_save_unlink_def bin_save_lseek_def bin_save_llseek_def bin_save_clone_def bin_save_dup_def bin_save_mkdir_def bin_save_rmdir_def bin_save_pipe_def bin_save_access_def bin_save_stat_def bin_save_socket_def bin_save_sendfile_def

text \<open>The \<open>switch\<close> of \<open>bin_save_items\<close>, with its casts.\<close>

definition bin_save_op :: "op_item \<Rightarrow> outfile \<Rightarrow> outfile option res" where
  "bin_save_op it f =
    (if type it = OP_WRITE then bindR (as_write it) (\<lambda>x. Inr (bin_save_write x f))
     else if type it = OP_READ then bindR (as_read it) (\<lambda>x. Inr (bin_save_read x f))
     else if type it = OP_PWRITE then bindR (as_pwrite it) (\<lambda>x. Inr (bin_save_pwrite x f))
     else if type it = OP_PREAD then bindR (as_pread it) (\<lambda>x. Inr (bin_save_pread x f))
     else if type it = OP_OPEN then bindR (as_open it) (\<lambda>x. Inr (bin_save_open x f))
     else if type it = OP_CLOSE then bindR (as_close it) (\<lambda>x. Inr (bin_save_close x f))
     else if type it = OP_UNLINK then bindR (as_unlink it) (\<lambda>x. Inr (bin_save_unlink x f))
     else if type it = OP_LSEEK then bindR (as_lseek it) (\<lambda>x. Inr (bin_save_lseek x f))
     else if type it = OP_LLSEEK then bindR (as_llseek it) (\<lambda>x. Inr (bin_save_llseek x f))
     else if type it = OP_CLONE then bindR (as_clone it) (\<lambda>x. Inr (bin_save_clone x f))
     else if type it = OP_MKDIR then bindR (as_mkdir it) (\<lambda>x. Inr (bin_save_mkdir x f))
     else if type it = OP_RMDIR then bindR (as_rmdir it) (\<lambda>x. Inr (bin_save_rmdir x f))
     else if type it = OP_DUP \<or> type it = OP_DUP2 \<or> type it = OP_DUP3 then bindR (as_dup it) (\<lambda>x. Inr (bin_save_dup (type it) x f))
     else if type it = OP_PIPE then bindR (as_pipe it) (\<lambda>x. Inr (bin_save_pipe x f))
     else if type it = OP_ACCESS then bindR (as_access it) (\<lambda>x. Inr (bin_save_access x f))
     else if type it = OP_STAT then bindR (as_stat it) (\<lambda>x. Inr (bin_save_stat x f))
     else if type it = OP_SOCKET then bindR (as_socket it) (\<lambda>x. Inr (bin_save_socket x f))
     else if type it = OP_SENDFILE then bindR (as_sendfile it) (\<lambda>x. Inr (bin_save_sendfile x f))
     else Inr None)"

section \<open>Loading and saving a trace\<close>

text \<open>
  The loop of \<open>bin_get_items\<close>. The operation code is kept in a (signed) \<open>char\<close> and compared
  with \<open>EOF\<close>, so a byte 255 in that place also ends the file. The terminating recursion needs
  that a reader never hands back more than it was given.
\<close>

definition shrinks :: "'a reader \<Rightarrow> bool" where
  "shrinks m \<longleftrightarrow> (\<forall>f x f'. m f = Inr (Some (x, f')) \<longrightarrow> length f' \<le> length f)"

lemma shrinks_return: "shrinks (rd_return x)"
  by (simp add: shrinks_def rd_return_def)

lemma shrinks_bind: "shrinks m \<Longrightarrow> (\<And>x. shrinks (k x)) \<Longrightarrow> shrinks (rd_bind m k)"
  by (fastforce simp: shrinks_def rd_bind_def res_iff split: option.splits intro: order_trans)

lemma shrinks_int: "shrinks read_int32" "shrinks read_int64"
  by (auto simp: shrinks_def read_int32_def read_int64_def split: if_splits)

lemma shrinks_name: "shrinks read_name"
  unfolding read_name_def
  by (intro shrinks_bind shrinks_int) (auto simp: shrinks_def Let_def split: if_splits)

lemmas shrinks_intros = shrinks_return shrinks_bind shrinks_int shrinks_name

lemma shrinks_info: "shrinks bin_read_info"
  unfolding bin_read_info_def by (intro shrinks_intros)

lemma shrinks_if: "shrinks a \<Longrightarrow> shrinks b \<Longrightarrow> shrinks (if P then a else b)"
  by simp

lemma shrinks_fail: "shrinks (\<lambda>f. Inr None)"
  by (simp add: shrinks_def)

lemma shrinks_op: "shrinks (bin_read_op c)"
  unfolding bin_read_op_def bin_read_defs
  by (rule shrinks_if shrinks_fail shrinks_intros shrinks_info)+

function bin_get_loop :: "string \<Rightarrow> op_item list \<Rightarrow> (int \<times> op_item list) res" where
  "bin_get_loop [] list = Inr (0, list)"
| "bin_get_loop (c # f) list =
     (if c = CHR 0xFF then Inr (0, list)
      else bindR (bin_read_op c f) (\<lambda>r.
        case r of None \<Rightarrow> Inr (-1, list) | Some (it, f') \<Rightarrow> bin_get_loop f' (list @ [it])))"
  by pat_completeness auto
termination
  by (relation "measure (\<lambda>(f, list). length f)")
    (auto dest: shrinks_op [unfolded shrinks_def, rule_format])

text \<open>The file is \<open>None\<close> when \<open>fopen\<close> fails, and \<open>errno\<close> is then returned.\<close>

definition bin_get_items :: "int \<Rightarrow> string option \<Rightarrow> op_item list \<Rightarrow> (int \<times> op_item list) res" where
  "bin_get_items errno file list =
     (case file of None \<Rightarrow> Inr (errno, list) | Some f \<Rightarrow> bin_get_loop f list)"

fun bin_save_loop :: "op_item list \<Rightarrow> outfile \<Rightarrow> outfile option res" where
  "bin_save_loop [] f = Inr (Some f)"
| "bin_save_loop (it # items) f =
     bindR (bin_save_op it f) (\<lambda>r.
       case r of None \<Rightarrow> Inr None | Some f' \<Rightarrow> bin_save_loop items f')"

text \<open>
  The room of the device the file is created on; \<open>None\<close> when \<open>fopen\<close> fails. The second
  component is the finished file, when there is one.
\<close>

definition bin_save_items :: "int \<Rightarrow> nat option \<Rightarrow> op_item list \<Rightarrow> (int \<times> string option) res" where
  "bin_save_items errno dev list =
     (case dev of
        None \<Rightarrow> Inr (errno, None)
      | Some n \<Rightarrow> bindR (bin_save_loop list \<lparr>written = [], room = n\<rparr>) (\<lambda>r.
          case r of None \<Rightarrow> Inr (-1, None) | Some f \<Rightarrow> Inr (0, Some (written f))))"

section \<open>The format, as an encoding\<close>

definition enc32 :: "i32 \<Rightarrow> string" where "enc32 x = le_bytes 4 (unat x)"
definition enc64 :: "i64 \<Rightarrow> string" where "enc64 x = le_bytes 8 (unat x)"
definition enc_name :: "string \<Rightarrow> string" where "enc_name s = enc32 (of_nat (length s)) @ s"
definition enc_info :: "op_info \<Rightarrow> string" where
  "enc_info i = enc32 (pid i) @ enc32 (dur i) @ enc32 (tv_sec (start i)) @ enc32 (tv_usec (start i))"

fun enc_body :: "op_struct \<Rightarrow> string" where
  "enc_body (S_read x) = enc32 (read_fd x) @ enc64 (read_size x) @ enc64 (read_retval x) @ enc_info (read_info x)"
| "enc_body (S_write x) = enc32 (write_fd x) @ enc64 (write_size x) @ enc64 (write_retval x) @ enc_info (write_info x)"
| "enc_body (S_pread x) = enc32 (pread_fd x) @ enc64 (pread_size x) @ enc64 (pread_offset x) @ enc64 (pread_retval x) @ enc_info (pread_info x)"
| "enc_body (S_pwrite x) = enc32 (pwrite_fd x) @ enc64 (pwrite_size x) @ enc64 (pwrite_offset x) @ enc64 (pwrite_retval x) @ enc_info (pwrite_info x)"
| "enc_body (S_open x) = enc_name (open_name x) @ enc32 (open_flags x) @ enc32 (open_mode x) @ enc32 (open_retval x) @ enc_info (open_info x)"
| "enc_body (S_close x) = enc32 (close_fd x) @ enc32 (close_retval x) @ enc_info (close_info x)"
| "enc_body (S_unlink x) = enc_name (unlink_name x) @ enc32 (unlink_retval x) @ enc_info (unlink_info x)"
| "enc_body (S_lseek x) = enc32 (lseek_fd x) @ enc32 (lseek_flag x) @ enc64 (lseek_offset x) @ enc64 (lseek_retval x) @ enc_info (lseek_info x)"
| "enc_body (S_llseek x) = enc32 (llseek_fd x) @ enc64 (llseek_offset x) @ enc64 (llseek_f_offset x) @ enc32 (llseek_flag x) @ enc64 (llseek_retval x) @ enc_info (llseek_info x)"
| "enc_body (S_clone x) = enc32 (clone_mode x) @ enc32 (clone_retval x) @ enc_info (clone_info x)"
| "enc_body (S_mkdir x) = enc_name (mkdir_name x) @ enc32 (mkdir_mode x) @ enc32 (mkdir_retval x) @ enc_info (mkdir_info x)"
| "enc_body (S_rmdir x) = enc_name (rmdir_name x) @ enc32 (rmdir_retval x) @ enc_info (rmdir_info x)"
| "enc_body (S_dup x) = enc32 (dup_new_fd x) @ enc32 (dup_old_fd x) @ enc32 (dup_flags x) @ enc32 (dup_retval x) @ enc_info (dup_info x)"
| "enc_body (S_pipe x) = enc32 (pipe_fd1 x) @ enc32 (pipe_fd2 x) @ enc32 (pipe_mode x) @ enc32 (pipe_retval x) @ enc_info (pipe_info x)"
| "enc_body (S_access x) = enc_name (access_name x) @ enc32 (access_mode x) @ enc32 (access_retval x) @ enc_info (access_info x)"
| "enc_body (S_stat x) = enc_name (stat_name x) @ enc32 (stat_retval x) @ enc_info (stat_info x)"
| "enc_body (S_socket x) = enc32 (socket_retval x) @ enc_info (socket_info x)"
| "enc_body (S_sendfile x) = enc32 (sendfile_out_fd x) @ enc32 (sendfile_in_fd x) @ enc64 (sendfile_offset x) @ enc64 (sendfile_size x) @ enc64 (sendfile_retval x) @ enc_info (sendfile_info x)"

text \<open>The code byte the writer uses, and the bytes of one item.\<close>

definition code_byte :: "op_item \<Rightarrow> char" where
  "code_byte it = (case body it of S_rmdir _ \<Rightarrow> OP_MKDIR | _ \<Rightarrow> type it)"

definition bin_encode :: "op_item \<Rightarrow> string" where
  "bin_encode it = code_byte it # enc_body (body it)"

text \<open>Names that are C strings and fit \<open>char name[MAX_STRING]\<close> with their terminator.\<close>

definition name_string :: "string \<Rightarrow> bool" where
  "name_string s \<longleftrightarrow> length s < MAX_STRING \<and> CHR 0x00 \<notin> set s"

fun name_ok :: "op_struct \<Rightarrow> bool" where
  "name_ok (S_read x) \<longleftrightarrow> True"
| "name_ok (S_write x) \<longleftrightarrow> True"
| "name_ok (S_pread x) \<longleftrightarrow> True"
| "name_ok (S_pwrite x) \<longleftrightarrow> True"
| "name_ok (S_open x) \<longleftrightarrow> name_string (open_name x)"
| "name_ok (S_close x) \<longleftrightarrow> True"
| "name_ok (S_unlink x) \<longleftrightarrow> name_string (unlink_name x)"
| "name_ok (S_lseek x) \<longleftrightarrow> True"
| "name_ok (S_llseek x) \<longleftrightarrow> True"
| "name_ok (S_clone x) \<longleftrightarrow> True"
| "name_ok (S_mkdir x) \<longleftrightarrow> name_string (mkdir_name x)"
| "name_ok (S_rmdir x) \<longleftrightarrow> name_string (rmdir_name x)"
| "name_ok (S_dup x) \<longleftrightarrow> True"
| "name_ok (S_pipe x) \<longleftrightarrow> True"
| "name_ok (S_access x) \<longleftrightarrow> name_string (access_name x)"
| "name_ok (S_stat x) \<longleftrightarrow> name_string (stat_name x)"
| "name_ok (S_socket x) \<longleftrightarrow> True"
| "name_ok (S_sendfile x) \<longleftrightarrow> True"

definition is_rmdir :: "op_item \<Rightarrow> bool" where
  "is_rmdir it = (case body it of S_rmdir _ \<Rightarrow> True | _ \<Rightarrow> False)"

text \<open>Items that the format represents: well typed, with C string names, and not \<open>rmdir\<close>.\<close>

definition saveable :: "op_item \<Rightarrow> bool" where
  "saveable it \<longleftrightarrow> item_ok it \<and> name_ok (body it) \<and> \<not> is_rmdir it"

section \<open>Writers write the encoding\<close>

lemma fwrite_seq: "Option.bind (fwrite a f) (\<lambda>f. Option.bind (fwrite b f) k) = Option.bind (fwrite (a @ b) f) k"
  by (auto simp: fwrite_def)

lemma fwrite_seq': "Option.bind (fwrite a f) (fwrite b) = fwrite (a @ b) f"
  by (auto simp: fwrite_def)

lemma write_enc:
  "write_char c f = fwrite [c] f" "write_int32 x f = fwrite (enc32 x) f"
  "write_int64 y f = fwrite (enc64 y) f" "write_name s f = fwrite (enc_name s) f"
  "bin_write_info i f = fwrite (enc_info i) f"
  by (simp_all add: write_char_def write_int32_def write_int64_def write_name_def write_string_def
      bin_write_info_def enc32_def enc64_def enc_name_def enc_info_def fwrite_seq fwrite_seq')

lemma bin_save_enc:
  "bin_save_write x0 f = fwrite (OP_WRITE # enc_body (S_write x0)) f"
  "bin_save_read x1 f = fwrite (OP_READ # enc_body (S_read x1)) f"
  "bin_save_pwrite x2 f = fwrite (OP_PWRITE # enc_body (S_pwrite x2)) f"
  "bin_save_pread x3 f = fwrite (OP_PREAD # enc_body (S_pread x3)) f"
  "bin_save_open x4 f = fwrite (OP_OPEN # enc_body (S_open x4)) f"
  "bin_save_close x5 f = fwrite (OP_CLOSE # enc_body (S_close x5)) f"
  "bin_save_unlink x6 f = fwrite (OP_UNLINK # enc_body (S_unlink x6)) f"
  "bin_save_lseek x7 f = fwrite (OP_LSEEK # enc_body (S_lseek x7)) f"
  "bin_save_llseek x8 f = fwrite (OP_LLSEEK # enc_body (S_llseek x8)) f"
  "bin_save_clone x9 f = fwrite (OP_CLONE # enc_body (S_clone x9)) f"
  "bin_save_mkdir x10 f = fwrite (OP_MKDIR # enc_body (S_mkdir x10)) f"
  "bin_save_rmdir x11 f = fwrite (OP_MKDIR # enc_body (S_rmdir x11)) f"
  "bin_save_pipe x12 f = fwrite (OP_PIPE # enc_body (S_pipe x12)) f"
  "bin_save_access x13 f = fwrite (OP_ACCESS # enc_body (S_access x13)) f"
  "bin_save_stat x14 f = fwrite (OP_STAT # enc_body (S_stat x14)) f"
  "bin_save_socket x15 f = fwrite (OP_SOCKET # enc_body (S_socket x15)) f"
  "bin_save_sendfile x16 f = fwrite (OP_SENDFILE # enc_body (S_sendfile x16)) f"
  "bin_save_dup c x f = fwrite (c # enc_body (S_dup x)) f"
  by (simp_all add: bin_save_defs write_enc fwrite_seq fwrite_seq')

lemma bin_save_op_encode: "item_ok it \<Longrightarrow> bin_save_op it f = Inr (fwrite (bin_encode it) f)"
  by (cases "body it"; cases it)
    (auto simp del: enc_body.simps simp: item_ok_def bin_save_op_def as_defs op_codes bin_save_enc bin_encode_def code_byte_def)

definition encode_all :: "op_item list \<Rightarrow> string" where
  "encode_all items = concat (map bin_encode items)"

lemma encode_all_simps [simp]:
  "encode_all [] = []" "encode_all (it # items) = bin_encode it @ encode_all items"
  "encode_all (xs @ ys) = encode_all xs @ encode_all ys"
  by (simp_all add: encode_all_def)

lemma bin_save_loop_encode:
  "\<forall>it\<in>set items. item_ok it \<Longrightarrow> bin_save_loop items f = Inr (fwrite (encode_all items) f)"
proof (induction items arbitrary: f)
  case Nil
  then show ?case by (simp add: fwrite_def)
next
  case (Cons it items)
  then show ?case
    by (auto simp: bin_save_op_encode fwrite_def)
qed

text \<open>Saving writes exactly the encoding, and fails exactly when there is no room for it.\<close>

lemma bin_save_items_encode:
  assumes "\<forall>it\<in>set items. item_ok it"
  shows "bin_save_items errno (Some n) items =
     (if length (encode_all items) \<le> n then Inr (0, Some (encode_all items)) else Inr (-1, None))"
  using bin_save_loop_encode [OF assms] by (simp add: bin_save_items_def fwrite_def)

section \<open>Readers read the encoding\<close>

text \<open>
  \<open>reads m s x\<close>: reader \<open>m\<close> takes exactly the bytes \<open>s\<close> for the value \<open>x\<close>, and reports an error
  on every file that ends inside them.
\<close>

definition reads :: "'a reader \<Rightarrow> string \<Rightarrow> 'a \<Rightarrow> bool" where
  "reads m s x \<longleftrightarrow> (\<forall>rest. m (s @ rest) = Inr (Some (x, rest))) \<and>
     (\<forall>p. strict_prefix p s \<longrightarrow> m p = Inr None)"

text \<open>The interface of a field: an encoding that its reader undoes.\<close>

locale field_codec =
  fixes rd :: "'a reader" and enc :: "'a \<Rightarrow> string" and ok :: "'a \<Rightarrow> bool"
  assumes rd_enc: "ok x \<Longrightarrow> reads rd (enc x) x"
begin

lemma rd_append: "ok x \<Longrightarrow> rd (enc x @ rest) = Inr (Some (x, rest))"
  using rd_enc by (simp add: reads_def)

lemma rd_bind_reads:
  assumes "ok x" "reads (k x) s y"
  shows "reads (rd_bind rd k) (enc x @ s) y"
proof -
  have "rd_bind rd k p = Inr None" if pre: "strict_prefix p (enc x @ s)" for p
  proof (cases "strict_prefix p (enc x)")
    case True
    then show ?thesis using rd_enc [OF assms(1)] by (simp add: reads_def rd_bind_def)
  next
    case False
    then obtain q where q: "p = enc x @ q"
      using prefix_append [of p "enc x" s] pre by (cases "p = enc x") (auto simp: strict_prefix_def)
    with pre have "strict_prefix q s" by (simp add: strict_prefix_def)
    then show ?thesis using q rd_append [OF assms(1)] assms(2) by (simp add: reads_def rd_bind_def)
  qed
  then show ?thesis
    using rd_append [OF assms(1)] assms(2) by (simp add: reads_def rd_bind_def)
qed

end

lemma reads_return: "reads (rd_return x) [] x"
  by (simp add: reads_def rd_return_def)

lemma reads_return_if: "x = y \<Longrightarrow> reads (rd_return x) [] y"
  by (simp add: reads_return)

interpretation c32: field_codec read_int32 enc32 "\<lambda>_. True"
proof unfold_locales
  fix x :: i32
  have "unat x < 2 ^ LENGTH(32)" by (rule unsigned_less)
  then have "unat x mod 4294967296 = unat x" by simp
  then show "reads read_int32 (enc32 x) x"
    by (auto simp: reads_def read_int32_def enc32_def le_value_bytes dest!: prefix_length_less)
qed

interpretation c64: field_codec read_int64 enc64 "\<lambda>_. True"
proof unfold_locales
  fix x :: i64
  have "unat x < 2 ^ LENGTH(64)" by (rule unsigned_less)
  then have "unat x mod 18446744073709551616 = unat x" by simp
  then show "reads read_int64 (enc64 x) x"
    by (auto simp: reads_def read_int64_def enc64_def le_value_bytes dest!: prefix_length_less)
qed

lemma small_length_i32:
  assumes "n < MAX_STRING"
  shows "sint (of_nat n :: i32) = int n" "fread_size (of_nat n) = n"
proof -
  show a: "sint (of_nat n :: i32) = int n"
    using assms by (simp add: MAX_STRING_def signed_of_nat signed_take_bit_int_eq_self)
  show "fread_size (of_nat n) = n" by (simp add: fread_size_def a)
qed

interpretation cname: field_codec read_name enc_name name_string
proof unfold_locales
  fix x :: string
  assume x: "name_string x"
  then have len: "length x < MAX_STRING" and nul: "takeWhile (\<lambda>c. c \<noteq> CHR 0x00) x = x"
    by (auto simp: name_string_def takeWhile_eq_all_conv)
  show "reads read_name (enc_name x) x"
    unfolding enc_name_def read_name_def
  proof (rule c32.rd_bind_reads, simp)
    let ?k = "\<lambda>len f. let got = min (fread_size len) (length f) in
       if got > MAX_STRING then Inl Overflow
       else if int got \<noteq> sint len then Inr None
       else if got = MAX_STRING then Inl Overflow
       else Inr (Some (takeWhile (\<lambda>c. c \<noteq> CHR 0x00) (take got f), drop got f))"
    have "?k (of_nat (length x)) p = Inr None" if "strict_prefix p x" for p
      using prefix_length_less [OF that] len by (simp add: small_length_i32 Let_def)
    moreover have "?k (of_nat (length x)) (x @ rest) = Inr (Some (x, rest))" for rest
      using len nul by (simp add: small_length_i32 Let_def)
    ultimately show "reads (?k (of_nat (length x))) x x" by (simp add: reads_def)
  qed
qed

interpretation cinfo: field_codec bin_read_info enc_info "\<lambda>_. True"
proof unfold_locales
  fix x :: op_info
  have "reads bin_read_info (enc32 (pid x) @ enc32 (dur x) @ enc32 (tv_sec (start x)) @ enc32 (tv_usec (start x)) @ []) x"
    unfolding bin_read_info_def by (intro c32.rd_bind_reads reads_return_if) auto
  then show "reads bin_read_info (enc_info x) x" by (simp add: enc_info_def)
qed

lemmas codec_reads = c32.rd_bind_reads c64.rd_bind_reads cname.rd_bind_reads cinfo.rd_bind_reads

lemma info_last: "g i = y \<Longrightarrow> reads (rd_bind bin_read_info (\<lambda>i. rd_return (g i))) (enc_info i) y"
  using cinfo.rd_bind_reads [where x = i and k = "\<lambda>i. rd_return (g i)" and s = "[]" and y = y] by (simp add: reads_return)

lemma bin_read_reads:
  "reads bin_read_write (enc_body (S_write x0)) \<lparr>type = OP_WRITE, body = S_write x0\<rparr>"
  "reads bin_read_read (enc_body (S_read x1)) \<lparr>type = OP_READ, body = S_read x1\<rparr>"
  "reads bin_read_pwrite (enc_body (S_pwrite x2)) \<lparr>type = OP_PWRITE, body = S_pwrite x2\<rparr>"
  "reads bin_read_pread (enc_body (S_pread x3)) \<lparr>type = OP_PREAD, body = S_pread x3\<rparr>"
  "name_string (open_name x4) \<Longrightarrow> reads bin_read_open (enc_body (S_open x4)) \<lparr>type = OP_OPEN, body = S_open x4\<rparr>"
  "reads bin_read_close (enc_body (S_close x5)) \<lparr>type = OP_CLOSE, body = S_close x5\<rparr>"
  "name_string (unlink_name x6) \<Longrightarrow> reads bin_read_unlink (enc_body (S_unlink x6)) \<lparr>type = OP_UNLINK, body = S_unlink x6\<rparr>"
  "reads bin_read_lseek (enc_body (S_lseek x7)) \<lparr>type = OP_LSEEK, body = S_lseek x7\<rparr>"
  "reads bin_read_llseek (enc_body (S_llseek x8)) \<lparr>type = OP_LLSEEK, body = S_llseek x8\<rparr>"
  "reads bin_read_clone (enc_body (S_clone x9)) \<lparr>type = OP_CLONE, body = S_clone x9\<rparr>"
  "name_string (mkdir_name x10) \<Longrightarrow> reads bin_read_mkdir (enc_body (S_mkdir x10)) \<lparr>type = OP_MKDIR, body = S_mkdir x10\<rparr>"
  "reads bin_read_pipe (enc_body (S_pipe x11)) \<lparr>type = OP_PIPE, body = S_pipe x11\<rparr>"
  "name_string (access_name x12) \<Longrightarrow> reads bin_read_access (enc_body (S_access x12)) \<lparr>type = OP_ACCESS, body = S_access x12\<rparr>"
  "name_string (stat_name x13) \<Longrightarrow> reads bin_read_stat (enc_body (S_stat x13)) \<lparr>type = OP_STAT, body = S_stat x13\<rparr>"
  "reads bin_read_socket (enc_body (S_socket x14)) \<lparr>type = OP_SOCKET, body = S_socket x14\<rparr>"
  "reads bin_read_sendfile (enc_body (S_sendfile x15)) \<lparr>type = OP_SENDFILE, body = S_sendfile x15\<rparr>"
  "reads (bin_read_dup c) (enc_body (S_dup x)) \<lparr>type = c, body = S_dup x\<rparr>"
  unfolding bin_read_defs enc_body.simps
  by ((rule info_last codec_reads; (rule TrueI | assumption)?)+, simp)+

section \<open>Saved traces load back\<close>

lemma saveable_code: "saveable it \<Longrightarrow> code_byte it = type it \<and> type it \<noteq> CHR 0xFF"
  by (cases it; cases "body it") (auto simp: saveable_def item_ok_def is_rmdir_def code_byte_def op_codes)

lemma bin_read_op_code:
  "bin_read_op OP_WRITE = bin_read_write"
  "bin_read_op OP_READ = bin_read_read"
  "bin_read_op OP_PWRITE = bin_read_pwrite"
  "bin_read_op OP_PREAD = bin_read_pread"
  "bin_read_op OP_OPEN = bin_read_open"
  "bin_read_op OP_CLOSE = bin_read_close"
  "bin_read_op OP_UNLINK = bin_read_unlink"
  "bin_read_op OP_LSEEK = bin_read_lseek"
  "bin_read_op OP_LLSEEK = bin_read_llseek"
  "bin_read_op OP_CLONE = bin_read_clone"
  "bin_read_op OP_MKDIR = bin_read_mkdir"
  "bin_read_op OP_RMDIR = bin_read_rmdir"
  "bin_read_op OP_PIPE = bin_read_pipe"
  "bin_read_op OP_ACCESS = bin_read_access"
  "bin_read_op OP_STAT = bin_read_stat"
  "bin_read_op OP_SOCKET = bin_read_socket"
  "bin_read_op OP_SENDFILE = bin_read_sendfile"
  "bin_read_op OP_DUP = bin_read_dup OP_DUP" "bin_read_op OP_DUP2 = bin_read_dup OP_DUP2"
  "bin_read_op OP_DUP3 = bin_read_dup OP_DUP3"
  by (simp_all add: bin_read_op_def op_codes)

lemma bin_read_op_reads:
  assumes "saveable it"
  shows "reads (bin_read_op (type it)) (enc_body (body it)) it"
proof -
  obtain c b where it: "it = \<lparr>type = c, body = b\<rparr>" by (cases it)
  then have "op_type_ok c b" "name_ok b" "\<not> is_rmdir it"
    using assms by (simp_all add: saveable_def item_ok_def)
  then show ?thesis
    by (cases b)
      (auto simp: it is_rmdir_def bin_read_op_code simp del: enc_body.simps intro!: bin_read_reads)
qed

lemma bin_get_loop_item:
  assumes "saveable it"
  shows "bin_get_loop (bin_encode it @ f) list = bin_get_loop f (list @ [it])"
  using bin_read_op_reads [OF assms] saveable_code [OF assms]
  by (simp add: bin_encode_def reads_def)

lemma bin_get_loop_encode:
  "\<forall>it\<in>set items. saveable it \<Longrightarrow> bin_get_loop (encode_all items @ f) list = bin_get_loop f (list @ items)"
  by (induction items arbitrary: list) (auto simp: bin_get_loop_item)

lemma bin_get_loop_cut:
  assumes "saveable it" "strict_prefix p (bin_encode it)" "p \<noteq> []"
  shows "bin_get_loop p list = Inr (-1, list)"
proof -
  obtain q where q: "p = type it # q" and "strict_prefix q (enc_body (body it))"
    using assms saveable_code [OF assms(1)] by (cases p) (auto simp: bin_encode_def)
  then have "bin_read_op (type it) q = Inr None"
    using bin_read_op_reads [OF assms(1)] by (simp add: reads_def)
  with q saveable_code [OF assms(1)] show ?thesis by simp
qed

lemma saveable_item_ok: "saveable it \<Longrightarrow> item_ok it"
  by (simp add: saveable_def)

text \<open>Where a file is cut: after \<open>j\<close> whole items, possibly inside the next one.\<close>

lemma cut_split:
  "k \<le> length (encode_all items) \<Longrightarrow>
   \<exists>j q. take k (encode_all items) = encode_all (take j items) @ q \<and> j \<le> length items \<and>
     (q = [] \<or> (j < length items \<and> strict_prefix q (bin_encode (items ! j))))"
proof (induction items arbitrary: k)
  case Nil
  then show ?case by simp
next
  case (Cons it items)
  show ?case
  proof (cases "length (bin_encode it) \<le> k")
    case True
    then have "k - length (bin_encode it) \<le> length (encode_all items)" using Cons.prems by simp
    from Cons.IH [OF this] obtain j q where
      "take (k - length (bin_encode it)) (encode_all items) = encode_all (take j items) @ q" "j \<le> length items"
      "q = [] \<or> (j < length items \<and> strict_prefix q (bin_encode (items ! j)))" by blast
    with True show ?thesis by (intro exI [of _ "Suc j"] exI [of _ q]) simp
  next
    case False
    then have "strict_prefix (take k (bin_encode it)) (bin_encode it)"
      by (auto simp: strict_prefix_def take_is_prefix)
    with False show ?thesis by (intro exI [of _ 0] exI [of _ "take k (bin_encode it)"]) simp
  qed
qed

text \<open>What every value a reader returns satisfies.\<close>

definition yields :: "'a reader \<Rightarrow> ('a \<Rightarrow> bool) \<Rightarrow> bool" where
  "yields m P \<longleftrightarrow> (\<forall>f x f'. m f = Inr (Some (x, f')) \<longrightarrow> P x)"

lemma yields_return: "P x \<Longrightarrow> yields (rd_return x) P"
  by (simp add: yields_def rd_return_def)

lemma yields_bind: "(\<And>x. yields (k x) P) \<Longrightarrow> yields (rd_bind m k) P"
  by (fastforce simp: yields_def rd_bind_def res_iff split: option.splits)

lemma yields_fail: "yields (\<lambda>f. Inr None) P"
  by (simp add: yields_def)

lemma yields_if: "(c \<Longrightarrow> yields a P) \<Longrightarrow> (\<not> c \<Longrightarrow> yields b P) \<Longrightarrow> yields (if c then a else b) P"
  by simp

definition read_typed :: "char \<Rightarrow> op_item \<Rightarrow> bool" where
  "read_typed c it \<longleftrightarrow>
     (if c = OP_RMDIR then type it = OP_MKDIR \<and> as_mkdir it = Inl Type_Confusion
      else type it = c \<and> item_ok it)"

lemma bin_read_op_yields: "yields (bin_read_op c) (read_typed c)"
  unfolding bin_read_op_def bin_read_defs
  by (intro yields_if yields_fail yields_bind yields_return)
    (simp_all add: read_typed_def item_ok_def as_mkdir_def op_codes)

lemma read_int32_end: "read_int32 (enc32 x) = Inr (Some (x, []))" "read_int32 [] = Inr None"
  using c32.rd_append [of x "[]"] by (simp_all add: read_int32_def)

lemma saved_loads:
  assumes "\<forall>it\<in>set items. saveable it" and "length (encode_all items) \<le> n"
  shows "\<exists>f. bin_save_items e (Some n) items = Inr (0, Some f) \<and> bin_get_items e' (Some f) [] = Inr (0, items)"
proof -
  have "\<forall>it\<in>set items. item_ok it" using assms(1) by (auto intro: saveable_item_ok)
  then have "bin_save_items e (Some n) items = Inr (0, Some (encode_all items))"
    using assms(2) by (simp add: bin_save_items_encode)
  moreover have "bin_get_items e' (Some (encode_all items)) [] = Inr (0, items)"
    using bin_get_loop_encode [OF assms(1), of "[]" "[]"] by (simp add: bin_get_items_def)
  ultimately show ?thesis by blast
qed

section \<open>Properties\<close>

text \<open>
  C10: A saved trace loads back. Every list of well-typed items whose names fit their buffers,
  without \<open>rmdir\<close> items, is written by \<open>bin_save_items\<close> when there is room for it, and
  \<open>bin_get_items\<close> reads the same list, with return value 0, from the file written.
\<close>

theorem bin_roundtrip:
  assumes "\<forall>it\<in>set items. saveable it" and "length (encode_all items) \<le> n"
  shows "\<exists>f. bin_save_items e (Some n) items = Inr (0, Some f) \<and> bin_get_items e' (Some f) [] = Inr (0, items)"
  using assms by (rule saved_loads)

definition sample_info :: op_info where
  "sample_info = \<lparr>pid = 7, dur = 12, start = \<lparr>tv_sec = 100, tv_usec = 5\<rparr>\<rparr>"

definition sample_items :: "op_item list" where
  "sample_items =
     [\<lparr>type = OP_OPEN, body = S_open \<lparr>open_name = ''/a'', open_flags = 2, open_mode = 0, open_retval = 3, open_info = sample_info\<rparr>\<rparr>,
      \<lparr>type = OP_READ, body = S_read \<lparr>read_fd = 3, read_size = 10, read_retval = 10, read_info = sample_info\<rparr>\<rparr>]"

lemma sample_saveable: "\<forall>it\<in>set sample_items. saveable it"
  by (simp add: sample_items_def saveable_def item_ok_def is_rmdir_def name_string_def MAX_STRING_def)

lemma sample_length: "length (encode_all sample_items) = 72"
  by (simp add: sample_items_def encode_all_def bin_encode_def enc_name_def enc32_def enc64_def enc_info_def)

theorem bin_roundtrip_witness:
  "\<exists>f. bin_save_items 2 (Some 80) sample_items = Inr (0, Some f) \<and> bin_get_items 2 (Some f) [] = Inr (0, sample_items)"
  by (rule bin_roundtrip [OF sample_saveable]) (simp add: sample_length)

text \<open>
  C21: A cut file is noticed. When only the first \<open>k\<close> bytes of a saved trace are there, loading
  gives exactly the items that are complete, and returns 0 only if the cut is between two
  items, -1 if it is inside one.
\<close>

theorem bin_truncated:
  assumes "\<forall>it\<in>set items. saveable it" and "k \<le> length (encode_all items)"
  shows "\<exists>j\<le>length items. length (encode_all (take j items)) \<le> k \<and>
     (j < length items \<longrightarrow> k < length (encode_all (take (Suc j) items))) \<and>
     bin_get_items e (Some (take k (encode_all items))) [] =
       Inr (if k = length (encode_all (take j items)) then 0 else -1, take j items)"
proof -
  obtain j q where jq: "take k (encode_all items) = encode_all (take j items) @ q" "j \<le> length items"
    "q = [] \<or> (j < length items \<and> strict_prefix q (bin_encode (items ! j)))"
    using cut_split [OF assms(2)] by blast
  have len: "k = length (encode_all (take j items)) + length q"
    using arg_cong [OF jq(1), of length] assms(2) by simp
  have ok: "\<forall>it\<in>set (take j items). saveable it" using assms(1) by (auto dest: in_set_takeD)
  have load: "bin_get_items e (Some (take k (encode_all items))) [] = bin_get_loop q (take j items)"
    using bin_get_loop_encode [OF ok, of q "[]"] jq(1) by (simp add: bin_get_items_def)
  have nxt: "k < length (encode_all (take (Suc j) items))" if j: "j < length items"
  proof -
    have "length q < length (bin_encode (items ! j))"
      using jq(3) prefix_length_less by (fastforce simp: bin_encode_def)
    then show ?thesis using len j by (simp add: take_Suc_conv_app_nth)
  qed
  show ?thesis
  proof (cases "q = []")
    case True
    then show ?thesis using jq(2) load len nxt by (intro exI [of _ j]) simp
  next
    case False
    then have "bin_get_loop q (take j items) = Inr (-1, take j items)"
      using jq(3) assms(1) by (auto intro: bin_get_loop_cut)
    then show ?thesis using False jq(2) load len nxt by (intro exI [of _ j]) simp
  qed
qed

theorem bin_truncated_witness:
  "\<exists>j\<le>length sample_items. length (encode_all (take j sample_items)) \<le> 50 \<and>
     (j < length sample_items \<longrightarrow> 50 < length (encode_all (take (Suc j) sample_items))) \<and>
     bin_get_items 2 (Some (take 50 (encode_all sample_items))) [] =
       Inr (if 50 = length (encode_all (take j sample_items)) then 0 else -1, take j sample_items)"
  by (rule bin_truncated [OF sample_saveable]) (simp add: sample_length)

text \<open>
  C33: A trace that ends with a recorded \<open>rmdir\<close> does not survive the binary format:
  \<open>bin_save_rmdir\<close> writes the code of \<open>mkdir\<close> without a mode, so \<open>bin_get_items\<close> runs out of
  bytes, returns -1 and has lost the item.
\<close>

theorem bin_rmdir_lost:
  assumes "\<forall>it\<in>set items. saveable it" and "name_string (rmdir_name r)"
    and "length (encode_all items) + length (rmdir_name r) + 25 \<le> n"
  shows "\<exists>f. bin_save_items e (Some n) (items @ [\<lparr>type = OP_RMDIR, body = S_rmdir r\<rparr>]) = Inr (0, Some f) \<and>
     bin_get_items e' (Some f) [] = Inr (-1, items)"
proof -
  let ?r = "\<lparr>type = OP_RMDIR, body = S_rmdir r\<rparr>"
  have enc: "bin_encode ?r = OP_MKDIR # enc_name (rmdir_name r) @ enc32 (rmdir_retval r) @ enc_info (rmdir_info r)"
    by (simp add: bin_encode_def code_byte_def)
  have "\<forall>it\<in>set (items @ [?r]). item_ok it"
    using assms(1) saveable_item_ok by (auto simp: item_ok_def [of ?r])
  moreover have "length (encode_all (items @ [?r])) \<le> n"
    using assms(3) by (simp add: enc enc_name_def enc32_def enc_info_def)
  ultimately have "bin_save_items e (Some n) (items @ [?r]) = Inr (0, Some (encode_all (items @ [?r])))"
    by (simp add: bin_save_items_encode)
  moreover have "bin_read_op OP_MKDIR (enc_name (rmdir_name r) @ enc32 (rmdir_retval r) @ enc_info (rmdir_info r)) = Inr None"
    using cname.rd_append [OF assms(2)]
    by (simp add: bin_read_op_code bin_read_mkdir_def rd_bind_def c32.rd_append read_int32_end enc_info_def bin_read_info_def)
  then have "bin_get_loop (encode_all (items @ [?r])) [] = Inr (-1, items)"
    using bin_get_loop_encode [OF assms(1), of "bin_encode ?r" "[]"] by (simp add: enc) (simp add: op_codes)
  ultimately show ?thesis by (auto simp: bin_get_items_def)
qed

theorem bin_rmdir_lost_witness:
  "\<exists>f. bin_save_items 2 (Some 200) (sample_items @ [\<lparr>type = OP_RMDIR, body = S_rmdir
        \<lparr>rmdir_name = ''/d'', rmdir_retval = 0, rmdir_info = sample_info\<rparr>\<rparr>]) = Inr (0, Some f) \<and>
     bin_get_items 2 (Some f) [] = Inr (-1, sample_items)"
  by (rule bin_rmdir_lost [OF sample_saveable]) (simp_all add: sample_length name_string_def MAX_STRING_def)

text \<open>
  C34: The length of a file name is not checked against the buffer. A file whose record of a
  named call (\<open>open\<close>, \<open>unlink\<close>, \<open>mkdir\<close>, \<open>rmdir\<close>, \<open>access\<close> or \<open>stat\<close>) announces a name of at
  least 512 bytes, and has that many, makes \<open>bin_get_items\<close> write past \<open>char buff[MAX_STRING]\<close>.
\<close>

theorem bin_name_overflow:
  assumes "c \<in> {OP_OPEN, OP_UNLINK, OP_MKDIR, OP_RMDIR, OP_ACCESS, OP_STAT}"
    and "512 \<le> sint len" and "sint len \<le> int (length rest)"
  shows "bin_get_items e (Some (c # enc32 len @ rest)) list = Inl Overflow"
proof -
  have size: "fread_size len = nat (sint len)" using assms(2) by (simp add: fread_size_def)
  have "read_name (enc32 len @ rest) = Inl Overflow"
    using assms(2,3) by (simp add: read_name_def rd_bind_def c32.rd_append size Let_def MAX_STRING_def) linarith
  then have "bin_read_op c (enc32 len @ rest) = Inl Overflow"
    using assms(1) by (elim insertE emptyE) (simp_all add: bin_read_op_code bin_read_defs rd_bind_def)
  moreover have "c \<noteq> CHR 0xFF" using assms(1) by (auto simp: op_codes)
  ultimately show ?thesis by (simp add: bin_get_items_def)
qed

theorem bin_name_overflow_witness:
  "bin_get_items 0 (Some (OP_STAT # enc32 600 @ replicate 700 (CHR ''x''))) [] = Inl Overflow"
  by (rule bin_name_overflow) simp_all

text \<open>
  C35: What is read has the type it says, except \<open>rmdir\<close>. An item that \<open>bin_get_items\<close> reads is
  of the structure its \<open>type\<close> character names, unless its code is that of \<open>rmdir\<close>; then the
  item says \<open>mkdir\<close> and every later cast of it reads the structure at the wrong type.
\<close>

theorem bin_read_typed:
  assumes "bin_read_op c f = Inr (Some (it, f'))"
  shows "if c = OP_RMDIR then type it = OP_MKDIR \<and> as_mkdir it = Inl Type_Confusion
         else type it = c \<and> item_ok it"
  using bin_read_op_yields [of c] assms unfolding yields_def read_typed_def [symmetric] by blast

theorem bin_read_typed_witness:
  "type (sample_items ! 1) = OP_READ \<and> item_ok (sample_items ! 1)"
proof -
  have "bin_read_op OP_READ (enc_body (body (sample_items ! 1)) @ []) = Inr (Some (sample_items ! 1, []))"
    using bin_read_op_reads [of "sample_items ! 1"] sample_saveable
    unfolding reads_def by (simp add: sample_items_def) (metis append_Nil2 append_assoc)
  from bin_read_typed [OF this] show ?thesis by (simp add: op_codes)
qed

end
