(* ===== verification/Strace_Inv.thy ===== *)
theory Strace_Inv
  imports Strace_Lines In_Binary
begin

text \<open>
  What holds of every \<open>strace\<close> file, well formed or not: reading ends, it can only stop at a buffer
  that is too small or at a negative process number, and every item it loads can be saved as a
  binary trace.
\<close>

section \<open>How a function may stop\<close>

text \<open>\<open>ends Q r\<close>: \<open>r\<close> returns a value with \<open>Q\<close>, or leaves a buffer, or fails an assertion.\<close>

definition ends :: "('a \<Rightarrow> bool) \<Rightarrow> 'a res \<Rightarrow> bool" where
  "ends Q r \<longleftrightarrow> (case r of Inl e \<Rightarrow> e = Overflow \<or> e = Assertion | Inr x \<Rightarrow> Q x)"

lemma ends_simps [simp]: "ends Q (Inr x) \<longleftrightarrow> Q x" "ends Q (Inl e) \<longleftrightarrow> e = Overflow \<or> e = Assertion"
  by (simp_all add: ends_def)

lemma ends_bind: "ends Q r \<Longrightarrow> (\<And>x. r = Inr x \<Longrightarrow> Q x \<Longrightarrow> ends R (f x)) \<Longrightarrow> ends R (bindR r f)"
  by (cases r) auto

lemma ends_weaken: "ends Q r \<Longrightarrow> (\<And>x. r = Inr x \<Longrightarrow> Q x \<Longrightarrow> R x) \<Longrightarrow> ends R r"
  by (cases r) auto

lemma ends_Inr_D: "ends Q r \<Longrightarrow> r = Inr x \<Longrightarrow> Q x"
  by simp

section \<open>What a scan stores\<close>

text \<open>Texts that fit a buffer of \<open>MAX_STRING\<close> bytes, and the directives that store no longer ones.\<close>

definition texts :: "arg list \<Rightarrow> bool" where
  "texts args \<longleftrightarrow> (\<forall>w. Str w \<in> set args \<longrightarrow> name_string w)"

fun narrow :: "directive \<Rightarrow> bool" where
  "narrow (Word n) \<longleftrightarrow> n \<le> MAX_STRING"
| "narrow (Until c w n) \<longleftrightarrow> n \<le> MAX_STRING"
| "narrow _ \<longleftrightarrow> True"

lemma texts_simps [simp]:
  "texts []" "texts (I32 x # args) \<longleftrightarrow> texts args" "texts (I64 y # args) \<longleftrightarrow> texts args"
  "texts (Str w # args) \<longleftrightarrow> name_string w \<and> texts args" "texts (a @ b) \<longleftrightarrow> texts a \<and> texts b"
  by (auto simp: texts_def)

lemma c_string_sub: "c_string s \<Longrightarrow> set t \<subseteq> set s \<Longrightarrow> c_string t"
  by (auto simp: c_string_def)

lemma set_drop_while: "set (dropWhile P s) \<subseteq> set s"
  by (auto dest: set_dropWhileD)

lemma set_take_while: "set (takeWhile P s) \<subseteq> set s"
  by (auto dest: set_takeWhileD)

lemma take_sub: "set (take k (takeWhile P s)) \<subseteq> set s"
  by (auto dest: set_takeWhileD in_set_takeD)

lemma c_string_parts:
  assumes "c_string s"
  shows "c_string (takeWhile P s)" "c_string (dropWhile P s)" "c_string (take n s)" "c_string (drop n s)"
  using assms c_string_take_drop [OF assms]
  by (auto simp: c_string_def dest: set_takeWhileD set_dropWhileD)

lemma scan_sign_set: "set (snd (scan_sign s)) \<subseteq> set s"
  by (cases s) auto

lemma scan_base_set: "scan_base b neg s = Some (v, r) \<Longrightarrow> set r \<subseteq> set s"
  by (auto simp: scan_base_def Let_def dest: set_dropWhileD split: if_splits)

lemma scan_number_set: "scan_number b s = Some (v, r) \<Longrightarrow> set r \<subseteq> set s"
  using scan_sign_set [of s] by (auto simp: scan_number_def split: prod.splits dest: scan_base_set)

lemma scan_auto_set: "scan_auto s = Some (v, r) \<Longrightarrow> set r \<subseteq> set s"
  using scan_sign_set [of s]
  by (auto simp: scan_auto_def split: prod.splits list.splits if_splits dest!: scan_base_set set_dropWhileD) blast+

lemma scan_num_texts:
  assumes "c_string s" "\<And>s v r. scan s = Some (v, r) \<Longrightarrow> set r \<subseteq> set s" "\<And>v. \<exists>x y. store v = I32 x \<or> store v = I64 y"
  shows "case scan_num scan store s of Go new r \<Rightarrow> texts new \<and> c_string r | Stop e \<Rightarrow> True"
proof -
  have s: "c_string (skip_space s)" using assms(1) by (simp add: skip_space_def c_string_parts)
  show ?thesis
    using c_string_sub [OF s] assms(2) assms(3)
    by (auto simp: scan_num_def Let_def texts_def split: option.split) (metis arg.distinct(3,5))
qed

lemma name_string_part: "c_string s \<Longrightarrow> set w \<subseteq> set s \<Longrightarrow> length w < n \<Longrightarrow> n \<le> MAX_STRING \<Longrightarrow> name_string w"
  by (auto simp: name_string_def c_string_def NUL_def)

lemma scan_step_texts:
  assumes s: "c_string s" and d: "narrow d"
  shows "ends (\<lambda>r. case r of Go new r \<Rightarrow> texts new \<and> c_string r | Stop e \<Rightarrow> True) (scan_step d s)"
proof (cases d)
  case (Lit c)
  then show ?thesis using s by (cases s) auto
next
  case (Word n)
  have c: "c_string (skip_space s)" using s by (simp add: skip_space_def c_string_parts)
  then show ?thesis
    using Word d name_string_part [OF c, of "takeWhile (\<lambda>c. \<not> is_space c) (skip_space s)" n]
    by (simp add: Let_def c_string_parts set_take_while)
next
  case (Until c w n)
  then show ?thesis
    using s d name_string_part [OF s, of "case w of None \<Rightarrow> takeWhile (\<lambda>x. x \<noteq> c) s | Some k \<Rightarrow> take k (takeWhile (\<lambda>x. x \<noteq> c) s)" n]
    by (cases w) (auto simp: Let_def c_string_parts set_take_while take_sub)
qed (use s in \<open>auto simp: Let_def skip_space_def c_string_parts intro!: scan_num_texts dest: scan_number_set scan_auto_set\<close>)

lemma scan_loop_texts:
  "c_string s \<Longrightarrow> list_all narrow ds \<Longrightarrow> texts args \<Longrightarrow>
   ends (\<lambda>r. \<forall>out. r = Some out \<longrightarrow> texts out) (scan_loop ds s args)"
proof (induction ds arbitrary: s args)
  case (Cons d ds)
  have d: "narrow d" and ds: "list_all narrow ds" using Cons.prems(2) by auto
  show ?case
    unfolding scan_loop.simps
  proof (rule ends_bind [OF scan_step_texts [OF Cons.prems(1) d]])
    fix r assume r: "case r of Go new r \<Rightarrow> texts new \<and> c_string r | Stop e \<Rightarrow> True"
    show "ends (\<lambda>r. \<forall>out. r = Some out \<longrightarrow> texts out)
      (case r of Go new s \<Rightarrow> scan_loop ds s (args @ new) | Stop at_end \<Rightarrow> Inr (if at_end \<and> args = [] then None else Some args))"
      using r Cons.IH [OF _ ds] Cons.prems(3) by (cases r) auto
  qed
qed simp

lemma sscanf_texts:
  "c_string s \<Longrightarrow> list_all narrow fmt \<Longrightarrow> ends (\<lambda>r. \<forall>out. r = Some out \<longrightarrow> texts out) (sscanf s fmt)"
  unfolding sscanf_def by (rule scan_loop_texts) auto


section \<open>The parsers\<close>

text \<open>A parser of a line loads an item that can be saved, or none.\<close>

definition loads :: "op_item option res \<Rightarrow> bool" where
  "loads r \<longleftrightarrow> ends (\<lambda>item. \<forall>it. item = Some it \<longrightarrow> saveable it) r"

lemma loads_sscanf:
  assumes "c_string line" "list_all narrow fmt" "\<And>args. \<forall>out. args = Some out \<longrightarrow> texts out \<Longrightarrow> loads (f args)"
  shows "loads (bindR (sscanf line fmt) f)"
  unfolding loads_def by (rule ends_bind [OF sscanf_texts [OF assms(1,2)]]) (use assms(3) in \<open>auto simp: loads_def\<close>)

lemmas saveable_defs = saveable_def item_ok_def is_rmdir_def

lemma narrow_lits [simp]: "list_all narrow (lits s)"
  by (induction s) auto

lemma narrow_formats [simp]:
  "list_all narrow fmt_start" "list_all narrow fmt_open" "list_all narrow fmt_name"
  "list_all narrow fmt_dur" "list_all narrow fmt_result"
  "list_all narrow fmt_size" "list_all narrow fmt_size_offset" "list_all narrow fmt_stats"
  by (simp_all add: fmt_defs fmt_size_def fmt_size_offset_def fmt_stats_def MAX_STRING_def MAX_TIME_STRING_def)

lemma loads_None [simp]: "loads (Inr None)" and loads_Some [simp]: "loads (Inr (Some it)) \<longleftrightarrow> saveable it"
  by (auto simp: loads_def)

named_theorems parsers \<open>the parsers load items that can be saved\<close>

lemma loads_close [parsers]: "c_string line \<Longrightarrow> loads (strace_read_close line)"
  unfolding strace_read_close_def
  by (rule loads_sscanf, simp_all del: lits_simps) (auto simp: saveable_defs split: option.splits list.splits arg.splits)

lemma loads_pipe [parsers]: "c_string line \<Longrightarrow> loads (strace_read_pipe line)"
  unfolding strace_read_pipe_def
  by (rule loads_sscanf, simp_all del: lits_simps) (auto simp: saveable_defs split: option.splits list.splits arg.splits)

lemma loads_clone [parsers]: "c_string line \<Longrightarrow> loads (strace_read_clone line)"
  unfolding strace_read_clone_def
  by (rule loads_sscanf, simp_all del: lits_simps) (auto simp: saveable_defs split: option.splits list.splits arg.splits)

lemma loads_dup [parsers]: "c_string line \<Longrightarrow> loads (strace_read_dup line)"
  unfolding strace_read_dup_def
  by (rule loads_sscanf, simp_all del: lits_simps) (auto simp: saveable_defs split: option.splits list.splits arg.splits)

lemma loads_dup2 [parsers]: "c_string line \<Longrightarrow> loads (strace_read_dup2 line)"
  unfolding strace_read_dup2_def
  by (rule loads_sscanf, simp_all del: lits_simps) (auto simp: saveable_defs split: option.splits list.splits arg.splits)

lemma loads_dup3 [parsers]: "c_string line \<Longrightarrow> loads (strace_read_dup3 line)"
  unfolding strace_read_dup3_def
  by (rule loads_sscanf, simp_all del: lits_simps) (auto simp: saveable_defs split: option.splits list.splits arg.splits)

lemma loads_llseek [parsers]: "c_string line \<Longrightarrow> loads (strace_read_llseek line)"
  unfolding strace_read_llseek_def
  by (rule loads_sscanf, simp_all del: lits_simps) (auto simp: saveable_defs split: option.splits list.splits arg.splits)

lemma loads_lseek [parsers]: "c_string line \<Longrightarrow> loads (strace_read_lseek line)"
  unfolding strace_read_lseek_def
  by (rule loads_sscanf, simp_all del: lits_simps) (auto simp: saveable_defs split: option.splits list.splits arg.splits)

lemma loads_mkdir [parsers]: "c_string line \<Longrightarrow> loads (strace_read_mkdir line)"
  unfolding strace_read_mkdir_def
  by (rule loads_sscanf, simp_all del: lits_simps) (auto simp: saveable_defs split: option.splits list.splits arg.splits)

lemma loads_unlink [parsers]: "c_string line \<Longrightarrow> loads (strace_read_unlink line)"
  unfolding strace_read_unlink_def
  by (rule loads_sscanf, simp_all del: lits_simps) (auto simp: saveable_defs split: option.splits list.splits arg.splits)

lemma loads_creat [parsers]: "c_string line \<Longrightarrow> loads (strace_read_creat line)"
  unfolding strace_read_creat_def
  by (rule loads_sscanf, simp_all del: lits_simps) (auto simp: saveable_defs split: option.splits list.splits arg.splits)

lemma loads_access [parsers]: "c_string line \<Longrightarrow> loads (strace_read_access line)"
  unfolding strace_read_access_def
  by (rule loads_sscanf, simp_all del: lits_simps) (auto simp: saveable_defs split: option.splits list.splits arg.splits)

lemma loads_stat [parsers]: "c_string line \<Longrightarrow> loads (strace_read_stat line)"
  unfolding strace_read_stat_def
  by (rule loads_sscanf, simp_all del: lits_simps) (auto simp: saveable_defs split: option.splits list.splits arg.splits)

lemma loads_socket [parsers]: "c_string line \<Longrightarrow> loads (read_socket_strace line)"
  unfolding read_socket_strace_def
  by (rule loads_sscanf, simp_all del: lits_simps) (auto simp: saveable_defs split: option.splits list.splits arg.splits)

text \<open>The two parsers with a second format, whose first result decides whether it is tried.\<close>

lemma loads_or_open:
  assumes "texts out" "loads r"
    "\<And>p t name flags mode retval d. texts [Str name] \<Longrightarrow> loads (Inr (Some (f p t name flags mode retval d)))"
  shows "loads (case out of [I32 p, Str t, Str name, Str flags, I32 mode, I32 retval, Str d] \<Rightarrow>
      Inr (Some (f p t name flags mode retval d)) | _ \<Rightarrow> r)"
  using assms by (auto split: list.split arg.split)

lemma loads_or_sendfile:
  assumes "texts out" "loads r" "\<And>p t out_fd in_fd off sz retval d. loads (Inr (Some (f p t out_fd in_fd off sz retval d)))"
  shows "loads (case out of [I32 p, Str t, I32 out_fd, I32 in_fd, I64 off, I64 sz, I64 retval, Str d] \<Rightarrow>
      Inr (Some (f p t out_fd in_fd off sz retval d)) | _ \<Rightarrow> r)"
  using assms by (auto split: list.split arg.split)

lemma loads_open [parsers]: "c_string line \<Longrightarrow> loads (strace_read_open line)"
  unfolding strace_read_open_def Let_def
proof (rule loads_sscanf, simp_all del: lits_simps, goal_cases)
  case (1 args)
  show ?case
  proof (cases args)
    case (Some out)
    show ?thesis
      unfolding Some option.case
    proof (rule loads_or_open, use 1 Some in \<open>simp add: saveable_defs\<close>, goal_cases)
      case 1
      show ?case
        by (rule loads_sscanf, use \<open>c_string line\<close> in \<open>simp_all del: lits_simps\<close>)
          (auto simp: saveable_defs split: option.splits list.splits arg.splits)
    qed (simp add: saveable_defs)
  qed simp
qed

lemma loads_sendfile [parsers]: "c_string line \<Longrightarrow> loads (strace_read_sendfile line)"
  unfolding strace_read_sendfile_def Let_def
proof (rule loads_sscanf, simp_all del: lits_simps, goal_cases)
  case (1 args)
  show ?case
  proof (cases args)
    case (Some out)
    show ?thesis
      unfolding Some option.case
    proof (rule loads_or_sendfile, use 1 Some in \<open>simp add: saveable_defs\<close>, goal_cases)
      case 1
      show ?case
      proof (cases "length out = 4")
        case True
        show ?thesis
          unfolding if_P [OF True]
          by (rule loads_sscanf, use \<open>c_string line\<close> in \<open>simp_all del: lits_simps\<close>)
            (auto simp: saveable_defs split: option.splits list.splits arg.splits)
      qed simp
    qed (simp add: saveable_defs)
  qed simp
qed

text \<open>The four calls that transfer data.\<close>

lemma closing_quote_set: "closing_quote b s = Some r \<Longrightarrow> set r \<subseteq> set s"
  by (induction b s rule: closing_quote.induct) (auto split: if_splits)

lemma strace_pos_comma_ends:
  assumes "c_string line"
  shows "ends (\<lambda>r. \<forall>rest. r = Some rest \<longrightarrow> c_string rest) (strace_pos_comma line)"
proof -
  have rest: "c \<noteq> NUL \<and> c_string r" if "closing_quote False (drop i line) = Some (c # r)" for i c r
    using c_string_sub [OF c_string_parts(4) [OF assms] closing_quote_set [OF that]] by simp
  show ?thesis
    using assms by (auto simp: strace_pos_comma_def c_string_parts split: option.splits list.splits if_splits dest!: rest)
qed

lemma strace_first_ends: "c_string line \<Longrightarrow> ends (\<lambda>r. True) (strace_first line)"
  unfolding strace_first_def by (rule ends_bind [OF sscanf_texts]) simp_all

lemma strace_second_ends:
  assumes "c_string line" "list_all narrow fmt"
  shows "ends (\<lambda>r. True) (strace_second fmt line)"
  unfolding strace_second_def
proof (rule ends_bind [OF strace_pos_comma_ends [OF assms(1)]])
  fix r assume "\<forall>rest. r = Some rest \<longrightarrow> c_string rest"
  then show "ends (\<lambda>r. True) (case r of None \<Rightarrow> Inr None | Some rest \<Rightarrow> sscanf rest fmt)"
    using sscanf_texts assms(2) by (cases r) (auto intro: ends_weaken)
qed

lemma loads_transfer:
  assumes line: "c_string line" and fmt: "list_all narrow fmt" and item: "\<And>p t fd args. loads (Inr (f p t fd args))"
  shows "loads (bindR (strace_first line) (\<lambda>first. case first of None \<Rightarrow> Inr None
    | Some (p, t, fd) \<Rightarrow> bindR (strace_second fmt line) (\<lambda>args. Inr (f p t fd args))))"
  unfolding loads_def
proof (rule ends_bind [OF strace_first_ends [OF line]])
  fix first
  have "ends (\<lambda>r. \<forall>it. r = Some it \<longrightarrow> saveable it) (bindR (strace_second fmt line) (\<lambda>args. Inr (f p t fd args)))" for p t fd
    by (rule ends_bind [OF strace_second_ends [OF line fmt]]) (use item in \<open>simp add: loads_def\<close>)
  then show "ends (\<lambda>r. \<forall>it. r = Some it \<longrightarrow> saveable it) (case first of None \<Rightarrow> Inr None
    | Some (p, t, fd) \<Rightarrow> bindR (strace_second fmt line) (\<lambda>args. Inr (f p t fd args)))"
    by (auto split: option.split)
qed

lemma loads_transfers [parsers]:
  assumes "c_string line"
  shows "loads (strace_read_write line)" "loads (strace_read_read line)"
    "loads (strace_read_pwrite line)" "loads (strace_read_pread line)"
  unfolding strace_read_write_def strace_read_read_def strace_read_pwrite_def strace_read_pread_def
  by (rule loads_transfer [OF assms]; auto simp: saveable_defs split: option.split list.split arg.split)+

section \<open>The state between lines\<close>

text \<open>The items loaded can be saved, and the lines that wait for their second part are strings.\<close>

definition strace_inv :: "strace_state \<Rightarrow> bool" where
  "strace_inv st \<longleftrightarrow> (\<forall>it\<in>set (loaded st). saveable it) \<and> isy.table_inv (unfinished st) \<and>
     (\<forall>i\<in>set (ht_items (unfinished st)). c_string (is_line i))"

abbreviation waiting :: "strace_state \<Rightarrow> nat" where
  "waiting st \<equiv> length (ht_items (unfinished st))"

text \<open>One line loads at most one item, and never undoes one.\<close>

definition adds :: "strace_state \<Rightarrow> strace_state \<Rightarrow> bool" where
  "adds st st' \<longleftrightarrow> strace_inv st' \<and> (\<exists>its. loaded st' = loaded st @ its \<and> length its \<le> 1)"

lemma keep_item_adds:
  assumes "strace_inv st" "loads r"
  shows "ends (\<lambda>(rv, st'). adds st st') (keep_item r st)"
  unfolding keep_item_def
  by (rule ends_bind [OF assms(2) [unfolded loads_def]])
    (use assms(1) in \<open>auto simp: adds_def strace_inv_def split: option.split\<close>)

text \<open>The tables: a key that was hashed is not negative.\<close>

lemma stats_add_op_ends: "ends (\<lambda>_. True) (stats_add_op operation d t)"
  by (auto simp: ends_def stats_add_op_def hash_table_find_def hash_table_insert_def hash_table_modify_def
      ht_ops_stat_def ht_hash_str_def assertR_def split: option.split)

lemma isy_find:
  assumes "isy.table_inv t"
  shows "ends (\<lambda>r. 0 \<le> sint p \<and> r = isy.table_map t p) (hash_table_find ht_ops_isyscall p t)"
proof (cases "0 \<le> sint p")
  case True
  then show ?thesis using isy.find_map [OF assms True] by simp
next
  case False
  then show ?thesis by (simp add: hash_table_find_def ht_ops_isyscall_def ht_hash_int_def)
qed

lemma isy_in_items:
  assumes "isy.table_inv t" "isy.table_map t p = Some i"
  shows "i \<in> set (ht_items t)" "is_pid i = p"
proof -
  have p: "0 \<le> sint p" using assms(2) isy.table_map_invalid by fastforce
  then have "List.find (\<lambda>x. is_pid x = p) (entry t ! isy.slot t p) = Some i"
    using assms(2) isy.table_map_slot by simp
  then have i: "i \<in> set (entry t ! isy.slot t p)" "is_pid i = p" by (auto simp: find_Some_iff)
  moreover have "isy.slot t p < length (entry t)" using assms(1) isy.slot_range [OF p] by (simp add: isy.table_inv_def)
  ultimately show "i \<in> set (ht_items t)" "is_pid i = p" by (auto simp: ht_items_def)
qed

lemma line_pid_ends: "c_string line \<Longrightarrow> ends (\<lambda>_. True) (line_pid junk line)"
  unfolding line_pid_def by (rule ends_bind [OF sscanf_texts]) auto

lemma operation_code_not_rmdir: "operation_code operation \<noteq> OP_RMDIR"
  by (simp add: operation_code_def op_codes)

lemma operation_code_ends:
  assumes "c_string line"
  shows "ends (\<lambda>(c, st'). c \<noteq> OP_RMDIR \<and> loaded st' = loaded st \<and> unfinished st' = unfinished st)
    (strace_get_operation_code stats line st)"
proof -
  have "ends (\<lambda>(_, st'). loaded st' = loaded st \<and> unfinished st' = unfinished st) (strace_get_operation stats line st)"
  proof -
    have add: "ends (\<lambda>(_, st'). loaded st' = loaded st \<and> unfinished st' = unfinished st)
        (bindR (stats_add_op operation d (counted st)) (\<lambda>t. Inr (operation, st\<lparr>counted := t\<rparr>)))" for operation d
      by (rule ends_bind [OF stats_add_op_ends]) simp
    have "ends (\<lambda>(_, st'). loaded st' = loaded st \<and> unfinished st' = unfinished st)
        (bindR (sscanf line fmt_stats) (\<lambda>args. case args of
            Some [I32 sec, I32 usec] \<Rightarrow>
              bindR (stats_add_op operation (sec * 1000000 + usec) (counted st)) (\<lambda>t. Inr (operation, st\<lparr>counted := t\<rparr>))
          | _ \<Rightarrow> Inr (operation, st)))" for operation
      by (rule ends_bind [OF sscanf_texts [OF assms]]) (auto simp: add split: option.split list.split arg.split)
    then show ?thesis by (simp add: strace_get_operation_def Let_def)
  qed
  then show ?thesis
    unfolding strace_get_operation_code_def by (rule ends_bind) (auto simp: operation_code_not_rmdir)
qed

lemma c_string_decimal: "c_string (decimal_int i)"
proof -
  have "\<not> is_digit NUL" by (simp add: is_digit_def NUL_def)
  then have "c_string (decimal n)" for n using decimal_props [of n] by (auto simp: c_string_def)
  then show ?thesis by (simp add: decimal_int_def NUL_def)
qed

lemma strace_read_fcntl_adds:
  assumes line: "c_string line" and inv: "strace_inv st"
  shows "ends (\<lambda>(rv, st'). adds st st') (strace_read_fcntl line st)"
proof -
  have "adds st st" using inv by (simp add: adds_def)
  moreover have "ends (\<lambda>(rv, st'). adds st st')
      (bindR (sscanf line (fmt_start @ fmt_open @ [Dec] @ lits '', F_DUPFD, '' @ [Dec] @ fmt_result)) (\<lambda>args.
        case args of
          Some [I32 p, Str start_time, I32 old_fd, I32 tmp, I32 new_fd, Str d] \<Rightarrow>
            keep_item (strace_read_dup
              (decimal_int (sint p) @ '' '' @ start_time @ '' dup('' @ decimal_int (sint old_fd) @ '') = '' @
               decimal_int (sint new_fd) @ '' <'' @ d @ ''>'')) st
        | _ \<Rightarrow> Inr (-1, st)))"
  proof (rule ends_bind [OF sscanf_texts [OF line]], simp_all del: lits_simps, goal_cases)
    case (1 args)
    have keep: "ends (\<lambda>(rv, st'). adds st st') (keep_item (strace_read_dup
              (decimal_int (sint p) @ CHR '' '' # start_time @ '' dup('' @ decimal_int (sint old_fd) @ '') = '' @
               decimal_int (sint new_fd) @ '' <'' @ d @ ''>'')) st)"
      if "name_string start_time" "name_string d" for p start_time old_fd new_fd d
    proof -
      have "c_string start_time" "c_string d" using that by (auto simp: name_string_def c_string_def NUL_def)
      then show ?thesis by (intro keep_item_adds [OF inv] parsers) (simp add: c_string_decimal, simp add: NUL_def)
    qed
    show ?case
      using 1 \<open>adds st st\<close> keep by (auto split: option.split list.split arg.split)
  qed
  ultimately show ?thesis by (simp add: strace_read_fcntl_def)
qed

lemma strace_dispatch_adds:
  assumes "c_string line" "strace_inv st" "c \<noteq> OP_RMDIR"
  shows "ends (\<lambda>(rv, st'). adds st st') (strace_dispatch c line st)"
proof -
  have keep: "loads r \<Longrightarrow> ends (\<lambda>(rv, st'). adds st st') (keep_item r st)" for r
    by (rule keep_item_adds [OF assms(2)])
  have "adds st st" using assms(2) by (simp add: adds_def)
  then show ?thesis
    using assms(3) strace_read_fcntl_adds [OF assms(1,2)]
    by (simp add: strace_dispatch_def keep parsers assms(1))
qed

section \<open>Calls in two parts\<close>

lemma strace_read_unfinished_ends:
  assumes line: "c_string line" and inv: "strace_inv st"
  shows "ends (\<lambda>st'. strace_inv st' \<and> loaded st' = loaded st) (strace_read_unfinished junk line st)"
  unfolding strace_read_unfinished_def
proof (rule ends_bind [OF line_pid_ends [OF line]], rule ends_bind [OF isy_find], goal_cases)
  case 1
  then show ?case using inv by (simp add: strace_inv_def)
next
  case (2 p item)
  let ?i = "\<lparr>is_pid = p, is_line = take MAX_STRING line\<rparr>"
  have t: "isy.table_inv (unfinished st)" using inv by (simp add: strace_inv_def)
  obtain t' where t': "hash_table_insert ht_ops_isyscall p ?i (unfinished st) = Inr t'" "isy.table_inv t'"
    "mset (ht_items t') = add_mset ?i (mset (ht_items (unfinished st)))"
    using isy.insert_map [OF t, of ?i] 2 by auto
  have "set (ht_items t') = insert ?i (set (ht_items (unfinished st)))"
    using t'(3) by (metis set_mset_add_mset_insert set_mset_mset)
  then have "strace_inv (st\<lparr>unfinished := t'\<rparr>)"
    using inv t'(2) c_string_parts(3) [OF line] by (auto simp: strace_inv_def)
  then show ?case using t'(1) inv by (auto split: option.split)
qed

text \<open>A joined line is a string, and takes one call out of the table.\<close>

lemma strace_read_resumed_ends:
  assumes line: "c_string line" and inv: "strace_inv st"
  shows "ends (\<lambda>(joined, st'). strace_inv st' \<and> loaded st' = loaded st \<and>
      (case joined of None \<Rightarrow> waiting st' = waiting st | Some buff \<Rightarrow> c_string buff \<and> Suc (waiting st') = waiting st))
    (strace_read_resumed junk line st)"
  unfolding strace_read_resumed_def
proof (rule ends_bind [OF line_pid_ends [OF line]], rule ends_bind [OF isy_find], goal_cases)
  case 1
  then show ?case using inv by (simp add: strace_inv_def)
next
  case (2 p item)
  let ?t = "unfinished st"
  have t: "isy.table_inv ?t" using inv by (simp add: strace_inv_def)
  show ?case
  proof (cases item)
    case None
    then show ?thesis using inv by simp
  next
    case (Some i)
    have p: "0 \<le> sint p" and i: "isy.table_map ?t p = Some i" using 2 Some by auto
    have ci: "c_string (is_line i)" using inv isy_in_items(1) [OF t i] by (simp add: strace_inv_def)
    have modify: "ends (\<lambda>t'. isy.table_inv t' \<and> length (ht_items t') = length (ht_items ?t) \<and> (\<forall>i\<in>set (ht_items t'). c_string (is_line i)))
        (hash_table_modify ht_ops_isyscall p (\<lambda>x. x\<lparr>is_line := first\<rparr>) ?t)" if first: "c_string first" for first
    proof -
      obtain t' where t': "hash_table_modify ht_ops_isyscall p (\<lambda>x. x\<lparr>is_line := first\<rparr>) ?t = Inr t'" "isy.table_inv t'"
        using isy.modify_map [OF t p, of "\<lambda>x. x\<lparr>is_line := first\<rparr>"] by auto
      have len: "length (entry ?t) = entries ?t" using t by (simp add: isy.table_inv_def)
      show ?thesis
        using t' modify_items [OF t'(1) len] inv first by (auto simp: strace_inv_def) fastforce
    qed
    obtain t' where t': "hash_table_remove ht_ops_isyscall p ?t = Inr (Some i, t')" "isy.table_inv t'"
      "add_mset i (mset (ht_items t')) = mset (ht_items ?t)"
      using isy.remove_map [OF t p] i by auto
    have sub: "set (ht_items t') \<subseteq> set (ht_items ?t)" using t'(3) by (metis set_mset_add_mset_insert set_mset_mset subset_insertI)
    have len: "Suc (length (ht_items t')) = length (ht_items ?t)" using t'(3) by (metis size_add_mset size_mset)
    show ?thesis
      using inv t' sub len c_string_parts [OF ci] c_string_parts [OF line]
      by (auto simp: Some Let_def strace_inv_def c_string_parts intro!: ends_bind [OF modify] split: option.split)
  qed
qed

definition step_ok :: "strace_state \<Rightarrow> line_outcome \<times> strace_state \<Rightarrow> bool" where
  "step_ok st r \<longleftrightarrow> (case r of
     (Done rv, st') \<Rightarrow> adds st st'
   | (Again buff, st') \<Rightarrow> strace_inv st' \<and> loaded st' = loaded st \<and> c_string buff \<and> Suc (waiting st') = waiting st)"

lemma strace_step_ends:
  assumes line: "c_string line" and inv: "strace_inv st"
  shows "ends (step_ok st) (strace_step junk stats line st)"
  unfolding strace_step_def
proof (rule ends_bind [OF operation_code_ends [OF line, of st]], simp only: prod.case case_prod_beta, elim conjE, goal_cases)
  case (1 r)
  obtain c st1 where r: "r = (c, st1)" by (rule prod.exhaust)
  have st1: "c \<noteq> OP_RMDIR" "loaded st1 = loaded st" "unfinished st1 = unfinished st" using 1 r by auto
  have inv1: "strace_inv st1" using inv st1 by (simp add: strace_inv_def)
  have first: "ends (step_ok st) (bindR (strace_read_unfinished junk line st1) (\<lambda>st. Inr (Done 0, st)))"
    by (rule ends_bind [OF strace_read_unfinished_ends [OF line inv1]]) (simp add: step_ok_def adds_def st1)
  have finish: "ends (step_ok st) (finish_line c line st1)"
    unfolding finish_line_def
    by (rule ends_bind [OF strace_dispatch_adds [OF line inv1 st1(1)]]) (auto simp: step_ok_def adds_def st1)
  have resumed: "ends (step_ok st) (bindR (strace_get_operation_code False l st1) (\<lambda>(c, st).
            if c = OP_UNKNOWN then Inr (Done 0, st)
            else bindR (strace_read_resumed junk l st) (\<lambda>(joined, st).
              Inr (case joined of None \<Rightarrow> Done 0 | Some buff \<Rightarrow> Again buff, st))))" if l: "c_string l" for l
  proof (rule ends_bind [OF operation_code_ends [OF l, of st1]], clarsimp, intro conjI impI, goal_cases)
    case (1 st2)
    then show ?case using inv st1 by (simp add: step_ok_def adds_def strace_inv_def)
  next
    case (2 c st2)
    then have inv2: "strace_inv st2" using inv1 by (simp add: strace_inv_def)
    show ?case
      by (rule ends_bind [OF strace_read_resumed_ends [OF l inv2]])
        (use 2 st1 in \<open>auto simp: step_ok_def adds_def split: option.splits\<close>)
  qed
  have "c_string (line[i := CHR ''(''])" for i
    using line set_update_subset_insert [of line i "CHR ''(''"] by (auto simp: c_string_def NUL_def)
  then show ?case using finish resumed first by (auto simp: r Let_def split: option.split nat.split)
qed

text \<open>The fuel is enough: each round takes a call out of the table.\<close>

lemma strace_run_ends:
  "c_string line \<Longrightarrow> strace_inv st \<Longrightarrow> waiting st < n \<Longrightarrow> ends (\<lambda>(rv, st'). adds st st') (strace_run n junk stats line st)"
proof (induction n arbitrary: stats line st)
  case (Suc n)
  show ?case
    unfolding strace_run.simps
  proof (rule ends_bind [OF strace_step_ends [OF Suc.prems(1,2)]], clarsimp, goal_cases)
    case (1 r st1)
    show ?case
    proof (cases r)
      case (Done rv)
      then show ?thesis using 1 by (simp add: step_ok_def)
    next
      case (Again buff)
      then have b: "c_string buff" "strace_inv st1" "waiting st1 < n" "loaded st1 = loaded st"
        using 1 Suc.prems(3) by (auto simp: step_ok_def)
      show ?thesis
        unfolding Again line_outcome.case
        by (rule ends_bind [OF Suc.IH [OF b(1-3)]]) (use b(4) in \<open>auto simp: adds_def\<close>)
    qed
  qed
qed simp

lemma strace_process_line_ends:
  "c_string line \<Longrightarrow> strace_inv st \<Longrightarrow> ends (\<lambda>(rv, st'). adds st st') (strace_process_line junk stats line st)"
  unfolding strace_process_line_def by (rule strace_run_ends) auto

lemma strace_lines_ends:
  "strace_inv st \<Longrightarrow> ends (\<lambda>st'. strace_inv st' \<and> (\<exists>its. loaded st' = loaded st @ its \<and> length its \<le> length content))
     (strace_lines junk stats content st)"
proof (induction "length content" arbitrary: content st rule: less_induct)
  case less
  show ?case
  proof (cases "content = []")
    case True
    then show ?thesis using less(2) by (simp add: strace_lines.simps)
  next
    case False
    obtain line rest where f: "fgets MAX_LINE content = (line, rest)" by (rule prod.exhaust)
    have rest: "length rest < length content"
      using fgets_rest_shorter [OF False f [symmetric]] by (simp add: MAX_LINE_def)
    have "ends (\<lambda>st'. strace_inv st' \<and> (\<exists>its. loaded st' = loaded st @ its \<and> length its \<le> length content))
        (bindR (strace_process_line junk stats (cstr line) st) (\<lambda>(_, st). strace_lines junk stats rest st))"
    proof (rule ends_bind [OF strace_process_line_ends [OF c_string_cstr less(2)]], clarsimp, goal_cases)
      case (1 rv st1)
      obtain its where its: "strace_inv st1" "loaded st1 = loaded st @ its" "length its \<le> 1"
        using 1 by (auto simp: adds_def)
      show ?case
        using less(1) [OF rest its(1)]
        by (rule ends_weaken) (use its rest in \<open>force simp: adds_def\<close>)
    qed
    then show ?thesis using False f by (subst strace_lines.simps) simp
  qed
qed

section \<open>Properties\<close>

lemma strace_start_inv: "\<forall>it\<in>set items. saveable it \<Longrightarrow>
  strace_inv \<lparr>loaded = items, unfinished = hash_table_init HASH_TABLE_SIZE, counted = stats_init\<rparr>"
  using isy.init_inv [of HASH_TABLE_SIZE]
  by (simp add: strace_inv_def HASH_TABLE_SIZE_def ht_items_def hash_table_init_def)

lemma strace_get_items_ends:
  "ends (\<lambda>(rv, items, printed). \<forall>it\<in>set items. saveable it) (strace_get_items junk stats input [])"
proof (cases input)
  case (Inr content)
  have "ends (\<lambda>(rv, items, printed). \<forall>it\<in>set items. saveable it) (strace_get_items junk stats (Inr content) [])"
    unfolding strace_get_items_def sum.case
    by (rule ends_bind [OF strace_lines_ends [OF strace_start_inv]]) (auto simp: strace_inv_def)
  then show ?thesis using Inr by simp
qed (simp add: strace_get_items_def)

text \<open>
  C28: Reading a \<open>strace\<close> file ends. Whatever the file holds, the recursion over joined lines does not
  go on forever, and the program stops before the end only at a buffer that is too small or at a
  failed assertion (of a negative process number); no other error is possible.
\<close>

theorem strace_reading_ends:
  "(\<exists>rv items printed. strace_get_items junk stats input [] = Inr (rv, items, printed)) \<or>
   strace_get_items junk stats input [] = Inl Overflow \<or> strace_get_items junk stats input [] = Inl Assertion"
  using strace_get_items_ends [of junk stats input] by (cases "strace_get_items junk stats input []") auto

text \<open>
  C17: The state between lines. A line, whatever it holds, keeps what the table of unfinished calls
  and the list of items promise (\<open>strace_inv\<close>), and it appends at most one item to the list.
\<close>

theorem strace_line_keeps_state:
  assumes "strace_inv st" and "c_string line" and "strace_process_line junk stats line st = Inr (rv, st')"
  shows "strace_inv st' \<and> (loaded st' = loaded st \<or> (\<exists>it. saveable it \<and> loaded st' = loaded st @ [it]))"
proof -
  have "adds st st'" using strace_process_line_ends [OF assms(2,1), of junk stats] assms(3) by simp
  then obtain its where its: "strace_inv st'" "loaded st' = loaded st @ its" "length its \<le> 1" by (auto simp: adds_def)
  then show ?thesis by (cases its) (auto simp: strace_inv_def)
qed

text \<open>
  C12: Conversion to a binary trace. The items that were read from any \<open>strace\<close> file are saved as a
  binary trace, when there is room for it, from which the same items are loaded.
\<close>

theorem strace_to_binary:
  assumes "strace_get_items junk stats input [] = Inr (rv, items, printed)" and "length (encode_all items) \<le> n"
  shows "\<exists>f. bin_save_items e (Some n) items = Inr (0, Some f) \<and> bin_get_items e' (Some f) [] = Inr (0, items)"
proof -
  have "\<forall>it\<in>set items. saveable it" using strace_get_items_ends [of junk stats input] assms(1) by simp
  then show ?thesis using assms(2) by (rule saved_loads)
qed

end
