(* ===== verification/Strace_Files.thy ===== *)
theory Strace_Files
  imports Strace_Print Strace_Inv
begin

text \<open>
  Whole \<open>strace\<close> files: complete lines, calls that other calls interrupted, and what is lost when a
  file name looks like one of \<open>strace\<close>'s remarks.
\<close>

section \<open>Lines of a file\<close>

declare scan_loop.simps [simp del]

text \<open>A line that fits the reader's buffer and holds none of the words that mark the parts of a call.\<close>

definition whole_line :: "string \<Rightarrow> bool" where
  "whole_line l \<longleftrightarrow> l \<noteq> [] \<and> last l = NEWLINE \<and> NEWLINE \<notin> set (butlast l) \<and> c_string l \<and> length l < MAX_LINE"

definition plain_line :: "string \<Rightarrow> bool" where
  "plain_line l \<longleftrightarrow> strstr l ''unfinished'' = None \<and> strstr l ''resumed'' = None"

definition call_line_ok :: "frame \<Rightarrow> traced \<Rightarrow> bool" where
  "call_line_ok fr c \<longleftrightarrow> frame_ok fr \<and> call_ok c \<and> whole_line (strace_line fr c) \<and> plain_line (strace_line fr c)"

lemma strace_lines_line:
  assumes "whole_line l"
  shows "strace_lines junk stats (l @ r) st = bindR (strace_process_line junk stats l st) (\<lambda>(_, st). strace_lines junk stats r st)"
proof -
  obtain s where s: "l = s @ [NEWLINE]" "NEWLINE \<notin> set s"
    using assms append_butlast_last_id [of l] by (metis whole_line_def)
  have "fgets MAX_LINE (s @ NEWLINE # r) = (l, r)"
    using fgets_line [of s MAX_LINE r] s(2) assms s(1) by (simp add: whole_line_def NEWLINE_def)
  moreover have "cstr l = l" using assms by (simp add: whole_line_def cstr_def c_string_def takeWhile_eq_all_conv)
      metis
  ultimately show ?thesis by (subst strace_lines.simps) (simp add: s(1))
qed

lemma run_plain:
  assumes "frame_ok fr" "call_ok c" "length (strace_line fr c) < MAX_STRING" "plain_line (strace_line fr c)"
  shows "strace_run (Suc n) junk False (strace_line fr c) st =
    Inr (0, st\<lparr>loaded := loaded st @ [call_item (frame_info fr) c]\<rparr>)"
proof -
  have "strace_get_operation_code False (strace_line fr c) st = Inr (operation_code (call_name c), st)"
    using line_operation(1) [OF assms(1), of "CHR ''(''" c "call_args c @ result_text fr (call_result c)"]
    by (simp add: strace_line_def line_text_def)
  then have "strace_step junk False (strace_line fr c) st =
      Inr (Done 0, st\<lparr>loaded := loaded st @ [call_item (frame_info fr) c]\<rparr>)"
    using assms(4) dispatch_line [OF assms(1-3)] by (simp add: strace_step_def plain_line_def finish_line_def)
  then show ?thesis by simp
qed

lemma process_plain:
  "call_line_ok fr c \<Longrightarrow> strace_process_line junk False (strace_line fr c) st =
    Inr (0, st\<lparr>loaded := loaded st @ [call_item (frame_info fr) c]\<rparr>)"
  unfolding strace_process_line_def call_line_ok_def whole_line_def by (rule run_plain) (auto simp: MAX_LINE_def MAX_STRING_def)

lemma strace_lines_plain:
  "\<forall>(fr, c)\<in>set calls. call_line_ok fr c \<Longrightarrow>
   strace_lines junk False (concat (map (\<lambda>(fr, c). strace_line fr c) calls) @ r) st =
   strace_lines junk False r (st\<lparr>loaded := loaded st @ map (\<lambda>(fr, c). call_item (frame_info fr) c) calls\<rparr>)"
proof (induction calls arbitrary: st)
  case (Cons p calls)
  obtain fr c where p: "p = (fr, c)" by (rule prod.exhaust)
  have ok: "call_line_ok fr c" "whole_line (strace_line fr c)" using Cons.prems p by (auto simp: call_line_ok_def)
  then show ?case using Cons by (simp add: p strace_lines_line process_plain)
qed simp

lemma strace_lines_Nil: "strace_lines junk stats [] st = Inr st"
  by (simp add: strace_lines.simps)


section \<open>The example of the README\<close>

definition sample_write :: "frame \<times> traced" where
  "sample_write = (\<lparr>fr_pid = 18600, fr_start = ''1271322908.363234'', fr_gap = 0, fr_note = [], fr_dur = ''0.000008''\<rparr>,
     Write 1 [] True 4096 4096)"

definition sample_read :: "frame \<times> traced" where
  "sample_read = (\<lparr>fr_pid = 18599, fr_start = ''1271322908.363138'', fr_gap = 0, fr_note = [], fr_dur = ''0.000118''\<rparr>,
     Read 3 [] True 8192 4096)"

lemma decimal_step: "decimal n = (if n < 10 then [digit n] else decimal (n div 10) @ [digit (n mod 10)])"
  by (subst decimal.simps) (simp add: digit_def)

lemma digit_chars:
  "digit 0 = CHR ''0''" "digit (Suc 0) = CHR ''1''" "digit 2 = CHR ''2''" "digit 3 = CHR ''3''" "digit 4 = CHR ''4''"
  "digit 5 = CHR ''5''" "digit 6 = CHR ''6''" "digit 7 = CHR ''7''" "digit 8 = CHR ''8''" "digit 9 = CHR ''9''"
  by code_simp+

lemmas print_defs = strace_line_def line_text_def result_text_def num_def num64_def decimal_int_def decimal_step digit_chars
  quoted_def shown_def QUOTE_def

lemmas time_defs = read_time_def read_duration_def strtok_def atoi_def is_digit_def digit_val_def clamp_long_def is_space_def

lemmas line_ok_defs = call_line_ok_def frame_ok_def whole_line_def plain_line_def NEWLINE_def NUL_def is_digit_def
  MAX_TIME_STRING_def MAX_LINE_def

lemma sample_lines:
  "case_prod strace_line sample_write = ''18600 1271322908.363234 write(1, \"\"..., 4096) = 4096 <0.000008>'' @ [NEWLINE]"
  "case_prod strace_line sample_read = ''18599 1271322908.363138 read(3, \"\"..., 8192) = 4096 <0.000118>'' @ [NEWLINE]"
  by (simp_all add: sample_write_def sample_read_def print_defs)

lemma readme_ok: "case_prod call_line_ok sample_write" "case_prod call_line_ok sample_read"
  using sample_lines by (simp_all add: sample_write_def sample_read_def line_ok_defs)

definition readme_write_item :: op_item where
  "readme_write_item = \<lparr>type = OP_WRITE, body = S_write \<lparr>write_fd = 1, write_size = 4096, write_retval = 4096,
      write_info = \<lparr>pid = 18600, dur = 8, start = \<lparr>tv_sec = 1271322908, tv_usec = 363234\<rparr>\<rparr>\<rparr>\<rparr>"

definition readme_read_item :: op_item where
  "readme_read_item = \<lparr>type = OP_READ, body = S_read \<lparr>read_fd = 3, read_size = 8192, read_retval = 4096,
      read_info = \<lparr>pid = 18599, dur = 118, start = \<lparr>tv_sec = 1271322908, tv_usec = 363138\<rparr>\<rparr>\<rparr>\<rparr>"

lemma readme_items:
  "(\<lambda>(fr, c). call_item (frame_info fr) c) sample_write = readme_write_item"
  "(\<lambda>(fr, c). call_item (frame_info fr) c) sample_read = readme_read_item"
  by (simp_all add: sample_write_def readme_write_item_def sample_read_def readme_read_item_def frame_info_def time_defs)


section \<open>Interrupted calls\<close>

text \<open>
  A call that was interrupted after the part \<open>a\<close> of its arguments, and its second part with the rest
  \<open>b\<close> of the line, printed at the time of \<open>fr2\<close>.
\<close>

definition call_front :: "frame \<Rightarrow> traced \<Rightarrow> string \<Rightarrow> string" where
  "call_front fr c a = num (fr_pid fr) @ '' '' @ fr_start fr @ '' '' @ call_name c @ ''('' @ a"

definition first_part :: "frame \<Rightarrow> traced \<Rightarrow> string \<Rightarrow> string" where
  "first_part fr c a = call_front fr c a @ '' <unfinished ...>'' @ [NEWLINE]"

definition second_part :: "frame \<Rightarrow> traced \<Rightarrow> string \<Rightarrow> string" where
  "second_part fr2 c b = num (fr_pid fr2) @ '' '' @ fr_start fr2 @ '' <... '' @ call_name c @ '' resumed> '' @ b"

text \<open>The first part holds no mark of its own before the remark, and the second part no remark.\<close>

definition parts_ok :: "frame \<Rightarrow> frame \<Rightarrow> traced \<Rightarrow> string \<Rightarrow> string \<Rightarrow> bool" where
  "parts_ok fr fr2 c a b \<longleftrightarrow> call_line_ok fr c \<and> frame_ok fr2 \<and> fr_pid fr2 = fr_pid fr \<and>
     call_front fr c a @ b = strace_line fr c \<and> CHR ''<'' \<notin> set a \<and>
     whole_line (first_part fr c a) \<and> whole_line (second_part fr2 c b) \<and> strstr (second_part fr2 c b) ''unfinished'' = None"

lemma strstr_skip: "x \<notin> set p \<Longrightarrow> strstr (p @ s) (x # t) = map_option ((+) (length p)) (strstr s (x # t))"
  by (induction p; cases "strstr s (x # t)") auto

lemma strstr_at: "x \<notin> set p \<Longrightarrow> y \<noteq> x \<Longrightarrow> strstr (p @ y # x # t @ r) (y # x # t) = Some (length p)"
proof (induction p)
  case Nil
  then show ?case by (simp add: starts_with_iff)
next
  case (Cons d p)
  have "\<not> starts_with (x # t) (p @ y # x # t @ r)" using Cons.prems by (cases p) auto
  then show ?case using Cons by simp
qed

lemma strstr_found: "strstr (p @ t @ r) t \<noteq> None"
  by (simp only: strstr_None) blast

lemma frame_no_letter:
  assumes "frame_ok fr" "\<not> is_digit x" "x \<notin> {CHR ''-'', CHR ''.''}"
  shows "x \<notin> set (num (fr_pid fr))" "x \<notin> set (fr_start fr)"
  using num_chars [of x "fr_pid fr"] assms by (auto simp: frame_ok_def)

lemma drop_resumed: "drop (Suc (length p) + 9) (p @ x # ''resumed> '' @ b) = b"
  by simp

lemma resumed_found:
  fixes c :: traced and b :: string
  assumes "frame_ok fr"
  defines "pre \<equiv> num (fr_pid fr) @ '' '' @ fr_start fr @ '' <... '' @ call_name c"
  shows "strstr (pre @ CHR '' '' # ''resumed> '' @ b) ''resumed'' = Some (Suc (length pre))"
    "strstr (pre @ CHR ''('' # ''resumed> '' @ b) ''resumed> '' = Some (Suc (length pre))"
proof -
  have r: "\<not> is_digit (CHR ''r'')" by (simp add: is_digit_def)
  have front: "CHR ''r'' \<notin> set (num (fr_pid fr) @ '' '' @ fr_start fr @ '' <... '')"
    using frame_no_letter [OF assms(1) r] by simp
  note skip = strstr_skip [OF front]
  show "strstr (pre @ CHR '' '' # ''resumed> '' @ b) ''resumed'' = Some (Suc (length pre))"
    using skip [of "call_name c @ CHR '' '' # ''resumed> '' @ b" "''esumed''"] by (cases c) (simp_all add: pre_def)
  show "strstr (pre @ CHR ''('' # ''resumed> '' @ b) ''resumed> '' = Some (Suc (length pre))"
    using skip [of "call_name c @ CHR ''('' # ''resumed> '' @ b" "''esumed> ''"] by (cases c) (simp_all add: pre_def)
qed

lemma line_pid_num: "line_pid junk (num p @ CHR '' '' # r) = Inr p"
  by (simp add: line_pid_def scan_parts scan_lits(4))

text \<open>The first line enters the call into the table, the second takes it out and loads the item.\<close>

lemma process_marked:
  fixes fr :: frame and c :: traced and r :: string
  defines "l \<equiv> num (fr_pid fr) @ '' '' @ fr_start fr @ '' '' @ call_name c @ ''('' @ r"
  assumes fr: "frame_ok fr" and len: "length l < MAX_STRING" and mark: "strstr l ''unfinished'' \<noteq> None"
    and inv: "isy.table_inv (unfinished st)" and new: "isy.table_map (unfinished st) (fr_pid fr) = None"
  shows "\<exists>t. hash_table_insert ht_ops_isyscall (fr_pid fr) \<lparr>is_pid = fr_pid fr, is_line = l\<rparr> (unfinished st) = Inr t \<and>
    strace_process_line junk False l st = Inr (0, st\<lparr>unfinished := t\<rparr>)"
proof -
  let ?p = "fr_pid fr" and ?i = "\<lparr>is_pid = fr_pid fr, is_line = l\<rparr>"
  have p: "0 \<le> sint ?p" using fr by (simp add: frame_ok_def)
  obtain t where t: "hash_table_insert ht_ops_isyscall ?p ?i (unfinished st) = Inr t"
    using isy.insert_map [OF inv, of ?i] p by auto
  have "strace_get_operation_code False l st = Inr (operation_code (call_name c), st)"
    using line_operation(1) [OF fr, of "CHR ''(''" c] by (simp add: l_def)
  moreover have "line_pid junk l = Inr ?p" using line_pid_num by (simp add: l_def)
  moreover have "hash_table_find ht_ops_isyscall ?p (unfinished st) = Inr None" using isy.find_map [OF inv p] new by simp
  ultimately have "strace_step junk False l st = Inr (Done 0, st\<lparr>unfinished := t\<rparr>)"
    using call_name_known(2) [of c] t len mark by (simp add: strace_step_def strace_read_unfinished_def)
  then show ?thesis using t by (simp add: strace_process_line_def)
qed

lemma process_first:
  assumes ok: "parts_ok fr fr2 c a b" and inv: "isy.table_inv (unfinished st)" and new: "isy.table_map (unfinished st) (fr_pid fr) = None"
  shows "\<exists>t. hash_table_insert ht_ops_isyscall (fr_pid fr) \<lparr>is_pid = fr_pid fr, is_line = first_part fr c a\<rparr> (unfinished st) = Inr t \<and>
    strace_process_line junk False (first_part fr c a) st = Inr (0, st\<lparr>unfinished := t\<rparr>)"
proof -
  have l: "first_part fr c a = num (fr_pid fr) @ '' '' @ fr_start fr @ '' '' @ call_name c @ ''('' @ a @ '' <unfinished ...>'' @ [NEWLINE]"
    by (simp add: first_part_def call_front_def)
  have "frame_ok fr" "length (first_part fr c a) < MAX_STRING"
    using ok by (auto simp: parts_ok_def call_line_ok_def whole_line_def MAX_LINE_def MAX_STRING_def)
  moreover have "strstr (first_part fr c a) ''unfinished'' \<noteq> None"
    using strstr_found [of "call_front fr c a @ '' <''" "''unfinished''" "'' ...>'' @ [NEWLINE]"] by (simp add: first_part_def)
  ultimately show ?thesis using process_marked inv new unfolding l by blast
qed

lemma process_second:
  assumes ok: "parts_ok fr fr2 c a b" and inv: "isy.table_inv t" and new: "isy.table_map t (fr_pid fr) = None"
    and t': "hash_table_insert ht_ops_isyscall (fr_pid fr) \<lparr>is_pid = fr_pid fr, is_line = first_part fr c a\<rparr> t = Inr t'"
    and st: "unfinished st = t'"
  shows "strace_process_line junk False (second_part fr2 c b) st =
    Inr (0, st\<lparr>unfinished := t, loaded := loaded st @ [call_item (frame_info fr) c]\<rparr>)"
proof -
  let ?p = "fr_pid fr" and ?i = "\<lparr>is_pid = fr_pid fr, is_line = first_part fr c a\<rparr>"
  let ?pre = "num (fr_pid fr2) @ '' '' @ fr_start fr2 @ '' <... '' @ call_name c"
  let ?hacked = "?pre @ CHR ''('' # ''resumed> '' @ b"
  have fr: "frame_ok fr" "frame_ok fr2" and pid: "fr_pid fr2 = ?p" and line: "call_front fr c a @ b = strace_line fr c"
    using ok by (auto simp: parts_ok_def call_line_ok_def)
  then have p: "0 \<le> sint ?p" by (simp add: frame_ok_def)
  have find: "isy.table_inv t'" "isy.table_map t' ?p = Some ?i" using isy.insert_map [OF inv, of ?i] p t' new by auto
  have second: "second_part fr2 c b = ?pre @ CHR '' '' # ''resumed> '' @ b" by (simp add: second_part_def)
  have len: "length (strace_line fr c) < MAX_STRING" and plain: "plain_line (strace_line fr c)" "call_ok c"
    using ok by (auto simp: parts_ok_def call_line_ok_def whole_line_def MAX_LINE_def MAX_STRING_def)
  have code: "strace_get_operation_code False (second_part fr2 c b) st = Inr (operation_code (call_name c), st)"
    "strace_get_operation_code False ?hacked st = Inr (operation_code (call_name c), st)"
    using line_operation(2) [OF fr(2), of _ c] by (simp_all add: second_part_def)
  have hack: "(second_part fr2 c b)[length ?pre := CHR ''(''] = ?hacked" unfolding second by (rule list_update_length)
  have stored: "strstr (first_part fr c a) '' <unfinished ...>'' = Some (length (call_front fr c a))"
  proof -
    have no: "\<not> is_digit (CHR ''<'')" by (simp add: is_digit_def)
    have "CHR ''<'' \<notin> set (call_name c)" by (cases c) simp_all
    then have "CHR ''<'' \<notin> set (call_front fr c a)"
      using frame_no_letter [OF fr(1) no] ok by (simp add: call_front_def parts_ok_def)
    then show ?thesis
      using strstr_at [of "CHR ''<''" "call_front fr c a" "CHR '' ''" "''unfinished ...>''" "[NEWLINE]"] by (simp add: first_part_def)
  qed
  have remove: "hash_table_remove ht_ops_isyscall ?p t' = Inr (Some ?i, t)"
    using isy.insert_remove [OF inv, of ?i] p new t' by simp
  have front: "take (length (call_front fr c a)) (first_part fr c a) = call_front fr c a" by (simp add: first_part_def)
  have rest: "drop (Suc (length ?pre) + 9) ?hacked = b" by (rule drop_resumed)
  have lens: "length (call_front fr c a) + length b < MAX_STRING" using len line by (metis length_append)
  have resumed: "strace_read_resumed junk ?hacked st = Inr (Some (strace_line fr c), st\<lparr>unfinished := t\<rparr>)"
  proof -
    have pidl: "line_pid junk ?hacked = Inr ?p" using line_pid_num by (simp add: pid)
    have f: "hash_table_find ht_ops_isyscall ?p (unfinished st) = Inr (Some ?i)"
      using isy.find_map [OF find(1) p] find(2) st by simp
    have "take (2 * MAX_STRING) (drop (Suc (length ?pre) + 9) ?hacked) = b" unfolding rest using lens by simp
    then show ?thesis
      unfolding strace_read_resumed_def pidl bindR.simps f option.case isyscall.select_convs stored front
        resumed_found(2) [OF fr(2)] Let_def using lens remove st line by simp
  qed
  have step: "strace_step junk False (second_part fr2 c b) st = Inr (Again (strace_line fr c), st\<lparr>unfinished := t\<rparr>)"
  proof -
    have none: "strstr (second_part fr2 c b) ''unfinished'' = None" using ok by (simp add: parts_ok_def)
    have at: "strstr (second_part fr2 c b) ''resumed'' = Some (Suc (length ?pre))"
      unfolding second by (rule resumed_found(1) [OF fr(2)])
    show ?thesis
      using call_name_known(2) [of c]
      unfolding strace_step_def code(1) bindR.simps prod.case none at option.case nat.case Let_def hack code(2) resumed by simp
  qed
  obtain n where n: "length (ht_items t') = Suc n"
    using isy.insert_map [OF inv, of ?i] p t' by (cases "length (ht_items t')") auto
  show ?thesis
    unfolding strace_process_line_def st n
    using step run_plain [OF fr(1) plain(2) len plain(1), of n junk "st\<lparr>unfinished := t\<rparr>"] by simp
qed

text \<open>
  C7: Interrupted calls. A call that was printed in two parts, with complete calls of other processes
  between them, is loaded as if it had been printed in one line, after those calls: with the time at
  which it began and the result of its end.
\<close>

theorem interrupted_call_joined:
  assumes "parts_ok fr fr2 c a b" and "\<forall>(fr, c)\<in>set calls. call_line_ok fr c"
  shows "strace_get_items junk False
      (Inr (first_part fr c a @ concat (map (\<lambda>(fr, c). strace_line fr c) calls) @ second_part fr2 c b)) [] =
    Inr (0, map (\<lambda>(fr, c). call_item (frame_info fr) c) calls @ [call_item (frame_info fr) c], [])"
proof -
  let ?t = "hash_table_init HASH_TABLE_SIZE :: isyscall hash_table"
  let ?st = "\<lparr>loaded = [], unfinished = ?t, counted = stats_init\<rparr>"
  have pos: "0 < HASH_TABLE_SIZE" by (simp add: HASH_TABLE_SIZE_def)
  have t: "isy.table_inv ?t" "isy.table_map ?t (fr_pid fr) = None"
    using isy.init_inv [OF pos] isy.init_map [OF pos] by simp_all
  obtain t' where t': "hash_table_insert ht_ops_isyscall (fr_pid fr) \<lparr>is_pid = fr_pid fr, is_line = first_part fr c a\<rparr> ?t = Inr t'"
    "strace_process_line junk False (first_part fr c a) ?st = Inr (0, ?st\<lparr>unfinished := t'\<rparr>)"
    using process_first [OF assms(1), of ?st junk] t by auto
  have lines: "whole_line (first_part fr c a)" "whole_line (second_part fr2 c b)" using assms(1) by (simp_all add: parts_ok_def)
  have "strace_lines junk False (second_part fr2 c b @ []) st =
      Inr (st\<lparr>unfinished := ?t, loaded := loaded st @ [call_item (frame_info fr) c]\<rparr>)" if "unfinished st = t'" for st
    unfolding strace_lines_line [OF lines(2)] process_second [OF assms(1) t t'(1) that] by (simp add: strace_lines_Nil)
  then show ?thesis
    by (simp add: strace_get_items_def strace_lines_line [OF lines(1)] t'(2) strace_lines_plain [OF assms(2)])
qed

theorem interrupted_call_joined_witness:
  "strace_get_items 0 False (Inr (
      ''18599 1271322908.363138 read(3,  <unfinished ...>'' @ [NEWLINE] @
      ''18600 1271322908.363234 write(1, \"\"..., 4096) = 4096 <0.000008>'' @ [NEWLINE] @
      ''18599 1271322908.363264 <... read resumed> \"\"..., 8192) = 4096 <0.000118>'' @ [NEWLINE])) [] =
   Inr (0, [readme_write_item, readme_read_item], [])"
proof -
  let ?fr = "fst sample_read" and ?c = "snd sample_read" and ?b = "''\"\"..., 8192) = 4096 <0.000118>'' @ [NEWLINE]"
  let ?fr2 = "?fr\<lparr>fr_start := ''1271322908.363264''\<rparr>"
  have texts: "first_part ?fr ?c ''3, '' = ''18599 1271322908.363138 read(3,  <unfinished ...>'' @ [NEWLINE]"
    "second_part ?fr2 ?c ?b = ''18599 1271322908.363264 <... read resumed> \"\"..., 8192) = 4096 <0.000118>'' @ [NEWLINE]"
    "call_front ?fr ?c ''3, '' = ''18599 1271322908.363138 read(3, ''"
    by (simp_all add: sample_read_def first_part_def second_part_def call_front_def num_def decimal_int_def decimal_step digit_chars)
  have line: "strace_line ?fr ?c = ''18599 1271322908.363138 read(3, \"\"..., 8192) = 4096 <0.000118>'' @ [NEWLINE]"
    using sample_lines(2) by (simp add: case_prod_unfold)
  have parts: "parts_ok ?fr ?fr2 ?c ''3, '' ?b"
    using readme_ok(2) unfolding parts_ok_def texts line
    by (simp add: case_prod_unfold frame_ok_def sample_read_def whole_line_def NEWLINE_def NUL_def is_digit_def MAX_TIME_STRING_def MAX_LINE_def)
  have calls: "\<forall>(fr, c)\<in>set [sample_write]. call_line_ok fr c" using readme_ok(1) by simp
  show ?thesis
    using interrupted_call_joined [OF parts calls, of 0] readme_items sample_lines(1) unfolding texts
    by (simp add: case_prod_unfold)
qed

text \<open>
  C37: A name can hide a call. The line of a call whose file name holds the word "unfinished" is taken
  for the first part of an interrupted call: nothing is loaded from it, and no error is reported.
\<close>

theorem marked_name_lost:
  assumes "frame_ok fr" and "strstr (strace_line fr c) ''unfinished'' \<noteq> None"
    and "strace_process_line junk False (strace_line fr c) st = Inr (rv, st')"
  shows "rv = 0 \<and> loaded st' = loaded st"
proof -
  have "strace_get_operation_code False (strace_line fr c) st = Inr (operation_code (call_name c), st)"
    using line_operation(1) [OF assms(1), of "CHR ''(''" c "call_args c @ result_text fr (call_result c)"]
    by (simp add: strace_line_def line_text_def)
  then show ?thesis
    using assms(2,3) call_name_known(2) [of c]
    by (auto simp: strace_process_line_def strace_step_def strace_read_unfinished_def res_iff split: option.splits if_splits)
qed

abbreviation strace_start :: strace_state where
  "strace_start \<equiv> \<lparr>loaded = [], unfinished = hash_table_init HASH_TABLE_SIZE, counted = stats_init\<rparr>"

definition sample_unfinished :: "frame \<times> traced" where
  "sample_unfinished = (\<lparr>fr_pid = 7, fr_start = ''5.25'', fr_gap = 0, fr_note = [], fr_dur = ''0.000003''\<rparr>,
     Unlink ''/tmp/unfinished'' 0)"

theorem marked_name_lost_witness:
  "\<exists>rv st'. strace_process_line 0 False (''7 5.25 unlink(\"/tmp/unfinished\") = 0 <0.000003>'' @ [NEWLINE])
strace_start = Inr (rv, st') \<and>
     rv = 0 \<and> loaded st' = []"
proof -
  let ?st = strace_start
  let ?fr = "fst sample_unfinished" and ?c = "snd sample_unfinished"
  have line: "strace_line ?fr ?c = ''7 5.25 unlink(\"/tmp/unfinished\") = 0 <0.000003>'' @ [NEWLINE]"
    by (simp add: sample_unfinished_def print_defs)
  have fr: "frame_ok ?fr" by (simp add: sample_unfinished_def frame_ok_def NEWLINE_def NUL_def is_digit_def MAX_TIME_STRING_def)
  have mark: "strstr (strace_line ?fr ?c) ''unfinished'' \<noteq> None" unfolding line by simp
  have pos: "0 < HASH_TABLE_SIZE" by (simp add: HASH_TABLE_SIZE_def)
  have new: "isy.table_inv (unfinished ?st)" "isy.table_map (unfinished ?st) (fr_pid ?fr) = None"
    using isy.init_inv [OF pos] isy.init_map [OF pos] by simp_all
  have len: "length (strace_line ?fr ?c) < MAX_STRING" unfolding line by (simp add: MAX_STRING_def)
  have "\<exists>rv st'. strace_process_line 0 False (strace_line ?fr ?c) ?st = Inr (rv, st')"
    using process_marked [OF fr _ _ new, of ?c "call_args ?c @ result_text ?fr (call_result ?c)" 0] len mark
    by (auto simp: strace_line_def line_text_def)
  then show ?thesis using marked_name_lost [OF fr mark] line by fastforce
qed

text \<open>
  Calls of \<open>rmdir\<close> are not read. The README lists \<open>rmdir\<close> as supported and there is a parser for its
  line, but the name is missing from \<open>strace_get_operation_code\<close>, so the line is passed over as if it
  were unknown.
\<close>

theorem strace_rmdir_lost:
  assumes "frame_ok fr" and "strstr (line_text fr ''rmdir'' args rv) ''resumed'' = None"
  shows "strace_process_line junk False (line_text fr ''rmdir'' args rv) st = Inr (0, st)"
proof -
  let ?l = "line_text fr ''rmdir'' args rv"
  have w: "call_word ''rmdir''" by (simp add: call_word_def QUOTE_def is_space_def is_digit_def)
  have "strace_get_operation_code False ?l st = Inr (OP_UNKNOWN, st)"
    using operation_of_line(1) [OF assms(1) w, of "CHR ''('' # args @ result_text fr rv"]
    by (simp add: line_text_def strace_get_operation_code_def strace_get_operation_def operation_code_def MAX_STRING_def)
  then have "strace_step junk False ?l st = Inr (Done 0, st)"
    using assms(2) by (simp add: strace_step_def finish_line_def strace_dispatch_def op_codes)
  then show ?thesis by (simp add: strace_process_line_def)
qed

theorem strace_rmdir_lost_witness:
  "strace_process_line 0 False (''7 5.25 rmdir(\"/tmp/d\") = 0 <0.000003>'' @ [NEWLINE]) strace_start = Inr (0, strace_start)"
proof -
  let ?fr = "fst sample_unfinished"
  have line: "line_text ?fr ''rmdir'' (quoted ''/tmp/d'') (num 0) = ''7 5.25 rmdir(\"/tmp/d\") = 0 <0.000003>'' @ [NEWLINE]"
    by (simp add: sample_unfinished_def print_defs)
  have fr: "frame_ok ?fr" by (simp add: sample_unfinished_def frame_ok_def NEWLINE_def NUL_def is_digit_def MAX_TIME_STRING_def)
  show ?thesis
    using strace_rmdir_lost [OF fr, of "quoted ''/tmp/d''" "num 0" 0 strace_start] unfolding line by (simp add: NEWLINE_def)
qed

text \<open>
  C38: A quote that is not closed. When the data of a transfer does not end with a quote (the line was
  longer than the buffer, or the file was cut), the search for the quote runs past the end of the line.
\<close>

theorem strace_open_quote_overflow:
  assumes "frame_ok fr" and "name \<in> {''read'', ''write'', ''pread'', ''pwrite''}" and "QUOTE \<notin> set data"
    and "l = num (fr_pid fr) @ '' '' @ fr_start fr @ '' '' @ name @ ''('' @ num fd @ '', '' @ QUOTE # data"
    and "plain_line l"
  shows "strace_process_line junk False l st = Inl Overflow"
proof -
  have w: "call_word name" and short: "length name < MAX_STRING" and n: "name \<noteq> []" "CHR ''('' \<notin> set name"
    using assms(2) by (auto simp: MAX_STRING_def)
  have "skip_prefix l = name @ CHR ''('' # num fd @ '', '' @ QUOTE # data"
    using operation_of_line(1) [OF assms(1) w] unfolding assms(4) by simp
  then have code: "strace_get_operation_code False l st = Inr (operation_code name, st)"
    using short by (simp add: strace_get_operation_code_def strace_get_operation_def name_up_to [OF w])
  have first: "strace_first l = Inr (Some (fr_pid fr, fr_start fr, fd))"
    using scan_start [OF assms(1)] call_word_start [OF w] scan_open_paren [OF n]
    by (simp add: assms(4) strace_first_def sscanf_def scan_num scan_lits)
  have none: "closing_quote b data = None" for b using assms(3) by (induction data arbitrary: b) auto
  let ?front = "num (fr_pid fr) @ '' '' @ fr_start fr @ '' '' @ name @ ''('' @ num fd @ '', ''"
  have l: "l = ?front @ QUOTE # data" by (simp add: assms(4))
  have "strace_pos_comma l = Inl Overflow"
    unfolding l strace_pos_comma_def quote_found(1) [OF assms(1) w] option.case if_not_P [OF quote_found(2) [OF assms(1) w]]
      drop_past none ..
  then have second: "strace_second fmt l = Inl Overflow" for fmt by (simp add: strace_second_def)
  have "strace_dispatch (operation_code name) l st = Inl Overflow"
    using assms(2) by (elim insertE emptyE) (simp_all add: strace_dispatch_def operation_code_def op_codes keep_item_def
        strace_read_read_def strace_read_write_def strace_read_pread_def strace_read_pwrite_def first second)
  then have "strace_step junk False l st = Inl Overflow"
    using assms(5) code by (simp add: strace_step_def plain_line_def finish_line_def)
  then show ?thesis by (simp add: strace_process_line_def)
qed

theorem strace_open_quote_overflow_witness:
  "strace_process_line 0 False (''7 5.25 read(3, \"abc'' @ [NEWLINE]) strace_start = Inl Overflow"
proof -
  let ?fr = "fst sample_unfinished"
  have fr: "frame_ok ?fr" by (simp add: sample_unfinished_def frame_ok_def NEWLINE_def NUL_def is_digit_def MAX_TIME_STRING_def)
  have line: "''7 5.25 read(3, \"abc'' @ [NEWLINE] =
      num (fr_pid ?fr) @ '' '' @ fr_start ?fr @ '' '' @ ''read'' @ ''('' @ num 3 @ '', '' @ QUOTE # ''abc'' @ [NEWLINE]"
    by (simp add: sample_unfinished_def print_defs)
  show ?thesis
    by (rule strace_open_quote_overflow [OF fr _ _ line]) (simp_all add: QUOTE_def NEWLINE_def plain_line_def)
qed

text \<open>
  C39: Modes of \<open>open\<close>. \<open>strace\<close> prints the mode of a created file as an octal number; \<open>mkdir\<close> is read
  so, but \<open>open\<close> reads the same text as a decimal number.
\<close>

theorem strace_open_mode_decimal:
  assumes "frame_ok fr" and "file_name name" and "field (CHR '','') flags"
    and "mode \<noteq> []" and "\<forall>c\<in>set mode. base_digit 8 c" and "base_digits_val 10 0 mode < 2 ^ 32"
  shows "strace_read_open (line_text fr ''open'' (quoted name @ '', '' @ flags @ '', '' @ mode) (num rv)) =
    Inr (Some \<lparr>type = OP_OPEN, body = S_open \<lparr>open_name = name, open_flags = read_open_flags flags,
      open_mode = of_nat (base_digits_val 10 0 mode), open_retval = rv, open_info = frame_info fr\<rparr>\<rparr>)"
proof -
  have f: "flags \<noteq> []" "CHR '','' \<notin> set flags" "length flags < MAX_STRING" using assms(3) by (auto simp: field_def region_def)
  have mode: "\<forall>c\<in>set mode. base_digit 10 c" using assms(5) by (auto simp: base_digit_def)
  have "scan_loop (Until (CHR '','') None MAX_STRING # Lit (CHR '','') # Space # Unsigned 10 # fmt_result)
      (flags @ CHR '','' # CHR '' '' # mode @ result_text fr (num rv)) args =
      Inr (Some (args @ [Str flags, I32 (of_nat (base_digits_val 10 0 mode)), I32 rv, Str (fr_dur fr)]))" for args
    using scan_unsigned [OF assms(4) mode _ assms(6)]
    by (simp add: scan_Until [OF f] scan_lits skip_space_Cons scan_result(1) [OF assms(1)])
  then show ?thesis
    using assms(1,2,3) by (simp add: strace_read_open_def scan_parts info)
qed

theorem strace_open_mode_decimal_witness:
  "strace_read_open (''7 5.25 open(\"/tmp/a\", O_WRONLY, 0644) = 3 <0.000003>'' @ [NEWLINE]) =
    Inr (Some \<lparr>type = OP_OPEN, body = S_open \<lparr>open_name = ''/tmp/a'', open_flags = read_open_flags ''O_WRONLY'',
      open_mode = 644, open_retval = 3, open_info = frame_info (fst sample_unfinished)\<rparr>\<rparr>) \<and> octal ''0644'' = 420"
proof -
  let ?fr = "fst sample_unfinished"
  have line: "line_text ?fr ''open'' (quoted ''/tmp/a'' @ '', '' @ ''O_WRONLY'' @ '', '' @ ''0644'') (num 3) =
      ''7 5.25 open(\"/tmp/a\", O_WRONLY, 0644) = 3 <0.000003>'' @ [NEWLINE]"
    by (simp add: sample_unfinished_def print_defs)
  have fr: "frame_ok ?fr" by (simp add: sample_unfinished_def frame_ok_def NEWLINE_def NUL_def is_digit_def MAX_TIME_STRING_def)
  have val: "base_digits_val 10 0 ''0644'' = 644" "base_digits_val 8 0 ''0644'' = 420"
    by (simp_all add: base_val_def is_digit_def digit_val_def)
  have "strace_read_open (line_text ?fr ''open'' (quoted ''/tmp/a'' @ '', '' @ ''O_WRONLY'' @ '', '' @ ''0644'') (num 3)) =
    Inr (Some \<lparr>type = OP_OPEN, body = S_open \<lparr>open_name = ''/tmp/a'', open_flags = read_open_flags ''O_WRONLY'',
      open_mode = of_nat (base_digits_val 10 0 ''0644''), open_retval = 3, open_info = frame_info ?fr\<rparr>\<rparr>)"
    by (rule strace_open_mode_decimal [OF fr])
      (simp_all add: file_name_def field_def region_def QUOTE_def is_space_def MAX_STRING_def base_digit_def is_digit_def digit_val_def val(1) del: base_digits_val.simps)
  then show ?thesis unfolding line val(1) by (simp add: octal_def val(2) del: base_digits_val.simps)
qed

section \<open>Witnesses for arbitrary lines\<close>

theorem strace_line_keeps_state_witness:
  "\<exists>st'. strace_process_line 0 False (''18600 1271322908.363234 write(1, \"\"..., 4096) = 4096 <0.000008>'' @ [NEWLINE]) strace_start = Inr (0, st') \<and>
     strace_inv st' \<and> loaded st' = [readme_write_item]"
proof -
  let ?fr = "fst sample_write" and ?c = "snd sample_write"
  have run: "strace_process_line 0 False (strace_line ?fr ?c) strace_start =
      Inr (0, strace_start\<lparr>loaded := [call_item (frame_info ?fr) ?c]\<rparr>)"
    using process_plain [of ?fr ?c 0 strace_start] readme_ok(1) by (simp add: case_prod_unfold)
  have "c_string (strace_line ?fr ?c)" using readme_ok(1) by (simp add: case_prod_unfold call_line_ok_def whole_line_def)
  from strace_line_keeps_state [OF strace_start_inv this run] show ?thesis
    using run readme_items(1) sample_lines(1) by (simp add: case_prod_unfold)
qed

theorem strace_to_binary_witness:
  "\<exists>f. bin_save_items 2 (Some 100) [readme_write_item] = Inr (0, Some f) \<and> bin_get_items 2 (Some f) [] = Inr (0, [readme_write_item])"
proof (rule strace_to_binary)
  show "strace_get_items 0 False (Inr (case_prod strace_line sample_write)) [] = Inr (0, [readme_write_item], [])"
    using strace_lines_plain [of "[sample_write]" 0 "[]"] readme_ok(1) readme_items(1)
    by (simp add: strace_get_items_def strace_lines_Nil case_prod_unfold)
  show "length (encode_all [readme_write_item]) \<le> 100"
    by (simp add: readme_write_item_def encode_all_def bin_encode_def enc32_def enc64_def enc_info_def)
qed

end
