(* ===== verification/Ioreplay.thy ===== *)
theory Ioreplay
  imports Print Strace_Files Replicate Timing
begin

text \<open>
  The program \<open>ioreplay\<close> (\<open>ioreplay.c\<close>): its options, as \<open>getopt_long\<close> delivers them, the loading of
  the trace and the choice of the action. Texts of help and messages are left out; of the delays
  between calls, which \<open>Timing\<close> models, only the failure is kept.
\<close>

section \<open>Options\<close>

text \<open>The option string \<open>"b:cCdf:F:hi:m:Mo:pPrs:St:vV"\<close>: whether a letter takes an argument.\<close>

definition short_option :: "char \<Rightarrow> bool option" where
  "short_option c =
     (if c \<in> set ''bfFimost'' then Some True
      else if c \<in> set ''cCdhMpPrSvV'' then Some False else None)"

definition ioreplay_options :: "(string \<times> bool \<times> char) list" where
  "ioreplay_options =
     [(''bind'', True, CHR ''b''), (''convert'', False, CHR ''c''), (''check'', False, CHR ''C''),
      (''dont-fix'', False, CHR ''d''), (''file'', True, CHR ''f''), (''format'', True, CHR ''F''),
      (''help'', False, CHR ''h''), (''ignore'', True, CHR ''i''), (''map'', False, CHR ''m''),
      (''output'', True, CHR ''o''), (''replicate'', False, CHR ''r''), (''prepare'', False, CHR ''p''),
      (''print'', False, CHR ''P''), (''scale'', True, CHR ''s''), (''stats'', True, CHR ''S''),
      (''timing'', True, CHR ''t''), (''verbose'', False, CHR ''v''), (''version'', False, CHR ''V'')]"

text \<open>
  \<open>getopt_long\<close> of the C library, as a function from the arguments to what its calls return: a letter
  with \<open>optarg\<close> (\<open>None\<close> for \<open>NULL\<close>), \<open>'?'\<close> after an error. Arguments that are no options are passed
  over, and \<open>--\<close> ends the options. First a group of letters, with the arguments behind it.
\<close>

type_synonym option_call = "char \<times> string option"

fun short_group :: "string \<Rightarrow> string list \<Rightarrow> option_call list \<times> string list" where
  "short_group [] rest = ([], rest)"
| "short_group (c # cs) rest =
     (case short_option c of
        None \<Rightarrow> (let (os, r) = short_group cs rest in ((CHR ''?'', None) # os, r))
      | Some False \<Rightarrow> (let (os, r) = short_group cs rest in ((c, None) # os, r))
      | Some True \<Rightarrow>
          if cs \<noteq> [] then ([(c, Some cs)], rest)
          else (case rest of [] \<Rightarrow> ([(CHR ''?'', None)], []) | a # r \<Rightarrow> ([(c, Some a)], r)))"

text \<open>A long name may be shortened as long as all options it can mean agree.\<close>

definition find_long :: "string \<Rightarrow> (bool \<times> char) option" where
  "find_long name =
     (case List.find (\<lambda>(n, opt). n = name) ioreplay_options of
        Some (n, opt) \<Rightarrow> Some opt
      | None \<Rightarrow>
          (case remdups (map snd (filter (\<lambda>(n, opt). starts_with name n) ioreplay_options)) of
             [opt] \<Rightarrow> Some opt | _ \<Rightarrow> None))"

definition long_option :: "string \<Rightarrow> string list \<Rightarrow> option_call \<times> string list" where
  "long_option arg rest =
     (let name = takeWhile (\<lambda>c. c \<noteq> CHR ''='') arg; value = drop (length name) arg in
      case find_long name of
        None \<Rightarrow> ((CHR ''?'', None), rest)
      | Some (False, c) \<Rightarrow> (if value = [] then ((c, None), rest) else ((CHR ''?'', None), rest))
      | Some (True, c) \<Rightarrow>
          if value \<noteq> [] then ((c, Some (tl value)), rest)
          else (case rest of [] \<Rightarrow> ((CHR ''?'', None), []) | a # r \<Rightarrow> ((c, Some a), r)))"

function getopt_long :: "string list \<Rightarrow> option_call list" where
  "getopt_long args =
     (case args of
        [] \<Rightarrow> []
      | a # rest \<Rightarrow>
          if a = ''--'' then []
          else if starts_with ''--'' a then
            (let (call, r) = long_option (drop 2 a) rest in call # getopt_long r)
          else if starts_with ''-'' a \<and> a \<noteq> ''-'' then
            (let (calls, r) = short_group (drop 1 a) rest in calls @ getopt_long r)
          else getopt_long rest)"
  by pat_completeness auto

lemma short_group_rest: "length (snd (short_group cs rest)) \<le> length rest"
  by (induction cs rest rule: short_group.induct) (auto simp: Let_def split: option.split bool.split list.split prod.split)

lemma long_option_rest: "length (snd (long_option arg rest)) \<le> length rest"
  by (auto simp: long_option_def Let_def split: option.split bool.split list.split prod.split)

termination getopt_long
proof (relation "measure length", goal_cases)
  case (2 args a rest x call r)
  then have "snd (long_option (drop 2 a) rest) = r" by (metis snd_conv)
  then show ?case using 2 long_option_rest [of "drop 2 a" rest] by simp
next
  case (3 args a rest x calls r)
  then have "snd (short_group (drop 1 a) rest) = r" by (metis snd_conv)
  then show ?case using 3 short_group_rest [of "drop 1 a" rest] by simp
qed auto

declare getopt_long.simps [simp del]

section \<open>Settings\<close>

text \<open>
  The variables of \<open>main\<close>. The names are buffers of \<open>MAX_STRING\<close> bytes, filled by \<open>strncpy\<close>; one that
  is full has no terminator. \<open>opt_scale\<close> is the text of the factor.
\<close>

record settings =
  opt_format :: string
  opt_filename :: string
  opt_output :: string
  opt_ignorefile :: string
  opt_mapfile :: string
  opt_action :: i32
  opt_cpu :: i32
  opt_scale :: "string option"
  opt_verbose :: bool

definition settings_start :: "i32 \<Rightarrow> settings" where
  "settings_start cpu =
     \<lparr>opt_format = ''strace'', opt_filename = ''strace.file'', opt_output = ''strace.bin'', opt_ignorefile = [],
      opt_mapfile = [], opt_action = FIX_MISSING, opt_cpu = cpu, opt_scale = None, opt_verbose = False\<rparr>"

definition strncpy :: "string option \<Rightarrow> string res" where
  "strncpy arg = bindR (of_opt Null_Deref arg) (\<lambda>s. Inr (take MAX_STRING s))"

definition buffer_text :: "string \<Rightarrow> string res" where
  "buffer_text b = (if length b < MAX_STRING then Inr b else Inl Overflow)"

text \<open>What the parsing ends with: the settings, or the exit of the program.\<close>

datatype parsed = Settings settings | Exits i32

text \<open>One case of the switch. \<open>atof_zero\<close> says that \<open>atof\<close> gives 0.\<close>

definition parse_option :: "(string \<Rightarrow> bool) \<Rightarrow> option_call \<Rightarrow> settings \<Rightarrow> parsed res" where
  "parse_option atof_zero call st =
     (let (c, optarg) = call;
          add = (\<lambda>flag. Inr (Settings (st\<lparr>opt_action := or (opt_action st) flag\<rparr>)));
          time_mode = (\<lambda>flag. Inr (Settings (st\<lparr>opt_action := or (and (opt_action st) (not TIME_MASK)) flag\<rparr>))) in
      if c = CHR ''b'' then bindR (of_opt Null_Deref optarg) (\<lambda>a. Inr (Settings (st\<lparr>opt_cpu := atoi a\<rparr>)))
      else if c = CHR ''c'' then add ACT_CONVERT
      else if c = CHR ''C'' then add ACT_CHECK
      else if c = CHR ''d'' then Inr (Settings (st\<lparr>opt_action := and (opt_action st) (not FIX_MISSING)\<rparr>))
      else if c = CHR ''f'' then bindR (strncpy optarg) (\<lambda>s. Inr (Settings (st\<lparr>opt_filename := s\<rparr>)))
      else if c = CHR ''F'' then bindR (strncpy optarg) (\<lambda>s. Inr (Settings (st\<lparr>opt_format := s\<rparr>)))
      else if c = CHR ''h'' then Inr (Exits 0)
      else if c = CHR ''i'' then bindR (strncpy optarg) (\<lambda>s. Inr (Settings (st\<lparr>opt_ignorefile := s\<rparr>)))
      else if c = CHR ''m'' then bindR (strncpy optarg) (\<lambda>s. Inr (Settings (st\<lparr>opt_mapfile := s\<rparr>)))
      else if c = CHR ''M'' then add ACT_SIMULATE
      else if c = CHR ''o'' then bindR (strncpy optarg) (\<lambda>s. Inr (Settings (st\<lparr>opt_output := s\<rparr>)))
      else if c = CHR ''r'' then add ACT_REPLICATE
      else if c = CHR ''p'' then add ACT_PREPARE
      else if c = CHR ''P'' then add ACT_PRINT
      else if c = CHR ''s'' then
        bindR (of_opt Null_Deref optarg) (\<lambda>a.
        Inr (if atof_zero a then Exits (-1) else Settings (st\<lparr>opt_scale := Some a\<rparr>)))
      else if c = CHR ''S'' then add ACT_STATS
      else if c = CHR ''t'' then
        bindR (of_opt Null_Deref optarg) (\<lambda>a.
        if a = ''diff'' then time_mode TIME_DIFF
        else if a = ''exact'' then time_mode TIME_EXACT
        else if a = ''asap'' then time_mode TIME_ASAP
        else Inr (Exits (-1)))
      else if c = CHR ''v'' then Inr (Settings (st\<lparr>opt_verbose := True\<rparr>))
      else if c = CHR ''V'' then Inr (Exits 0)
      else Inr (Exits (-1)))"

fun parse_options :: "(string \<Rightarrow> bool) \<Rightarrow> option_call list \<Rightarrow> settings \<Rightarrow> parsed res" where
  "parse_options atof_zero [] st = Inr (Settings st)"
| "parse_options atof_zero (call # calls) st =
     bindR (parse_option atof_zero call st) (\<lambda>r.
     case r of Settings st \<Rightarrow> parse_options atof_zero calls st | Exits rv \<Rightarrow> Inr (Exits rv))"

section \<open>The program\<close>

text \<open>
  What the program gets from outside besides \<open>'w env\<close>: the value of \<open>errno\<close> for a file that cannot
  be opened, the room on the device for the output, \<open>atof\<close>, a processor chosen at random, and what
  uninitialized variables hold.
\<close>

record 'w os =
  os_env :: "'w env"
  os_errno :: i32
  os_room :: "string \<Rightarrow> nat option"
  os_atof_zero :: "string \<Rightarrow> bool"
  os_cpu :: i32
  os_junk_pid :: i32
  os_junk_map :: fd_map

text \<open>The status with which it ends and what it wrote.\<close>

record 'w outcome =
  exit_status :: i32
  out_printed :: string
  out_stats :: "statistic_item list"
  out_saved :: "string option"
  out_checked :: "string list"
  out_world :: 'w

definition ends_with :: "i32 \<Rightarrow> statistic_item list \<Rightarrow> 'w \<Rightarrow> 'w outcome" where
  "ends_with rv stats w =
     \<lparr>exit_status = rv, out_printed = [], out_stats = stats, out_saved = None, out_checked = [], out_world = w\<rparr>"

text \<open>Loading: the return value, the items, and the statistics that were printed.\<close>

definition load_items :: "'w os \<Rightarrow> settings \<Rightarrow> 'w \<Rightarrow> (i32 \<times> op_item list \<times> statistic_item list) res" where
  "load_items os st w =
     (if opt_format st = ''strace'' then
        bindR (buffer_text (opt_filename st)) (\<lambda>f.
        strace_get_items (os_junk_pid os) (has_flag (opt_action st) ACT_STATS)
          (case files_of (os_env os) w f of None \<Rightarrow> Inl (os_errno os) | Some text \<Rightarrow> Inr text) [])
      else if opt_format st = ''bin'' then
        bindR (buffer_text (opt_filename st)) (\<lambda>f.
        bindR (bin_get_items (sint (os_errno os)) (files_of (os_env os) w f) []) (\<lambda>(rv, items).
        Inr (word_of_int rv, items, [])))
      else bindR (buffer_text (opt_format st)) (\<lambda>_. Inr (-1, [], [])))"

text \<open>
  The call of \<open>replicate\<close>, whose return value only decides about a message. The delays between the calls
  take time and change nothing; but when the clock rate was not determined, the delay before the first
  call, after the initialization, divides by zero.
\<close>

definition delay_divides :: "i32 \<Rightarrow> bool" where
  "delay_divides m \<longleftrightarrow> (has_flag m TIME_DIFF \<or> has_flag m TIME_EXACT) \<and> replay_rate m 1 = 0"

definition run_replicate ::
  "'w os \<Rightarrow> op_item list \<Rightarrow> i32 \<Rightarrow> string option \<Rightarrow> string option \<Rightarrow> sim_state \<Rightarrow> 'w \<Rightarrow> 'w rep res" where
  "run_replicate os items m ifile mfile x w =
     (let s = rep_start w (os_junk_map os) x in
      if items \<noteq> [] \<and> delay_divides m then
        bindR (replicate_init (os_env os) (pid (op_info_of (body (hd items)))) ifile mfile s) (\<lambda>(rv, s).
        if rv \<noteq> 0 then Inr s else Inl Div_Zero)
      else bindR (replicate_all (os_env os) items m ifile mfile s) (\<lambda>(rv, s). Inr s))"

definition run_action ::
  "'w os \<Rightarrow> settings \<Rightarrow> op_item list \<Rightarrow> statistic_item list \<Rightarrow> string option \<Rightarrow> string option \<Rightarrow> 'w \<Rightarrow> 'w outcome res" where
  "run_action os st items stats ifile mfile w =
     (let m = opt_action st; finished = ends_with 0 stats w in
      if has_flag m ACT_PRINT then
        bindR (print_items items) (\<lambda>(rv, out). Inr (finished\<lparr>out_printed := out\<rparr>))
      else if has_flag m ACT_CONVERT then
        bindR (buffer_text (opt_output st)) (\<lambda>f.
        bindR (bin_save_items (sint (os_errno os)) (os_room os f) items) (\<lambda>(rv, saved). Inr (finished\<lparr>out_saved := saved\<rparr>)))
      else if has_flag m ACT_SIMULATE then
        bindR (run_replicate os items m ifile mfile (simulate_init ACT_SIMULATE sim_start) w) (\<lambda>s.
        Inr (finished\<lparr>out_world := world s\<rparr>))
      else if has_flag m ACT_CHECK then
        bindR (run_replicate os items (or m ACT_SIMULATE) ifile mfile (simulate_init ACT_CHECK sim_start) w) (\<lambda>s.
        bindR (simulate_check_files (sim s)) (\<lambda>out.
        Inr (finished\<lparr>out_world := world s, out_checked := out\<rparr>)))
      else if has_flag m ACT_PREPARE then
        bindR (run_replicate os items m ifile mfile (simulate_init ACT_PREPARE sim_start) w) (\<lambda>s.
        Inr (finished\<lparr>out_world := world s\<rparr>))
      else if has_flag m ACT_REPLICATE then
        (let m = (if and m TIME_MASK = 0 then or m TIME_DIFF else m) in
         bindR (run_replicate os items m ifile mfile sim_start w) (\<lambda>s.
         Inr (finished\<lparr>out_world := world s\<rparr>)))
      else Inr finished)"

definition optional_file :: "string \<Rightarrow> string option res" where
  "optional_file b = bindR (buffer_text b) (\<lambda>f. Inr (if f = [] then None else Some f))"

definition main :: "'w os \<Rightarrow> string list \<Rightarrow> 'w \<Rightarrow> 'w outcome res" where
  "main os args w =
     bindR (parse_options (os_atof_zero os) (getopt_long args) (settings_start (os_cpu os))) (\<lambda>r.
     case r of
       Exits rv \<Rightarrow> Inr (ends_with rv [] w)
     | Settings st \<Rightarrow>
         bindR (load_items os st w) (\<lambda>(rv, items, stats).
         if rv \<noteq> 0 then Inr (ends_with rv stats w)
         else bindR (optional_file (opt_ignorefile st)) (\<lambda>ifile.
              bindR (optional_file (opt_mapfile st)) (\<lambda>mfile.
              if items = [] then Inr (ends_with 0 stats w)
              else run_action os st items stats ifile mfile w))))"

section \<open>Properties\<close>

text \<open>The command lines of the conversion and of the two printings.\<close>

lemma convert_options:
  "getopt_long [''-c'', ''-f'', f, ''-o'', g] = [(CHR ''c'', None), (CHR ''f'', Some f), (CHR ''o'', Some g)]"
  "getopt_long [''-P'', ''-f'', f] = [(CHR ''P'', None), (CHR ''f'', Some f)]"
  "getopt_long [''-F'', ''bin'', ''-P'', ''-f'', g] = [(CHR ''F'', Some ''bin''), (CHR ''P'', None), (CHR ''f'', Some g)]"
  by (simp_all add: getopt_long.simps short_option_def)

definition trace_settings :: "i32 \<Rightarrow> string \<Rightarrow> string \<Rightarrow> string \<Rightarrow> i32 \<Rightarrow> settings" where
  "trace_settings cpu fmt file out flag = (settings_start cpu)
     \<lparr>opt_format := fmt, opt_filename := file, opt_output := out, opt_action := or FIX_MISSING flag\<rparr>"

lemma command_lines:
  assumes "length f < MAX_STRING" "length g < MAX_STRING"
  shows "parse_options z (getopt_long [''-c'', ''-f'', f, ''-o'', g]) (settings_start cpu) =
      Inr (Settings (trace_settings cpu ''strace'' f g ACT_CONVERT))"
    "parse_options z (getopt_long [''-P'', ''-f'', f]) (settings_start cpu) =
      Inr (Settings (trace_settings cpu ''strace'' f ''strace.bin'' ACT_PRINT))"
    "parse_options z (getopt_long [''-F'', ''bin'', ''-P'', ''-f'', g]) (settings_start cpu) =
      Inr (Settings (trace_settings cpu ''bin'' g ''strace.bin'' ACT_PRINT))"
  unfolding convert_options
  using assms by (simp_all add: parse_option_def strncpy_def settings_start_def trace_settings_def MAX_STRING_def)

lemma trace_settings_flags:
  "\<not> has_flag (or FIX_MISSING ACT_CONVERT) ACT_PRINT" "has_flag (or FIX_MISSING ACT_CONVERT) ACT_CONVERT"
  "has_flag (or FIX_MISSING ACT_PRINT) ACT_PRINT" "\<not> has_flag (or FIX_MISSING ACT_PRINT) ACT_STATS"
  "\<not> has_flag (or FIX_MISSING ACT_CONVERT) ACT_STATS"
  by (simp_all add: has_flag_def mask_defs)

lemma main_trace:
  assumes "parse_options (os_atof_zero os) (getopt_long args) (settings_start (os_cpu os)) =
      Inr (Settings (trace_settings (os_cpu os) fmt file out flag))"
    and "load_items os (trace_settings (os_cpu os) fmt file out flag) w = Inr (rv, items, stats)"
  shows "main os args w = (if rv \<noteq> 0 then Inr (ends_with rv stats w) else if items = [] then Inr (ends_with 0 stats w)
    else run_action os (trace_settings (os_cpu os) fmt file out flag) items stats None None w)"
  using assms by (simp add: main_def optional_file_def buffer_text_def MAX_STRING_def trace_settings_def settings_start_def)

text \<open>
  C8: Conversion keeps a trace. When \<open>ioreplay -c\<close> has converted a \<open>strace\<close> file, printing the binary file
  (\<open>-F bin -P\<close>) gives the same text and status as printing the \<open>strace\<close> file (\<open>-P\<close>).
\<close>

theorem convert_then_print:
  fixes os :: "'w os"
  assumes "length f < MAX_STRING" and "length g < MAX_STRING"
    and "main os [''-c'', ''-f'', f, ''-o'', g] w = Inr c" and "out_saved c = Some data"
    and "files_of (os_env os) w' g = Some data"
    and "main os [''-P'', ''-f'', f] w = Inr p"
  shows "main os [''-F'', ''bin'', ''-P'', ''-f'', g] w' = Inr (p\<lparr>out_world := w'\<rparr>)"
proof -
  let ?conv = "trace_settings (os_cpu os) ''strace'' f g ACT_CONVERT"
    and ?print = "trace_settings (os_cpu os) ''strace'' f ''strace.bin'' ACT_PRINT"
    and ?bin = "trace_settings (os_cpu os) ''bin'' g ''strace.bin'' ACT_PRINT"
  note lines = command_lines [OF assms(1,2)]
  let ?input = "case files_of (os_env os) w f of None \<Rightarrow> Inl (os_errno os) | Some text \<Rightarrow> Inr text"
  let ?load = "strace_get_items (os_junk_pid os) False ?input []"
  have load: "load_items os ?conv w = ?load" "load_items os ?print w = ?load"
    using assms(1) trace_settings_flags by (simp_all add: load_items_def buffer_text_def trace_settings_def)
  obtain rv items stats where items: "?load = Inr (rv, items, stats)"
    using assms(3) load by (cases ?load) (auto simp: main_def lines)
  have ok: "\<forall>it\<in>set items. saveable it" using strace_get_items_ends [of "os_junk_pid os" False ?input] items by simp
  have run: "main os [''-c'', ''-f'', f, ''-o'', g] w = (if rv \<noteq> 0 then Inr (ends_with rv stats w) else if items = [] then Inr (ends_with 0 stats w)
      else run_action os ?conv items stats None None w)"
    "main os [''-P'', ''-f'', f] w = (if rv \<noteq> 0 then Inr (ends_with rv stats w) else if items = [] then Inr (ends_with 0 stats w)
      else run_action os ?print items stats None None w)"
    using load items by (auto simp only: intro!: main_trace [OF lines(1)] main_trace [OF lines(2)])
  have nonempty: "rv = 0" "items \<noteq> []"
    using run(1) assms(3,4) by (auto simp: ends_with_def split: if_splits)
  have "\<forall>it\<in>set items. item_ok it" using ok by (auto intro: saveable_item_ok)
  then have data: "data = encode_all items"
    using run(1) nonempty assms(2,3,4) trace_settings_flags
    by (cases "os_room os g") (auto simp: run_action_def trace_settings_def buffer_text_def ends_with_def bin_save_items_encode
        bin_save_items_def [of _ None] split: if_splits)
  have bin: "load_items os ?bin w' = Inr (0, items, [])"
    using assms(2,5) data bin_get_loop_encode [OF ok, of "[]" "[]"]
    by (simp add: load_items_def buffer_text_def trace_settings_def bin_get_items_def)
  have "stats = []"
    using items by (auto simp: strace_get_items_def res_iff split: sum.splits)
  moreover have act: "run_action os (trace_settings (os_cpu os) fmt name out ACT_PRINT) items [] None None v =
      bindR (print_items items) (\<lambda>(rv, out). Inr ((ends_with 0 [] v)\<lparr>out_printed := out\<rparr>))" for fmt name out and v :: 'w
    using trace_settings_flags by (simp add: run_action_def trace_settings_def)
  ultimately have "Inr p = bindR (print_items items) (\<lambda>(rv, out). Inr ((ends_with 0 [] w)\<lparr>out_printed := out\<rparr>))"
    using run(2) nonempty assms(6) by simp
  then show ?thesis
    unfolding main_trace [OF lines(3) bin] act using nonempty(2)
    by (cases "print_items items") (auto simp: ends_with_def split: prod.splits)
qed

text \<open>
  The long form of \<open>-m\<close>. The table of long options says that \<open>--map\<close> takes no argument, so the name of
  the file is \<open>NULL\<close> when it is copied: \<open>ioreplay --map file\<close>, as the help describes it, dereferences
  a null pointer.
\<close>

theorem long_map_null:
  "main os (''--map'' # args) w = Inl Null_Deref"
  by (subst main_def, subst getopt_long.simps)
    (simp add: long_option_def find_long_def ioreplay_options_def parse_option_def strncpy_def Let_def)

text \<open>A system whose world is the files it holds.\<close>

type_synonym files = "string \<Rightarrow> string option"

definition file_os :: "files os" where
  "file_os = \<lparr>os_env = \<lparr>sys = (\<lambda>c w. (0, w)), sys_sendfile = (\<lambda>a b c d w. (0, 0, w)), disk_of = (\<lambda>_. \<lparr>on_disk = (\<lambda>_. False), st_size = (\<lambda>_. 0), cwd = Some ''/''\<rparr>),
      files_of = (\<lambda>w. w), fnmatch = (\<lambda>a b. 1), junk_mode = 0, junk_start = \<lparr>tv_sec = 0, tv_usec = 0\<rparr>\<rparr>,
     os_errno = 2, os_room = (\<lambda>f. Some 100), os_atof_zero = (\<lambda>s. False), os_cpu = 0, os_junk_pid = 0,
     os_junk_map = sample_map\<rparr>"

definition readme_files :: files where
  "readme_files = [''a'' \<mapsto> ''18600 1271322908.363234 write(1, \"\"..., 4096) = 4096 <0.000008>'' @ [NEWLINE]]"

theorem convert_then_print_witness:
  "\<exists>data p. main file_os [''-P'', ''-f'', ''a''] readme_files = Inr p \<and> out_printed p \<noteq> [] \<and>
     main file_os [''-F'', ''bin'', ''-P'', ''-f'', ''b''] (readme_files(''b'' \<mapsto> data)) =
       Inr (p\<lparr>out_world := readme_files(''b'' \<mapsto> data)\<rparr>)"
proof -
  have len: "length ''a'' < MAX_STRING" "length ''b'' < MAX_STRING" by (simp_all add: MAX_STRING_def)
  have items: "strace_get_items 0 False (Inr (''18600 1271322908.363234 write(1, \"\"..., 4096) = 4096 <0.000008>'' @ [NEWLINE])) [] =
      Inr (0, [readme_write_item], [])"
    using strace_lines_plain [of "[sample_write]" 0 "[]"] readme_ok(1) readme_items(1) sample_lines(1)
    by (simp add: strace_get_items_def strace_lines_Nil case_prod_unfold)
  have load: "load_items file_os (trace_settings 0 ''strace'' ''a'' out flag) readme_files = Inr (0, [readme_write_item], [])"
    if "\<not> has_flag (or FIX_MISSING flag) ACT_STATS" for out flag
    using that items by (simp add: load_items_def trace_settings_def buffer_text_def MAX_STRING_def file_os_def readme_files_def)
  have cpu: "os_cpu file_os = 0" by (simp add: file_os_def)
  have enc: "length (encode_all [readme_write_item]) \<le> 100" "item_ok readme_write_item"
    by (simp_all add: readme_write_item_def encode_all_def bin_encode_def enc32_def enc64_def enc_info_def item_ok_def)
  let ?conv = "trace_settings 0 ''strace'' ''a'' ''b'' ACT_CONVERT" and ?print = "trace_settings 0 ''strace'' ''a'' ''strace.bin'' ACT_PRINT"
  note lines = command_lines [OF len, of "os_atof_zero file_os" "os_cpu file_os", unfolded cpu]
  have "main file_os [''-c'', ''-f'', ''a'', ''-o'', ''b''] readme_files = run_action file_os ?conv [readme_write_item] [] None None readme_files"
    using main_trace [of file_os, unfolded cpu, OF lines(1) load [OF trace_settings_flags(5)]] by simp
  also have "\<dots> = Inr ((ends_with 0 [] readme_files)\<lparr>out_saved := Some (encode_all [readme_write_item])\<rparr>)"
    using trace_settings_flags(1,2) len enc
    by (simp add: run_action_def trace_settings_def buffer_text_def bin_save_items_encode file_os_def)
  finally obtain c where c: "main file_os [''-c'', ''-f'', ''a'', ''-o'', ''b''] readme_files = Inr c"
    "out_saved c = Some (encode_all [readme_write_item])" by simp
  have "main file_os [''-P'', ''-f'', ''a''] readme_files = run_action file_os ?print [readme_write_item] [] None None readme_files"
    using main_trace [of file_os, unfolded cpu, OF lines(2) load [OF trace_settings_flags(4)]] by simp
  also have "\<dots> = Inr ((ends_with 0 [] readme_files)\<lparr>out_printed := print_body (body readme_write_item)\<rparr>)"
    using trace_settings_flags(3) print_op_body [OF enc(2)] by (simp add: run_action_def trace_settings_def)
  finally obtain p where p: "main file_os [''-P'', ''-f'', ''a''] readme_files = Inr p" "out_printed p \<noteq> []"
    by (simp add: readme_write_item_def print_call_defs print_call_def print_dur_def)
  have "files_of (os_env file_os) (readme_files(''b'' \<mapsto> encode_all [readme_write_item])) ''b'' = Some (encode_all [readme_write_item])"
    by (simp add: file_os_def)
  from convert_then_print [OF len c this p(1)] p show ?thesis by blast
qed

end
