(* ===== verification/Sim_Files.thy ===== *)
theory Sim_Files
  imports Sim_Fs
begin

text \<open>
  What the simulated file system promises: on absolute names without dots, the trie stands for a
  partial map from paths to whether the file was found on the disk, and every simulated call does
  what its description says with this map.
\<close>

section \<open>Names\<close>

text \<open>The name of a path, and the paths whose names are used as they are.\<close>

definition path :: "string list \<Rightarrow> string" where
  "path cs = concat (map (\<lambda>c. CHR ''/'' # c) cs)"

definition plain :: "string list \<Rightarrow> bool" where
  "plain cs \<longleftrightarrow> (\<forall>c\<in>set cs. c \<noteq> [] \<and> CHR ''/'' \<notin> set c \<and> c_string c \<and> hd c \<noteq> CHR ''.'')"

lemma path_simps [simp]: "path [] = []" "path (c # cs) = CHR ''/'' # c @ path cs" "path (cs @ ds) = path cs @ path ds"
  by (simp_all add: path_def)

lemma plain_simps [simp]:
  "plain []" "plain (c # cs) \<longleftrightarrow> c \<noteq> [] \<and> CHR ''/'' \<notin> set c \<and> c_string c \<and> hd c \<noteq> CHR ''.'' \<and> plain cs"
  "plain (cs @ ds) \<longleftrightarrow> plain cs \<and> plain ds"
  by (auto simp: plain_def)

lemma plain_take_drop: "plain cs \<Longrightarrow> plain (take n cs) \<and> plain (drop n cs)"
  by (auto simp: plain_def dest: in_set_takeD in_set_dropD)

lemma strtok_path [simp]: "plain cs \<Longrightarrow> strtok (CHR ''/'') (path cs) = cs"
proof (induction cs)
  case (Cons c cs)
  then show ?case by (cases cs) auto
qed simp

lemma path_inj: "plain cs \<Longrightarrow> plain ds \<Longrightarrow> path cs = path ds \<longleftrightarrow> cs = ds"
  using strtok_path by metis

lemma c_string_path [simp]: "plain cs \<Longrightarrow> c_string (path cs)"
  by (induction cs) (auto simp: NUL_def)

lemma path_first: "take 1 (path cs) = (if cs = [] then [] else ''/'')"
  by (cases cs) auto

lemma path_empty [simp]: "path cs = [] \<longleftrightarrow> cs = []"
  by (cases cs) auto

lemma last_path: "plain cs \<Longrightarrow> cs \<noteq> [] \<Longrightarrow> last (path cs) \<noteq> CHR ''/''"
  by (cases cs rule: rev_cases) (auto simp: last_append dest: last_in_set)

lemma count_path: "plain cs \<Longrightarrow> count_list (path cs) (CHR ''/'') = length cs"
  by (induction cs) auto

lemma path_no_dot: "plain cs \<Longrightarrow> path cs \<noteq> p @ CHR ''/'' # CHR ''.'' # r"
proof (induction cs arbitrary: p)
  case (Cons c cs)
  show ?case
  proof
    assume a: "path (c # cs) = p @ CHR ''/'' # CHR ''.'' # r"
    show False
    proof (cases p)
      case Nil
      then show False using a Cons.prems by (cases c) auto
    next
      case (Cons x q)
      with a have "c @ path cs = q @ CHR ''/'' # CHR ''.'' # r" by simp
      then obtain us where "c = q @ us \<and> us @ path cs = CHR ''/'' # CHR ''.'' # r \<or>
          c @ us = q \<and> path cs = us @ CHR ''/'' # CHR ''.'' # r"
        by (auto simp: append_eq_append_conv2)
      then show False
      proof
        assume "c = q @ us \<and> us @ path cs = CHR ''/'' # CHR ''.'' # r"
        then show False using Cons.prems Cons.IH [of "[]"] by (cases us) auto
      qed (use Cons.IH Cons.prems in auto)
    qed
  qed
qed simp

lemma absolute_name_path:
  assumes "plain cs" "cs \<noteq> []" "length (path cs) < n"
  shows "simfs_absolute_name dk (path cs) n = Inr (path cs)"
proof -
  have "strstr (path cs) ''/..'' = None" "strstr (path cs) ''/.'' = None"
    using path_no_dot [OF assms(1)] by (auto simp: strstr_None)
  then show ?thesis
    using assms by (cases cs) (simp_all add: simfs_absolute_name_def dotdot_loop.simps dot_loop.simps)
qed

text \<open>A slash of a name ends the name of a shorter path.\<close>

lemma path_slash:
  "plain cs \<Longrightarrow> n < length (path cs) \<Longrightarrow> path cs ! n = CHR ''/'' \<Longrightarrow> \<exists>j<length cs. take n (path cs) = path (take j cs)"
proof (induction cs arbitrary: n)
  case (Cons c cs)
  show ?case
  proof (cases n)
    case 0
    then show ?thesis by auto
  next
    case (Suc m)
    have "\<not> m < length c"
    proof
      assume "m < length c"
      then have "c ! m = CHR ''/''" using Cons.prems(3) Suc by (simp add: nth_append)
      then show False using Cons.prems(1) \<open>m < length c\<close> nth_mem [of m c] by auto
    qed
    moreover have "m - length c < length (path cs)" using Cons.prems(2) Suc calculation by auto
    ultimately obtain j where "j < length cs" "take (m - length c) (path cs) = path (take j cs)"
      using Cons.IH [of "m - length c"] Cons.prems Suc by (auto simp: nth_append)
    then show ?thesis using Suc \<open>\<not> m < length c\<close> by (intro exI [of _ "Suc j"]) simp
  qed
qed simp

section \<open>The map of a trie\<close>

type_synonym file_map = "string list \<rightharpoonup> bool"

definition known_files :: "simfs trie \<Rightarrow> file_map" where
  "known_files t = (\<lambda>q. map_option physical (vals (root t) q))"

definition fs_ok :: "simfs trie \<Rightarrow> bool" where
  "fs_ok t \<longleftrightarrow> trie_ok t \<and> delim t = CHR ''/''"

text \<open>
  The files at and below a path, the files on the way to one, and those on the way that are known
  or are found on the disk, one after the other.
\<close>

definition forget :: "string list \<Rightarrow> file_map \<Rightarrow> file_map" where
  "forget cs F = (\<lambda>q. if take (length cs) q = cs then None else F q)"

definition imagine :: "string list \<Rightarrow> file_map \<Rightarrow> file_map" where
  "imagine cs F = (\<lambda>q. case F q of Some b \<Rightarrow> Some b | None \<Rightarrow> if take (length q) cs = q then Some False else None)"

definition present :: "(string \<Rightarrow> bool) \<Rightarrow> file_map \<Rightarrow> string list \<Rightarrow> bool" where
  "present D F cs \<longleftrightarrow> (\<forall>i\<le>length cs. F (take i cs) \<noteq> None \<or> D (path (take i cs)))"

definition met :: "(string \<Rightarrow> bool) \<Rightarrow> string list \<Rightarrow> file_map \<Rightarrow> file_map" where
  "met D cs F = (\<lambda>q. case F q of Some b \<Rightarrow> Some b
     | None \<Rightarrow> if take (length q) cs = q \<and> present D F q then Some True else None)"

lemma files_insert:
  assumes "fs_ok t" "plain cs"
  shows "fst (trie_insert2 t (path cs) v) = cs \<and> fs_ok (snd (trie_insert2 t (path cs) v)) \<and>
    vals (root (snd (trie_insert2 t (path cs) v))) = (\<lambda>q. case vals (root t) q of Some x \<Rightarrow> Some x
      | None \<Rightarrow> if take (length q) cs = q then Some v else None)"
proof -
  obtain p t' where run: "trie_insert2 t (path cs) v = (p, t')" by fastforce
  show ?thesis
    using trie_insert2_vals [OF _ c_string_path [OF assms(2)] run] assms unfolding run fs_ok_def by auto
qed

lemma files_imagine:
  assumes "fs_ok t" "plain cs"
  shows "fst (trie_insert t (path cs)) = cs \<and> fs_ok (snd (trie_insert t (path cs))) \<and>
    known_files (snd (trie_insert t (path cs))) = imagine cs (known_files t)"
  using files_insert [OF assms, of simfs_new_trie_node]
  by (auto simp: trie_insert_def known_files_def imagine_def simfs_new_trie_node_def fun_eq_iff split: option.splits)

lemma files_forget:
  assumes "fs_ok t" "plain cs" "cs \<noteq> []"
  shows "fs_ok (snd (trie_delete t (path cs))) \<and> known_files (snd (trie_delete t (path cs))) = forget cs (known_files t)"
  using trie_delete_vals [of t "path cs"] assms
  by (auto simp: fs_ok_def known_files_def forget_def fun_eq_iff)

text \<open>Writing the other fields of a node keeps the map.\<close>

lemma files_set_val:
  assumes "fs_ok t" "known_files t p \<noteq> None" "\<And>f. physical (g f) = physical f"
  shows "fs_ok (t\<lparr>root := update_node p (set_val g) (root t)\<rparr>) \<and>
    known_files (t\<lparr>root := update_node p (set_val g) (root t)\<rparr>) = known_files t"
proof -
  obtain n where n: "node_at (root t) p = Some n" using assms(2) by (auto simp: known_files_def vals_def)
  have key: "node_key (set_val g m) = node_key m" for m :: "simfs trie_node" by (simp add: set_val_def)
  have sv: "map_option physical (vals (set_val g n) q) = map_option physical (vals n q)" for q
    using assms(3) by (cases q) (simp_all add: set_val_def trie_find_child_def)
  have "map_option physical (vals (update_node p (set_val g) (root t)) q) = map_option physical (vals (root t) q)" for q
  proof (cases "take (length p) q = p")
    case True
    then obtain q' where q: "q = p @ q'" by (metis append_take_drop_id)
    have "vals (root t) q = vals n q'" using n by (simp add: vals_def q node_at_append)
    then show ?thesis using vals_update [OF key n, of q] sv by (simp add: q)
  qed (simp add: vals_update [OF key n])
  moreover have "node_ok (delim t) (set_val g n)"
    using node_ok_at [of "delim t" "root t" p n] n assms(1) by (cases n) (auto simp: set_val_def fs_ok_def trie_ok_def)
  ultimately show ?thesis
    using assms(1) node_ok_update [OF key n, of "delim t"] by (auto simp: fs_ok_def trie_ok_def known_files_def)
qed

section \<open>The search of a name\<close>

text \<open>Known paths are closed under prefixes, and the search walks along them.\<close>

lemma files_prefix: "known_files t (p @ q) \<noteq> None \<Longrightarrow> known_files t p \<noteq> None"
  using vals_prefix [of "root t" p q] by (auto simp: known_files_def)

lemma known_walk:
  assumes "i \<le> length cs"
  shows "known_files t (take i cs) \<noteq> None \<longleftrightarrow> i \<le> length (walk (root t) cs)"
proof -
  obtain q where q: "cs = walk (root t) cs @ q" "node_at (root t) (walk (root t) cs) \<noteq> None"
    "q \<noteq> [] \<longrightarrow> trie_find_child (the (node_at (root t) (walk (root t) cs))) (hd q) = None"
    using walk_prefix by blast
  let ?w = "walk (root t) cs"
  show ?thesis
  proof (cases "i \<le> length ?w")
    case True
    then have "?w = take i cs @ drop i ?w" by (metis append_take_drop_id q(1) take_append diff_is_0_eq take0 append_Nil2)
    then show ?thesis using q(2) files_prefix [of t "take i cs" "drop i ?w"] True
      by (auto simp: known_files_def vals_None)
  next
    case False
    have "q \<noteq> []" using assms q(1) False by auto
    then obtain c r where r: "q = c # r" by (cases q) auto
    have "take i cs = ?w @ take (i - length ?w) q" using False by (subst q(1)) simp
    then have "take i cs = (?w @ [c]) @ take (i - length ?w - 1) r" using r False by (cases "i - length ?w") auto
    moreover have "known_files t (?w @ [c]) = None" using q(2,3) r by (auto simp: known_files_def vals_def node_at_append)
    ultimately have "known_files t (take i cs) = None" using files_prefix [of t "?w @ [c]"] by metis
    then show ?thesis using False by simp
  qed
qed

lemma search_path:
  assumes "fs_ok t" "plain cs" "cs \<noteq> []"
  shows "\<exists>b. trie_longest_prefix t (path cs) (strdup (path cs)) = (walk (root t) cs, b) \<and>
    cstr b = (let p = walk (root t) cs in if p = cs then path cs else if p = [] then [] else path p @ ''/'')"
proof -
  let ?k = "path cs" and ?p = "walk (root t) cs" and ?b0 = "(strdup (path cs))[0 := NUL]"
  have t: "trie_ok t" "delim t = CHR ''/''" using assms(1) by (simp_all add: fs_ok_def)
  obtain p b where run: "trie_longest_prefix t ?k (strdup ?k) = (p, b)" by fastforce
  have len: "length ?k < length (strdup ?k)" by (simp add: strdup_def)
  have toks: "strtok (CHR ''/'') ?k = cs" using assms(2) by simp
  have spec: "p = ?p \<and> (cstr b = ?k \<and> p = cs \<and> p \<noteq> [] \<or> (\<exists>n. buf_inv ?b0 (CHR ''/'') ?k n p b))"
    using trie_longest_prefix_spec [OF t(1) c_string_path [OF assms(2)] len run] unfolding t(2) toks .
  show ?thesis
  proof (cases "cstr b = ?k \<and> p = cs")
    case True
    then show ?thesis using run spec by (auto simp: Let_def)
  next
    case False
    then obtain n where inv: "buf_inv ?b0 (CHR ''/'') ?k n p b" using spec by blast
    show ?thesis
    proof (cases "p = []")
      case True
      then have "cstr b = []" using inv assms(3) by (cases ?k) (auto simp: buf_inv_def cstr_def strdup_def)
      then show ?thesis using run spec True assms(3) by auto
    next
      case p: False
      then obtain m where m: "0 < m" "m < length ?k" "?k ! m = CHR ''/''" "strtok (CHR ''/'') (take m ?k) = p"
        "take m b = take m ?k" "b ! m = ?b0 ! m" "b ! Suc m = NUL" and lb: "length b = length ?b0"
        using inv by (auto simp: buf_inv_def)
      obtain j where j: "j < length cs" "take m ?k = path (take j cs)"
        using path_slash [OF assms(2) m(2,3)] by blast
      have pj: "p = take j cs" using m(4) j(2) plain_take_drop [OF assms(2), of j] by simp
      then have "p \<noteq> cs" using j(1) by auto
      have "b ! m = CHR ''/''" using m(1,2,3,6) by (simp add: strdup_def nth_append)
      then have "take (Suc m) b = path p @ ''/''"
        using m(2,5) lb j(2) pj by (simp add: take_Suc_conv_app_nth strdup_def)
      then have "cstr b = path p @ ''/''"
        using take_all_NUL [OF _ _ m(7)] m(2) lb plain_take_drop [OF assms(2), of j] pj by (simp add: strdup_def NUL_def)
      then show ?thesis using run spec p \<open>p \<noteq> cs\<close> by (auto simp: Let_def)
    qed
  qed
qed

section \<open>Filling in from the disk\<close>

lemma populate_loop_path:
  assumes "fs_ok t" "plain (p @ ss)" "known_files t p \<noteq> None" "length (path (p @ ss)) < cap"
    and "ex @ (if ex = [] \<or> last ex \<noteq> CHR ''/'' then ''/'' else []) = path p @ ''/''"
  shows "\<exists>n t'. populate_loop dk cap ss ex m t =
      Inr (n = length ss, if n = 0 then ex else path (p @ take n ss),
        if n = 0 then m else m + length (path (p @ take n ss)) - length ex, t') \<and>
    n \<le> length ss \<and> fs_ok t' \<and> (\<forall>i<n. on_disk dk (path (p @ take (Suc i) ss))) \<and>
    (n < length ss \<longrightarrow> \<not> on_disk dk (path (p @ take (Suc n) ss))) \<and>
    known_files t' = (\<lambda>q. case known_files t q of Some b \<Rightarrow> Some b
      | None \<Rightarrow> if \<exists>i\<le>n. q = p @ take i ss then Some True else None)"
  using assms
proof (induction ss arbitrary: p ex m t)
  case Nil
  have "known_files t = (\<lambda>q. case known_files t q of Some b \<Rightarrow> Some b
      | None \<Rightarrow> if \<exists>i\<le>0. q = p @ take i ([] :: string list) then Some True else None)"
    using Nil.prems(3) by (auto simp: fun_eq_iff split: option.splits)
  with Nil.prems(1) show ?case by (intro exI [of _ 0] exI [of _ t]) simp
next
  case (Cons s ss)
  let ?slash = "if ex = [] \<or> last ex \<noteq> CHR ''/'' then ''/'' else []"
  let ?p = "p @ [s]"
  have name: "ex @ ?slash @ s = path ?p" using Cons.prems(5) by simp
  have len: "length (path ?p) < cap" using Cons.prems(4) by simp
  show ?case
  proof (cases "on_disk dk (path ?p)")
    case False
    have "populate_loop dk cap (s # ss) ex m t = Inr (False, ex, m, t)"
      using False len name by (simp only: populate_loop.simps Let_def name if_False not_less [symmetric]) simp
    moreover have "known_files t q = (case known_files t q of Some b \<Rightarrow> Some b
        | None \<Rightarrow> if \<exists>i\<le>0. q = p @ take i (s # ss) then Some True else None)" for q
      using Cons.prems(3) by (auto split: option.splits)
    ultimately show ?thesis
      using Cons.prems(1) False by (intro exI [of _ 0] exI [of _ t] conjI ext) simp_all
  next
    case True
    let ?ins = "trie_insert2 t (path ?p) simfs_new_trie_node_phys"
    let ?t = "(snd ?ins)\<lparr>root := update_node ?p (set_val (\<lambda>f. f\<lparr>phys_size := st_size dk (path ?p)\<rparr>)) (root (snd ?ins))\<rparr>"
    have plain: "plain ?p" "plain (?p @ ss)" using Cons.prems(2) by simp_all
    have ins: "fst ?ins = ?p" "fs_ok (snd ?ins)" "known_files (snd ?ins) = (\<lambda>q. case known_files t q of Some b \<Rightarrow> Some b
        | None \<Rightarrow> if take (length q) ?p = q then Some True else None)"
      using files_insert [OF Cons.prems(1) plain(1), of simfs_new_trie_node_phys]
      by (auto simp: known_files_def simfs_new_trie_node_phys_def fun_eq_iff split: option.splits)
    have known: "known_files t q \<noteq> None" if "take (length q) p = q" for q
      using files_prefix [of t q "drop (length q) p"] Cons.prems(3) that by (metis append_take_drop_id)
    have "take (length q) ?p = q \<longleftrightarrow> take (length q) p = q \<or> q = ?p" for q
      by (cases "length q \<le> length p") auto
    then have new: "known_files (snd ?ins) = (\<lambda>q. case known_files t q of Some b \<Rightarrow> Some b
        | None \<Rightarrow> if q = ?p then Some True else None)"
      unfolding ins(3) fun_eq_iff using known by (fastforce split: option.split)
    then have there: "known_files (snd ?ins) ?p \<noteq> None" by (auto split: option.split)
    have t: "fs_ok ?t" "known_files ?t = known_files (snd ?ins)"
      using files_set_val [OF ins(2) there] by simp_all
    have step: "populate_loop dk cap (s # ss) ex m t = populate_loop dk cap ss (path ?p) (m + length ?slash + length s) ?t"
      using True len ins(1) by (simp only: populate_loop.simps Let_def name) (simp add: case_prod_unfold)
    have "path ?p @ (if path ?p = [] \<or> last (path ?p) \<noteq> CHR ''/'' then ''/'' else []) = path ?p @ ''/''"
      using last_path [OF plain(1)] by simp
    from Cons.IH [OF t(1) plain(2) _ _ this, of "m + length ?slash + length s"] there t(2) Cons.prems(4)
    obtain n t' where IH: "populate_loop dk cap ss (path ?p) (m + length ?slash + length s) ?t =
        Inr (n = length ss, if n = 0 then path ?p else path (?p @ take n ss),
          if n = 0 then m + length ?slash + length s else m + length ?slash + length s + length (path (?p @ take n ss)) - length (path ?p), t')"
      "n \<le> length ss" "fs_ok t'" "\<forall>i<n. on_disk dk (path (?p @ take (Suc i) ss))"
      "n < length ss \<longrightarrow> \<not> on_disk dk (path (?p @ take (Suc n) ss))"
      "known_files t' = (\<lambda>q. case known_files ?t q of Some b \<Rightarrow> Some b
        | None \<Rightarrow> if \<exists>i\<le>n. q = ?p @ take i ss then Some True else None)"
      by auto
    have lens: "length (path ?p) = length ex + length ?slash + length s" using arg_cong [OF name, of length] by simp
    have disk: "\<forall>i<Suc n. on_disk dk (path (p @ take (Suc i) (s # ss)))"
      using IH(4) True by (auto simp: less_Suc_eq_0_disj)
    have q: "(\<exists>i\<le>Suc n. q = p @ take i (s # ss)) \<longleftrightarrow> q = p \<or> (\<exists>i\<le>n. q = ?p @ take i ss)" for q
    proof -
      have "(\<exists>i\<le>Suc n. q = p @ take i (s # ss)) \<longleftrightarrow> q = p @ take 0 (s # ss) \<or> (\<exists>i\<le>n. q = p @ take (Suc i) (s # ss))"
        by (metis Suc_le_mono le0 not0_implies_Suc)
      then show ?thesis by simp
    qed
    have "known_files t' = (\<lambda>q. case known_files t q of Some b \<Rightarrow> Some b
        | None \<Rightarrow> if \<exists>i\<le>Suc n. q = p @ take i (s # ss) then Some True else None)"
    proof
      fix q
      have "q = ?p \<Longrightarrow> \<exists>i\<le>n. q = ?p @ take i ss" by (intro exI [of _ 0]) simp
      then show "known_files t' q = (case known_files t q of Some b \<Rightarrow> Some b
          | None \<Rightarrow> if \<exists>i\<le>Suc n. q = p @ take i (s # ss) then Some True else None)"
        unfolding IH(6) t(2) new q using Cons.prems(3) by (cases "known_files t q") auto
    qed
    moreover have "populate_loop dk cap (s # ss) ex m t =
        Inr (Suc n = length (s # ss), path (p @ take (Suc n) (s # ss)), m + length (path (p @ take (Suc n) (s # ss))) - length ex, t')"
    proof -
      have "m + length ?slash + length s = m + length (path ?p) - length ex" by (subst lens) simp
      moreover have "length ex \<le> length (path ?p)" using lens by linarith
      ultimately show ?thesis unfolding step IH(1) by simp
    qed
    ultimately show ?thesis
      using IH(2,3,5) disk by (intro exI [of _ "Suc n"] exI [of _ t']) (simp del: populate_loop.simps)
  qed
qed

lemma common_len_prefix: "common_len x (x @ y) = length x"
  by (induction x) auto

text \<open>How far the known files and the disk lead, when the search stops at the known ones.\<close>

lemma reach:
  fixes D :: "string \<Rightarrow> bool"
  assumes "\<And>i. i \<le> length cs \<Longrightarrow> F (take i cs) \<noteq> None \<longleftrightarrow> i \<le> j" "j + n \<le> length cs"
    and "\<And>i. i < n \<Longrightarrow> D (path (take (Suc (j + i)) cs))" "j + n < length cs \<Longrightarrow> \<not> D (path (take (Suc (j + n)) cs))"
  shows "l \<le> length cs \<Longrightarrow> present D F (take l cs) \<longleftrightarrow> l \<le> j + n"
    and "met D cs F = (\<lambda>q. case F q of Some b \<Rightarrow> Some b | None \<Rightarrow> if \<exists>i\<le>n. q = take (j + i) cs then Some True else None)"
proof -
  have one: "F (take i cs) \<noteq> None \<or> D (path (take i cs))" if "i \<le> j + n" for i
  proof (cases "i \<le> j")
    case False
    then have "D (path (take (Suc (j + (i - j - 1))) cs))" using that by (intro assms(3)) simp
    then show ?thesis using False by simp
  qed (use assms(1,2) in auto)
  show p: "present D F (take l cs) \<longleftrightarrow> l \<le> j + n" if l: "l \<le> length cs" for l
  proof
    assume a: "present D F (take l cs)"
    show "l \<le> j + n"
    proof (rule ccontr)
      assume no: "\<not> l \<le> j + n"
      then have "Suc (j + n) \<le> length (take l cs)" "take (Suc (j + n)) (take l cs) = take (Suc (j + n)) cs"
        using l by simp_all
      then have "F (take (Suc (j + n)) cs) \<noteq> None \<or> D (path (take (Suc (j + n)) cs))"
        using a unfolding present_def by metis
      then show False using assms(1) [of "Suc (j + n)"] assms(4) no l by auto
    qed
  next
    assume "l \<le> j + n"
    then show "present D F (take l cs)" using one by (auto simp: present_def min_def)
  qed
  show "met D cs F = (\<lambda>q. case F q of Some b \<Rightarrow> Some b | None \<Rightarrow> if \<exists>i\<le>n. q = take (j + i) cs then Some True else None)"
  proof
    fix q
    have "take (length q) cs = q \<and> present D F q \<longleftrightarrow> (\<exists>i\<le>n. q = take (j + i) cs)" if none: "F q = None"
    proof
      assume a: "take (length q) cs = q \<and> present D F q"
      have l: "length q \<le> length cs" using a by (metis length_take min.cobounded1)
      have "length q \<le> j + n" using p [OF l] a by simp
      moreover have "j < length q" using assms(1) [OF l] a none by auto
      ultimately show "\<exists>i\<le>n. q = take (j + i) cs" using a by (intro exI [of _ "length q - j"]) simp
    next
      assume "\<exists>i\<le>n. q = take (j + i) cs"
      then obtain i where i: "i \<le> n" "q = take (j + i) cs" by blast
      then show "take (length q) cs = q \<and> present D F q" using p [of "j + i"] assms(2) by simp
    qed
    then show "met D cs F q = (case F q of Some b \<Rightarrow> Some b | None \<Rightarrow> if \<exists>i\<le>n. q = take (j + i) cs then Some True else None)"
      by (cases "F q") (auto simp: met_def)
  qed
qed

text \<open>
  How every call starts: the search, and filling in what the disk has. The buffer then holds the
  name of what there is, possibly with a slash at its end, and the rest of the name is missing.
\<close>

lemma start_of_call:
  assumes "fs_ok t" "plain cs" "cs \<noteq> []"
  shows "\<exists>b ex t'. trie_longest_prefix t (path cs) (strdup (path cs)) = (walk (root t) cs, b) \<and>
    (cstr b = path cs \<longleftrightarrow> known_files t cs \<noteq> None) \<and>
    simfs_populate dk (Suc (length (path cs))) (cstr b) (drop (common_len (cstr b) (path cs)) (path cs)) t =
      Inr (present (on_disk dk) (known_files t) cs, ex, drop (length ex) (path cs), t') \<and>
    fs_ok t' \<and> known_files t' = met (on_disk dk) cs (known_files t) \<and>
    (if present (on_disk dk) (known_files t) cs then ex = path cs
     else \<exists>k<length cs. ex \<in> {path (take k cs), path (take k cs) @ ''/''} \<and>
       (Suc k = length cs \<longleftrightarrow> present (on_disk dk) (known_files t) (butlast cs)))"
proof -
  let ?p = "walk (root t) cs" and ?F = "known_files t" and ?D = "on_disk dk" and ?k = "path cs"
  let ?j = "length ?p" and ?ss = "drop (length ?p) cs"
  obtain b where b: "trie_longest_prefix t ?k (strdup ?k) = (?p, b)"
    "cstr b = (if ?p = cs then ?k else if ?p = [] then [] else path ?p @ ''/'')"
    using search_path [OF assms] by (auto simp: Let_def)
  obtain q where "cs = ?p @ q" using walk_prefix by blast
  then have cs: "cs = ?p @ ?ss" and j: "?j \<le> length cs" by (metis append_eq_conv_conj, metis length_append le_add1)
  have known: "?F (take i cs) \<noteq> None \<longleftrightarrow> i \<le> ?j" if "i \<le> length cs" for i using known_walk [OF that] .
  have there: "?F cs \<noteq> None \<longleftrightarrow> ?p = cs"
    using known [of "length cs"] j cs by (metis append_eq_conv_conj append_self_conv drop_eq_Nil2 le_antisym le_refl take_all_iff)
  show ?thesis
  proof (cases "?p = cs")
    case True
    have F: "?F (take i cs) \<noteq> None \<longleftrightarrow> i \<le> length cs" if "i \<le> length cs" for i using known [OF that] True by simp
    have "present ?D ?F cs" using reach(1) [of cs ?F "length cs" 0 ?D "length cs", OF F] by simp
    moreover have "met ?D cs ?F = ?F"
      using reach(2) [of cs ?F "length cs" 0 ?D, OF F] F [of "length cs"] by (auto simp: fun_eq_iff split: option.split)
    moreover have "?F cs \<noteq> None" using F [of "length cs"] by simp
    ultimately have "present ?D ?F cs" "met ?D cs ?F = ?F" by blast+
    then show ?thesis
      using b True assms(1) there common_len_prefix [of ?k "[]"] by (simp add: simfs_populate_def)
  next
    case False
    then obtain c r where ss: "?ss = c # r" using cs by (cases ?ss) auto
    have pl: "plain ?p" "plain (c # r)" "plain (?p @ c # r)" using assms(2) cs unfolding ss by (metis plain_simps(3))+
    let ?ex = "cstr b"
    have ex: "?ex = (if ?p = [] then [] else path ?p @ ''/'')" using b(2) False by simp
    have k: "?k = path ?p @ CHR ''/'' # c @ path r" using arg_cong [OF cs, of path] unfolding ss by simp
    then have k': "?k = ?ex @ (if ?p = [] then CHR ''/'' # c @ path r else c @ path r)" using ex by simp
    have rest: "strtok (CHR ''/'') (drop (common_len ?ex ?k) ?k) = c # r"
      using strtok_path [OF pl(2)] unfolding k' common_len_prefix by simp
    have "?ex @ (if ?ex = [] \<or> last ?ex \<noteq> CHR ''/'' then ''/'' else []) = path ?p @ ''/''" unfolding ex by simp
    moreover have "?F ?p \<noteq> None" using known [OF j] cs by (metis append_eq_conv_conj le_refl)
    moreover have "length (path (?p @ c # r)) < Suc (length ?k)" using k by simp
    ultimately obtain n t' where loop: "populate_loop dk (Suc (length ?k)) (c # r) ?ex 0 t =
        Inr (n = length (c # r), if n = 0 then ?ex else path (?p @ take n (c # r)),
          if n = 0 then 0 else 0 + length (path (?p @ take n (c # r))) - length ?ex, t')"
      and n: "n \<le> length (c # r)" "fs_ok t'" "\<forall>i<n. ?D (path (?p @ take (Suc i) (c # r)))"
        "n < length (c # r) \<longrightarrow> \<not> ?D (path (?p @ take (Suc n) (c # r)))"
      and F': "known_files t' = (\<lambda>q. case ?F q of Some b \<Rightarrow> Some b
        | None \<Rightarrow> if \<exists>i\<le>n. q = ?p @ take i (c # r) then Some True else None)"
      using populate_loop_path [OF assms(1) pl(3), of "Suc (length ?k)" ?ex dk 0] by blast
    have take: "?p @ take i (c # r) = take (?j + i) cs" for i using cs unfolding ss
      by (metis append_eq_conv_conj take_add)
    have l: "length cs = ?j + length (c # r)" using arg_cong [OF cs, of length] unfolding ss by simp
    have hyps: "?j + n \<le> length cs" "\<And>i. i < n \<Longrightarrow> ?D (path (take (Suc (?j + i)) cs))"
      "?j + n < length cs \<Longrightarrow> \<not> ?D (path (take (Suc (?j + n)) cs))"
      using n(1) n(3,4) [unfolded take] l by simp_all
    note far = reach [of cs ?F ?j n ?D, OF known hyps]
    have all: "present ?D ?F cs \<longleftrightarrow> n = length (c # r)" using far(1) [of "length cs"] n(1) l by auto
    let ?e = "if n = 0 then ?ex else path (take (?j + n) cs)"
    have le: "length ?ex \<le> length ?e"
      using ex arg_cong [OF take [of n], of "\<lambda>x. length (path x)"] by (cases n) auto
    have "?k = path (take m cs) @ path (drop m cs)" for m by (metis append_take_drop_id path_simps(3))
    then obtain z where z: "?k = ?e @ z" using k' by (cases "n = 0") auto
    have d: "drop (common_len ?ex ?k) ?k = drop (length ?ex) ?k" using k' common_len_prefix by metis
    have pop: "simfs_populate dk (Suc (length ?k)) ?ex (drop (common_len ?ex ?k) ?k) t =
        Inr (present ?D ?F cs, ?e, drop (length ?e) ?k, t')"
    proof -
      have loop': "populate_loop dk (Suc (length ?k)) (c # r) ?ex 0 t = Inr (present ?D ?F cs, ?e, length ?e - length ?ex, t')"
        unfolding loop take by (simp add: all)
      have "length ?e \<le> length ?k" using arg_cong [OF z, of length] unfolding length_append by linarith
      then show ?thesis
        unfolding simfs_populate_def rest loop' unfolding d using le by (simp only: bindR.simps prod.case) (simp add: drop_drop)
    qed
    have "if present ?D ?F cs then ?e = ?k
      else \<exists>k<length cs. ?e \<in> {path (take k cs), path (take k cs) @ ''/''} \<and>
        (Suc k = length cs \<longleftrightarrow> present ?D ?F (butlast cs))"
    proof (cases "n = length (c # r)")
      case True
      then show ?thesis using all l by simp
    next
      case no: False
      then have "present ?D ?F (butlast cs) \<longleftrightarrow> Suc (?j + n) = length cs"
        using far(1) [of "length cs - 1"] n(1) l by (auto simp: butlast_conv_take)
      moreover have "?e \<in> {path (take (?j + n) cs), path (take (?j + n) cs) @ ''/''}"
        using ex take [of 0] by (cases "n = 0") auto
      ultimately show ?thesis using all no n(1) l by (auto intro!: exI [of _ "?j + n"])
    qed
    moreover have "known_files t' = met ?D cs ?F" unfolding F' take by (rule far(2) [symmetric])
    moreover have "cstr b \<noteq> ?k" using ex pl k by (auto simp del: append_assoc)
    ultimately show ?thesis using b(1) there False pop n(2) by blast
  qed
qed

end
