(* ===== verification/Sim_Notes.thy ===== *)
theory Sim_Notes
  imports Simulate Sim_Files
begin

text \<open>
  What \<open>simulate.c\<close> notes of the transfers in the mode \<open>ACT_SIMULATE\<close>: for every file the list of its
  reads and that of its writes, in order.
\<close>

section \<open>Sequences of transfers\<close>

text \<open>A transfer with the map of its descriptor, and its call.\<close>

datatype sim_transfer =
    T_read fd_map read_op
  | T_write fd_map write_op
  | T_pread fd_map pread_op
  | T_pwrite fd_map pwrite_op

fun run_transfer :: "disk \<Rightarrow> sim_transfer \<Rightarrow> sim_state \<Rightarrow> sim_state res" where
  "run_transfer dk (T_read m x) = simulate_read dk m x"
| "run_transfer dk (T_write m x) = simulate_write dk m x"
| "run_transfer dk (T_pread m x) = simulate_pread dk m x"
| "run_transfer dk (T_pwrite m x) = simulate_pwrite dk m x"

fun run_transfers :: "disk \<Rightarrow> sim_transfer list \<Rightarrow> sim_state \<Rightarrow> sim_state res" where
  "run_transfers dk [] s = Inr s"
| "run_transfers dk (t # ts) s = bindR (run_transfer dk t s) (run_transfers dk ts)"

text \<open>What is to be noted: the name and opening time of the file, and the bytes that were moved.\<close>

type_synonym sim_note = "string \<times> int32timeval \<times> rw_op"

definition note_of :: "fd_map \<Rightarrow> i64 \<Rightarrow> i64 \<Rightarrow> op_info \<Rightarrow> sim_note" where
  "note_of m offset moved info =
     (fm_name m, fm_time_open m,
      \<lparr>rw_offset = offset, rw_size = moved, rw_start = start info, rw_dur = dur info\<rparr>)"

fun reads_noted :: "sim_transfer \<Rightarrow> sim_note list" where
  "reads_noted (T_read m x) = [note_of m (cur_pos m) (read_retval x) (read_info x)]"
| "reads_noted (T_pread m x) = [note_of m (pread_offset x) (pread_retval x) (pread_info x)]"
| "reads_noted _ = []"

fun writes_noted :: "sim_transfer \<Rightarrow> sim_note list" where
  "writes_noted (T_write m x) = [note_of m (cur_pos m) (write_retval x) (write_info x)]"
| "writes_noted (T_pwrite m x) = [note_of m (pwrite_offset x) (pwrite_retval x) (pwrite_info x)]"
| "writes_noted _ = []"

fun transfer_map :: "sim_transfer \<Rightarrow> fd_map" where
  "transfer_map (T_read m x) = m"
| "transfer_map (T_write m x) = m"
| "transfer_map (T_pread m x) = m"
| "transfer_map (T_pwrite m x) = m"

text \<open>
  A table has the notes \<open>ns\<close>: every file with a note has one item, with the time of its first note and all its
  transfers in order, and no other file has one.
\<close>

definition notes_for :: "sim_note list \<Rightarrow> string \<Rightarrow> (int32timeval \<times> rw_op list) option" where
  "notes_for ns n =
     (case filter (\<lambda>(name, _). name = n) ns of
        [] \<Rightarrow> None
      | (_, t, _) # _ \<Rightarrow> Some (t, map (\<lambda>(_, _, r). r) (filter (\<lambda>(name, _). name = n) ns)))"

definition has_notes :: "sim_item hash_table \<Rightarrow> sim_note list \<Rightarrow> bool" where
  "has_notes ht ns \<longleftrightarrow> simt.table_inv ht \<and> simt.placed ht \<and> simt.table_distinct ht \<and>
     (\<forall>n. length n < MAX_STRING \<longrightarrow>
        map_option (\<lambda>it. (si_time_open it, si_list it)) (simt.table_map ht n) = notes_for ns n)"

lemma has_notes_init: "has_notes (hash_table_init HASH_TABLE_SIZE) []"
  by (simp add: has_notes_def notes_for_def simt.init_inv simt.init_placed simt.init_distinct simt.init_map HASH_TABLE_SIZE_def)

lemma notes_for_snoc:
  "notes_for (ns @ [(name, t, r)]) n =
    (if name = n then (case notes_for ns n of None \<Rightarrow> Some (t, [r]) | Some (t', rs) \<Rightarrow> Some (t', rs @ [r])) else notes_for ns n)"
  by (auto simp: notes_for_def split: list.split)

text \<open>One transfer: the item is found or made, then the transfer is appended.\<close>

lemma note_added:
  assumes "has_notes ht ns" "length (fm_name m) < MAX_STRING"
  shows "\<exists>ht1 ht2. simulate_get_sim_item m ht = Inr ht1 \<and>
    simulate_append_rw (fm_name m) sz offset (start info) (dur info) moved ht1 = Inr ht2 \<and>
    has_notes ht2 (ns @ [note_of m offset moved info])"
proof -
  let ?n = "fm_name m"
  let ?new = "\<lparr>si_name = ?n, si_created = fm_created m, si_time_open = fm_time_open m, si_list = []\<rparr>"
  let ?f = "\<lambda>it. it\<lparr>si_list := si_list it @ [\<lparr>rw_offset = offset, rw_size = moved, rw_start = start info, rw_dur = dur info\<rparr>]\<rparr>"
  have t: "simt.table_inv ht" "simt.placed ht" "simt.table_distinct ht" using assms(1) by (simp_all add: has_notes_def)
  have vals: "map_option (\<lambda>it. (si_time_open it, si_list it)) (simt.table_map ht n) = notes_for ns n" if "length n < MAX_STRING" for n
    using assms(1) that by (simp add: has_notes_def)
  obtain ht1 where ht1: "simulate_get_sim_item m ht = Inr ht1" "simt.table_inv ht1" "simt.placed ht1" "simt.table_distinct ht1"
    "simt.table_map ht1 = (if simt.table_map ht ?n = None then (simt.table_map ht)(?n \<mapsto> ?new) else simt.table_map ht)"
  proof (cases "simt.table_map ht ?n")
    case None
    then obtain h where "hash_table_insert ht_ops_sim ?n ?new ht = Inr h" "simt.table_inv h" "simt.placed h" "simt.table_distinct h"
      "simt.table_map h = (simt.table_map ht)(?n \<mapsto> ?new)"
      using simt.insert_map [OF t(1), of ?new] assms(2) t by auto
    with None that show ?thesis
      using simt.find_map [OF t(1) assms(2)] by (simp add: simulate_get_sim_item_def)
  next
    case (Some it)
    with that t show ?thesis using simt.find_map [OF t(1) assms(2)] by (simp add: simulate_get_sim_item_def)
  qed
  obtain ht2 where ht2: "simulate_append_rw ?n sz offset (start info) (dur info) moved ht1 = Inr ht2"
    "simt.table_inv ht2" "simt.placed ht2" "simt.table_distinct ht2"
    "simt.table_map ht2 = (simt.table_map ht1)(?n := map_option ?f (simt.table_map ht1 ?n))"
    using simt.modify_map [OF ht1(2) assms(2), of ?f] ht1(3,4) by (auto simp: simulate_append_rw_def)
  have "map_option (\<lambda>it. (si_time_open it, si_list it)) (simt.table_map ht2 n) = notes_for (ns @ [note_of m offset moved info]) n"
    if "length n < MAX_STRING" for n
    using vals [OF that] ht1(5) ht2(5)
    by (cases "simt.table_map ht ?n") (auto simp: note_of_def notes_for_snoc split: option.splits)
  then show ?thesis using ht1(1) ht2 by (auto simp: has_notes_def)
qed

section \<open>The state of the simulation\<close>

definition noting :: "sim_state \<Rightarrow> sim_note list \<Rightarrow> sim_note list \<Rightarrow> bool" where
  "noting s rs ws \<longleftrightarrow> sim_mode s = ACT_SIMULATE \<and> sim_fs s \<noteq> None \<and>
     (\<exists>r. sim_map_read s = Some r \<and> has_notes r rs) \<and> (\<exists>w. sim_map_write s = Some w \<and> has_notes w ws)"

definition plain_name :: "string \<Rightarrow> bool" where
  "plain_name n \<longleftrightarrow> (\<exists>cs. n = path cs \<and> plain cs \<and> cs \<noteq> [] \<and> length n < MAX_LINE)"

lemma noting_init: "noting (simulate_init ACT_SIMULATE sim_start) [] []"
  using has_notes_init by (simp add: noting_def simulate_init_def sim_start_def)

lemma noting_mode:
  assumes "noting s rs ws"
  shows "\<not> sim_checks s" "sim_notes s"
  using assms by (simp_all add: noting_def sim_checks_def sim_notes_def has_flag_def ACT_SIMULATE_def ACT_CHECK_def ACT_PREPARE_def)

lemma find_sim_plain:
  assumes "noting s rs ws" "plain_name n"
  shows "\<exists>t p. find_sim dk n s = Inr (t, p)"
  using assms absolute_name_path by (auto simp: find_sim_def plain_name_def noting_def of_opt_def)

lemma plain_name_length: "plain_name n \<Longrightarrow> length n < MAX_STRING"
  by (auto simp: plain_name_def MAX_STRING_def MAX_LINE_def)

lemma note_read_adds:
  assumes "noting s rs ws" "plain_name (fm_name m)"
  shows "\<exists>s'. note_read m sz offset info moved s = Inr s' \<and> noting s' (rs @ [note_of m offset moved info]) ws"
proof -
  obtain r where r: "sim_map_read s = Some r" "has_notes r rs" using assms(1) by (auto simp: noting_def)
  from note_added [OF r(2) plain_name_length [OF assms(2)], of sz offset info moved] r(1) assms(1)
  show ?thesis by (fastforce simp: note_read_def noting_def of_opt_def)
qed

lemma note_write_adds:
  assumes "noting s rs ws" "plain_name (fm_name m)"
  shows "\<exists>s'. note_write m sz offset info moved s = Inr s' \<and> noting s' rs (ws @ [note_of m offset moved info])"
proof -
  obtain w where w: "sim_map_write s = Some w" "has_notes w ws" using assms(1) by (auto simp: noting_def)
  from note_added [OF w(2) plain_name_length [OF assms(2)], of sz offset info moved] w(1) assms(1)
  show ?thesis by (fastforce simp: note_write_def noting_def of_opt_def)
qed

lemma run_transfer_notes:
  assumes "noting s rs ws" "plain_name (fm_name (transfer_map t))"
  shows "\<exists>s'. run_transfer dk t s = Inr s' \<and> noting s' (rs @ reads_noted t) (ws @ writes_noted t)"
proof -
  obtain u p where u: "find_sim dk (fm_name (transfer_map t)) s = Inr (u, p)" using find_sim_plain [OF assms] by blast
  note mode = noting_mode [OF assms(1)]
  show ?thesis
    using u mode assms(2) note_read_adds [OF assms(1)] note_write_adds [OF assms(1)]
    by (cases t) (simp_all add: simulate_read_def simulate_write_def simulate_pread_def simulate_pwrite_def)
qed

lemma run_transfers_notes:
  assumes "noting s rs ws" "\<forall>t\<in>set ts. plain_name (fm_name (transfer_map t))"
  shows "\<exists>s'. run_transfers dk ts s = Inr s' \<and>
    noting s' (rs @ concat (map reads_noted ts)) (ws @ concat (map writes_noted ts))"
  using assms
proof (induction ts arbitrary: s rs ws)
  case (Cons t ts)
  obtain s1 where "run_transfer dk t s = Inr s1" "noting s1 (rs @ reads_noted t) (ws @ writes_noted t)"
    using run_transfer_notes [OF Cons.prems(1), of t dk] Cons.prems(2) by auto
  with Cons.IH [of s1 "rs @ reads_noted t" "ws @ writes_noted t"] Cons.prems(2) show ?case by auto
qed simp

end
