(* ===== verification/Sim_Trace.thy ===== *)
theory Sim_Trace
  imports Replay_Machine Sim_Notes
begin

text \<open>
  What a simulation notes of a whole trace. The specification follows the open files of one process
  with their positions, and says for every recorded call what is to be noted; a simulated replay of
  the trace by \<open>replicate.c\<close> notes just that.
\<close>

section \<open>The specification\<close>

text \<open>An open file: its name, when it was opened, and the position.\<close>

record open_file =
  of_name :: string
  of_time :: int32timeval
  of_pos :: i64

type_synonym open_files = "i32 \<rightharpoonup> open_file"

text \<open>A transfer is noted when it did not fail. The position moves by the result, failed or not.\<close>

definition noted_at :: "open_file \<Rightarrow> i64 \<Rightarrow> i64 \<Rightarrow> op_info \<Rightarrow> sim_note list" where
  "noted_at f offset bytes info =
     (if bytes = -1 then []
      else [(of_name f, of_time f, \<lparr>rw_offset = offset, rw_size = bytes, rw_start = start info, rw_dur = dur info\<rparr>)])"

definition on_file :: "open_files \<Rightarrow> i32 \<Rightarrow> (open_file \<Rightarrow> 'a) \<Rightarrow> 'a option" where
  "on_file D fd f = map_option f (D fd)"

text \<open>
  The calls of one process: opening a file under a number that is free, or failing to, transfers, seeking
  and closing on the files it has open, and calls that only name files. \<open>None\<close>: a call of another kind. The numbers 1 and 2
  belong to the standard descriptors.
\<close>

definition opens_file :: "open_op \<Rightarrow> open_files \<Rightarrow> bool" where
  "opens_file x D \<longleftrightarrow> nonneg (open_retval x) \<and> open_retval x \<notin> {1, 2} \<and> D (open_retval x) = None \<and>
     plain_name (open_name x) \<and> \<not> has_flag (open_flags x) O_IGNORE \<and> \<not> has_flag (open_flags x) O_DIRECTORY"

fun call_files :: "op_struct \<Rightarrow> open_files \<Rightarrow> (open_files \<times> sim_note list \<times> sim_note list) option" where
  "call_files (S_open x) D =
     (if open_retval x = -1 \<and> name_fits (open_name x) then Some (D, [], [])
      else if opens_file x D then
        Some (D(open_retval x \<mapsto> \<lparr>of_name = open_name x, of_time = start (open_info x), of_pos = 0\<rparr>), [], [])
      else None)"
| "call_files (S_read x) D = on_file D (read_fd x) (\<lambda>f.
     (D(read_fd x \<mapsto> f\<lparr>of_pos := of_pos f + read_retval x\<rparr>), noted_at f (of_pos f) (read_retval x) (read_info x), []))"
| "call_files (S_write x) D = on_file D (write_fd x) (\<lambda>f.
     (D(write_fd x \<mapsto> f\<lparr>of_pos := of_pos f + write_retval x\<rparr>), [], noted_at f (of_pos f) (write_retval x) (write_info x)))"
| "call_files (S_pread x) D = on_file D (pread_fd x) (\<lambda>f.
     (D, noted_at f (pread_offset x) (pread_retval x) (pread_info x), []))"
| "call_files (S_pwrite x) D = on_file D (pwrite_fd x) (\<lambda>f.
     (D, [], noted_at f (pwrite_offset x) (pwrite_retval x) (pwrite_info x)))"
| "call_files (S_lseek x) D = on_file D (lseek_fd x) (\<lambda>f. (D(lseek_fd x \<mapsto> f\<lparr>of_pos := lseek_retval x\<rparr>), [], []))"
| "call_files (S_close x) D = on_file D (close_fd x) (\<lambda>_. (D(close_fd x := None), [], []))"
| "call_files (S_unlink x) D = (if name_fits (unlink_name x) then Some (D, [], []) else None)"
| "call_files (S_mkdir x) D = (if name_fits (mkdir_name x) then Some (D, [], []) else None)"
| "call_files (S_access x) D = (if name_fits (access_name x) then Some (D, [], []) else None)"
| "call_files (S_stat x) D = (if name_fits (stat_name x) then Some (D, [], []) else None)"
| "call_files (S_rmdir x) D = (if name_fits (rmdir_name x) then Some (D, [], []) else None)"
| "call_files _ D = None"

fun trace_files :: "i32 \<Rightarrow> op_item list \<Rightarrow> open_files \<Rightarrow> (open_files \<times> sim_note list \<times> sim_note list) option" where
  "trace_files p [] D = Some (D, [], [])"
| "trace_files p (it # its) D =
     (if item_ok it \<and> pid (op_info_of (body it)) = p then
        (case call_files (body it) D of
           None \<Rightarrow> None
         | Some (D, rs, ws) \<Rightarrow> map_option (\<lambda>(D, rs', ws'). (D, rs @ rs', ws @ ws')) (trace_files p its D))
      else None)"

section \<open>The descriptor tables of a simulation\<close>

text \<open>
  The map of a descriptor that is open as \<open>f\<close> and shares it with no other; \<open>u\<close> are the uses of the
  numbers that the simulation gave out, \<open>c\<close> is the last one.
\<close>

definition is_file :: "(i32 \<Rightarrow> nat) \<Rightarrow> i32 \<Rightarrow> i32 \<Rightarrow> fd_map \<Rightarrow> open_file \<Rightarrow> bool" where
  "is_file u c fd m f \<longleftrightarrow> f = \<lparr>of_name = fm_name m, of_time = fm_time_open m, of_pos = cur_pos m\<rparr> \<and> plain_name (fm_name m) \<and> fm_type m = S_IFREG \<and>
     parents_ok m \<and> parent_set m = {fd} \<and> nonneg (my_fd m) \<and> sint (my_fd m) \<le> sint c \<and> 0 < u (my_fd m)"

text \<open>The descriptors \<open>d\<close> of a process are those of its files, each with a number of its own.\<close>

definition has_files :: "(i32 \<rightharpoonup> fd_map) \<Rightarrow> (i32 \<Rightarrow> nat) \<Rightarrow> i32 \<Rightarrow> open_files \<Rightarrow> bool" where
  "has_files d u c D \<longleftrightarrow>
     (\<forall>fd f. D fd = Some f \<longrightarrow> nonneg fd \<and> fd \<notin> {1, 2} \<and> (\<exists>m. d fd = Some m \<and> is_file u c fd m f)) \<and>
     (\<forall>fd. nonneg fd \<longrightarrow> fd \<notin> {1, 2} \<longrightarrow> D fd = None \<longrightarrow> d fd = None) \<and>
     inj_on (\<lambda>fd. map_option my_fd (d fd)) (dom D)"

lemma has_filesD:
  assumes "has_files d u c D" "D fd = Some f"
  shows "nonneg fd" "fd \<notin> {1, 2}" "\<exists>m. d fd = Some m \<and> is_file u c fd m f"
  using assms unfolding has_files_def by blast+

lemma has_files_free: "has_files d u c D \<Longrightarrow> nonneg fd \<Longrightarrow> fd \<notin> {1, 2} \<Longrightarrow> D fd = None \<Longrightarrow> d fd = None"
  unfolding has_files_def by blast

lemma has_files_open:
  assumes h: "has_files d u c D" and fd: "nonneg fd" "fd \<notin> {1, 2}" "D fd = None" and m: "is_file u' c' fd m f" "my_fd m = c'"
    and c: "sint c < sint c'" and u: "\<And>n. u n \<le> u' n"
  shows "has_files (d(fd \<mapsto> m)) u' c' (D(fd \<mapsto> f))"
proof -
  have old: "\<exists>m'. d x = Some m' \<and> is_file u' c' x m' g \<and> my_fd m' \<noteq> c'" if g: "D x = Some g" for x g
  proof -
    obtain m' where m': "d x = Some m'" "is_file u c x m' g" using has_filesD(3) [OF h g] by blast
    then have "sint (my_fd m') < sint c'" "0 < u' (my_fd m')"
      using c u [of "my_fd m'"] by (auto simp: is_file_def)
    with m' show ?thesis by (auto simp: is_file_def)
  qed
  have "inj_on (\<lambda>x. map_option my_fd (d x)) (dom D)" using h by (simp add: has_files_def)
  then have "inj_on (\<lambda>x. map_option my_fd ((d(fd \<mapsto> m)) x)) (dom D)"
    by (rule inj_on_cong [THEN iffD1, rotated]) (use fd(3) in auto)
  moreover have "Some c' \<notin> (\<lambda>x. map_option my_fd ((d(fd \<mapsto> m)) x)) ` (dom D - {fd})"
  proof
    assume "Some c' \<in> (\<lambda>x. map_option my_fd ((d(fd \<mapsto> m)) x)) ` (dom D - {fd})"
    then obtain x g where "D x = Some g" "Some c' = map_option my_fd (d x)" by (auto split: if_splits)
    then show False using old [of x g] by auto
  qed
  ultimately have "inj_on (\<lambda>x. map_option my_fd ((d(fd \<mapsto> m)) x)) (dom (D(fd \<mapsto> f)))" using m(2) by simp
  moreover have "nonneg x \<and> x \<notin> {1, 2} \<and> (\<exists>m'. (d(fd \<mapsto> m)) x = Some m' \<and> is_file u' c' x m' g)"
    if "(D(fd \<mapsto> f)) x = Some g" for x g
    using that fd m(1) old [of x g] has_filesD(1,2) [OF h, of x g] by (cases "x = fd") auto
  ultimately show ?thesis
    using has_files_free [OF h] unfolding has_files_def by simp
qed

lemma has_files_move:
  assumes h: "has_files d u c D" and fd: "D fd = Some f" "d fd = Some m"
  shows "has_files (d(fd \<mapsto> m\<lparr>cur_pos := pos'\<rparr>)) u c (D(fd \<mapsto> f\<lparr>of_pos := pos'\<rparr>))"
proof -
  have "is_file u c fd m f" using has_filesD(3) [OF h fd(1)] fd(2) by simp
  then have m: "is_file u c fd (m\<lparr>cur_pos := pos'\<rparr>) (f\<lparr>of_pos := pos'\<rparr>)"
    by (auto simp: is_file_def parents_ok_def parents_are_def parent_set_def)
  have "(\<lambda>x. map_option my_fd ((d(fd \<mapsto> m\<lparr>cur_pos := pos'\<rparr>)) x)) = (\<lambda>x. map_option my_fd (d x))"
    using fd(2) by auto
  moreover have "dom (D(fd \<mapsto> f\<lparr>of_pos := pos'\<rparr>)) = dom D" using fd(1) by auto
  ultimately have "inj_on (\<lambda>x. map_option my_fd ((d(fd \<mapsto> m\<lparr>cur_pos := pos'\<rparr>)) x)) (dom (D(fd \<mapsto> f\<lparr>of_pos := pos'\<rparr>)))"
    using h by (simp only: has_files_def)
  moreover have "nonneg x \<and> x \<notin> {1, 2} \<and> (\<exists>m'. (d(fd \<mapsto> m\<lparr>cur_pos := pos'\<rparr>)) x = Some m' \<and> is_file u c x m' g)"
    if "(D(fd \<mapsto> f\<lparr>of_pos := pos'\<rparr>)) x = Some g" for x g
    using that m has_filesD [OF h, of x g] has_filesD(1,2) [OF h fd(1)] by (cases "x = fd") auto
  ultimately show ?thesis using has_files_free [OF h] unfolding has_files_def by simp
qed

lemma has_files_close:
  assumes h: "has_files d u c D" and fd: "D fd = Some f" "d fd = Some m"
  shows "has_files (d(fd := None)) (u(my_fd m := u (my_fd m) - 1)) c (D(fd := None))"
proof -
  have inj: "inj_on (\<lambda>x. map_option my_fd (d x)) (dom D)" using h by (simp add: has_files_def)
  then have "inj_on (\<lambda>x. map_option my_fd (d x)) (dom D - {fd})" by (rule inj_on_diff)
  then have "inj_on (\<lambda>x. map_option my_fd ((d(fd := None)) x)) (dom D - {fd})"
    by (rule inj_on_cong [THEN iffD1, rotated]) auto
  moreover have "dom (D(fd := None)) = dom D - {fd}" by simp
  ultimately have "inj_on (\<lambda>x. map_option my_fd ((d(fd := None)) x)) (dom (D(fd := None)))" by simp
  moreover have "nonneg x \<and> x \<notin> {1, 2} \<and> (\<exists>m'. (d(fd := None)) x = Some m' \<and> is_file (u(my_fd m := u (my_fd m) - 1)) c x m' g)"
    if "(D(fd := None)) x = Some g" for x g
  proof -
    have x: "x \<noteq> fd" "D x = Some g" using that by (auto split: if_splits)
    obtain m' where m': "d x = Some m'" "is_file u c x m' g" using has_filesD(3) [OF h x(2)] by blast
    have "my_fd m' \<noteq> my_fd m" using inj_onD [OF inj, of x fd] x m'(1) fd by auto
    then show ?thesis using has_filesD(1,2) [OF h x(2)] m' x(1) by (simp add: is_file_def)
  qed
  ultimately show ?thesis using has_files_free [OF h] unfolding has_files_def by simp
qed

text \<open>The state of a simulation after \<open>n\<close> calls.\<close>

definition simulating :: "nat \<Rightarrow> 'w rep \<Rightarrow> i32 \<Rightarrow> open_files \<Rightarrow> bool" where
  "simulating n s p D \<longleftrightarrow> good 1 s \<and> names s = \<lparr>ht_map = hash_table_init HASH_TABLE_SIZE, l_igns = []\<rparr> \<and>
     distinct_table s p \<and> use_ok (usage_map s) \<and> (\<forall>v. uses (usage_map s) v \<le> n + 2) \<and>
     0 \<le> sint (open_fd_counter (sim s)) \<and>
     has_files (descriptor s p) (uses (usage_map s)) (open_fd_counter (sim s)) D"

text \<open>The descriptor that a file belongs to is the only one that points to its map.\<close>

lemma sole_descriptor:
  assumes g: "good k s" and it: "found s ht fd it" and m: "fd_maps (store s) (fm_ptr it) = Some m" "parent_set m = {fd}"
  shows "(a, x) \<in> heap_entries (store s) \<Longrightarrow> fm_ptr x = fm_ptr it \<Longrightarrow> (a, x) = (ht, it)"
    "descriptor_addr s q fd' = Some (fm_ptr it) \<Longrightarrow> fd' = fd"
proof -
  have itE: "(ht, it) \<in> heap_entries (store s)" "old_fd it = fd" using found_entry [OF g it] by auto
  show sole: "(a, x) = (ht, it)" if x: "(a, x) \<in> heap_entries (store s)" "fm_ptr x = fm_ptr it" for a x
  proof -
    have "good_item k (store s) x" using g x(1) by (force simp: good_def heap_ok_def)
    then have "old_fd x = fd" using m x(2) by (auto simp: good_item_def good_map_def)
    moreover have "entries_apart (heap_entries (store s))" using g by (simp add: good_def heap_ok_def)
    ultimately show ?thesis using itE x unfolding entries_apart_def by fastforce
  qed
  assume "descriptor_addr s q fd' = Some (fm_ptr it)"
  then obtain b t y where y: "tables (store s) b = Some t" "fdt.table_map t fd' = Some y" "fm_ptr y = fm_ptr it"
    by (auto simp: descriptor_addr_def split: sum.splits option.splits)
  have "found s b fd' y" using y(1,2) by (simp add: found_def)
  from found_entry [OF g this] have "(b, y) \<in> heap_entries (store s)" "old_fd y = fd'" by auto
  then show "fd' = fd" using sole y(3) itE(2) by blast
qed

section \<open>The handlers\<close>

lemma file_found:
  assumes s: "simulating n s p D" and f: "D fd = Some f"
  obtains ht it m where "get_process_ht (fd_mappings s) p = Inr (Some ht)" "found s ht fd it" "deref_item (store s) it = Inr m"
    "fd_maps (store s) (fm_ptr it) = Some m" "descriptor s p fd = Some m"
    "is_file (uses (usage_map s)) (open_fd_counter (sim s)) fd m f"
proof -
  obtain m where m: "descriptor s p fd = Some m" "is_file (uses (usage_map s)) (open_fd_counter (sim s)) fd m f"
    using s f has_filesD(3) unfolding simulating_def by blast
  have "good 1 s" using s by (simp add: simulating_def)
  from descriptor_Some [OF this m(1)] that m show ?thesis by metis
qed

lemma open_map_parents:
  assumes "open_retval x \<noteq> -1"
  shows "parents_ok (open_map jk x n fl r)" "parent_set (open_map jk x n fl r) = {open_retval x}"
proof -
  have "parents_are [open_retval x] (open_map jk x n fl r)"
    using assms by (intro one_parent_are) (simp_all add: open_map_fields)
  from parents_are_ok [OF this] show "parents_ok (open_map jk x n fl r)" "parent_set (open_map jk x n fl r) = {open_retval x}"
    by simp_all
qed

lemma noting_counter: "noting (x\<lparr>open_fd_counter := c\<rparr>) rs ws = noting x rs ws"
  by (simp add: noting_def)

lemma simulated_open:
  assumes s: "simulating n s p D" "noting (sim s) rs ws" and x: "opens_file x D" "pid (open_info x) = p"
    and m: "\<not> replicates m" "simulates m" and n: "n < 2 ^ 31 - 3" "sint (open_fd_counter (sim s)) < 2 ^ 31 - 1"
  shows "\<exists>s'. replicate_open e x m s = Inr s' \<and>
    simulating (Suc n) s' p (D(open_retval x \<mapsto> \<lparr>of_name = open_name x, of_time = start (open_info x), of_pos = 0\<rparr>)) \<and>
    noting (sim s') rs ws \<and> sint (open_fd_counter (sim s')) = sint (open_fd_counter (sim s)) + 1"
proof -
  let ?c = "open_fd_counter (sim s) + 1" and ?fd = "open_retval x"
  let ?x = "(sim s)\<lparr>open_fd_counter := ?c\<rparr>"
  have g: "good 1 s" "use_ok (usage_map s)" "distinct_table s p" and u: "uses (usage_map s) v \<le> n + 2" for v
    using s(1) by (simp_all add: simulating_def)
  have h: "has_files (descriptor s p) (uses (usage_map s)) (open_fd_counter (sim s)) D" and c0: "0 \<le> sint (open_fd_counter (sim s))"
    and nm: "names s = \<lparr>ht_map = hash_table_init HASH_TABLE_SIZE, l_igns = []\<rparr>"
    using s(1) by (simp_all add: simulating_def)
  have c: "sint ?c = sint (open_fd_counter (sim s)) + 1" using n(2) c0 by (intro sint_succ) auto
  have fd: "nonneg ?fd" "?fd \<notin> {1, 2}" "D ?fd = None" "plain_name (open_name x)"
    and fl: "\<not> has_flag (open_flags x) O_IGNORE" "\<not> has_flag (open_flags x) O_DIRECTORY"
    using x(1) by (simp_all add: opens_file_def)
  obtain ht t0 where ht: "get_process_ht (fd_mappings s) (pid (open_info x)) = Inr (Some ht)" "tables (store s) ht = Some t0" "fdt.table_distinct t0"
    using g(3) x(2) by (auto simp: distinct_table_def)
  have name: "map_name e (open_name x) s = Inr (Some (open_name x))"
    using map_name_plain [OF nm plain_name_length [OF fd(4)]] .
  have call: "open_call e x (open_name x) (open_flags x) m (s\<lparr>store := st\<rparr>) = Inr (?c, s\<lparr>store := st, world := world s, sim := ?x\<rparr>)" for st
    using m fl noting_mode(1) [OF s(2)]
    by (simp add: open_call_def with_sim_def simulate_creat_def with_fs_def simulate_get_open_fd_def Let_def)
  have free: "descriptor s (pid (open_info x)) ?fd = None" using has_files_free [OF h fd(1-3)] x(2) by simp
  have nonneg: "nonneg ?c" "uses (usage_map s) ?c < 2 ^ 31 - 1" using c c0 u [of ?c] n(1) by simp_all
  obtain t t' u' where run: "tables (store s) ht = Some t" "fdt.table_inv t" "fdt.table_map t ?fd = None"
    "hash_table_insert ht_ops_fditem ?fd (fresh_item (store s) ?fd) t = Inr t'"
    "fdt.table_map t' = (fdt.table_map t)(?fd \<mapsto> fresh_item (store s) ?fd)"
    "use_ok u'" "uses u' = (uses (usage_map s))(?c := Suc (uses (usage_map s) ?c))"
    "replicate_open e x m s =
      Inr (s\<lparr>store := entered ht t' (open_map (junk (store s)) x (open_name x) (open_flags x) ?c) (store s),
        usage_map := u', world := world s, sim := ?x\<rparr>)"
    using free_open_run [OF g(1,2) ht(1) fd(1) free name call nonneg] .
  let ?m = "open_map (junk (store s)) x (open_name x) (open_flags x) ?c"
  let ?s = "s\<lparr>store := entered ht t' ?m (store s), usage_map := u', world := world s, sim := ?x\<rparr>"
  have "good 1 ?s"
    using replicate_open_safe [OF g(1), of "{}" e x m] run(8) by (auto simp: safeR_def ensuresR_def post_def)
  moreover have "fdt.table_distinct t'"
    using fdt.insert_map [OF run(2), of "fresh_item (store s) ?fd"] run(1,3,4) fd(1) ht(2,3) by (auto simp: fresh_item_def)
  then have "distinct_table ?s p" using ht(1) x(2) by (auto simp: distinct_table_def entered_def)
  moreover have "uses u' v \<le> Suc n + 2" for v using u [of v] u [of ?c] run(7) by simp
  moreover have "descriptor ?s p = (descriptor s p)(?fd \<mapsto> ?m)"
    using entered_descriptor [OF good_heap [OF g(1)] run(1,5), of ?s ?m p] ht(1) x(2) by simp
  moreover have "is_file (uses u') ?c ?fd ?m \<lparr>of_name = open_name x, of_time = start (open_info x), of_pos = 0\<rparr>"
  proof -
    have "?fd \<noteq> -1" using fd(1) by auto
    moreover have "take (MAX_STRING - 1) (open_name x) = open_name x" using plain_name_length [OF fd(4)] by simp
    moreover have "fm_name ?m = take (MAX_STRING - 1) (open_name x)" "fm_time_open ?m = start (open_info x)" "cur_pos ?m = 0"
      by (cases "junk (store s)"; simp add: open_map_def)+
    ultimately show ?thesis
      using fd(4) fl nonneg(1) run(7) open_map_parents [of x] by (simp add: is_file_def open_map_fields)
  qed
  then have "has_files ((descriptor s p)(?fd \<mapsto> ?m)) (uses u') ?c
      (D(?fd \<mapsto> \<lparr>of_name = open_name x, of_time = start (open_info x), of_pos = 0\<rparr>))"
    by (intro has_files_open [OF h fd(1-3)]) (use c run(7) in \<open>simp_all add: open_map_fields\<close>)
  ultimately have "simulating (Suc n) ?s p (D(?fd \<mapsto> \<lparr>of_name = open_name x, of_time = start (open_info x), of_pos = 0\<rparr>))"
    using run(6) nm c c0 by (simp add: simulating_def)
  with run(8) c s(2) show ?thesis by (intro exI [of _ ?s]) (simp add: noting_counter)
qed

text \<open>Closing the only descriptor of a file takes it out of its table, and changes no other.\<close>

lemma closed_descriptor:
  assumes g: "good k s" and p: "get_process_ht (fd_mappings s) p = Inr (Some ht)" and it: "found s ht fd it"
    and m: "fd_maps (store s) (fm_ptr it) = Some m" "parents_ok m" "parent_set m = {fd}" and d: "distinct_table s p"
  shows "\<exists>st. close_item ht fd it (store s) = Inr st \<and> descriptor (s\<lparr>store := st\<rparr>) p = (descriptor s p)(fd := None) \<and>
    distinct_table (s\<lparr>store := st\<rparr>) p"
proof -
  obtain t where t: "tables (store s) ht = Some t" "fdt.table_map t fd = Some it" using it by (auto simp: found_def)
  have inv: "fdt.table_inv t" using g t(1) by (auto simp: good_def heap_ok_def tables_ok_def)
  have dist: "fdt.table_distinct t" using d p t(1) by (simp add: distinct_table_def)
  have fd: "nonneg fd" "(ht, it) \<in> heap_entries (store s)" using found_entry [OF g it] by auto
  obtain m' where del: "delete_parent fd m = Inr (True, m')" using delete_parent_step [OF m(2), of fd] m(3) by auto
  obtain fm where "deref_item (store s) it = Inr fm" using entry_deref [OF g fd(2)] by blast
  then have deref: "deref_item (store s) it = Inr m"
    using m(1) by (auto simp: deref_item_def get_map_def res_iff split: if_splits)
  obtain t' where t': "hash_table_remove ht_ops_fditem fd t = Inr (Some it, t')" "fdt.table_map t' = (fdt.table_map t)(fd := None)"
    "fdt.table_distinct t'"
    using fdt.remove_map [OF inv fd(1)] dist t(2) by auto
  let ?st = "(store s)\<lparr>fd_maps := (fd_maps (store s))(fm_ptr it := None), tables := (tables (store s))(ht \<mapsto> t'),
     fd_live := (fd_live (store s))(fi_addr it := False)\<rparr>"
  have "close_item ht fd it (store s) = Inr ?st"
    using deref del t' t(1)
    by (simp add: close_item_def delete_parent_fd_def put_item_def set_map_def get_table_def set_table_def free_item_def
        free_map_def get_map_def)
  moreover have "view ?st t' q = ((view (store s) t)(fd := None)) q" for q
  proof (cases "q = fd")
    case False
    have "fm_ptr y \<noteq> fm_ptr it" if y: "fdt.table_map t q = Some y" for y
    proof
      assume eq: "fm_ptr y = fm_ptr it"
      have e: "found s ht q y" using y t(1) by (simp add: found_def)
      then have "y = it" using sole_descriptor(1) [OF g it m(1,3), of ht y] found_entry [OF g e] eq by simp
      then show False using False found_entry [OF g e] found_entry [OF g it] by simp
    qed
    then show ?thesis using False t'(2) by (cases "fdt.table_map t q") (auto simp: view_def)
  qed (simp add: view_def t'(2))
  ultimately show ?thesis
    using p t(1) t'(3) by (intro exI [of _ ?st]) (auto simp: descriptor_def distinct_table_def fun_eq_iff)
qed

lemma simulated_close:
  assumes s: "simulating n s p D" "noting (sim s) rs ws" and x: "D (close_fd x) = Some f" "pid (close_info x) = p"
    and m: "\<not> replicates m"
  shows "\<exists>s'. replicate_close e x m s = Inr s' \<and> simulating (Suc n) s' p (D(close_fd x := None)) \<and> sim s' = sim s"
proof -
  let ?fd = "close_fd x"
  obtain ht it fm where f: "get_process_ht (fd_mappings s) p = Inr (Some ht)" "found s ht ?fd it" "deref_item (store s) it = Inr fm"
    "fd_maps (store s) (fm_ptr it) = Some fm" "descriptor s p ?fd = Some fm"
    "is_file (uses (usage_map s)) (open_fd_counter (sim s)) ?fd fm f"
    using file_found [OF s(1) x(1)] .
  have g: "good 1 s" "use_ok (usage_map s)" "distinct_table s p" and u: "uses (usage_map s) v \<le> n + 2" for v
    using s(1) by (simp_all add: simulating_def)
  have fm: "supported_type (fm_type fm)" "nonneg (my_fd fm)" "0 < uses (usage_map s) (my_fd fm)" "parents_ok fm" "parent_set fm = {?fd}"
    using f(6) by (simp_all add: is_file_def supported_type_def)
  obtain b u' where u': "decrease_fd_usage (my_fd fm) (usage_map s) = Inr (b, u')" "use_ok u'"
    "uses u' = (uses (usage_map s))(my_fd fm := uses (usage_map s) (my_fd fm) - 1)"
    using decrease_uses [OF g(2) fm(2,3)] by blast
  let ?s1 = "s\<lparr>usage_map := u'\<rparr>"
  have drop: "drop_user e fm m s = Inr (0, ?s1)" using fm(1) u'(1) m by (simp add: drop_user_def)
  obtain st where st: "close_item ht ?fd it (store s) = Inr st" "descriptor (s\<lparr>store := st\<rparr>) p = (descriptor s p)(?fd := None)"
    "distinct_table (s\<lparr>store := st\<rparr>) p"
    using closed_descriptor [OF g(1) f(1,2,4) fm(4,5) g(3)] by blast
  let ?s = "?s1\<lparr>store := st\<rparr>"
  have run: "replicate_close e x m s = Inr ?s"
    using locate_present [OF g(1) _ f(2), of "close_info x" e m] f(1,3) x(2) drop st(1) close_tail [of it ?fd ?s1 ht]
    by (simp add: replicate_close_def)
  have "good 1 ?s"
    using replicate_close_safe [OF g(1), of x e m] run by (auto simp: safeR_def ensuresR_def post_def)
  moreover have "descriptor ?s = descriptor (s\<lparr>store := st\<rparr>)" by (rule descriptor_same_store) simp_all
  then have "descriptor ?s p = (descriptor s p)(?fd := None)" "distinct_table ?s p"
    using st(2,3) by (simp_all add: distinct_table_def)
  moreover have "uses u' v \<le> Suc n + 2" for v using u [of v] u [of "my_fd fm"] u'(3) by auto
  moreover have "has_files ((descriptor s p)(?fd := None)) (uses u') (open_fd_counter (sim s)) (D(?fd := None))"
    using has_files_close [of "descriptor s p" "uses (usage_map s)" "open_fd_counter (sim s)" D ?fd f fm] s(1) x(1) f(5) u'(3)
    by (simp add: simulating_def)
  ultimately have "simulating (Suc n) ?s p (D(?fd := None))" using u'(2) s(1) by (simp add: simulating_def)
  with run show ?thesis by (intro exI [of _ ?s]) simp
qed

text \<open>A transfer is noted, in the simulation of which nothing else changes.\<close>

lemma run_transfer_counter: "noting s rs ws \<Longrightarrow> run_transfer dk t s = Inr s' \<Longrightarrow> open_fd_counter s' = open_fd_counter s"
  using noting_mode [of s rs ws]
  by (cases t) (auto simp: simulate_read_def simulate_write_def simulate_pread_def simulate_pwrite_def note_read_def note_write_def
      res_iff split: if_splits)

lemma simulated_transfer:
  assumes "noting (sim s) rs ws" "plain_name (fm_name (transfer_map t))" "simulates m"
  shows "\<exists>x. transfer e m v (run_transfer dk t) c s = Inr (v, s\<lparr>sim := x\<rparr>) \<and>
    noting x (if v = -1 then rs else rs @ reads_noted t) (if v = -1 then ws else ws @ writes_noted t) \<and>
    open_fd_counter x = open_fd_counter (sim s)"
proof (cases "v = -1")
  case True
  with assms show ?thesis by (intro exI [of _ "sim s"]) (simp add: transfer_def)
next
  case False
  obtain x where "run_transfer dk t (sim s) = Inr x" "noting x (rs @ reads_noted t) (ws @ writes_noted t)"
    using run_transfer_notes [OF assms(1,2)] by blast
  with False assms(3) run_transfer_counter [OF assms(1)] show ?thesis by (auto simp: transfer_def with_sim_def)
qed

lemma noted_of: "is_file u c fd m f \<Longrightarrow> noted_at f off v info = (if v = -1 then [] else [note_of m off v info])"
  by (auto simp: is_file_def noted_at_def note_of_def)

text \<open>Moving the position of a file.\<close>

lemma moved_file:
  assumes s: "simulating n s p D" and f: "D fd = Some f" "found s ht fd it" "get_process_ht (fd_mappings s) p = Inr (Some ht)"
    and m: "deref_item (store s) it = Inr m" "descriptor s p fd = Some m" "fd_maps (store s) (fm_ptr it) = Some m" "parent_set m = {fd}"
    and x: "open_fd_counter x = open_fd_counter (sim s)"
  shows "\<exists>s'. update_map it (\<lambda>m. m\<lparr>cur_pos := g (cur_pos m)\<rparr>) (s\<lparr>sim := x\<rparr>) = Inr s' \<and>
    (good 1 s' \<longrightarrow> simulating (Suc n) s' p (D(fd \<mapsto> f\<lparr>of_pos := g (of_pos f)\<rparr>))) \<and> sim s' = x"
proof -
  let ?s = "s\<lparr>sim := x\<rparr>"
  have g: "good 1 s" using s by (simp add: simulating_def)
  have addr: "descriptor_addr ?s = descriptor_addr s" "descriptor ?s = descriptor s" by (rule descriptor_same_store; simp)+
  have "good 1 ?s" "found ?s ht fd it" "deref_item (store ?s) it = Inr m" using g f(2) m(1) by (simp_all add: good_def found_def)
  from update_descriptor [OF this, of "\<lambda>m. m\<lparr>cur_pos := g (cur_pos m)\<rparr>"] obtain s' where
    s': "update_map it (\<lambda>m. m\<lparr>cur_pos := g (cur_pos m)\<rparr>) ?s = Inr s'" "usage_map s' = usage_map ?s" "sim s' = sim ?s" "names s' = names ?s"
      "fd_mappings s' = fd_mappings ?s" "tables (store s') = tables (store ?s)"
      "\<forall>q. descriptor s' q = (\<lambda>fd'. if descriptor_addr s q fd' = Some (fm_ptr it) then Some (m\<lparr>cur_pos := g (cur_pos m)\<rparr>) else descriptor s q fd')"
    unfolding addr by (elim exE conjE) (rule that)
  have "descriptor_addr s p fd' = Some (fm_ptr it) \<longleftrightarrow> fd' = fd" for fd'
    using sole_descriptor(2) [OF g f(2) m(3,4), of p fd'] descriptor_addr_found [OF f(3,2)] by metis
  then have d: "descriptor s' p = (descriptor s p)(fd \<mapsto> m\<lparr>cur_pos := g (cur_pos m)\<rparr>)" using s'(7) by (simp add: fun_eq_iff)
  have h: "has_files (descriptor s p) (uses (usage_map s)) (open_fd_counter x) D" using s x by (simp add: simulating_def)
  have "of_pos f = cur_pos m" using has_filesD(3) [OF h f(1)] m(2) by (fastforce simp: is_file_def)
  with has_files_move [OF h f(1) m(2)] d
  have "has_files (descriptor s' p) (uses (usage_map s)) (open_fd_counter x) (D(fd \<mapsto> f\<lparr>of_pos := g (of_pos f)\<rparr>))" by simp
  moreover have "distinct_table s' p" using s s'(5,6) by (simp add: simulating_def distinct_table_def)
  ultimately have "simulating (Suc n) s' p (D(fd \<mapsto> f\<lparr>of_pos := g (of_pos f)\<rparr>))" if "good 1 s'"
    using that s s'(2-4) x by (auto simp: simulating_def intro: le_SucI)
  with s'(1,3) show ?thesis by auto
qed

lemma same_files:
  assumes "simulating n s p D" "open_fd_counter x = open_fd_counter (sim s)"
  shows "simulating (Suc n) (s\<lparr>sim := x\<rparr>) p D"
proof -
  have "descriptor (s\<lparr>sim := x\<rparr>) = descriptor s" by (rule descriptor_same_store) simp_all
  with assms show ?thesis by (auto simp: simulating_def good_def distinct_table_def intro: le_SucI)
qed

text \<open>What the steps have in common: the state after one more call.\<close>

definition stepped :: "nat \<Rightarrow> 'w rep \<Rightarrow> i32 \<Rightarrow> open_files \<Rightarrow> sim_note list \<Rightarrow> sim_note list \<Rightarrow> 'w rep \<Rightarrow> bool" where
  "stepped n s p D rs ws s' \<longleftrightarrow> simulating (Suc n) s' p D \<and> noting (sim s') rs ws \<and>
     sint (open_fd_counter (sim s')) \<le> sint (open_fd_counter (sim s)) + 1"

lemma stepped_good: "safeR (post 1 k F s) r \<Longrightarrow> r = Inr s' \<Longrightarrow> good 1 s'"
  by (simp add: safeR_def ensuresR_def post_def)

text \<open>The handlers of transfers and of \<open>lseek\<close> for a file, the transfers with and without the position.\<close>

lemma simulated_moving:
  assumes s: "simulating n s p D" "noting (sim s) rs ws" and f: "D fd = Some f" "found s ht fd it" "get_process_ht (fd_mappings s) p = Inr (Some ht)"
    and fm: "deref_item (store s) it = Inr fm" "descriptor s p fd = Some fm" "fd_maps (store s) (fm_ptr it) = Some fm" "parent_set fm = {fd}"
    and t: "transfer_map t = fm" "plain_name (fm_name fm)" "simulates m"
    and h: "h = bindR (transfer e m v (run_transfer dk t) c s) (\<lambda>(v, s). update_map it (\<lambda>fm. fm\<lparr>cur_pos := cur_pos fm + v\<rparr>) s)"
      "safeR (post 1 k F s) h"
  shows "\<exists>s'. h = Inr s' \<and> stepped n s p (D(fd \<mapsto> f\<lparr>of_pos := of_pos f + v\<rparr>))
    (if v = -1 then rs else rs @ reads_noted t) (if v = -1 then ws else ws @ writes_noted t) s'"
proof -
  obtain x where x: "transfer e m v (run_transfer dk t) c s = Inr (v, s\<lparr>sim := x\<rparr>)"
    "noting x (if v = -1 then rs else rs @ reads_noted t) (if v = -1 then ws else ws @ writes_noted t)"
    "open_fd_counter x = open_fd_counter (sim s)"
    using simulated_transfer [OF s(2) _ t(3), of t e v dk c] t(1,2) by auto
  obtain s' where s': "update_map it (\<lambda>fm. fm\<lparr>cur_pos := cur_pos fm + v\<rparr>) (s\<lparr>sim := x\<rparr>) = Inr s'"
    "good 1 s' \<longrightarrow> simulating (Suc n) s' p (D(fd \<mapsto> f\<lparr>of_pos := of_pos f + v\<rparr>))" "sim s' = x"
    using moved_file [OF s(1) f fm x(3), of "\<lambda>q. q + v"] by blast
  have run: "h = Inr s'" using h(1) x(1) s'(1) by simp
  show ?thesis using run stepped_good [OF h(2) run] s' x(2,3) by (simp add: stepped_def)
qed

lemma simulated_fixed:
  assumes s: "simulating n s p D" "noting (sim s) rs ws"
    and t: "plain_name (fm_name (transfer_map t))" "simulates m"
    and h: "h = bindR (transfer e m v (run_transfer dk t) c s) (\<lambda>(v, s). Inr s)"
  shows "\<exists>s'. h = Inr s' \<and> stepped n s p D
    (if v = -1 then rs else rs @ reads_noted t) (if v = -1 then ws else ws @ writes_noted t) s'"
  using simulated_transfer [OF s(2) t, of e v dk c] h same_files [OF s(1)] by (auto simp: stepped_def)

lemma simulated_handlers:
  assumes s: "simulating n s p D" "noting (sim s) rs ws" and f: "D fd = Some f" and m: "simulates m" "\<not> replicates m"
  shows
    "read_fd x1 = fd \<Longrightarrow> pid (read_info x1) = p \<Longrightarrow> \<exists>s'. replicate_read e x1 m s = Inr s' \<and>
       stepped n s p (D(fd \<mapsto> f\<lparr>of_pos := of_pos f + read_retval x1\<rparr>)) (rs @ noted_at f (of_pos f) (read_retval x1) (read_info x1)) ws s'"
    "write_fd x2 = fd \<Longrightarrow> pid (write_info x2) = p \<Longrightarrow> \<exists>s'. replicate_write e x2 m s = Inr s' \<and>
       stepped n s p (D(fd \<mapsto> f\<lparr>of_pos := of_pos f + write_retval x2\<rparr>)) rs (ws @ noted_at f (of_pos f) (write_retval x2) (write_info x2)) s'"
    "pread_fd x3 = fd \<Longrightarrow> pid (pread_info x3) = p \<Longrightarrow> \<exists>s'. replicate_pread e x3 m s = Inr s' \<and>
       stepped n s p D (rs @ noted_at f (pread_offset x3) (pread_retval x3) (pread_info x3)) ws s'"
    "pwrite_fd x4 = fd \<Longrightarrow> pid (pwrite_info x4) = p \<Longrightarrow> \<exists>s'. replicate_pwrite e x4 m s = Inr s' \<and>
       stepped n s p D rs (ws @ noted_at f (pwrite_offset x4) (pwrite_retval x4) (pwrite_info x4)) s'"
    "lseek_fd x5 = fd \<Longrightarrow> pid (lseek_info x5) = p \<Longrightarrow> \<exists>s'. replicate_lseek e x5 m s = Inr s' \<and>
       stepped n s p (D(fd \<mapsto> f\<lparr>of_pos := lseek_retval x5\<rparr>)) rs ws s'"
proof -
  obtain ht it fm where o: "get_process_ht (fd_mappings s) p = Inr (Some ht)" "found s ht fd it" "deref_item (store s) it = Inr fm"
    "fd_maps (store s) (fm_ptr it) = Some fm" "descriptor s p fd = Some fm"
    "is_file (uses (usage_map s)) (open_fd_counter (sim s)) fd fm f"
    using file_found [OF s(1) f] .
  have g: "good 1 s" using s(1) by (simp add: simulating_def)
  have fm: "supported_type (fm_type fm)" "plain_name (fm_name fm)" "parent_set fm = {fd}" "of_pos f = cur_pos fm"
    using o(6) by (auto simp: is_file_def supported_type_def)
  note loc = locate_present [OF g _ o(2)] and noted = noted_of [OF o(6)]
    and moving = simulated_moving [OF s f o(2,1,3,5,4) fm(3) _ fm(2) m(1)] and fixed = simulated_fixed [OF s _ m(1)]
  note good = transfer_handlers_safe [OF g order_refl, of "{}"] seek_handlers_safe [OF g order_refl, of "{}"]
  show "\<exists>s'. replicate_read e x1 m s = Inr s' \<and>
       stepped n s p (D(fd \<mapsto> f\<lparr>of_pos := of_pos f + read_retval x1\<rparr>)) (rs @ noted_at f (of_pos f) (read_retval x1) (read_info x1)) ws s'"
    if x: "read_fd x1 = fd" "pid (read_info x1) = p"
  proof -
    have run: "replicate_read e x1 m s = bindR (transfer e m (read_retval x1) (run_transfer (disk_of e (world s)) (T_read fm x1))
        (Sys_read (my_fd fm) (read_size x1)) s) (\<lambda>(v, s). update_map it (\<lambda>fm. fm\<lparr>cur_pos := cur_pos fm + v\<rparr>) s)"
      using loc [of "read_info x1" e m] x o(1,3) fm(1) by (simp add: replicate_read_def)
    show ?thesis
      using moving [OF _ run good(1) [of e x1 m]] fm(4) by (cases "read_retval x1 = -1") (simp_all add: noted)
  qed
  show "\<exists>s'. replicate_write e x2 m s = Inr s' \<and>
       stepped n s p (D(fd \<mapsto> f\<lparr>of_pos := of_pos f + write_retval x2\<rparr>)) rs (ws @ noted_at f (of_pos f) (write_retval x2) (write_info x2)) s'"
    if x: "write_fd x2 = fd" "pid (write_info x2) = p"
  proof -
    have run: "replicate_write e x2 m s = bindR (transfer e m (write_retval x2) (run_transfer (disk_of e (world s)) (T_write fm x2))
        (Sys_write (my_fd fm) (write_size x2)) s) (\<lambda>(v, s). update_map it (\<lambda>fm. fm\<lparr>cur_pos := cur_pos fm + v\<rparr>) s)"
      using loc [of "write_info x2" e m] x o(1,3) fm(1) by (simp add: replicate_write_def)
    show ?thesis
      using moving [OF _ run good(2) [of e x2 m]] fm(4) by (cases "write_retval x2 = -1") (simp_all add: noted)
  qed
  show "\<exists>s'. replicate_pread e x3 m s = Inr s' \<and>
       stepped n s p D (rs @ noted_at f (pread_offset x3) (pread_retval x3) (pread_info x3)) ws s'"
    if x: "pread_fd x3 = fd" "pid (pread_info x3) = p"
  proof -
    have run: "replicate_pread e x3 m s = bindR (transfer e m (pread_retval x3) (run_transfer (disk_of e (world s)) (T_pread fm x3))
        (Sys_pread (my_fd fm) (pread_size x3) (pread_offset x3)) s) (\<lambda>(v, s). Inr s)"
      using loc [of "pread_info x3" e m] x o(1,3) fm(1) by (simp add: replicate_pread_def)
    show ?thesis
      using fixed [OF _ run] fm(2) by (cases "pread_retval x3 = -1") (simp_all add: noted)
  qed
  show "\<exists>s'. replicate_pwrite e x4 m s = Inr s' \<and>
       stepped n s p D rs (ws @ noted_at f (pwrite_offset x4) (pwrite_retval x4) (pwrite_info x4)) s'"
    if x: "pwrite_fd x4 = fd" "pid (pwrite_info x4) = p"
  proof -
    have run: "replicate_pwrite e x4 m s = bindR (transfer e m (pwrite_retval x4) (run_transfer (disk_of e (world s)) (T_pwrite fm x4))
        (Sys_pwrite (my_fd fm) (pwrite_size x4) (pwrite_offset x4)) s) (\<lambda>(v, s). Inr s)"
      using loc [of "pwrite_info x4" e m] x o(1,3) fm(1) by (simp add: replicate_pwrite_def)
    show ?thesis
      using fixed [OF _ run] fm(2) by (cases "pwrite_retval x4 = -1") (simp_all add: noted)
  qed
  show "\<exists>s'. replicate_lseek e x5 m s = Inr s' \<and> stepped n s p (D(fd \<mapsto> f\<lparr>of_pos := lseek_retval x5\<rparr>)) rs ws s'"
    if x: "lseek_fd x5 = fd" "pid (lseek_info x5) = p"
  proof -
    obtain s' where s': "update_map it (\<lambda>fm. fm\<lparr>cur_pos := lseek_retval x5\<rparr>) s = Inr s'"
      "good 1 s' \<longrightarrow> simulating (Suc n) s' p (D(fd \<mapsto> f\<lparr>of_pos := lseek_retval x5\<rparr>))" "sim s' = sim s"
      using moved_file [OF s(1) f o(2,1,3,5,4) fm(3) refl, of "\<lambda>_. lseek_retval x5"] by auto
    have run: "replicate_lseek e x5 m s = Inr s'"
      using loc [of "lseek_info x5" e m] x o(1,3) fm(1) m s'(1) by (simp add: replicate_lseek_def)
    show ?thesis using run stepped_good [OF good(5) run] s' s(2) by (simp add: stepped_def)
  qed
qed

text \<open>Calls that only name files, and an open that failed.\<close>

lemma simulated_names:
  assumes s: "simulating n s p D" "noting (sim s) rs ws" and m: "simulates m" "\<not> replicates m"
  shows "name_fits (unlink_name x1) \<Longrightarrow> replicate_unlink e x1 m s = Inr s"
    "name_fits (mkdir_name x2) \<Longrightarrow> replicate_mkdir e x2 m s = Inr s"
    "name_fits (rmdir_name x3) \<Longrightarrow> replicate_rmdir e x3 m s = Inr s"
    "name_fits (access_name x4) \<Longrightarrow> replicate_access e x4 m s = Inr s"
    "name_fits (stat_name x5) \<Longrightarrow> replicate_stat e x5 m s = Inr s"
proof -
  have nm: "name_fits a \<Longrightarrow> map_name e a s = Inr (Some a)" for a
    using map_name_plain [of s a e] s(1) by (simp add: simulating_def)
  show "name_fits (unlink_name x1) \<Longrightarrow> replicate_unlink e x1 m s = Inr s"
    "name_fits (mkdir_name x2) \<Longrightarrow> replicate_mkdir e x2 m s = Inr s"
    "name_fits (rmdir_name x3) \<Longrightarrow> replicate_rmdir e x3 m s = Inr s"
    "name_fits (access_name x4) \<Longrightarrow> replicate_access e x4 m s = Inr s"
    "name_fits (stat_name x5) \<Longrightarrow> replicate_stat e x5 m s = Inr s"
    using nm m noting_mode(1) [OF s(2)]
    by (simp_all add: replicate_unlink_def replicate_mkdir_def replicate_rmdir_def replicate_access_def replicate_stat_def
        replicate_name_def with_sim_def with_fs_def simulate_unlink_def simulate_mkdir_def simulate_rmdir_def
        simulate_access_def simulate_stat_def)
qed

lemma simulated_open_failed:
  assumes s: "simulating n s p D" "noting (sim s) rs ws" and m: "simulates m" "\<not> replicates m"
    and x: "open_retval x = -1" "name_fits (open_name x)"
  shows "\<exists>s'. replicate_open e x m s = Inr s' \<and> stepped n s p D rs ws s'"
proof -
  have g: "good 1 s" and nm: "names s = \<lparr>ht_map = hash_table_init HASH_TABLE_SIZE, l_igns = []\<rparr>" using s(1) by (simp_all add: simulating_def)
  obtain it s1 where a: "alloc_item s = (it, s1)" by (rule prod.exhaust)
  have s1: "s1 = s\<lparr>store := snd (new_fd_item (store s))\<rparr>" "it = fst (new_fd_item (store s))"
    using a by (cases "new_fd_item (store s)"; simp add: alloc_item_def)+
  have "map_name e (open_name x) s1 = Inr (Some (open_name x))" using map_name_plain [of s1] nm x(2) s1(1) by simp
  then have opened: "replicate_open e x m s = with_store (delete_fd_item it) s1"
    using x a m noting_mode(1) [OF s(2)] s1(1)
    by (simp add: replicate_open_def open_failed_def with_sim_def simulate_creat_def with_fs_def)
  obtain st where st: "free_map (fm_ptr it) (store s1) = Inr st"
    using s1 by (simp add: new_fd_item_def free_map_def get_map_def Let_def)
  let ?s = "s\<lparr>store := free_item it st\<rparr>"
  have run: "replicate_open e x m s = Inr ?s" using opened st s1(1) by (simp add: with_store_def delete_fd_item_def)
  have "descriptor ?s = descriptor s"
    by (rule descriptor_same [OF good_heap [OF g]])
      (use alloc_free_same(2,3) [OF a st] in \<open>simp_all add: free_item_def\<close>)
  moreover have "tables (store ?s) = tables (store s)" using alloc_free_same(2) [OF a st] by (simp add: free_item_def)
  moreover have "good 1 ?s" using stepped_good [OF replicate_open_safe [OF g order_refl, of "{}" e x m] run] .
  ultimately have "simulating (Suc n) ?s p D"
    using s(1) by (auto simp: simulating_def distinct_table_def intro: le_SucI)
  with run s(2) show ?thesis by (auto simp: stepped_def)
qed

section \<open>Items and traces\<close>

lemma simulated_item:
  assumes s: "simulating n s p D" "noting (sim s) rs ws" and m: "simulates m" "\<not> replicates m"
    and n: "n < 2 ^ 31 - 3" "sint (open_fd_counter (sim s)) < 2 ^ 31 - 1"
    and it: "item_ok it" "pid (op_info_of (body it)) = p" "call_files (body it) D = Some (D', r, w)"
  shows "\<exists>s'. replicate_item e m ifile mfile False it s = Inr (0, s') \<and> stepped n s p D' (rs @ r) (ws @ w) s'"
proof -
  note handlers = simulated_handlers [OF s _ m]
  have same: "stepped n s p D rs ws s" using same_files [OF s(1) refl] s(2) by (simp add: stepped_def)
  have go: "\<exists>s'. replicate_item e m ifile mfile False it s = Inr (0, s') \<and> stepped n s p D' (rs @ r) (ws @ w) s'"
    if "replicate_item e m ifile mfile False it s = bindR h (\<lambda>s. Inr (0, s))" "\<exists>s'. h = Inr s' \<and> stepped n s p D' (rs @ r) (ws @ w) s'" for h
    using that by auto
  note dispatch = replicate_item_def REPLICATE_def as_defs op_codes item_ok_def
  show ?thesis
  proof (cases "body it")
    case (S_open x)
    have "\<exists>s'. replicate_open e x m s = Inr s' \<and> stepped n s p D' (rs @ r) (ws @ w) s'"
    proof (cases "open_retval x = -1")
      case True
      then show ?thesis using simulated_open_failed [OF s m True] it(3) S_open by (auto simp: opens_file_def split: if_splits)
    next
      case False
      then show ?thesis using simulated_open [OF s _ _ m(2,1) n, of x e] it(2,3) S_open by (fastforce simp: stepped_def split: if_splits)
    qed
    with S_open it(1) show ?thesis by (intro go) (auto simp: dispatch)
  next
    case (S_close x)
    then show ?thesis using it simulated_close [OF s _ _ m(2), of x _ e] s(2) by (intro go) (fastforce simp: dispatch on_file_def stepped_def)+
  next
    case (S_read x)
    then show ?thesis using it handlers(1) by (intro go) (auto simp: dispatch on_file_def)
  next
    case (S_write x)
    then show ?thesis using it handlers(2) by (intro go) (auto simp: dispatch on_file_def)
  next
    case (S_pread x)
    then show ?thesis using it handlers(3) by (intro go) (auto simp: dispatch on_file_def)
  next
    case (S_pwrite x)
    then show ?thesis using it handlers(4) by (intro go) (auto simp: dispatch on_file_def)
  next
    case (S_lseek x)
    then show ?thesis using it handlers(5) by (intro go) (auto simp: dispatch on_file_def)
  next
    case (S_unlink x)
    then show ?thesis using it same simulated_names(1) [OF s m] by (intro go) (auto simp: dispatch split: if_splits)
  next
    case (S_mkdir x)
    then show ?thesis using it same simulated_names(2) [OF s m] by (intro go) (auto simp: dispatch split: if_splits)
  next
    case (S_rmdir x)
    then show ?thesis using it same simulated_names(3) [OF s m] by (intro go) (auto simp: dispatch split: if_splits)
  next
    case (S_access x)
    then show ?thesis using it same simulated_names(4) [OF s m] by (intro go) (auto simp: dispatch split: if_splits)
  next
    case (S_stat x)
    then show ?thesis using it same simulated_names(5) [OF s m] by (intro go) (auto simp: dispatch split: if_splits)
  qed (use it in simp_all)
qed

lemma first_item:
  assumes "item_ok it"
  shows "replicate_item e m ifile mfile True it s =
    bindR (replicate_init e (pid (op_info_of (body it))) ifile mfile s) (\<lambda>(rv, s).
    if rv \<noteq> 0 then Inr (-1, s) else replicate_item e m ifile mfile False it s)"
  using assms by (cases "body it") (auto simp: item_ok_def replicate_item_def REPLICATE_def as_defs op_codes cong: if_cong)

lemma simulated_loop:
  assumes "simulating n s p D" "noting (sim s) rs ws" "trace_files p its D = Some (D', r, w)"
    and "n + length its \<le> 2 ^ 31 - 3" "sint (open_fd_counter (sim s)) + int (length its) < 2 ^ 31" "simulates m" "\<not> replicates m"
  shows "\<exists>s' n'. replicate_loop e m ifile mfile False its s = Inr (0, replicate_finish s') \<and> simulating n' s' p D' \<and>
    noting (sim s') (rs @ r) (ws @ w)"
  using assms(1-5)
proof (induction its arbitrary: n s D rs ws r w)
  case Nil
  then show ?case by auto
next
  case (Cons it its)
  obtain D1 r1 w1 r2 w2 where it: "item_ok it" "pid (op_info_of (body it)) = p" "call_files (body it) D = Some (D1, r1, w1)"
    and its: "trace_files p its D1 = Some (D', r2, w2)" "r = r1 @ r2" "w = w1 @ w2"
    using Cons.prems(3) by (auto split: if_splits option.splits)
  have n: "n < 2 ^ 31 - 3" "sint (open_fd_counter (sim s)) < 2 ^ 31 - 1" using Cons.prems(4,5) by auto
  obtain s1 where s1: "replicate_item e m ifile mfile False it s = Inr (0, s1)" "stepped n s p D1 (rs @ r1) (ws @ w1) s1"
    using simulated_item [OF Cons.prems(1,2) assms(6,7) n it] by blast
  obtain s2 n2 where "replicate_loop e m ifile mfile False its s1 = Inr (0, replicate_finish s2)" "simulating n2 s2 p D'"
    "noting (sim s2) ((rs @ r1) @ r2) ((ws @ w1) @ w2)"
    using Cons.IH [of "Suc n" s1 D1 "rs @ r1" "ws @ w1" r2 w2] s1(2) its(1) Cons.prems(4,5) by (auto simp: stepped_def)
  with s1(1) its(2,3) show ?case by auto
qed

text \<open>The state with which the first item starts.\<close>

lemma simulating_start:
  assumes "after_init s0 p s" "names s = \<lparr>ht_map = hash_table_init HASH_TABLE_SIZE, l_igns = []\<rparr>" "0 \<le> sint (open_fd_counter (sim s))"
  shows "simulating 0 s p Map.empty"
  using assms by (auto simp: after_init_def simulating_def has_files_def)

lemma trace_simulated:
  assumes "its \<noteq> []" "nonneg p" "trace_files p its Map.empty = Some (D, rs, ws)"
    and "heap_ok 1 (store s)" "noting (sim s) [] []" "0 \<le> sint (open_fd_counter (sim s))"
    and "sint (open_fd_counter (sim s)) + int (length its) < 2 ^ 31" "length its \<le> 2 ^ 31 - 3"
    and "sys e (Sys_open ''/dev/null'' O_WRONLY None) (world s) = (fd, w)" "(ucast fd :: i32) \<noteq> -1"
    and "simulates m" "\<not> replicates m"
  shows "\<exists>s'. replicate_all e its m None None s = Inr (0, s') \<and> noting (sim s') rs ws"
proof -
  obtain fd' w' where zero: "sys e (Sys_open ''/dev/zero'' 0 None) w = (fd', w')" by (rule prod.exhaust)
  obtain t where t: "replicate_all e its m None None s = replicate_loop e m None None True its t" "store t = store s"
    "world t = world s" "sim t = sim s"
    by (rule that [of "if has_flag m FIX_MISSING then s else s\<lparr>global_fix_missing := False\<rparr>"]) (simp_all add: replicate_all_def)
  have "namemap_init (files_of e (world t)) None None = Inr (0, \<lparr>ht_map = hash_table_init HASH_TABLE_SIZE, l_igns = []\<rparr>)"
    by (simp add: namemap_init_def open_list_def Let_def)
  then obtain s1 where s1: "replicate_init e p None None t = Inr (0, s1)" "after_init t p s1"
    "names s1 = \<lparr>ht_map = hash_table_init HASH_TABLE_SIZE, l_igns = []\<rparr>"
    using replicate_init_run [of p t e None None _ fd w fd' w'] assms(2,4,9,10) zero t(2,3) by auto
  have x: "sim s1 = sim s" using s1(2) t(4) by (simp add: after_init_def)
  obtain it its' where its: "its = it # its'" using assms(1) by (cases its) auto
  have it: "item_ok it" "pid (op_info_of (body it)) = p" using assms(3) by (auto simp: its split: if_splits)
  have first: "replicate_item e m None None True it t = replicate_item e m None None False it s1"
    by (subst first_item [OF it(1)]) (simp add: it(2) s1(1))
  obtain s' where "replicate_loop e m None None False its s1 = Inr (0, replicate_finish s')" "noting (sim s') rs ws"
    using simulated_loop [OF simulating_start [OF s1(2,3)], of "[]" "[]" its D rs ws m e None None] assms(3,5-8,11,12) x by auto
  moreover have "replicate_all e its m None None s = replicate_loop e m None None False its s1"
    using t(1) by (simp add: its first)
  ultimately show ?thesis by (auto simp: replicate_finish_def)
qed

end
