(* ===== verification/Sim_Calls.thy ===== *)
theory Sim_Calls
  imports Sim_Files
begin

text \<open>
  The simulated calls of \<open>simfs.c\<close> against a specification on partial maps: any sequence of calls on
  absolute names without dots returns what the specification returns, and keeps its map.
\<close>

section \<open>The simulated calls and what they promise\<close>

datatype fs_call =
    Fs_access access_op
  | Fs_stat stat_op
  | Fs_mkdir mkdir_op
  | Fs_unlink unlink_op
  | Fs_rmdir rmdir_op
  | Fs_open open_op

fun fs_name :: "fs_call \<Rightarrow> string" where
  "fs_name (Fs_access x) = access_name x"
| "fs_name (Fs_stat x) = stat_name x"
| "fs_name (Fs_mkdir x) = mkdir_name x"
| "fs_name (Fs_unlink x) = unlink_name x"
| "fs_name (Fs_rmdir x) = rmdir_name x"
| "fs_name (Fs_open x) = open_name x"

fun fs_run :: "disk \<Rightarrow> fs_call \<Rightarrow> simfs trie \<Rightarrow> (i32 option \<times> simfs trie) res" where
  "fs_run dk (Fs_access x) = simfs_access dk x"
| "fs_run dk (Fs_stat x) = simfs_stat dk x"
| "fs_run dk (Fs_mkdir x) = simfs_mkdir dk x"
| "fs_run dk (Fs_unlink x) = simfs_unlink dk x"
| "fs_run dk (Fs_rmdir x) = simfs_rmdir dk x"
| "fs_run dk (Fs_open x) = simfs_creat dk x"

fun fs_runs :: "disk \<Rightarrow> fs_call list \<Rightarrow> simfs trie \<Rightarrow> (i32 option list \<times> simfs trie) res" where
  "fs_runs dk [] t = Inr ([], t)"
| "fs_runs dk (c # cs) t = bindR (fs_run dk c t) (\<lambda>(rv, t). bindR (fs_runs dk cs t) (\<lambda>(rvs, t). Inr (rv # rvs, t)))"

text \<open>
  The specification. A call that was recorded as successful on a file that is not there makes the
  file and the way to it up (as not physical); one that had failed on a file that is there removes it.
  Only files that were not known yet are looked for on the disk.
\<close>

definition spec_query :: "(string \<Rightarrow> bool) \<Rightarrow> string list \<Rightarrow> bool \<Rightarrow> i32 option \<Rightarrow> file_map \<Rightarrow> i32 option \<times> file_map" where
  "spec_query D cs succeeded lost_rv F =
     (case F cs of
        Some phys \<Rightarrow> if succeeded then (Some 0, F) else (Some SIMFS_EENT, if phys then forget cs F else F)
      | None \<Rightarrow>
          if succeeded then
            if present D F cs then (Some 0, met D cs F) else (lost_rv, imagine cs (met D cs F))
          else if present D F cs then (Some SIMFS_EENT, forget cs (met D cs F))
          else (Some 0, met D cs F))"

definition spec_make :: "(string \<Rightarrow> bool) \<Rightarrow> string list \<Rightarrow> bool \<Rightarrow> file_map \<Rightarrow> i32 option \<times> file_map" where
  "spec_make D cs succeeded F =
     (let F' = met D cs F; parent = present D F (butlast cs) in
      if succeeded then (Some (if parent then 0 else SIMFS_ENOENT), imagine cs F')
      else (Some (if parent then SIMFS_EENT else 0), F'))"

definition spec_mkdir :: "(string \<Rightarrow> bool) \<Rightarrow> string list \<Rightarrow> bool \<Rightarrow> file_map \<Rightarrow> i32 option \<times> file_map" where
  "spec_mkdir D cs succeeded F =
     (if present D F cs then (Some (if succeeded then SIMFS_EENT else 0), met D cs F)
      else spec_make D cs succeeded F)"

definition spec_unlink :: "(string \<Rightarrow> bool) \<Rightarrow> string list \<Rightarrow> bool \<Rightarrow> file_map \<Rightarrow> i32 option \<times> file_map" where
  "spec_unlink D cs succeeded F =
     (if F cs \<noteq> None then (Some (if succeeded then 0 else SIMFS_EENT), forget cs F)
      else if succeeded then (Some SIMFS_ENOENT, forget cs (imagine cs (met D cs F)))
      else if present D F cs then (Some SIMFS_EENT, forget cs (met D cs F))
      else (Some 0, met D cs F))"

definition spec_open :: "(string \<Rightarrow> bool) \<Rightarrow> string list \<Rightarrow> bool \<Rightarrow> bool \<Rightarrow> bool \<Rightarrow> file_map \<Rightarrow> i32 option \<times> file_map" where
  "spec_open D cs create exclusive succeeded F =
     (if present D F cs then
        if create then (Some (if exclusive \<and> succeeded then SIMFS_EENT else 0), met D cs F)
        else if succeeded then (Some 0, met D cs F)
        else (Some SIMFS_EENT, forget cs (met D cs F))
      else if create then spec_make D cs succeeded F
      else if succeeded then (Some SIMFS_ENOENT, imagine cs (met D cs F))
      else (Some 0, met D cs F))"

fun spec_fs :: "(string \<Rightarrow> bool) \<Rightarrow> string list \<Rightarrow> fs_call \<Rightarrow> file_map \<Rightarrow> i32 option \<times> file_map" where
  "spec_fs D cs (Fs_access x) = spec_query D cs (access_retval x = 0) None"
| "spec_fs D cs (Fs_stat x) = spec_query D cs (stat_retval x = 0) (Some SIMFS_ENOENT)"
| "spec_fs D cs (Fs_mkdir x) = spec_mkdir D cs (mkdir_retval x = 0)"
| "spec_fs D cs (Fs_unlink x) = spec_unlink D cs (unlink_retval x = 0)"
| "spec_fs D cs (Fs_rmdir x) = spec_unlink D cs (rmdir_retval x = 0)"
| "spec_fs D cs (Fs_open x) =
     spec_open D cs (has_flag (open_flags x) O_CREAT) (has_flag (open_flags x) O_EXCL) (open_retval x \<noteq> -1)"

fun spec_fs_calls :: "(string \<Rightarrow> bool) \<Rightarrow> fs_call list \<Rightarrow> file_map \<Rightarrow> i32 option list \<times> file_map" where
  "spec_fs_calls D [] F = ([], F)"
| "spec_fs_calls D (c # cs) F =
     (let (rv, F) = spec_fs D (strtok (CHR ''/'') (fs_name c)) c F; (rvs, F) = spec_fs_calls D cs F in (rv # rvs, F))"

section \<open>Every call refines its specification\<close>

lemma physical_known:
  assumes "known_files t cs = Some v"
  shows "walk (root t) cs = cs \<and> physical_at t cs = Inr v"
proof
  have "length cs \<le> length (walk (root t) cs)" using known_walk [of "length cs" cs t] assms by simp
  moreover obtain q where "cs = walk (root t) cs @ q" using walk_prefix by blast
  ultimately show "walk (root t) cs = cs" by (metis append_Nil2 append_eq_conv_conj drop_eq_Nil2)
  show "physical_at t cs = Inr v" using assms by (auto simp: known_files_def vals_def physical_at_def of_opt_def)
qed

lemma forget_unknown:
  assumes "known_files t cs = None"
  shows "forget cs (known_files t) = known_files t"
proof
  fix q
  have "known_files t q = None" if "take (length cs) q = cs"
    using files_prefix [of t cs "drop (length cs) q"] assms append_take_drop_id [of "length cs" q] unfolding that
    by (cases "known_files t q") auto
  then show "forget cs (known_files t) q = known_files t q" by (simp add: forget_def)
qed

lemma known_present:
  assumes "known_files t cs \<noteq> None"
  shows "present D (known_files t) cs"
  unfolding present_def using files_prefix [of t] assms by (metis append_take_drop_id)

lemma imagine_here: "imagine cs F cs \<noteq> None"
  by (auto simp: imagine_def split: option.split)

lemma met_here: "met D cs F cs = None \<longleftrightarrow> F cs = None \<and> \<not> present D F cs"
  by (auto simp: met_def split: option.splits)

text \<open>The tests on the missing rest of the name: whether only the last component is missing.\<close>

lemma missing_part:
  assumes "plain cs" "k < length cs" "ex \<in> {path (take k cs), path (take k cs) @ ''/''}"
  defines "m \<equiv> drop (length ex) (path cs)"
  shows "ex \<noteq> path cs \<and> m \<noteq> [] \<and> last m \<noteq> CHR ''/'' \<and>
    (strccount (if take 1 m = ''/'' then drop 1 m else m) (CHR ''/'') = 0 \<longleftrightarrow> Suc k = length cs)"
proof -
  obtain c r where r: "drop k cs = c # r" using assms(2) by (metis Cons_nth_drop_Suc)
  have cs: "cs = take k cs @ c # r" using r by (metis append_take_drop_id)
  have pl: "plain (c # r)" using plain_take_drop [OF assms(1)] r by metis
  have k: "path cs = path (take k cs) @ CHR ''/'' # c @ path r" using arg_cong [OF cs, of path] by simp
  have m: "m = CHR ''/'' # c @ path r \<or> m = c @ path r" using assms(3) k by (auto simp: m_def)
  have c: "c \<noteq> []" "hd c \<noteq> CHR ''/''" "last (c @ path r) \<noteq> CHR ''/''"
    using pl last_path [OF pl] by (auto dest: hd_in_set)
  have "(if take 1 m = ''/'' then drop 1 m else m) = c @ path r" using m c(1,2) by (cases c) auto
  moreover have "count_list (c @ path r) (CHR ''/'') = length r" using pl count_path by auto
  moreover have "length r = 0 \<longleftrightarrow> Suc k = length cs" using arg_cong [OF r, of length] assms(2) by (cases r) auto
  moreover have "ex \<noteq> path cs" using assms(3) k c(1) by auto
  ultimately show ?thesis using m c by (auto simp: strccount_count)
qed

text \<open>What a call does is one of these: to the calls on the name of a file.\<close>

lemma mark_created_files:
  assumes "fs_ok t" "known_files t p \<noteq> None"
  shows "fs_ok (mark_created p t) \<and> known_files (mark_created p t) = known_files t"
  unfolding mark_created_def using files_set_val [OF assms] by simp

lemma call_refines_files:
  assumes "fs_ok t" "plain cs" "cs \<noteq> []" "length (path cs) < MAX_LINE" "fs_name c = path cs"
  shows "\<exists>t'. fs_run dk c t = Inr (fst (spec_fs (on_disk dk) cs c (known_files t)), t') \<and>
    fs_ok t' \<and> known_files t' = snd (spec_fs (on_disk dk) cs c (known_files t))"
proof -
  let ?D = "on_disk dk" and ?F = "known_files t"
  obtain b ex t1 where start: "trie_longest_prefix t (path cs) (strdup (path cs)) = (walk (root t) cs, b)"
    and there: "cstr b = path cs \<longleftrightarrow> ?F cs \<noteq> None"
    and pop: "simfs_populate dk (Suc (length (path cs))) (cstr b) (drop (common_len (cstr b) (path cs)) (path cs)) t =
      Inr (present ?D ?F cs, ex, drop (length ex) (path cs), t1)"
    and t1: "fs_ok t1" "known_files t1 = met ?D cs ?F"
    and far: "if present ?D ?F cs then ex = path cs
     else \<exists>k<length cs. ex \<in> {path (take k cs), path (take k cs) @ ''/''} \<and>
       (Suc k = length cs \<longleftrightarrow> present ?D ?F (butlast cs))"
    using start_of_call [OF assms(1-3)] by blast
  define m where "m = drop (length ex) (path cs)"
  have missing: "ex \<noteq> path cs \<and> m \<noteq> [] \<and> last m \<noteq> CHR ''/'' \<and>
    (take 1 m = ''/'' \<longrightarrow> (strccount (drop 1 m) (CHR ''/'') = 0 \<longleftrightarrow> present ?D ?F (butlast cs))) \<and>
    (take 1 m \<noteq> ''/'' \<longrightarrow> (strccount m (CHR ''/'') = 0 \<longleftrightarrow> present ?D ?F (butlast cs)))"
    if no: "\<not> present ?D ?F cs"
  proof -
    obtain k where k: "k < length cs" "ex \<in> {path (take k cs), path (take k cs) @ ''/''}"
      "Suc k = length cs \<longleftrightarrow> present ?D ?F (butlast cs)"
      using far no by auto
    from missing_part [OF assms(2) k(1,2)] show ?thesis
      unfolding k(3) m_def [symmetric] by (simp split: if_splits)
  qed
  have found: "ex = path cs \<longleftrightarrow> present ?D ?F cs" using far missing by metis
  have new: "fst (trie_insert t1 (path cs)) = cs" "fs_ok (snd (trie_insert t1 (path cs)))"
    "known_files (snd (trie_insert t1 (path cs))) = imagine cs (met ?D cs ?F)"
    using files_imagine [OF t1(1) assms(2)] t1(2) by simp_all
  have made: "fs_ok (mark_created cs (snd (trie_insert t1 (path cs)))) \<and>
      known_files (mark_created cs (snd (trie_insert t1 (path cs)))) = imagine cs (met ?D cs ?F)"
    using mark_created_files [OF new(2), of cs] new(3) imagine_here by simp
  have unknown: "forget cs (met ?D cs ?F) = met ?D cs ?F" if "\<not> present ?D ?F cs" "?F cs = None"
    using forget_unknown [of t1 cs] t1(2) that met_here by simp
  note simps = absolute_name_path [OF assms(2-4)] start there pop [folded m_def] t1 found files_forget [OF assms(1-3)]
    files_forget [OF t1(1) assms(2,3)] files_forget [OF new(2) assms(2,3)] new made unknown
  show ?thesis
  proof (cases c)
    case (Fs_access x)
    then show ?thesis
      using physical_known [of t cs] assms(1,5) simps by (auto simp: simfs_access_def spec_query_def split: option.split)
  next
    case (Fs_stat x)
    then show ?thesis
      using physical_known [of t cs] assms(1,5) simps by (auto simp: simfs_stat_def spec_query_def split: option.split)
  next
    case (Fs_mkdir x)
    show ?thesis
    proof (cases "present ?D ?F cs")
      case True
      then show ?thesis using Fs_mkdir assms(5) simps by (simp add: simfs_mkdir_def spec_mkdir_def)
    next
      case False
      then have none: "?F cs = None" using known_present by blast
      show ?thesis
        using missing [OF False] Fs_mkdir assms(5) simps unknown [OF False none] False none
        by (simp add: simfs_mkdir_def spec_mkdir_def spec_make_def Let_def case_prod_unfold)
    qed
  next
    case (Fs_unlink x)
    then show ?thesis
      using assms(1,5) simps by (auto simp: simfs_unlink_def spec_unlink_def)
  next
    case (Fs_rmdir x)
    then show ?thesis
      using assms(1,5) simps by (auto simp: simfs_rmdir_def simfs_unlink_def spec_unlink_def)
  next
    case (Fs_open x)
    show ?thesis
    proof (cases "present ?D ?F cs")
      case True
      then show ?thesis using Fs_open assms(5) simps by (simp add: simfs_creat_def spec_open_def)
    next
      case False
      then have none: "?F cs = None" using known_present by blast
      show ?thesis
        using missing [OF False] Fs_open assms(5) simps unknown [OF False none] False none
        by (simp add: simfs_creat_def spec_open_def spec_make_def Let_def case_prod_unfold)
    qed
  qed
qed

section \<open>Sequences of calls\<close>

definition plain_call :: "fs_call \<Rightarrow> bool" where
  "plain_call c \<longleftrightarrow> (\<exists>cs. fs_name c = path cs \<and> plain cs \<and> cs \<noteq> [] \<and> length (path cs) < MAX_LINE)"

lemma calls_refine:
  assumes "fs_ok t" "\<forall>c\<in>set calls. plain_call c"
  shows "\<exists>t'. fs_runs dk calls t = Inr (fst (spec_fs_calls (on_disk dk) calls (known_files t)), t') \<and>
    fs_ok t' \<and> known_files t' = snd (spec_fs_calls (on_disk dk) calls (known_files t))"
  using assms
proof (induction calls arbitrary: t)
  case (Cons c calls)
  obtain cs where cs: "fs_name c = path cs" "plain cs" "cs \<noteq> []" "length (path cs) < MAX_LINE"
    using Cons.prems(2) by (auto simp: plain_call_def)
  obtain t1 where t1: "fs_run dk c t = Inr (fst (spec_fs (on_disk dk) cs c (known_files t)), t1)" "fs_ok t1"
    "known_files t1 = snd (spec_fs (on_disk dk) cs c (known_files t))"
    using call_refines_files [OF Cons.prems(1) cs(2-4,1)] by blast
  from Cons.IH [OF t1(2)] Cons.prems(2) t1(1,3) show ?case
    by (auto simp: cs(1,2) case_prod_unfold Let_def)
qed simp

lemma has_file_path:
  assumes "fs_ok t" "plain cs" "cs \<noteq> []"
  shows "simfs_has_file t (path cs) =
    Inr (case known_files t cs of None \<Rightarrow> SIMFS_ENOENT | Some phys \<Rightarrow> if phys then SIMFS_PHYS else SIMFS_VIRT)"
proof -
  obtain b where "trie_longest_prefix t (path cs) (strdup (path cs)) = (walk (root t) cs, b)"
    "cstr b = path cs \<longleftrightarrow> known_files t cs \<noteq> None"
    using start_of_call [OF assms] by blast
  then show ?thesis using physical_known [of t cs] by (auto simp: simfs_has_file_def split: option.split)
qed

lemma simfs_init_files: "fs_ok simfs_init" "known_files simfs_init = [[] \<mapsto> True]"
  by (auto simp: fs_ok_def trie_ok_def simfs_init_def trie_init_def NUL_def known_files_def vals_add_leaf fun_eq_iff)

text \<open>
  C11: The simulated file system refines its specification: whatever calls are simulated, on absolute
  names without hidden or dotted components that fit in the buffers, each call returns what the
  specification returns, and afterwards a file is known as physical, as simulated, or not at all, just
  as the map of the specification says. The calls never fail otherwise.
\<close>

theorem simfs_refines_files:
  assumes "\<forall>c\<in>set calls. plain_call c"
  shows "\<exists>t. fs_runs dk calls simfs_init = Inr (fst (spec_fs_calls (on_disk dk) calls [[] \<mapsto> True]), t) \<and>
    (\<forall>cs. plain cs \<longrightarrow> cs \<noteq> [] \<longrightarrow> simfs_has_file t (path cs) =
      Inr (case snd (spec_fs_calls (on_disk dk) calls [[] \<mapsto> True]) cs of
          None \<Rightarrow> SIMFS_ENOENT | Some phys \<Rightarrow> if phys then SIMFS_PHYS else SIMFS_VIRT))"
proof -
  obtain t where t: "fs_runs dk calls simfs_init = Inr (fst (spec_fs_calls (on_disk dk) calls [[] \<mapsto> True]), t)" "fs_ok t"
    "known_files t = snd (spec_fs_calls (on_disk dk) calls [[] \<mapsto> True])"
    using calls_refine [OF simfs_init_files(1) assms, of dk] unfolding simfs_init_files(2) by blast
  then show ?thesis using has_file_path [OF t(2)] by auto
qed

text \<open>
  A file that is on the disk, but was not known yet, is removed: the call finds it missing all the
  same. Later it is found on the disk again, although it was removed.
\<close>

lemma present_one: "present D F [c] \<longleftrightarrow> (F [] \<noteq> None \<or> D []) \<and> (F [c] \<noteq> None \<or> D (path [c]))"
  by (auto simp: present_def le_Suc_eq)

lemma present_two: "present D F [c, d] \<longleftrightarrow> present D F [c] \<and> (F [c, d] \<noteq> None \<or> D (path [c, d]))"
  by (auto simp: present_def le_Suc_eq)

definition sample_disk :: disk where
  "sample_disk = \<lparr>on_disk = (\<lambda>n. n = ''/tmp'' \<or> n = ''/tmp/a''), st_size = (\<lambda>_. 4), cwd = None\<rparr>"

definition sample_fs_calls :: "fs_call list" where
  "sample_fs_calls =
     (let inf = \<lparr>pid = 1, dur = 0, start = \<lparr>tv_sec = 0, tv_usec = 0\<rparr>\<rparr> in
      [Fs_unlink \<lparr>unlink_name = ''/tmp/a'', unlink_retval = 0, unlink_info = inf\<rparr>,
       Fs_stat \<lparr>stat_name = ''/tmp/a'', stat_retval = -1, stat_info = inf\<rparr>,
       Fs_mkdir \<lparr>mkdir_name = ''/tmp/b'', mkdir_mode = 0, mkdir_retval = 0, mkdir_info = inf\<rparr>])"

theorem simfs_refines_files_witness:
  "\<exists>t. fs_runs sample_disk sample_fs_calls simfs_init = Inr ([Some SIMFS_ENOENT, Some SIMFS_EENT, Some 0], t) \<and>
     simfs_has_file t ''/tmp/a'' = Inr SIMFS_ENOENT \<and> simfs_has_file t ''/tmp/b'' = Inr SIMFS_VIRT"
proof -
  have "path [''tmp'', ''a''] = ''/tmp/a''" "path [''tmp'', ''b''] = ''/tmp/b''" by simp_all
  moreover have names: "plain [''tmp'', ''a'']" "plain [''tmp'', ''b'']" by (simp_all add: NUL_def)
  ultimately have plain: "\<forall>c\<in>set sample_fs_calls. plain_call c"
    by (auto simp: sample_fs_calls_def plain_call_def MAX_LINE_def Let_def
        intro: exI [of _ "[''tmp'', ''a'']"] exI [of _ "[''tmp'', ''b'']"])
  have toks: "strtok (CHR ''/'') ''tmp/a'' = [''tmp'', ''a'']" "strtok (CHR ''/'') ''tmp/b'' = [''tmp'', ''b'']"
    by (simp_all add: strtok_def)
  let ?D = "on_disk sample_disk" and ?a = "[''tmp'', ''a'']" and ?b = "[''tmp'', ''b'']" and ?F0 = "[[] \<mapsto> True] :: file_map"
  have D: "?D (path [''tmp''])" "?D (path ?a)" "\<not> ?D (path ?b)" by (simp_all add: sample_disk_def)
  define F1 where "F1 = forget ?a (imagine ?a (met ?D ?a ?F0))"
  define F2 where "F2 = forget ?a (met ?D ?a F1)"
  have F1: "F1 [] = Some True" "F1 [''tmp''] = Some True" "F1 ?a = None" "F1 ?b = None"
    by (simp_all add: F1_def forget_def imagine_def met_def present_one present_two D [simplified])
  then have F2: "F2 [] = Some True" "F2 [''tmp''] = Some True" "F2 ?a = None" "F2 ?b = None"
    by (simp_all add: F2_def forget_def met_def)
  have "spec_unlink ?D ?a True ?F0 = (Some SIMFS_ENOENT, F1)" by (simp add: spec_unlink_def F1_def)
  moreover have "spec_query ?D ?a False (Some SIMFS_ENOENT) F1 = (Some SIMFS_EENT, F2)"
    using F1 D by (simp add: spec_query_def F2_def present_two present_one)
  moreover have "spec_mkdir ?D ?b True F2 = (Some 0, imagine ?b (met ?D ?b F2))"
    using F2 D by (simp add: spec_mkdir_def spec_make_def present_two present_one)
  ultimately have run: "spec_fs_calls ?D sample_fs_calls ?F0 =
      ([Some SIMFS_ENOENT, Some SIMFS_EENT, Some 0], imagine ?b (met ?D ?b F2))"
    by (simp add: sample_fs_calls_def Let_def toks)
  have end_state: "imagine ?b (met ?D ?b F2) ?a = None" "imagine ?b (met ?D ?b F2) ?b = Some False"
    using F2 D by (simp_all add: imagine_def met_def present_two)
  obtain t where t: "fs_runs sample_disk sample_fs_calls simfs_init =
      Inr (fst (spec_fs_calls (on_disk sample_disk) sample_fs_calls [[] \<mapsto> True]), t)"
    "\<forall>cs. plain cs \<longrightarrow> cs \<noteq> [] \<longrightarrow> simfs_has_file t (path cs) =
      Inr (case snd (spec_fs_calls (on_disk sample_disk) sample_fs_calls [[] \<mapsto> True]) cs of
          None \<Rightarrow> SIMFS_ENOENT | Some phys \<Rightarrow> if phys then SIMFS_PHYS else SIMFS_VIRT)"
    using simfs_refines_files [OF plain] by blast
  then show ?thesis
    using run end_state names t(2) [rule_format, of "[''tmp'', ''a'']"] t(2) [rule_format, of "[''tmp'', ''b'']"] by auto
qed

end
