(* ===== verification/Python_Module.thy ===== *)
theory Python_Module
  imports Complex_Main Ioreplay Sim_Trace Sim_Calls Replay_Safety
begin

text \<open>
  The module for Python of \<open>ioprofiler/ioappsmodule.c\<close>, with which the profiler loads a trace,
  simulates it and gets the transfers of every file. Doubles are modelled as rational numbers, without
  their rounding; objects of the interpreter are never freed (reference counts are left out).
\<close>

unbundle bit_operations_syntax

section \<open>Values of the interpreter\<close>

text \<open>
  A dictionary that the module fills: to every name the time of the opening, and offset, size, start and
  duration of every transfer. Dictionaries are objects with an identity: the module goes on using one
  that it has returned.
\<close>

type_synonym py_tuple = "rat \<times> rat \<times> rat \<times> rat"
type_synonym py_dict = "string \<rightharpoonup> rat \<times> py_tuple list"

datatype py_value = Py_None | Py_Dict addr

datatype py_error = Value_Error string | Type_Error

text \<open>The global variables, those of the modules below, and the dictionaries of the interpreter.\<close>

record 'w py_state =
  list_g :: "op_item list option"
  read_dict_g :: "addr option"
  write_dict_g :: "addr option"
  modules :: "'w rep"
  dicts :: "addr \<rightharpoonup> py_dict"
  next_dict :: addr

text \<open>What a function gives: a value or an exception; \<open>Inl\<close> of the outer sum is a crash.\<close>

type_synonym 'w py_result = "((py_error + py_value) \<times> 'w py_state) res"

definition py_raise :: "string \<Rightarrow> 'w py_state \<Rightarrow> 'w py_result" where
  "py_raise msg s = Inr (Inl (Value_Error msg), s)"

definition py_return :: "py_value \<Rightarrow> 'w py_state \<Rightarrow> 'w py_result" where
  "py_return v s = Inr (Inr v, s)"

section \<open>Loading\<close>

text \<open>
  The argument is \<open>None\<close> when \<open>PyArg_ParseTuple\<close> refuses it. The list is there from the first
  statement on, also when loading fails.
\<close>

definition init_items_bin :: "'w os \<Rightarrow> string option \<Rightarrow> 'w py_state \<Rightarrow> 'w py_result" where
  "init_items_bin os filename s =
     (if list_g s \<noteq> None then py_raise ''List of syscalls already initialized!'' s
      else (let s = s\<lparr>list_g := Some []\<rparr> in
        case filename of
          None \<Rightarrow> Inr (Inl Type_Error, s)
        | Some f \<Rightarrow>
            bindR (bin_get_items (sint (os_errno os)) (files_of (os_env os) (world (modules s)) f) []) (\<lambda>(rv, items).
            let s = s\<lparr>list_g := Some items\<rparr> in
            if rv \<noteq> 0 then py_raise ''Error loading list of syscalls.'' s else py_return Py_None s)))"

definition init_items_strace :: "'w os \<Rightarrow> string option \<Rightarrow> 'w py_state \<Rightarrow> 'w py_result" where
  "init_items_strace os filename s =
     (if list_g s \<noteq> None then py_raise ''List of syscalls already initialized!'' s
      else (let s = s\<lparr>list_g := Some []\<rparr> in
        case filename of
          None \<Rightarrow> Inr (Inl Type_Error, s)
        | Some f \<Rightarrow>
            bindR (strace_get_items (os_junk_pid os) False
              (case files_of (os_env os) (world (modules s)) f of None \<Rightarrow> Inl (os_errno os) | Some text \<Rightarrow> Inr text) [])
              (\<lambda>(rv, items, _).
            let s = s\<lparr>list_g := Some items\<rparr> in
            if rv \<noteq> 0 then py_raise ''Error loading list of syscalls.'' s else py_return Py_None s)))"

section \<open>Simulating\<close>

definition py_simulate :: "'w os \<Rightarrow> 'w py_state \<Rightarrow> 'w py_result" where
  "py_simulate os s =
     (case list_g s of
        None \<Rightarrow> py_raise ''List of syscalls not initialized!'' s
      | Some items \<Rightarrow>
          (let r = (modules s)\<lparr>sim := simulate_init ACT_SIMULATE (sim (modules s))\<rparr> in
           bindR (replicate_all (os_env os) items (or ACT_SIMULATE FIX_MISSING) None None r) (\<lambda>(rv, r).
           let s = s\<lparr>modules := r\<rparr> in
           if rv \<noteq> 0 then py_raise ''Error simulating of syscalls.'' s else py_return Py_None s)))"

section \<open>The transfers of every file\<close>

definition py_time :: "int32timeval \<Rightarrow> rat" where
  "py_time t = of_int (sint (tv_sec t)) + of_int (sint (tv_usec t)) / 1000000"

text \<open>One round of \<open>make_pylist_from_list\<close>, and its loop.\<close>

definition make_tuple :: "rw_op \<Rightarrow> py_tuple" where
  "make_tuple r =
     (of_int (sint (rw_offset r)) / 1024, of_nat (unat (rw_size r)) / 1024, py_time (rw_start r),
      of_int (sint (rw_dur r)) / 1000)"

fun make_pylist_from_list :: "rw_op list \<Rightarrow> py_tuple list" where
  "make_pylist_from_list [] = []"
| "make_pylist_from_list (r # rs) = make_tuple r # make_pylist_from_list rs"

definition make_keyval_from_item :: "sim_item \<Rightarrow> py_dict \<Rightarrow> py_dict" where
  "make_keyval_from_item it d = d(si_name it \<mapsto> (py_time (si_time_open it), make_pylist_from_list (si_list it)))"

definition new_dict :: "sim_item hash_table \<Rightarrow> 'w py_state \<Rightarrow> addr \<times> 'w py_state" where
  "new_dict ht s =
     (let a = next_dict s in
      (a, s\<lparr>dicts := (dicts s)(a \<mapsto> hash_table_apply make_keyval_from_item ht Map.empty), next_dict := Suc a\<rparr>))"

definition get_reads :: "'w py_state \<Rightarrow> 'w py_result" where
  "get_reads s =
     (case simulate_get_map_read (sim (modules s)) of
        None \<Rightarrow> py_raise ''Error getting simulation data, did you forget to call simulate?'' s
      | Some ht \<Rightarrow>
          (case read_dict_g s of
             Some d \<Rightarrow> py_return (Py_Dict d) s
           | None \<Rightarrow> (let (d, s) = new_dict ht s in py_return (Py_Dict d) (s\<lparr>read_dict_g := Some d\<rparr>))))"

definition get_writes :: "'w py_state \<Rightarrow> 'w py_result" where
  "get_writes s =
     (case simulate_get_map_write (sim (modules s)) of
        None \<Rightarrow> py_raise ''Error getting simulation data, did you forget to call simulate?'' s
      | Some ht \<Rightarrow>
          (case write_dict_g s of
             Some d \<Rightarrow> py_return (Py_Dict d) s
           | None \<Rightarrow> (let (d, s) = new_dict ht s in py_return (Py_Dict d) (s\<lparr>write_dict_g := Some d\<rparr>))))"

section \<open>The end\<close>

text \<open>\<open>remove_items\<close> dereferences the list.\<close>

definition free_items :: "'w py_state \<Rightarrow> 'w py_result" where
  "free_items s =
     bindR (of_opt Null_Deref (list_g s)) (\<lambda>items.
     let (rv, rest) = remove_items items in
     if rv \<noteq> 0 then py_raise ''Error removing list of syscalls.'' (s\<lparr>list_g := Some rest\<rparr>)
     else py_return Py_None (s\<lparr>list_g := None\<rparr>))"

text \<open>\<open>PyDict_Clear\<close> empties the object, which the caller of \<open>get_reads\<close> may still have; it dereferences its argument.\<close>

definition py_dict_clear :: "addr option \<Rightarrow> 'w py_state \<Rightarrow> 'w py_state res" where
  "py_dict_clear d s = bindR (of_opt Null_Deref d) (\<lambda>a. Inr (s\<lparr>dicts := (dicts s)(a \<mapsto> Map.empty)\<rparr>))"

definition py_finish :: "'w py_state \<Rightarrow> 'w py_result" where
  "py_finish s =
     (let s = s\<lparr>modules := (modules s)\<lparr>sim := simulate_finish (sim (modules s))\<rparr>\<rparr> in
      bindR (py_dict_clear (read_dict_g s) s) (\<lambda>s.
      bindR (py_dict_clear (write_dict_g s) s) (\<lambda>s.
      py_return Py_None (s\<lparr>read_dict_g := None, write_dict_g := None\<rparr>))))"

section \<open>Sequences of calls\<close>

datatype py_call =
    Init_items_bin "string option"
  | Init_items_strace "string option"
  | Simulate
  | Get_reads
  | Get_writes
  | Free_items
  | Finish

fun run_py :: "'w os \<Rightarrow> py_call \<Rightarrow> 'w py_state \<Rightarrow> 'w py_result" where
  "run_py os (Init_items_bin f) = init_items_bin os f"
| "run_py os (Init_items_strace f) = init_items_strace os f"
| "run_py os Simulate = py_simulate os"
| "run_py os Get_reads = get_reads"
| "run_py os Get_writes = get_writes"
| "run_py os Free_items = free_items"
| "run_py os Finish = py_finish"

fun py_calls :: "'w os \<Rightarrow> py_call list \<Rightarrow> 'w py_state \<Rightarrow> ((py_error + py_value) list \<times> 'w py_state) res" where
  "py_calls os [] s = Inr ([], s)"
| "py_calls os (c # cs) s =
     bindR (run_py os c s) (\<lambda>(v, s). bindR (py_calls os cs s) (\<lambda>(vs, s). Inr (v # vs, s)))"

section \<open>What the dictionaries hold\<close>

lemma make_pylist_map: "make_pylist_from_list rs = map make_tuple rs"
  by (induction rs) simp_all

lemma fold_dict:
  "fold make_keyval_from_item its d n =
    (case filter (\<lambda>it. si_name it = n) its of [] \<Rightarrow> d n
     | xs \<Rightarrow> Some (py_time (si_time_open (last xs)), make_pylist_from_list (si_list (last xs))))"
  by (induction its arbitrary: d) (auto simp: make_keyval_from_item_def split: list.splits)

lemma dict_of_table:
  assumes "simt.table_inv ht" "simt.placed ht" "simt.table_distinct ht"
  shows "hash_table_apply make_keyval_from_item ht Map.empty n =
    map_option (\<lambda>it. (py_time (si_time_open it), make_pylist_from_list (si_list it))) (simt.table_map ht n)"
proof -
  have "take (entries ht) (entry ht) = entry ht" using assms(1) by (simp add: simt.table_inv_def)
  then show ?thesis
    using simt.placed_filter [OF assms, of n]
    by (simp add: hash_table_apply_def apply_slots_fold fold_dict ht_items_def split: option.split)
qed

text \<open>What the profiler is to see of the notes of a simulation.\<close>

definition profile :: "sim_note list \<Rightarrow> py_dict" where
  "profile ns n = map_option (\<lambda>(t, rs). (py_time t, map make_tuple rs)) (notes_for ns n)"

lemma dict_of_notes:
  assumes "has_notes ht ns" "length n < MAX_STRING"
  shows "hash_table_apply make_keyval_from_item ht Map.empty n = profile ns n"
proof -
  have t: "simt.table_inv ht" "simt.placed ht" "simt.table_distinct ht"
    "map_option (\<lambda>it. (si_time_open it, si_list it)) (simt.table_map ht n) = notes_for ns n"
    using assms by (simp_all add: has_notes_def)
  have "profile ns n = map_option (\<lambda>(t, rs). (py_time t, map make_tuple rs)) (map_option (\<lambda>it. (si_time_open it, si_list it)) (simt.table_map ht n))"
    unfolding t(4) by (simp add: profile_def)
  then show ?thesis unfolding dict_of_table [OF t(1-3)] by (simp add: make_pylist_map option.map_comp o_def)
qed

text \<open>What \<open>get_reads\<close> and \<open>get_writes\<close> give after a simulation.\<close>

lemma got_profiles:
  assumes "read_dict_g s = None" "write_dict_g s = None" "noting (sim (modules s)) rs ws"
  shows "\<exists>a b s'. py_calls os [Get_reads, Get_writes, Get_reads] s = Inr ([Inr (Py_Dict a), Inr (Py_Dict b), Inr (Py_Dict a)], s') \<and>
    a \<noteq> b \<and> (\<exists>d_r d_w. dicts s' a = Some d_r \<and> dicts s' b = Some d_w \<and>
    (\<forall>n. length n < MAX_STRING \<longrightarrow> d_r n = profile rs n \<and> d_w n = profile ws n))"
proof -
  obtain hr hw where h: "sim_map_read (sim (modules s)) = Some hr" "has_notes hr rs"
    "sim_map_write (sim (modules s)) = Some hw" "has_notes hw ws"
    using assms(3) by (auto simp: noting_def)
  show ?thesis
    using assms(1,2) h(1,3) dict_of_notes [OF h(2)] dict_of_notes [OF h(4)]
    by (simp add: get_reads_def get_writes_def simulate_get_map_read_def simulate_get_map_write_def new_dict_def py_return_def Let_def)
qed

text \<open>
  The profiler sees the transfers that were simulated. After any sequence of simulated reads and
  writes (with and without an offset) on files with absolute names without dots, \<open>get_reads\<close> and \<open>get_writes\<close>
  return two different dictionaries; each has an entry for exactly the names with transfers of its
  kind: the time of the first one's opening and, in the order of the trace, its offsets and sizes in
  KiB, its times in seconds and its durations in milliseconds.
\<close>

theorem profile_of_transfers:
  assumes "\<forall>t\<in>set ts. plain_name (fm_name (transfer_map t))"
  shows "\<exists>x. run_transfers dk ts (simulate_init ACT_SIMULATE sim_start) = Inr x \<and>
    (\<forall>s. sim (modules s) = x \<longrightarrow> read_dict_g s = None \<longrightarrow> write_dict_g s = None \<longrightarrow>
      (\<exists>r w s'. py_calls os [Get_reads, Get_writes, Get_reads] s = Inr ([Inr (Py_Dict r), Inr (Py_Dict w), Inr (Py_Dict r)], s') \<and>
         r \<noteq> w \<and> (\<exists>d_r d_w. dicts s' r = Some d_r \<and> dicts s' w = Some d_w \<and>
           (\<forall>n. length n < MAX_STRING \<longrightarrow> d_r n = profile (concat (map reads_noted ts)) n \<and>
             d_w n = profile (concat (map writes_noted ts)) n))))"
proof -
  obtain x where x: "run_transfers dk ts (simulate_init ACT_SIMULATE sim_start) = Inr x"
    "noting x (concat (map reads_noted ts)) (concat (map writes_noted ts))"
    using run_transfers_notes [OF noting_init assms, of dk] by auto
  then show ?thesis by (intro exI [of _ x] conjI allI impI) (simp_all only: got_profiles)
qed

section \<open>Sessions\<close>

text \<open>Nothing is loaded, simulated or returned.\<close>

definition py_fresh :: "'w py_state \<Rightarrow> bool" where
  "py_fresh s \<longleftrightarrow> list_g s = None \<and> read_dict_g s = None \<and> write_dict_g s = None \<and>
     sim_map_read (sim (modules s)) = None \<and> sim_map_write (sim (modules s)) = None"

lemma saveable_removable: "\<forall>it\<in>set items. saveable it \<Longrightarrow> remove_items items = (0, [])"
proof (induction items)
  case (Cons it items)
  then have "item_ok it" by (simp add: saveable_def)
  then have "removable (type it)" by (cases "body it") (auto simp: item_ok_def removable_def)
  with Cons show ?case by simp
qed simp


section \<open>A trace and its profile\<close>

lemma noting_start:
  assumes "sim_map_read x = None" "sim_map_write x = None"
  shows "noting (simulate_init ACT_SIMULATE x) [] []" "open_fd_counter (simulate_init ACT_SIMULATE x) = open_fd_counter x"
  using assms has_notes_init by (simp_all add: noting_def simulate_init_def)

lemma py_mode: "simulates (or ACT_SIMULATE FIX_MISSING)" "\<not> replicates (or ACT_SIMULATE FIX_MISSING)"
  by (simp_all add: simulates_def replicates_def has_flag_def mask_defs)

text \<open>
  A loaded list of the calls of one process, with a system in which the devices can be opened and
  numbers for the simulated descriptors that do not overflow.
\<close>

definition traceable :: "'w os \<Rightarrow> op_item list \<Rightarrow> 'w py_state \<Rightarrow> bool" where
  "traceable os items s \<longleftrightarrow> py_fresh s \<and> heap_ok 1 (store (modules s)) \<and> items \<noteq> [] \<and>
     (ucast (fst (sys (os_env os) (Sys_open ''/dev/null'' O_WRONLY None) (world (modules s)))) :: i32) \<noteq> -1 \<and>
     0 \<le> sint (open_fd_counter (sim (modules s))) \<and> length items \<le> 2 ^ 31 - 3 \<and>
     sint (open_fd_counter (sim (modules s))) + int (length items) < 2 ^ 31"

lemma loaded_profile:
  assumes "traceable os items s" "nonneg p" "trace_files p items Map.empty = Some (D, rs, ws)"
    and load: "run_py os c s = py_return Py_None (s\<lparr>list_g := Some items\<rparr>)"
  shows "\<exists>a b s' d_r d_w. py_calls os [c, Simulate, Get_reads, Get_writes, Get_reads] s =
      Inr ([Inr Py_None, Inr Py_None, Inr (Py_Dict a), Inr (Py_Dict b), Inr (Py_Dict a)], s') \<and>
    a \<noteq> b \<and> dicts s' a = Some d_r \<and> dicts s' b = Some d_w \<and>
    (\<forall>n. length n < MAX_STRING \<longrightarrow> d_r n = profile rs n \<and> d_w n = profile ws n)"
proof -
  let ?r = "(modules s)\<lparr>sim := simulate_init ACT_SIMULATE (sim (modules s))\<rparr>"
  have s: "py_fresh s" "heap_ok 1 (store ?r)" "items \<noteq> []" "0 \<le> sint (open_fd_counter (sim (modules s)))" "length items \<le> 2 ^ 31 - 3"
    "sint (open_fd_counter (sim (modules s))) + int (length items) < 2 ^ 31"
    using assms(1) by (simp_all add: traceable_def)
  obtain fd w where dev: "sys (os_env os) (Sys_open ''/dev/null'' O_WRONLY None) (world ?r) = (fd, w)" "(ucast fd :: i32) \<noteq> -1"
    using assms(1) by (cases "sys (os_env os) (Sys_open ''/dev/null'' O_WRONLY None) (world (modules s))") (simp add: traceable_def)
  have "sim_map_read (sim (modules s)) = None" "sim_map_write (sim (modules s)) = None" using s(1) by (simp_all add: py_fresh_def)
  note init = noting_start [OF this]
  obtain r where r: "replicate_all (os_env os) items (or ACT_SIMULATE FIX_MISSING) None None ?r = Inr (0, r)" "noting (sim r) rs ws"
    using trace_simulated [OF s(3) assms(2,3) s(2) _ _ _ s(5) dev py_mode] s(4,6) init by auto
  let ?s2 = "s\<lparr>list_g := Some items, modules := r\<rparr>"
  have run: "run_py os Simulate (s\<lparr>list_g := Some items\<rparr>) = py_return Py_None ?s2"
    using r(1) by (simp add: py_simulate_def Let_def)
  have "read_dict_g ?s2 = None" "write_dict_g ?s2 = None" "noting (sim (modules ?s2)) rs ws" using s(1) r(2) by (simp_all add: py_fresh_def)
  from got_profiles [OF this, of os] run load show ?thesis by (auto simp: py_return_def)
qed



section \<open>Calls out of order\<close>

text \<open>
  C40: Calls out of order. Loading twice, simulating without a list and getting transfers that
  were not simulated raise \<open>ValueError\<close> and change nothing. But an argument that is refused leaves an
  empty list, after which every load is refused, and the program crashes when a list that is not there
  is freed, and when a session is finished of which the reads or the writes were not got.
\<close>

theorem py_out_of_order:
  "run_py os (Init_items_bin f) (s\<lparr>list_g := Some l\<rparr>) =
     py_raise ''List of syscalls already initialized!'' (s\<lparr>list_g := Some l\<rparr>) \<and>
   run_py os (Init_items_strace f) (s\<lparr>list_g := Some l\<rparr>) =
     py_raise ''List of syscalls already initialized!'' (s\<lparr>list_g := Some l\<rparr>) \<and>
   run_py os Simulate (s\<lparr>list_g := None\<rparr>) = py_raise ''List of syscalls not initialized!'' (s\<lparr>list_g := None\<rparr>) \<and>
   run_py os Get_reads (s\<lparr>modules := m\<lparr>sim := sim_start\<rparr>\<rparr>) =
     py_raise ''Error getting simulation data, did you forget to call simulate?'' (s\<lparr>modules := m\<lparr>sim := sim_start\<rparr>\<rparr>) \<and>
   run_py os Get_writes (s\<lparr>modules := m\<lparr>sim := sim_start\<rparr>\<rparr>) =
     py_raise ''Error getting simulation data, did you forget to call simulate?'' (s\<lparr>modules := m\<lparr>sim := sim_start\<rparr>\<rparr>) \<and>
   py_calls os [Init_items_bin None, Init_items_strace f] (s\<lparr>list_g := None\<rparr>) =
     Inr ([Inl Type_Error, Inl (Value_Error ''List of syscalls already initialized!'')], s\<lparr>list_g := Some []\<rparr>) \<and>
   run_py os Free_items (s\<lparr>list_g := None\<rparr>) = Inl Null_Deref \<and>
   run_py os Finish (s\<lparr>read_dict_g := None\<rparr>) = Inl Null_Deref \<and>
   run_py os Finish (s\<lparr>write_dict_g := None\<rparr>) = Inl Null_Deref"
proof -
  have "run_py os Finish (s\<lparr>write_dict_g := None\<rparr>) = Inl Null_Deref"
    by (cases "read_dict_g s") (simp_all add: py_finish_def py_dict_clear_def of_opt_def Let_def)
  then show ?thesis
    by (simp add: init_items_bin_def init_items_strace_def py_simulate_def get_reads_def get_writes_def simulate_get_map_read_def simulate_get_map_write_def free_items_def
        py_finish_def py_dict_clear_def py_raise_def of_opt_def sim_start_def Let_def)
qed

section \<open>Witnesses\<close>

text \<open>Two reads of one file and a write of another.\<close>

definition sample_transfers :: "sim_transfer list" where
  "sample_transfers =
     (let m = sample_map\<lparr>fm_name := ''/a''\<rparr>; inf = at_pid 100 in
      [T_read m \<lparr>read_fd = 3, read_size = 4096, read_retval = 2048, read_info = inf\<rparr>,
       T_write (sample_map\<lparr>fm_name := ''/b''\<rparr>) \<lparr>write_fd = 4, write_size = 1024, write_retval = 1024, write_info = inf\<rparr>,
       T_pread m \<lparr>pread_fd = 3, pread_size = 1024, pread_offset = 512, pread_retval = 512, pread_info = inf\<rparr>])"

definition sample_start_state :: "sim_state \<Rightarrow> syscall list py_state" where
  "sample_start_state x =
     \<lparr>list_g = None, read_dict_g = None, write_dict_g = None, modules = sample_rep\<lparr>sim := x\<rparr>, dicts = Map.empty, next_dict = 0\<rparr>"

text \<open>Every file that is opened has the contents \<open>f\<close>.\<close>

definition sample_session_os :: "string \<Rightarrow> syscall list os" where
  "sample_session_os f =
     \<lparr>os_env = sample_env\<lparr>files_of := \<lambda>_ _. Some f\<rparr>, os_errno = 2, os_room = (\<lambda>_. None), os_atof_zero = (\<lambda>_. False),
      os_cpu = 0, os_junk_pid = 0, os_junk_map = sample_map\<rparr>"

lemma plain_name_path: "plain cs \<Longrightarrow> cs \<noteq> [] \<Longrightarrow> length (path cs) < MAX_LINE \<Longrightarrow> plain_name (path cs)"
  by (auto simp: plain_name_def)

lemma sample_transfers_plain: "\<forall>t\<in>set sample_transfers. plain_name (fm_name (transfer_map t))"
  using plain_name_path [of "[''a'']"] plain_name_path [of "[''b'']"]
  by (simp add: sample_transfers_def plain_def c_string_def MAX_LINE_def NUL_def Let_def)

lemma sample_profile:
  "profile (concat (map reads_noted sample_transfers)) ''/a'' = Some (0, [(10 / 1024, 2, 0, 0), (1 / 2, 1 / 2, 0, 0)])"
  by (simp add: profile_def notes_for_def sample_transfers_def note_of_def make_tuple_def py_time_def sample_map_def at_pid_def Let_def)

theorem profile_of_transfers_witness:
  "\<exists>x a b s' d. run_transfers sample_disk sample_transfers (simulate_init ACT_SIMULATE sim_start) = Inr x \<and>
     py_calls (sample_session_os []) [Get_reads, Get_writes, Get_reads] (sample_start_state x) =
       Inr ([Inr (Py_Dict a), Inr (Py_Dict b), Inr (Py_Dict a)], s') \<and> dicts s' a = Some d \<and>
     d ''/a'' = Some (0, [(10 / 1024, 2, 0, 0), (1 / 2, 1 / 2, 0, 0)])"
proof -
  obtain x where x: "run_transfers sample_disk sample_transfers (simulate_init ACT_SIMULATE sim_start) = Inr x"
    "\<forall>s. sim (modules s) = x \<longrightarrow> read_dict_g s = None \<longrightarrow> write_dict_g s = None \<longrightarrow>
      (\<exists>r w s'. py_calls (sample_session_os []) [Get_reads, Get_writes, Get_reads] s = Inr ([Inr (Py_Dict r), Inr (Py_Dict w), Inr (Py_Dict r)], s') \<and>
         r \<noteq> w \<and> (\<exists>d_r d_w. dicts s' r = Some d_r \<and> dicts s' w = Some d_w \<and>
           (\<forall>n. length n < MAX_STRING \<longrightarrow> d_r n = profile (concat (map reads_noted sample_transfers)) n \<and>
             d_w n = profile (concat (map writes_noted sample_transfers)) n)))"
    using profile_of_transfers [OF sample_transfers_plain, of sample_disk "sample_session_os []"] by blast
  have "sim (modules (sample_start_state x)) = x" "read_dict_g (sample_start_state x) = None" "write_dict_g (sample_start_state x) = None"
    by (simp_all add: sample_start_state_def)
  with x(2) [rule_format, of "sample_start_state x"] sample_profile show ?thesis using x(1)
    by (fastforce simp: MAX_STRING_def)
qed

lemma sample_unlink_saveable: "\<forall>it\<in>set [sample_unlink_item]. saveable it"
  by (simp add: saveable_def sample_unlink_item_def sample_unlink_def item_ok_def at_pid_def c_string_def name_string_def is_rmdir_def MAX_STRING_def)


text \<open>Two reads of a file, and a write after a seek.\<close>

definition sample_trace :: "op_item list" where
  "sample_trace =
     (let i = at_pid 100 in
      [\<lparr>type = OP_OPEN, body = S_open \<lparr>open_name = ''/a'', open_flags = 2, open_mode = 0, open_retval = 3, open_info = i\<rparr>\<rparr>,
       \<lparr>type = OP_READ, body = S_read \<lparr>read_fd = 3, read_size = 4096, read_retval = 2048, read_info = i\<rparr>\<rparr>,
       \<lparr>type = OP_READ, body = S_read \<lparr>read_fd = 3, read_size = 4096, read_retval = 1024, read_info = i\<rparr>\<rparr>,
       \<lparr>type = OP_LSEEK, body = S_lseek \<lparr>lseek_fd = 3, lseek_flag = 0, lseek_offset = 512, lseek_retval = 512, lseek_info = i\<rparr>\<rparr>,
       \<lparr>type = OP_WRITE, body = S_write \<lparr>write_fd = 3, write_size = 1024, write_retval = 1024, write_info = i\<rparr>\<rparr>,
       \<lparr>type = OP_CLOSE, body = S_close \<lparr>close_fd = 3, close_retval = 0, close_info = i\<rparr>\<rparr>])"

lemma sample_trace_saveable: "\<forall>it\<in>set sample_trace. saveable it"
  by (simp add: sample_trace_def saveable_def item_ok_def at_pid_def is_rmdir_def Let_def name_string_def MAX_STRING_def)

lemma sample_trace_files:
  "\<exists>D rs ws. trace_files 100 sample_trace Map.empty = Some (D, rs, ws) \<and>
    profile rs ''/a'' = Some (0, [(0, 2, 0, 0), (2, 1, 0, 0)]) \<and> profile ws ''/a'' = Some (0, [(1 / 2, 1, 0, 0)])"
proof -
  have "plain_name ''/a''"
    using plain_name_path [of "[''a'']"] by (simp add: plain_def c_string_def MAX_LINE_def NUL_def)
  then show ?thesis
    by (simp add: sample_trace_def item_ok_def at_pid_def opens_file_def on_file_def noted_at_def has_flag_def O_IGNORE_def O_DIRECTORY_def profile_def notes_for_def
        make_tuple_def py_time_def Let_def)
qed

lemma sample_traceable:
  assumes "items \<noteq> []" "length items \<le> 100"
  shows "traceable (sample_session_os f) items (sample_start_state sim_start)"
  using sample_start(1,3) assms by (simp add: traceable_def py_fresh_def sample_start_state_def sample_session_os_def sim_start_def)

lemma sample_session_file: "files_of (os_env (sample_session_os f)) w n = Some f"
  by (simp add: sample_session_os_def)


text \<open>The lines of a file that is opened, read twice and closed.\<close>

definition sample_frame :: frame where
  "sample_frame = \<lparr>fr_pid = 7, fr_start = ''5.25'', fr_gap = 0, fr_note = [], fr_dur = ''0.000003''\<rparr>"

definition sample_traced :: "(frame \<times> traced) list" where
  "sample_traced = [(sample_frame, Open ''/a'' ''O_RDONLY'' 3), (sample_frame, Read 3 [] True 4096 2048),
     (sample_frame, Read 3 [] True 4096 1024), (sample_frame, Close 3 0)]"

definition sample_traced_text :: string where
  "sample_traced_text =
     ''7 5.25 open(\"/a\", O_RDONLY) = 3 <0.000003>'' @ [NEWLINE] @ ''7 5.25 read(3, \"\"..., 4096) = 2048 <0.000003>'' @ [NEWLINE] @
     ''7 5.25 read(3, \"\"..., 4096) = 1024 <0.000003>'' @ [NEWLINE] @ ''7 5.25 close(3) = 0 <0.000003>'' @ [NEWLINE]"

lemma sample_frame_lines:
  "strace_line sample_frame (Open ''/a'' ''O_RDONLY'' 3) = ''7 5.25 open(\"/a\", O_RDONLY) = 3 <0.000003>'' @ [NEWLINE]"
  "strace_line sample_frame (Read 3 [] True 4096 2048) = ''7 5.25 read(3, \"\"..., 4096) = 2048 <0.000003>'' @ [NEWLINE]"
  "strace_line sample_frame (Read 3 [] True 4096 1024) = ''7 5.25 read(3, \"\"..., 4096) = 1024 <0.000003>'' @ [NEWLINE]"
  "strace_line sample_frame (Close 3 0) = ''7 5.25 close(3) = 0 <0.000003>'' @ [NEWLINE]"
  by (simp_all add: sample_frame_def print_defs)

lemma sample_traced_lines: "concat (map (\<lambda>(fr, c). strace_line fr c) sample_traced) = sample_traced_text"
  by (simp add: sample_traced_def sample_traced_text_def sample_frame_lines)

lemma sample_frame_ok: "frame_ok sample_frame"
  by (simp add: sample_frame_def frame_ok_def NEWLINE_def NUL_def is_digit_def MAX_TIME_STRING_def)

lemma sample_calls_ok:
  "call_line_ok sample_frame (Open ''/a'' ''O_RDONLY'' 3)" "call_line_ok sample_frame (Read 3 [] True 4096 2048)"
  "call_line_ok sample_frame (Read 3 [] True 4096 1024)" "call_line_ok sample_frame (Close 3 0)"
  by (simp_all add: call_line_ok_def sample_frame_ok sample_frame_lines whole_line_def plain_line_def NEWLINE_def NUL_def MAX_LINE_def
      file_name_def field_def region_def is_space_def MAX_STRING_def QUOTE_def)

lemma sample_traced_ok: "\<forall>(fr, c)\<in>set sample_traced. call_line_ok fr c"
  by (simp add: sample_traced_def sample_calls_ok)

lemma sample_traced_files:
  "\<exists>D rs ws. trace_files 7 (map (\<lambda>(fr, c). call_item (frame_info fr) c) sample_traced) Map.empty = Some (D, rs, ws) \<and>
    profile rs ''/a'' = Some (5 + 25 / 1000000, [(0, 2, 5 + 25 / 1000000, 3 / 1000), (2, 1, 5 + 25 / 1000000, 3 / 1000)])"
proof -
  have info: "frame_info sample_frame = \<lparr>pid = 7, dur = 3, start = \<lparr>tv_sec = 5, tv_usec = 25\<rparr>\<rparr>"
    by (simp add: sample_frame_def frame_info_def time_defs)
  have flags: "read_open_flags ''O_RDONLY'' = 0" by code_simp
  have "plain_name ''/a''"
    using plain_name_path [of "[''a'']"] by (simp add: plain_def c_string_def MAX_LINE_def NUL_def)
  then show ?thesis
    by (simp add: sample_traced_def info flags item_ok_def opens_file_def on_file_def noted_at_def has_flag_def profile_def notes_for_def
        make_tuple_def py_time_def Let_def)
qed


end
