(* ===== verification/Spec2Isabelle.thy ===== *)
theory Spec2Isabelle
  imports Name_Files List_Calls Replay_Machine Timing Ioreplay Python_Module
begin

text \<open>
  IOapps: the trace replayer \<open>ioreplay\<close> and the module of the profiler \<open>ioprofiler\<close>.

  \<^bold>\<open>The program.\<close> \<open>ioreplay\<close> reads the input/output calls of other programs from the output of \<open>strace\<close>
  (\<open>in_strace.c\<close>) or from its own binary format (\<open>in_binary.c\<close>) into a list of items (\<open>in_common.c\<close>,
  \<open>adt/list.c\<close>), and then converts, prints (\<open>print.c\<close>), counts (\<open>stats.c\<close>), simulates or replays them
  (\<open>replicate.c\<close>). A replay keeps the descriptors of all traced processes (\<open>fdmap.c\<close>, over
  \<open>adt/hash_table.c\<close>), renames files (\<open>namemap.c\<close>) and waits between calls; a simulation keeps the files
  in a trie instead (\<open>simfs.c\<close>, over \<open>adt/fs_trie.c\<close>) and notes what was read and written (\<open>simulate.c\<close>).
  The profiler loads and simulates a trace through \<open>ioprofiler/ioappsmodule.c\<close> and gets those notes.

  \<^bold>\<open>Theories and sources.\<close>
  \<^item> \<open>Base_Prelude\<close>: machine integers, the results \<open>'a res\<close> whose left values are the ways a C program stops
    (a failed assertion, a null pointer, freed memory, an overflowed buffer), shared lemmas.
    \<open>C_Strings\<close>, \<open>C_Scanf\<close>: the parts of the C library that the program calls.
  \<^item> \<open>Op_Types\<close>: \<open>common.h\<close> and \<open>in_common.h\<close>, one record per recorded call, \<open>op_item\<close> for an item of a
    trace (its type and the structure it was built as). \<open>In_Common\<close>: \<open>in_common.c\<close>.
  \<^item> \<open>Adt_List\<close>, \<open>List_Calls\<close>: \<open>adt/list.c\<close> with its pointers on an explicit heap. \<open>Adt_Hash_Table\<close>:
    \<open>adt/hash_table.c\<close>, whose chains are taken as the sequences that the former theories justify; the
    locale \<open>table_ops\<close> is the contract of a table and has an interpretation for each of the seven
    tables of the program. \<open>Fs_Trie\<close>: \<open>adt/fs_trie.c\<close>, a tree of nodes and its search buffer.
  \<^item> \<open>In_Binary\<close>: \<open>in_binary.c\<close>, files as lists of bytes, the locale \<open>field_codec\<close> for a field.
  \<^item> \<open>In_Strace\<close> (one parser per call), \<open>Strace_Lines\<close> (the call of a line, interrupted calls, the loop):
    \<open>in_strace.c\<close>. \<open>Strace_Print\<close> is the specification of the lines that \<open>strace\<close> prints, \<open>Strace_Files\<close>
    relates whole files, \<open>Strace_Inv\<close> holds what is true of any file.
  \<^item> \<open>Namemap\<close>, \<open>Name_Files\<close>: \<open>namemap.c\<close>. \<open>Stats\<close>: \<open>stats.c\<close>. \<open>Print\<close>: \<open>print.c\<close>.
  \<^item> \<open>Sim_Fs\<close>: \<open>simfs.c\<close>; \<open>Sim_Files\<close> and \<open>Sim_Calls\<close> its abstraction to a partial map of paths.
    \<open>Simulate\<close>: \<open>simulate.c\<close>; \<open>Sim_Notes\<close> what it notes of transfers, \<open>Sim_Trace\<close> what a simulated replay
    notes of a whole trace, by a specification (\<open>trace_files\<close>) that follows the open files and their positions.
  \<^item> \<open>Fd_Map\<close>: \<open>fdmap.c\<close>. Items of a table point to maps that are shared and freed, so \<open>fd_store\<close> has both
    as allocated or freed addresses, and a use of a freed one is \<open>Dangling\<close>. \<open>Fd_Heap\<close>: its invariant.
  \<^item> \<open>Replicate\<close>: \<open>replicate.c\<close>, one function per handler with all its modes, the initialization and the
    loop over the items, on the record \<open>rep\<close> of all global variables and the world of the system.
    \<open>Timing\<close>: its delays. \<open>Replicate_Frame\<close>: what handlers leave alone, with the locale \<open>handler_frame\<close>;
    \<open>Replicate_Heap\<close>, \<open>Replicate_Init\<close>, \<open>Replay_Safety\<close>: the memory; \<open>Replay_Ops\<close>: the handlers one by one;
    \<open>Desc_Machine\<close>, \<open>Replay_Machine\<close>: the abstract machine of descriptors and the simulation.
  \<^item> \<open>Ioreplay\<close>: \<open>ioreplay.c\<close>, options, loading and the choice of the action. \<open>Python_Module\<close>:
    \<open>ioappsmodule.c\<close>.

  \<^bold>\<open>What is shown.\<close>
  \<^item> Replay: no trace makes it use freed memory, but for a duplication of a descriptor onto itself and
    more than \<open>MAX_PARENT_IDS\<close> duplications; every replay is a run of the abstract descriptor machine,
    item by item; tables of two processes have no open file in common; the effect of opening, closing,
    duplicating, reading and forking on the view \<open>descriptor\<close>; the waiting ends.
  \<^item> Traces: saving and loading are inverse, also for truncated files; files of calls as \<open>strace\<close> prints
    them are read as these calls, also when calls interrupt each other; any file at all is read to
    its end or stops at a full buffer or a failed assertion, keeps an invariant, and what was read
    survives the binary format; printing after a conversion gives the same text.
  \<^item> Structures: lists on the heap do what sequences do, tables what finite maps do, the trie what a set
    of paths does, parents of a map what a set does, files of names what their lines say.
  \<^item> Simulation: it makes no calls; the simulated file system does what a partial map of files does, over
    the disk; the dictionaries of the profiler hold exactly the transfers that were simulated, in
    order, and from the file of a trace, binary or of \<open>strace\<close>, to these dictionaries exactly the transfers of the trace, at their
    positions; sessions of the profiler, and its calls out of order.
  \<^item> Errors: where the code fails, a theorem says for which input (\<open>rmdir\<close> in binary traces, names that
    are too long or hold a mark, quotes that are not closed, octal modes, timing without a replay).

  \<^bold>\<open>Parameters.\<close> Code that is not in the repository is an argument of the definitions that use it: the
  system calls (\<open>sys\<close> of the record \<open>env\<close>, any function on any type of worlds), \<open>sendfile\<close>, the files that
  are opened for reading, the disk that the simulation looks at, \<open>fnmatch\<close>, the counter of the
  processor and its rate, \<open>atof\<close>, the room on the disk, and every value that the code reads before it
  is set (the fields named \<open>junk\<close>). No theorem assumes more of them than its statement says.

  \<^bold>\<open>Loops and bounds.\<close> Loops over lists, strings and bytes are structural. The joining of interrupted calls
  (\<open>strace_run\<close>) has as fuel one more than the number of unfinished calls: every round takes one out of the
  table, so it is enough, as \<open>strace_reading_ends\<close> shows for every file; loops over a path have the length of the
  name, which every round shortens. The busy loop before a call need not end; it is a
  \<open>partial_function\<close>, and \<open>wait_before_ends\<close> says when it does. Integers have the widths of the code and wrap
  around as they do there, times and descriptors included.

  \<^bold>\<open>Not modelled.\<close>
  \<^item> \<open>count.c\<close>: an older tool that the Makefile does not build. It would not compile (\<open>str_item_t\<close> is declared
    nowhere), and the value of its \<open>get_operation_code\<close> is undefined, so that there is no behaviour to state.
  \<^item> The constructors \<open>new_*_item\<close> of \<open>in_common.c\<close>, which only allocate, and the callbacks and
    \<open>trie_destroy\<close>, which only free: items and nodes are values, except in \<open>Adt_List\<close> and \<open>Fd_Map\<close>.
  \<^item> The dump functions, the texts of help and version, messages for the user, and
    \<open>simulate_check_file_read\<close>, which nothing calls and which only prints messages.
  \<^item> The binding to a processor (\<open>sched_setaffinity\<close>); in \<open>ioappsmodule.c\<close> the reference counts, failed
    allocations of the interpreter and the rounding of doubles; \<open>ioprofiler\<close> itself is written in Python.
\<close>

end
